(* ===== verification/CromwellBase.thy ===== *)
theory CromwellBase
  imports Main "HOL-Library.Word"
begin

text \<open>
  Prelude of the development: the machine integers of the 32-bit target, the flat
  physical memory the BIOS runs in, little-endian field access, and the lemma collections
  the component theories share.

  Cromwell runs on a Pentium III in flat 32-bit protected mode with paging off. An
  \<open>unsigned int\<close>, an \<open>unsigned long\<close> and a pointer are 32 bits wide, an
  \<open>unsigned short\<close> 16 and a \<open>char\<close> 8; every address can be read and written.
\<close>

unbundle bit_operations_syntax

type_synonym u8 = "8 word"
type_synonym u16 = "16 word"
type_synonym u32 = "32 word"
type_synonym u64 = "64 word"

text \<open>The flat memory: one byte per 32-bit address; pointer arithmetic wraps.\<close>

type_synonym mem = "u32 \<Rightarrow> u8"

named_theorems mem_simps "reading back what was written to memory"
named_theorems list_upd_simps "indexed updates of arrays held as lists"

subsection \<open>Lists used as arrays\<close>

lemma take_list_update_self [list_upd_simps]:
  "i < length xs \<Longrightarrow> take (Suc i) (xs[i := b]) = take i xs @ [b]"
  by (simp add: take_Suc_conv_app_nth)

lemma take_update_above [list_upd_simps]:
  "n \<le> i \<Longrightarrow> take n (xs[i := b]) = take n xs"
  by simp

lemma fold_upt_Suc:
  "a \<le> b \<Longrightarrow> fold f [a..<Suc b] s = f b (fold f [a..<b] s)"
  by simp

lemma fold_upt_split:
  "a \<le> b \<Longrightarrow> b \<le> c \<Longrightarrow> fold f [a..<c] s = fold f [b..<c] (fold f [a..<b] s)"
proof -
  assume "a \<le> b" "b \<le> c"
  then have "[a..<c] = [a..<b] @ [b..<c]"
    using upt_add_eq_append [of a b "c - b"] by simp
  then show ?thesis by simp
qed

lemma length_5_nth:
  "length xs = 5 \<Longrightarrow> [xs ! 0, xs ! 1, xs ! 2, xs ! 3, xs ! 4] = xs"
  by (cases xs rule: list.exhaust; simp) (auto simp: length_Suc_conv eval_nat_numeral)

subsection \<open>Rotation\<close>

lemma shifts_are_rotl:
  fixes w :: u32
  assumes "0 < n" "n < 32"
  shows "push_bit n w OR drop_bit (32 - n) w = word_rotl n w"
proof (rule bit_word_eqI)
  fix i assume i: "i < LENGTH(32)"
  have "bit (word_rotl n w) i \<longleftrightarrow> bit w ((i + (32 - n mod 32)) mod 32)"
    using i by (simp add: bit_word_rotl_iff)
  moreover have "bit (push_bit n w OR drop_bit (32 - n) w) i \<longleftrightarrow> (if n \<le> i then bit w (i - n) else bit w (i + (32 - n)))"
    using i assms bit_imp_le_length [of w "32 - n + i"]
    by (auto simp: bit_or_iff bit_push_bit_iff bit_drop_bit_eq add.commute)
  moreover have "(i + (32 - n)) mod 32 = (if n \<le> i then i - n else i + (32 - n))"
    using i assms by (auto simp: mod_if)
  ultimately show "bit (push_bit n w OR drop_bit (32 - n) w) i = bit (word_rotl n w) i"
    using assms by auto
qed

subsection \<open>Little-endian fields\<close>

definition le16 :: "u8 \<Rightarrow> u8 \<Rightarrow> u16" where
  "le16 b0 b1 = ucast b0 OR push_bit 8 (ucast b1)"

definition le32 :: "u8 \<Rightarrow> u8 \<Rightarrow> u8 \<Rightarrow> u8 \<Rightarrow> u32" where
  "le32 b0 b1 b2 b3 =
     ucast b0 OR push_bit 8 (ucast b1) OR push_bit 16 (ucast b2) OR push_bit 24 (ucast b3)"

definition byte_of32 :: "u32 \<Rightarrow> nat \<Rightarrow> u8" where
  "byte_of32 w i = ucast (drop_bit (8 * i) w)"

lemma bit_u8_beyond: "8 \<le> n \<Longrightarrow> \<not> bit (b :: u8) n"
  using bit_imp_le_length [of b n] by auto

lemma byte_of32_le32 [simp]:
  "byte_of32 (le32 b0 b1 b2 b3) 0 = b0"
  "byte_of32 (le32 b0 b1 b2 b3) (Suc 0) = b1"
  "byte_of32 (le32 b0 b1 b2 b3) 2 = b2"
  "byte_of32 (le32 b0 b1 b2 b3) 3 = b3"
  by (auto intro!: bit_word_eqI
      simp: byte_of32_def le32_def bit_ucast_iff bit_drop_bit_eq bit_or_iff bit_push_bit_iff
      bit_u8_beyond)

lemma le32_byte_of32 [simp]:
  "le32 (byte_of32 w 0) (byte_of32 w (Suc 0)) (byte_of32 w 2) (byte_of32 w 3) = w"
proof (rule bit_word_eqI)
  fix n assume "n < LENGTH(32)"
  then consider "n < 8" | "8 \<le> n" "n < 16" | "16 \<le> n" "n < 24" | "24 \<le> n" "n < 32"
    by fastforce
  then show "bit (le32 (byte_of32 w 0) (byte_of32 w (Suc 0)) (byte_of32 w 2) (byte_of32 w 3)) n
          \<longleftrightarrow> bit w n"
    by cases (auto simp: byte_of32_def le32_def bit_ucast_iff bit_drop_bit_eq bit_or_iff
        bit_push_bit_iff)
qed

subsection \<open>Regions of memory\<close>

definition rd :: "mem \<Rightarrow> u32 \<Rightarrow> nat \<Rightarrow> u8 list" where
  "rd m p n = map (\<lambda>i. m (p + of_nat i)) [0..<n]"

fun wr :: "u32 \<Rightarrow> u8 list \<Rightarrow> mem \<Rightarrow> mem" where
  "wr p [] m = m"
| "wr p (b # bs) m = wr (p + 1) bs (m(p := b))"

text \<open>\<open>region p n\<close> is the set of the \<open>n\<close> addresses from \<open>p\<close> on, across the wrap if need be.\<close>

definition region :: "u32 \<Rightarrow> nat \<Rightarrow> u32 set" where
  "region p n = (\<lambda>i. p + of_nat i) ` {..<n}"

lemma length_rd [simp]: "length (rd m p n) = n"
  by (simp add: rd_def)

lemma nth_rd [simp]: "i < n \<Longrightarrow> rd m p n ! i = m (p + of_nat i)"
  by (simp add: rd_def)

lemma rd_0 [simp]: "rd m p 0 = []"
  by (simp add: rd_def)

lemma rd_Suc: "rd m p (Suc n) = m p # rd m (p + 1) n"
  by (rule nth_equalityI) (auto simp: nth_Cons add_ac split: nat.splits)

lemma rd_cong: "(\<And>a. a \<in> region p n \<Longrightarrow> m a = m' a) \<Longrightarrow> rd m p n = rd m' p n"
  by (auto simp: rd_def region_def)

lemma region_Suc: "region p (Suc n) = insert p (region (p + 1) n)"
  by (auto simp: region_def image_iff lessThan_Suc_eq_insert_0 add_ac)

lemma rd_add: "rd m p (a + b) = rd m p a @ rd m (p + of_nat a) b"
  by (rule nth_equalityI) (auto simp: nth_append add.assoc simp flip: of_nat_add)

lemma wr_append: "wr p (xs @ ys) m = wr (p + of_nat (length xs)) ys (wr p xs m)"
  by (induction xs arbitrary: p m) (simp_all add: add_ac)

lemma region_0 [simp]: "region p 0 = {}"
  by (simp add: region_def)

lemma region_add: "region p (a + b) = region p a \<union> region (p + of_nat a) b"
  by (induction a arbitrary: p) (simp_all add: region_Suc add_ac)

lemma wr_outside: "a \<notin> region p (length bs) \<Longrightarrow> wr p bs m a = m a"
  by (induction bs arbitrary: p m) (auto simp: region_Suc)

lemma of_nat_u32_eq_iff:
  "i < 2 ^ 32 \<Longrightarrow> j < 2 ^ 32 \<Longrightarrow> (of_nat i :: u32) = of_nat j \<longleftrightarrow> i = j"
  by (simp add: word_of_nat_eq_iff take_bit_nat_eq_self)

lemma not_in_region:
  "n \<le> 2 ^ 32 \<Longrightarrow> i < 2 ^ 32 \<Longrightarrow> p + of_nat i \<in> region p n \<longleftrightarrow> i < n"
  by (auto simp: region_def of_nat_u32_eq_iff)

lemma start_not_in_tail: "n < 2 ^ 32 \<Longrightarrow> p \<notin> region (p + 1) n"
proof
  assume n: "n < 2 ^ 32" and "p \<in> region (p + 1) n"
  then obtain i where i: "i < n" "p = p + 1 + of_nat i" by (auto simp: region_def)
  then have "(of_nat (Suc i) :: u32) = of_nat 0" by (simp add: add_ac)
  moreover have "Suc i < 2 ^ 32" "(0 :: nat) < 2 ^ 32" using i n by auto
  ultimately have "Suc i = 0" using of_nat_u32_eq_iff by blast
  then show False by simp
qed

lemma rd_wr [mem_simps]: "length bs \<le> 2 ^ 32 \<Longrightarrow> rd (wr p bs m) p (length bs) = bs"
  by (induction bs arbitrary: p m) (auto simp: rd_Suc wr_outside start_not_in_tail)

lemma rd_wr_other [mem_simps]:
  "region p n \<inter> region q (length bs) = {} \<Longrightarrow> rd (wr q bs m) p n = rd m p n"
  by (rule rd_cong) (blast intro: wr_outside)

lemma region_unat:
  assumes "unat p + n \<le> 2 ^ 32"
  shows "region p n = {a. unat p \<le> unat a \<and> unat a < unat p + n}"
proof (intro set_eqI iffI)
  fix a :: u32 assume "a \<in> region p n"
  then obtain i where "i < n" "a = p + of_nat i" by (auto simp: region_def)
  with assms show "a \<in> {a. unat p \<le> unat a \<and> unat a < unat p + n}"
    by (simp add: unat_word_ariths unat_of_nat take_bit_nat_eq_self)
next
  fix a :: u32 assume "a \<in> {a. unat p \<le> unat a \<and> unat a < unat p + n}"
  then have "a = p + of_nat (unat a - unat p)" "unat a - unat p < n"
    by (auto simp: of_nat_diff)
  then show "a \<in> region p n" unfolding region_def by blast
qed

lemma areas_apart: "unat p + n \<le> unat q \<Longrightarrow> unat q + k \<le> 2 ^ 32 \<Longrightarrow> region p n \<inter> region q k = {}"
  by (subst (1 2) region_unat) auto

lemma rd_take: "i \<le> n \<Longrightarrow> take i (rd m p n) = rd m p i"
  by (simp add: rd_def take_map)

lemma rd_drop: "i \<le> n \<Longrightarrow> drop i (rd m p n) = rd m (p + of_nat i) (n - i)"
  using rd_add [of m p i "n - i"] by simp

text \<open>A 32-bit field of the memory, and the bytes of a string literal.\<close>

definition get32 :: "mem \<Rightarrow> u32 \<Rightarrow> u32" where
  "get32 m a = le32 (m a) (m (a + 1)) (m (a + 2)) (m (a + 3))"

abbreviation bytes :: "string \<Rightarrow> u8 list" where
  "bytes s \<equiv> map of_char s"

lemma get32_region: "(\<And>x. x \<in> region a 4 \<Longrightarrow> m x = m' x) \<Longrightarrow> get32 m a = get32 m' a"
proof -
  assume h: "\<And>x. x \<in> region a 4 \<Longrightarrow> m x = m' x"
  have "a + of_nat i \<in> region a 4" if "i < 4" for i using that by (auto simp: region_def)
  from this [of 0] this [of 1] this [of 2] this [of 3] show ?thesis by (simp add: get32_def h)
qed

subsection \<open>Rounding down, and chunks of equal length\<close>

lemma unat_push_drop: "unat (push_bit n (drop_bit n (w :: u32))) = unat w div 2 ^ n * 2 ^ n"
proof -
  have w: "unat w < 2 ^ 32" using unsigned_less [of w, where 'a = nat] by simp
  then have "unat w mod 2 ^ 32 = unat w" by (rule mod_less)
  then have "unat (push_bit n (drop_bit n w)) = unat w div 2 ^ n * 2 ^ n mod 2 ^ 32"
    unfolding unsigned_push_bit_eq unsigned_drop_bit_eq by (simp add: push_bit_eq_mult drop_bit_eq_div take_bit_eq_mod)
  moreover have "unat w div 2 ^ n * 2 ^ n \<le> unat w" by simp
  ultimately show ?thesis using w by (metis le_less_trans mod_less)
qed

lemma nth_concat_chunks:
  "\<forall>E \<in> set Es. length E = k \<Longrightarrow> i < length Es * k \<Longrightarrow> concat Es ! i = Es ! (i div k) ! (i mod k)"
proof (induction Es arbitrary: i)
  case (Cons E Es)
  show ?case
  proof (cases "i < k")
    case False
    then have "i div k = Suc ((i - k) div k)" "i mod k = (i - k) mod k"
      using Cons.prems by (cases "k = 0"; simp add: le_div_geq le_mod_geq)+
    with Cons False show ?thesis by (simp add: nth_append)
  qed (use Cons in \<open>simp add: nth_append\<close>)
qed simp

end
