(* ===== verification/Sha1.thy ===== *)
theory Sha1
  imports CromwellBase
begin

text \<open>
  The SHA-1 of \<open>lib/crypt/sha1.c\<close>: the context record, \<open>SHA1Reset\<close>, \<open>SHA1Input\<close>,
  \<open>SHA1PadMessage\<close>, \<open>SHA1ProcessMessageBlock\<close> and \<open>SHA1Result\<close>, with the block function and
  the padding of FIPS 180 as reference. The lemmas show that the four 20-step loops are the
  80 uniform steps of the standard, and that a context fed with any sequence of chunks
  holds the standard's digest of their concatenation.
\<close>

section \<open>The code\<close>

text \<open>The error codes of \<open>sha1.h\<close>; \<open>Corrupted\<close> holds one of them as a plain int.\<close>

abbreviation (input) shaSuccess :: int where "shaSuccess \<equiv> 0"
abbreviation (input) shaNull :: int where "shaNull \<equiv> 1"
abbreviation (input) shaInputTooLong :: int where "shaInputTooLong \<equiv> 2"
abbreviation (input) shaStateError :: int where "shaStateError \<equiv> 3"

record SHA1Context =
  Intermediate_Hash :: "u32 list"
  Length_Low :: u32
  Length_High :: u32
  Message_Block_Index :: nat
  Message_Block :: "u8 list"
  Computed :: int
  Corrupted :: int

definition SHA1CircularShift :: "nat \<Rightarrow> u32 \<Rightarrow> u32" where
  "SHA1CircularShift bits w = push_bit bits w OR drop_bit (32 - bits) w"

text \<open>\<open>SHA1Reset\<close> leaves the message block as it was.\<close>

definition sha1_init :: "u32 list" where
  "sha1_init = [0x67452301, 0xEFCDAB89, 0x98BADCFE, 0x10325476, 0xC3D2E1F0]"

definition SHA1Reset :: "SHA1Context option \<Rightarrow> int \<times> SHA1Context option" where
  "SHA1Reset context =
     (case context of
        None \<Rightarrow> (shaNull, None)
      | Some c \<Rightarrow> (shaSuccess,
          Some (c\<lparr>Length_Low := 0, Length_High := 0, Message_Block_Index := 0,
                  Intermediate_Hash := sha1_init, Computed := 0, Corrupted := 0\<rparr>)))"

subsection \<open>Processing one block\<close>

type_synonym regs = "u32 \<times> u32 \<times> u32 \<times> u32 \<times> u32"

definition sha1_load_word :: "u8 list \<Rightarrow> nat \<Rightarrow> u32" where
  "sha1_load_word mb t =
     ((push_bit 24 (ucast (mb ! (t * 4))) OR push_bit 16 (ucast (mb ! (t * 4 + 1))))
       OR push_bit 8 (ucast (mb ! (t * 4 + 2)))) OR ucast (mb ! (t * 4 + 3))"

text \<open>The array \<open>W\<close> is uninitialised before its two loops write all 80 words.\<close>

definition sha1_W :: "u8 list \<Rightarrow> u32 list" where
  "sha1_W mb =
     (let W0 = fold (\<lambda>t W. W[t := sha1_load_word mb t]) [0..<16] (replicate 80 0)
      in fold (\<lambda>t W. W[t := SHA1CircularShift 1
                (((W ! (t - 3) XOR W ! (t - 8)) XOR W ! (t - 14)) XOR W ! (t - 16))])
           [16..<80] W0)"

definition sha1_step :: "(u32 \<Rightarrow> u32 \<Rightarrow> u32 \<Rightarrow> u32) \<Rightarrow> u32 \<Rightarrow> u32 list \<Rightarrow> nat \<Rightarrow> regs \<Rightarrow> regs" where
  "sha1_step f k W t = (\<lambda>(A, B, C, D, E).
     let temp = SHA1CircularShift 5 A + f B C D + E + W ! t + k
     in (temp, A, SHA1CircularShift 30 B, C, D))"

definition sha1_rounds :: "u32 list \<Rightarrow> regs \<Rightarrow> regs" where
  "sha1_rounds W r0 =
     (let r1 = fold (sha1_step (\<lambda>B C D. (B AND C) OR (NOT B AND D)) 0x5A827999 W) [0..<20] r0;
          r2 = fold (sha1_step (\<lambda>B C D. B XOR C XOR D) 0x6ED9EBA1 W) [20..<40] r1;
          r3 = fold (sha1_step (\<lambda>B C D. (B AND C) OR (B AND D) OR (C AND D)) 0x8F1BBCDC W)
                 [40..<60] r2
      in fold (sha1_step (\<lambda>B C D. B XOR C XOR D) 0xCA62C1D6 W) [60..<80] r3)"

definition sha1_add_regs :: "u32 list \<Rightarrow> regs \<Rightarrow> u32 list" where
  "sha1_add_regs H = (\<lambda>(A, B, C, D, E).
     H[0 := H ! 0 + A, 1 := H ! 1 + B, 2 := H ! 2 + C, 3 := H ! 3 + D, 4 := H ! 4 + E])"

definition SHA1ProcessMessageBlock :: "SHA1Context \<Rightarrow> SHA1Context" where
  "SHA1ProcessMessageBlock c =
     (let H = Intermediate_Hash c;
          r = sha1_rounds (sha1_W (Message_Block c)) (H ! 0, H ! 1, H ! 2, H ! 3, H ! 4)
      in c\<lparr>Intermediate_Hash := sha1_add_regs H r, Message_Block_Index := 0\<rparr>)"

subsection \<open>Input\<close>

definition sha1_store_byte :: "u8 \<Rightarrow> SHA1Context \<Rightarrow> SHA1Context" where
  "sha1_store_byte b c =
     c\<lparr>Message_Block := (Message_Block c)[Message_Block_Index c := b],
       Message_Block_Index := Message_Block_Index c + 1\<rparr>"

text \<open>One turn of the loop of \<open>SHA1Input\<close>: store the byte, count 8 bits, flush a full block.\<close>

definition sha1_input_byte :: "u8 \<Rightarrow> SHA1Context \<Rightarrow> SHA1Context" where
  "sha1_input_byte b c =
     (let c1 = sha1_store_byte b c;
          c2 = c1\<lparr>Length_Low := Length_Low c1 + 8\<rparr>;
          c3 = (if Length_Low c2 = 0
                then let c' = c2\<lparr>Length_High := Length_High c2 + 1\<rparr>
                     in if Length_High c' = 0 then c'\<lparr>Corrupted := 1\<rparr> else c'
                else c2)
      in if Message_Block_Index c3 = 64 then SHA1ProcessMessageBlock c3 else c3)"

fun sha1_input_loop :: "u8 list \<Rightarrow> SHA1Context \<Rightarrow> SHA1Context" where
  "sha1_input_loop [] c = c"
| "sha1_input_loop (b # bs) c =
     (if Corrupted c \<noteq> 0 then c else sha1_input_loop bs (sha1_input_byte b c))"

text \<open>
  The message pointer is \<open>None\<close> for NULL and otherwise the bytes that start there; the loop
  reads the first \<open>length\<close> of them.
\<close>

definition SHA1Input ::
  "SHA1Context option \<Rightarrow> u8 list option \<Rightarrow> nat \<Rightarrow> int \<times> SHA1Context option" where
  "SHA1Input context message_array len =
     (if len = 0 then (shaSuccess, context)
      else case (context, message_array) of
        (Some c, Some msg) \<Rightarrow>
          (if Computed c \<noteq> 0 then (shaStateError, Some (c\<lparr>Corrupted := shaStateError\<rparr>))
           else if Corrupted c \<noteq> 0 then (Corrupted c, Some c)
           else (shaSuccess, Some (sha1_input_loop (take len msg) c)))
      | _ \<Rightarrow> (shaNull, context))"

subsection \<open>Padding and result\<close>

function sha1_zero_until :: "nat \<Rightarrow> SHA1Context \<Rightarrow> SHA1Context" where
  "sha1_zero_until n c =
     (if Message_Block_Index c < n then sha1_zero_until n (sha1_store_byte 0 c) else c)"
  by pat_completeness auto
termination
  by (relation "measure (\<lambda>(n, c). n - Message_Block_Index c)") (auto simp: sha1_store_byte_def)

declare sha1_zero_until.simps [simp del]

definition sha1_store_length :: "SHA1Context \<Rightarrow> SHA1Context" where
  "sha1_store_length c =
     c\<lparr>Message_Block := (Message_Block c)
        [56 := ucast (drop_bit 24 (Length_High c)), 57 := ucast (drop_bit 16 (Length_High c)),
         58 := ucast (drop_bit 8 (Length_High c)), 59 := ucast (Length_High c),
         60 := ucast (drop_bit 24 (Length_Low c)), 61 := ucast (drop_bit 16 (Length_Low c)),
         62 := ucast (drop_bit 8 (Length_Low c)), 63 := ucast (Length_Low c)]\<rparr>"

definition SHA1PadMessage :: "SHA1Context \<Rightarrow> SHA1Context" where
  "SHA1PadMessage c =
     (let c1 = (if Message_Block_Index c > 55
                then let c' = sha1_zero_until 64 (sha1_store_byte 0x80 c)
                     in sha1_zero_until 56 (SHA1ProcessMessageBlock c')
                else sha1_zero_until 56 (sha1_store_byte 0x80 c))
      in SHA1ProcessMessageBlock (sha1_store_length c1))"

definition sha1_digest_byte :: "u32 list \<Rightarrow> nat \<Rightarrow> u8" where
  "sha1_digest_byte H i = ucast (drop_bit (8 * (3 - i mod 4)) (H ! (i div 4)))"

definition sha1_finish :: "SHA1Context \<Rightarrow> SHA1Context" where
  "sha1_finish c =
     (if Computed c = 0
      then (SHA1PadMessage c)\<lparr>Message_Block := replicate 64 0, Length_Low := 0,
              Length_High := 0, Computed := 1\<rparr>
      else c)"

text \<open>
  \<open>SHA1Result\<close> returns its code, the context and the 20 bytes written to
  \<open>Message_Digest\<close>; \<open>None\<close> when nothing is written. The flag \<open>digest_null\<close> says that the
  caller passed NULL for \<open>Message_Digest\<close>.
\<close>

definition SHA1Result ::
  "SHA1Context option \<Rightarrow> bool \<Rightarrow> int \<times> SHA1Context option \<times> u8 list option" where
  "SHA1Result context digest_null =
     (case context of
        None \<Rightarrow> (shaNull, None, None)
      | Some c \<Rightarrow>
          if digest_null then (shaNull, Some c, None)
          else if Corrupted c \<noteq> 0 then (Corrupted c, Some c, None)
          else let c' = sha1_finish c
               in (shaSuccess, Some c',
                   Some (map (sha1_digest_byte (Intermediate_Hash c')) [0..<20])))"

section \<open>The block function of the standard\<close>

definition fips_f :: "nat \<Rightarrow> u32 \<Rightarrow> u32 \<Rightarrow> u32 \<Rightarrow> u32" where
  "fips_f t x y z =
     (if t < 20 then (x AND y) XOR (NOT x AND z)
      else if t < 40 then x XOR y XOR z
      else if t < 60 then (x AND y) XOR (x AND z) XOR (y AND z)
      else x XOR y XOR z)"

definition fips_k :: "nat \<Rightarrow> u32" where
  "fips_k t = (if t < 20 then 0x5A827999 else if t < 40 then 0x6ED9EBA1
               else if t < 60 then 0x8F1BBCDC else 0xCA62C1D6)"

fun fips_expand :: "nat \<Rightarrow> u32 list \<Rightarrow> u32 list" where
  "fips_expand 0 ws = ws"
| "fips_expand (Suc n) ws = fips_expand n (ws @
     [word_rotl 1 (ws ! (length ws - 3) XOR ws ! (length ws - 8)
        XOR ws ! (length ws - 14) XOR ws ! (length ws - 16))])"

definition fips_word :: "u8 list \<Rightarrow> nat \<Rightarrow> u32" where
  "fips_word b t = 2 ^ 24 * ucast (b ! (4 * t)) + 2 ^ 16 * ucast (b ! (4 * t + 1))
                   + 2 ^ 8 * ucast (b ! (4 * t + 2)) + ucast (b ! (4 * t + 3))"

definition fips_schedule :: "u8 list \<Rightarrow> u32 list" where
  "fips_schedule b = fips_expand 64 (map (fips_word b) [0..<16])"

definition fips_step :: "u32 list \<Rightarrow> nat \<Rightarrow> regs \<Rightarrow> regs" where
  "fips_step W t = (\<lambda>(a, b, c, d, e).
     (word_rotl 5 a + fips_f t b c d + e + fips_k t + W ! t, a, word_rotl 30 b, c, d))"

definition fips_compress :: "u32 list \<Rightarrow> u8 list \<Rightarrow> u32 list" where
  "fips_compress H b =
     (case fold (fips_step (fips_schedule b)) [0..<80] (H ! 0, H ! 1, H ! 2, H ! 3, H ! 4) of
        (a, b', c, d, e) \<Rightarrow> [H ! 0 + a, H ! 1 + b', H ! 2 + c, H ! 3 + d, H ! 4 + e])"

subsection \<open>The code's block function is the standard's\<close>

lemma SHA1CircularShift_rotl:
  assumes "0 < n" "n < 32"
  shows "SHA1CircularShift n w = word_rotl n w"
  using assms by (simp add: SHA1CircularShift_def shifts_are_rotl)

lemma be_word_add:
  "((push_bit 24 (ucast b3) OR push_bit 16 (ucast b2)) OR push_bit 8 (ucast b1)) OR ucast b0
     = (2 ^ 24 * ucast (b3 :: u8) + 2 ^ 16 * ucast (b2 :: u8) + 2 ^ 8 * ucast (b1 :: u8)
         + ucast (b0 :: u8) :: u32)" (is "?l = _")
proof -
  have d: "x AND y = 0 \<Longrightarrow> x OR y = x + y" for x y :: u32
    by (simp add: disjunctive_add_eq_or)
  have 1: "push_bit 24 (ucast b3) AND push_bit 16 (ucast b2) = (0 :: u32)"
    by (rule bit_word_eqI) (auto simp: bit_simps bit_u8_beyond)
  have 2: "(push_bit 24 (ucast b3) OR push_bit 16 (ucast b2)) AND push_bit 8 (ucast b1) = (0 :: u32)"
    by (rule bit_word_eqI) (auto simp: bit_simps bit_u8_beyond)
  have 3: "((push_bit 24 (ucast b3) OR push_bit 16 (ucast b2)) OR push_bit 8 (ucast b1))
      AND ucast b0 = (0 :: u32)"
    by (rule bit_word_eqI) (auto simp: bit_simps bit_u8_beyond)
  show ?thesis
    using d [OF 1] d [OF 2] d [OF 3] by (simp add: push_bit_eq_mult mult.commute)
qed

lemma sha1_load_word_fips: "sha1_load_word b t = fips_word b t"
  by (simp only: sha1_load_word_def fips_word_def be_word_add mult.commute)

lemma length_fips_expand [simp]: "length (fips_expand n ws) = n + length ws"
  by (induction n arbitrary: ws) auto

definition fips_next :: "u32 list \<Rightarrow> nat \<Rightarrow> u32" where
  "fips_next W t = word_rotl 1 (W ! (t - 3) XOR W ! (t - 8) XOR W ! (t - 14) XOR W ! (t - 16))"

lemma sha1_fill_array:
  "n + m = k \<Longrightarrow> fold (\<lambda>t W. W[t := f t]) [m..<k] (xs @ replicate n z)
     = xs @ map f [m..<k]" if "length xs = m" for xs :: "'a list"
  using that
proof (induction n arbitrary: m xs)
  case 0
  then show ?case by simp
next
  case (Suc n)
  have "fold (\<lambda>t W. W[t := f t]) [Suc m..<k] ((xs @ [f m]) @ replicate n z)
      = (xs @ [f m]) @ map f [Suc m..<k]"
    by (rule Suc.IH) (use Suc.prems in auto)
  moreover have "(xs @ replicate (Suc n) z)[m := f m] = (xs @ [f m]) @ replicate n z"
    using Suc.prems by (simp add: list_update_append)
  ultimately show ?case
    using Suc.prems by (simp add: upt_rec [of m k])
qed

lemma sha1_schedule_loop:
  "length ws = m \<Longrightarrow> 16 \<le> m \<Longrightarrow> n + m = k \<Longrightarrow>
   fold (\<lambda>t W. W[t := fips_next W t]) [m..<k] (ws @ replicate n z) = fips_expand n ws"
proof (induction n arbitrary: m ws)
  case 0
  then show ?case by simp
next
  case (Suc n)
  let ?x = "fips_next ws m"
  have "(ws @ replicate (Suc n) z)[m := fips_next (ws @ replicate (Suc n) z) m]
      = (ws @ [?x]) @ replicate n z"
    using Suc.prems by (simp add: list_update_append fips_next_def nth_append)
  moreover have "fold (\<lambda>t W. W[t := fips_next W t]) [Suc m..<k] ((ws @ [?x]) @ replicate n z)
      = fips_expand n (ws @ [?x])"
    by (rule Suc.IH) (use Suc.prems in auto)
  ultimately show ?case
    using Suc.prems by (simp add: upt_rec [of m k] fips_next_def)
qed

lemma sha1_W_fips: "sha1_W b = fips_schedule b"
proof -
  have 1: "fold (\<lambda>t W. W[t := sha1_load_word b t]) [0..<16] (replicate 80 0)
      = map (fips_word b) [0..<16] @ replicate 64 0"
  proof -
    have "replicate 80 (0 :: u32) = replicate 16 0 @ replicate 64 0"
      by (simp flip: replicate_add)
    moreover have "fold (\<lambda>t W. W[t := f t]) ts (xs @ ys) = fold (\<lambda>t W. W[t := f t]) ts xs @ ys"
      if "\<forall>t \<in> set ts. t < length xs" for ts and xs ys :: "u32 list" and f
      using that by (induction ts arbitrary: xs) (auto simp: list_update_append)
    ultimately show ?thesis
      using sha1_fill_array [of "[] :: u32 list" 0 16 16 "sha1_load_word b" 0]
      by (simp add: sha1_load_word_fips [abs_def] del: upt_rec_numeral)
  qed
  have 2: "SHA1CircularShift 1 (((W ! (t - 3) XOR W ! (t - 8)) XOR W ! (t - 14)) XOR W ! (t - 16))
      = fips_next W t" for W t
    by (simp add: SHA1CircularShift_rotl fips_next_def xor.assoc)
  have "length (map (fips_word b) [0..<16]) = 16" by simp
  then show ?thesis
    unfolding sha1_W_def 1 2 fips_schedule_def Let_def
    by (rule sha1_schedule_loop) simp_all
qed

lemma ch_or_xor: "(x AND y) OR (NOT x AND z) = (x AND y) XOR (NOT x AND (z :: u32))"
  by (rule bit_word_eqI) (auto simp: bit_simps)

lemma maj_or_xor:
  "(x AND y) OR (x AND z) OR (y AND z) = (x AND y) XOR (x AND z) XOR (y AND (z :: u32))"
  by (rule bit_word_eqI) (auto simp: bit_simps)

lemma fold_step_cong:
  assumes "\<And>t. m \<le> t \<Longrightarrow> t < n \<Longrightarrow> fips_f t = f \<and> fips_k t = k"
  shows "fold (sha1_step f k W) [m..<n] r = fold (fips_step W) [m..<n] r"
proof (rule fold_cong)
  fix t assume "t \<in> set [m..<n]"
  with assms have "fips_f t = f" "fips_k t = k" by auto
  then show "sha1_step f k W t = fips_step W t"
    by (simp add: fun_eq_iff sha1_step_def fips_step_def Let_def SHA1CircularShift_rotl add_ac)
qed auto

lemma sha1_rounds_fips: "sha1_rounds W r = fold (fips_step W) [0..<80] r"
proof -
  have *: "fold (fips_step W) [0..<80] r =
      fold (fips_step W) [60..<80] (fold (fips_step W) [40..<60]
        (fold (fips_step W) [20..<40] (fold (fips_step W) [0..<20] r)))"
    using fold_upt_split [of 0 60 80 "fips_step W" r] fold_upt_split [of 0 40 60 "fips_step W" r]
      fold_upt_split [of 0 20 40 "fips_step W" r] by simp
  have 1: "fold (sha1_step (\<lambda>B C D. (B AND C) OR (NOT B AND D)) 0x5A827999 W) [0..<20] s
      = fold (fips_step W) [0..<20] s" for s
    by (rule fold_step_cong) (simp add: fips_f_def fips_k_def fun_eq_iff ch_or_xor)
  have 2: "fold (sha1_step (\<lambda>B C D. B XOR C XOR D) 0x6ED9EBA1 W) [20..<40] s
      = fold (fips_step W) [20..<40] s" for s
    by (rule fold_step_cong) (simp add: fips_f_def fips_k_def fun_eq_iff)
  have 3: "fold (sha1_step (\<lambda>B C D. (B AND C) OR (B AND D) OR (C AND D)) 0x8F1BBCDC W) [40..<60] s
      = fold (fips_step W) [40..<60] s" for s
    by (rule fold_step_cong) (simp add: fips_f_def fips_k_def fun_eq_iff maj_or_xor)
  have 4: "fold (sha1_step (\<lambda>B C D. B XOR C XOR D) 0xCA62C1D6 W) [60..<80] s
      = fold (fips_step W) [60..<80] s" for s
    by (rule fold_step_cong) (simp add: fips_f_def fips_k_def fun_eq_iff)
  show ?thesis
    unfolding * sha1_rounds_def Let_def 1 2 3 4 ..
qed

lemma sha1_add_regs_list:
  "length H = 5 \<Longrightarrow> sha1_add_regs H (a, b, c, d, e)
     = [H ! 0 + a, H ! 1 + b, H ! 2 + c, H ! 3 + d, H ! 4 + e]"
  by (rule nth_equalityI)
    (auto simp: sha1_add_regs_def nth_list_update less_Suc_eq eval_nat_numeral)

lemma SHA1ProcessMessageBlock_fips:
  "length (Intermediate_Hash c) = 5 \<Longrightarrow>
   SHA1ProcessMessageBlock c =
     c\<lparr>Intermediate_Hash := fips_compress (Intermediate_Hash c) (Message_Block c),
       Message_Block_Index := 0\<rparr>"
  by (cases "fold (fips_step (fips_schedule (Message_Block c))) [0..<80]
        (Intermediate_Hash c ! 0, Intermediate_Hash c ! 1, Intermediate_Hash c ! 2,
         Intermediate_Hash c ! 3, Intermediate_Hash c ! 4)")
    (simp add: SHA1ProcessMessageBlock_def Let_def sha1_W_fips sha1_rounds_fips
      fips_compress_def sha1_add_regs_list)

section \<open>Streaming input computes the digest of the standard\<close>

subsection \<open>Padding and digest of the standard\<close>

function full_blocks :: "u8 list \<Rightarrow> u8 list list" where
  "full_blocks xs = (if length xs < 64 then [] else take 64 xs # full_blocks (drop 64 xs))"
  by pat_completeness auto
termination
  by (relation "measure length") auto

declare full_blocks.simps [simp del]

definition be64_bytes :: "nat \<Rightarrow> u8 list" where
  "be64_bytes n = map (\<lambda>k. of_nat (n div 2 ^ (8 * k))) [7, 6, 5, 4, 3, 2, 1, 0]"

text \<open>
  \<open>fips_pad n0 m\<close> pads the message \<open>m\<close> that follows \<open>n0\<close> bytes already hashed into the
  start value; the standard's padding is \<open>n0 = 0\<close>.
\<close>

definition fips_pad :: "nat \<Rightarrow> u8 list \<Rightarrow> u8 list" where
  "fips_pad n0 m = m @ [0x80] @ replicate ((119 - length m mod 64) mod 64) 0
                     @ be64_bytes (8 * (n0 + length m))"

definition fips_hash_from :: "u32 list \<Rightarrow> nat \<Rightarrow> u8 list \<Rightarrow> u32 list" where
  "fips_hash_from iv n0 m = foldl fips_compress iv (full_blocks (fips_pad n0 m))"

definition fips_digest :: "u32 list \<Rightarrow> u8 list" where
  "fips_digest H = map (sha1_digest_byte H) [0..<20]"

definition sha1_spec :: "u8 list \<Rightarrow> u8 list" where
  "sha1_spec m = fips_digest (fips_hash_from sha1_init 0 m)"

lemma length_fips_digest [simp]: "length (fips_digest H) = 20"
  by (simp add: fips_digest_def)

lemma length_sha1_spec [simp]: "length (sha1_spec m) = 20"
  by (simp add: sha1_spec_def)

lemma full_blocks_small [simp]: "length xs < 64 \<Longrightarrow> full_blocks xs = []"
  by (simp add: full_blocks.simps)

lemma full_blocks_one [simp]: "length xs = 64 \<Longrightarrow> full_blocks xs = [xs]"
  by (simp add: full_blocks.simps [of xs])

lemma full_blocks_append:
  "length xs mod 64 = 0 \<Longrightarrow> full_blocks (xs @ ys) = full_blocks xs @ full_blocks ys"
proof (induction xs rule: full_blocks.induct)
  case (1 xs)
  show ?case
  proof (cases "length xs < 64")
    case True
    with "1.prems" show ?thesis by simp
  next
    case False
    with "1.prems" have "length (drop 64 xs) mod 64 = 0" by (simp add: le_mod_geq)
    with 1 False show ?thesis
      by (simp add: full_blocks.simps [of "xs @ ys"] full_blocks.simps [of xs])
  qed
qed

lemma length_fips_compress [simp]: "length (fips_compress H b) = 5"
  by (simp add: fips_compress_def split: prod.splits)

lemma length_foldl_compress: "length H = 5 \<Longrightarrow> length (foldl fips_compress H bs) = 5"
  by (induction bs arbitrary: H) auto

subsection \<open>The invariant of a context\<close>

text \<open>
  The context holds a message \<open>front @ rest\<close>: the whole blocks \<open>front\<close> are hashed, the
  bytes \<open>rest\<close> of the open block are in the buffer, and the two length words count bits.
\<close>

definition sha1_holds ::
  "u32 list \<Rightarrow> nat \<Rightarrow> u8 list \<Rightarrow> u8 list \<Rightarrow> SHA1Context \<Rightarrow> bool" where
  "sha1_holds iv n0 front rest c \<longleftrightarrow>
     length front mod 64 = 0 \<and> length rest < 64 \<and> length (Message_Block c) = 64 \<and>
     length (Intermediate_Hash c) = 5 \<and>
     Intermediate_Hash c = foldl fips_compress iv (full_blocks front) \<and>
     Message_Block_Index c = length rest \<and> take (length rest) (Message_Block c) = rest \<and>
     unat (Length_High c) * 2 ^ 32 + unat (Length_Low c)
       = 8 * (n0 + length front + length rest) \<and>
     Computed c = 0 \<and> Corrupted c = 0"

definition sha1_absorbed :: "u32 list \<Rightarrow> nat \<Rightarrow> u8 list \<Rightarrow> SHA1Context \<Rightarrow> bool" where
  "sha1_absorbed iv n0 m c \<longleftrightarrow> (\<exists>front rest. m = front @ rest \<and> sha1_holds iv n0 front rest c)"

lemma sha1_absorbed_flags: "sha1_absorbed iv n0 m c \<Longrightarrow> Computed c = 0 \<and> Corrupted c = 0"
  by (auto simp: sha1_absorbed_def sha1_holds_def)

lemma sha1_length_step:
  fixes hi lo :: u32
  assumes "unat hi * 2 ^ 32 + unat lo = 8 * n" and "8 * (n + 1) < 2 ^ 64"
  shows "lo + 8 \<noteq> 0 \<Longrightarrow> unat hi * 2 ^ 32 + unat (lo + 8) = 8 * (n + 1)"
    and "lo + 8 = 0 \<Longrightarrow> hi + 1 \<noteq> 0 \<and> unat (hi + 1) * 2 ^ 32 + unat (lo + 8) = 8 * (n + 1)"
proof -
  have lo8: "unat lo mod 8 = 0"
  proof -
    have "(unat hi * 2 ^ 32 + unat lo) mod 8 = unat lo mod 8"
      by (simp add: mod_add_eq [symmetric] mod_mult_left_eq)
    with assms(1) show ?thesis by simp
  qed
  have lo_lt: "unat lo < 2 ^ 32" using unsigned_less [of lo] by simp
  with lo8 have le: "unat lo + 8 \<le> 2 ^ 32" by (simp, presburger)
  have un: "unat (lo + 8) = (unat lo + 8) mod 2 ^ 32"
    by (simp add: unat_word_ariths)
  show "unat hi * 2 ^ 32 + unat (lo + 8) = 8 * (n + 1)" if "lo + 8 \<noteq> 0"
  proof -
    have "unat lo + 8 \<noteq> 2 ^ 32" using that un unat_eq_zero [of "lo + 8"] by auto
    with le un assms(1) show ?thesis by simp
  qed
  show "hi + 1 \<noteq> 0 \<and> unat (hi + 1) * 2 ^ 32 + unat (lo + 8) = 8 * (n + 1)" if "lo + 8 = 0"
  proof -
    have *: "unat lo + 8 = 2 ^ 32"
    proof (rule ccontr)
      assume "unat lo + 8 \<noteq> 2 ^ 32"
      with le un have "unat (lo + 8) = unat lo + 8" by simp
      with that show False by simp
    qed
    with assms have "unat hi + 1 < 2 ^ 32" by simp
    then have "unat (hi + 1) = unat hi + 1"
      by (simp add: unat_word_ariths)
    moreover from this have "hi + 1 \<noteq> 0" by (metis add_is_0 one_neq_zero unat_0)
    ultimately show ?thesis using * assms(1) that by simp
  qed
qed

subsection \<open>Input keeps the invariant\<close>

lemma sha1_input_byte_holds:
  assumes h: "sha1_holds iv n0 front rest c"
    and len: "8 * (n0 + length front + length rest + 1) < 2 ^ 64"
  shows "if length rest = 63 then sha1_holds iv n0 (front @ rest @ [b]) [] (sha1_input_byte b c)
         else sha1_holds iv n0 front (rest @ [b]) (sha1_input_byte b c)"
proof -
  define c2 where "c2 = (sha1_store_byte b c)\<lparr>Length_Low := Length_Low c + 8\<rparr>"
  define c3 where "c3 = (if Length_Low c2 = 0 then c2\<lparr>Length_High := Length_High c2 + 1\<rparr> else c2)"
  have idx: "Message_Block_Index c = length rest" "length rest < 64"
    "length (Message_Block c) = 64" "take (length rest) (Message_Block c) = rest"
    and cnt: "unat (Length_High c) * 2 ^ 32 + unat (Length_Low c)
      = 8 * (n0 + length front + length rest)"
    and front: "length front mod 64 = 0" "length (Intermediate_Hash c) = 5"
      "Intermediate_Hash c = foldl fips_compress iv (full_blocks front)"
      "Computed c = 0" "Corrupted c = 0"
    using h by (auto simp: sha1_holds_def)
  note cstep = sha1_length_step [OF cnt len]
  have step: "sha1_input_byte b c
      = (if Message_Block_Index c3 = 64 then SHA1ProcessMessageBlock c3 else c3)"
    using cstep(2)
    by (auto simp: sha1_input_byte_def Let_def sha1_store_byte_def c2_def c3_def)
  have cnt3: "unat (Length_High c3) * 2 ^ 32 + unat (Length_Low c3)
      = 8 * (n0 + length front + length rest + 1)"
    using cstep by (auto simp: sha1_store_byte_def c2_def c3_def)
  have buf3: "take (length rest + 1) (Message_Block c3) = rest @ [b]"
    "length (Message_Block c3) = 64" "Message_Block_Index c3 = length rest + 1"
    using idx by (auto simp: sha1_store_byte_def take_list_update_self c2_def c3_def)
  have same: "Intermediate_Hash c3 = Intermediate_Hash c" "Computed c3 = 0" "Corrupted c3 = 0"
    using front by (auto simp: sha1_store_byte_def c2_def c3_def)
  show ?thesis
  proof (cases "length rest = 63")
    case True
    then have blk: "Message_Block c3 = rest @ [b]" using buf3 by simp
    have fb: "full_blocks (front @ rest @ [b]) = full_blocks front @ [rest @ [b]]"
      using front True by (subst full_blocks_append) auto
    have "sha1_holds iv n0 (front @ rest @ [b]) []
        (c3\<lparr>Intermediate_Hash := fips_compress (Intermediate_Hash c) (rest @ [b]),
            Message_Block_Index := 0\<rparr>)"
      unfolding sha1_holds_def using True front cnt3 buf3 same fb
      by (simp add: mod_add_eq [of "length front" 64 64, symmetric])
    moreover have "SHA1ProcessMessageBlock c3
        = c3\<lparr>Intermediate_Hash := fips_compress (Intermediate_Hash c) (rest @ [b]),
            Message_Block_Index := 0\<rparr>"
      using front same blk by (simp add: SHA1ProcessMessageBlock_fips)
    ultimately show ?thesis using True buf3 step by simp
  next
    case False
    have "sha1_holds iv n0 front (rest @ [b]) c3"
      unfolding sha1_holds_def using False idx front cnt3 buf3 same by simp
    then show ?thesis using False idx buf3 step by simp
  qed
qed

lemma sha1_input_byte_absorbed:
  assumes "sha1_absorbed iv n0 m c" and "8 * (n0 + length m + 1) < 2 ^ 64"
  shows "sha1_absorbed iv n0 (m @ [b]) (sha1_input_byte b c)"
proof -
  from assms(1) obtain front rest where m: "m = front @ rest" and h: "sha1_holds iv n0 front rest c"
    by (auto simp: sha1_absorbed_def)
  have "8 * (n0 + length front + length rest + 1) < 2 ^ 64" using assms(2) m by simp
  note step = sha1_input_byte_holds [OF h this, of b]
  show ?thesis
  proof (cases "length rest = 63")
    case True
    with step m show ?thesis
      unfolding sha1_absorbed_def by (intro exI [of _ "front @ rest @ [b]"] exI [of _ "[]"]) simp
  next
    case False
    with step m show ?thesis
      unfolding sha1_absorbed_def by (intro exI [of _ front] exI [of _ "rest @ [b]"]) simp
  qed
qed

lemma sha1_input_loop_absorbed:
  "sha1_absorbed iv n0 m c \<Longrightarrow> 8 * (n0 + length m + length bs) < 2 ^ 64 \<Longrightarrow>
   sha1_absorbed iv n0 (m @ bs) (sha1_input_loop bs c)"
proof (induction bs arbitrary: m c)
  case Nil
  then show ?case by simp
next
  case (Cons b bs)
  have "sha1_absorbed iv n0 (m @ [b]) (sha1_input_byte b c)"
    using Cons.prems by (intro sha1_input_byte_absorbed) auto
  then have "sha1_absorbed iv n0 ((m @ [b]) @ bs) (sha1_input_loop bs (sha1_input_byte b c))"
    using Cons.prems by (intro Cons.IH) auto
  then show ?case using sha1_absorbed_flags [OF Cons.prems(1)] by simp
qed

lemma SHA1Input_absorbed:
  assumes "sha1_absorbed iv n0 m c" and "8 * (n0 + length m + length bs) < 2 ^ 64"
  obtains c' where "SHA1Input (Some c) (Some bs) (length bs) = (shaSuccess, Some c')"
    and "sha1_absorbed iv n0 (m @ bs) c'"
proof (cases "bs = []")
  case True
  with assms that [of c] show ?thesis by (simp add: SHA1Input_def)
next
  case False
  with assms that [of "sha1_input_loop bs c"] sha1_input_loop_absorbed [OF assms]
    sha1_absorbed_flags [OF assms(1)]
  show ?thesis by (simp add: SHA1Input_def)
qed

lemma SHA1Reset_absorbed:
  assumes "length (Message_Block c) = 64"
  obtains c' where "SHA1Reset (Some c) = (shaSuccess, Some c')"
    and "sha1_absorbed sha1_init 0 [] c'"
proof
  show "SHA1Reset (Some c) = (shaSuccess, Some (the (snd (SHA1Reset (Some c)))))"
    by (simp add: SHA1Reset_def)
  show "sha1_absorbed sha1_init 0 [] (the (snd (SHA1Reset (Some c))))"
    using assms by (auto simp: SHA1Reset_def sha1_absorbed_def sha1_holds_def sha1_init_def)
qed

subsection \<open>Padding and the result\<close>

lemma sha1_zero_until_eq:
  "length (Message_Block c) = 64 \<Longrightarrow> Message_Block_Index c \<le> n \<Longrightarrow> n \<le> 64 \<Longrightarrow>
   sha1_zero_until n c =
     c\<lparr>Message_Block := take (Message_Block_Index c) (Message_Block c)
          @ replicate (n - Message_Block_Index c) 0 @ drop n (Message_Block c),
       Message_Block_Index := n\<rparr>"
proof (induction n c rule: sha1_zero_until.induct)
  case (1 n c)
  show ?case
  proof (cases "Message_Block_Index c < n")
    case True
    let ?d = "sha1_store_byte 0 c"
    have "sha1_zero_until n ?d =
       ?d\<lparr>Message_Block := take (Message_Block_Index ?d) (Message_Block ?d)
          @ replicate (n - Message_Block_Index ?d) 0 @ drop n (Message_Block ?d),
          Message_Block_Index := n\<rparr>"
      by (rule "1.IH") (use True "1.prems" in \<open>auto simp: sha1_store_byte_def\<close>)
    moreover have "replicate (n - Message_Block_Index c) (0 :: u8)
        = 0 # replicate (n - Suc (Message_Block_Index c)) 0"
      using True by (metis Suc_diff_Suc replicate_Suc)
    ultimately show ?thesis
      using True "1.prems"
      by (simp add: sha1_zero_until.simps [of n c] sha1_store_byte_def take_list_update_self)
  next
    case False
    with "1.prems" have "Message_Block_Index c = n" by simp
    then show ?thesis by (simp add: sha1_zero_until.simps [of n c])
  qed
qed

lemma u8_of_drop_bit: "(ucast (drop_bit k (w :: u32)) :: u8) = of_nat (unat w div 2 ^ k)"
proof -
  have "(ucast (drop_bit k w) :: u8) = of_nat (unat (drop_bit k w))" by simp
  also have "unat (drop_bit k w) = unat w div 2 ^ k"
    by (simp add: unat_drop_bit_eq drop_bit_eq_div [of k "unat w"])
  finally show ?thesis .
qed

lemma be64_split:
  assumes "l < 2 ^ 32"
  shows "be64_bytes (h * 2 ^ 32 + l) =
     map (\<lambda>k. of_nat (h div 2 ^ (8 * k))) [3, 2, 1, 0] @ map (\<lambda>k. of_nat (l div 2 ^ (8 * k))) [3, 2, 1, 0]"
proof -
  let ?n = "h * 2 ^ 32 + l"
  have hi: "?n div 2 ^ (8 * (4 + k)) = h div 2 ^ (8 * k)" for k
  proof -
    have "?n div 2 ^ 32 = h" using assms by simp
    then show ?thesis
      by (simp only: distrib_left_numeral power_add div_mult2_eq) simp
  qed
  have lo: "(of_nat (?n div 2 ^ (8 * k)) :: u8) = of_nat (l div 2 ^ (8 * k))" if "k \<le> 3" for k
  proof -
    have "(2 :: nat) ^ 32 = 256 * 2 ^ (24 - 8 * k) * 2 ^ (8 * k)"
      using that by (simp add: mult.assoc flip: power_add)
    then have "?n = l + (h * (256 * 2 ^ (24 - 8 * k))) * 2 ^ (8 * k)"
      by (simp only: mult.assoc add.commute)
    then have "?n div 2 ^ (8 * k) = h * (256 * 2 ^ (24 - 8 * k)) + l div 2 ^ (8 * k)"
      by (simp only: div_mult_self1 power_not_zero zero_neq_numeral [symmetric] not_False_eq_True)
    moreover have "(256 :: u8) = 0" by simp
    ultimately show ?thesis by (simp only: of_nat_add of_nat_mult of_nat_numeral) simp
  qed
  have "be64_bytes ?n = map (\<lambda>k. of_nat (?n div 2 ^ (8 * (4 + k)))) [3, 2, 1, 0]
      @ map (\<lambda>k. of_nat (?n div 2 ^ (8 * k))) [3, 2, 1, 0]"
    by (simp add: be64_bytes_def)
  also have "map (\<lambda>k. of_nat (?n div 2 ^ (8 * k))) [3, 2, 1, 0]
      = map (\<lambda>k. of_nat (l div 2 ^ (8 * k)) :: u8) [3, 2, 1, 0]"
    by (rule map_cong [OF refl], rule lo) auto
  finally show ?thesis by (simp only: hi)
qed

lemma length_8_cases:
  assumes "length xs = 8"
  obtains a0 a1 a2 a3 a4 a5 a6 a7 where "xs = [a0, a1, a2, a3, a4, a5, a6, a7]"
  using assms by (auto simp: length_Suc_conv eval_nat_numeral)

lemma sha1_store_length_block:
  assumes "length (Message_Block c) = 64"
    and "unat (Length_High c) * 2 ^ 32 + unat (Length_Low c) = n"
  shows "Message_Block (sha1_store_length c) = take 56 (Message_Block c) @ be64_bytes n"
proof -
  let ?m = "Message_Block c"
  have split: "?m = take 56 ?m @ drop 56 ?m" by simp
  have 8: "length (drop 56 ?m) = 8" using assms by simp
  then obtain a0 a1 a2 a3 a4 a5 a6 a7 where tl: "drop 56 ?m = [a0, a1, a2, a3, a4, a5, a6, a7]"
    by (rule length_8_cases)
  have "be64_bytes n = map (\<lambda>k. ucast (drop_bit (8 * k) (Length_High c))) [3, 2, 1, 0]
      @ map (\<lambda>k. ucast (drop_bit (8 * k) (Length_Low c))) [3, 2, 1, 0]"
    using be64_split [of "unat (Length_Low c)" "unat (Length_High c)"] unsigned_less [of "Length_Low c"]
      assms(2) by (simp only: u8_of_drop_bit) simp
  moreover have "(take 56 ?m @ [a0, a1, a2, a3, a4, a5, a6, a7])
      [56 := b0, 57 := b1, 58 := b2, 59 := b3, 60 := b4, 61 := b5, 62 := b6, 63 := b7]
      = take 56 ?m @ [b0, b1, b2, b3, b4, b5, b6, b7]" for b0 b1 b2 b3 b4 b5 b6 b7
    using assms by (simp add: list_update_append)
  ultimately show ?thesis
    unfolding sha1_store_length_def using split tl by simp
qed

lemma length_be64_bytes [simp]: "length (be64_bytes n) = 8"
  by (simp add: be64_bytes_def)

lemma sha1_store_length_fields [simp]:
  "Intermediate_Hash (sha1_store_length c) = Intermediate_Hash c"
  "Length_High (sha1_store_length c) = Length_High c"
  "Length_Low (sha1_store_length c) = Length_Low c"
  by (simp_all add: sha1_store_length_def)

text \<open>The mark byte and the zeros up to \<open>n\<close>, written into the open block.\<close>

lemma sha1_mark_zeros:
  assumes h: "sha1_holds iv n0 front rest c" and n: "length rest < n" "n \<le> 64"
  defines "d \<equiv> sha1_zero_until n (sha1_store_byte 0x80 c)"
  shows "take n (Message_Block d) = rest @ [0x80] @ replicate (n - Suc (length rest)) 0"
    and "length (Message_Block d) = 64" and "Message_Block_Index d = n"
    and "Intermediate_Hash d = Intermediate_Hash c"
    and "Length_High d = Length_High c" and "Length_Low d = Length_Low c"
proof -
  let ?s = "sha1_store_byte 0x80 c"
  have idx: "Message_Block_Index c = length rest" "length (Message_Block c) = 64"
    "take (length rest) (Message_Block c) = rest"
    using h by (auto simp: sha1_holds_def)
  have s: "take (Suc (length rest)) (Message_Block ?s) = rest @ [0x80]"
    "length (Message_Block ?s) = 64" "Message_Block_Index ?s = Suc (length rest)"
    using idx n by (auto simp: sha1_store_byte_def take_list_update_self)
  have d: "d = ?s\<lparr>Message_Block := (rest @ [0x80])
      @ replicate (n - Suc (length rest)) 0 @ drop n (Message_Block ?s), Message_Block_Index := n\<rparr>"
    unfolding d_def using sha1_zero_until_eq [of ?s n] s n by simp
  have len: "length (rest @ [0x80] @ replicate (n - Suc (length rest)) 0) = n"
    using n by simp
  have blk: "Message_Block d
      = (rest @ [0x80] @ replicate (n - Suc (length rest)) 0) @ drop n (Message_Block ?s)"
    by (simp add: d)
  show "take n (Message_Block d) = rest @ [0x80] @ replicate (n - Suc (length rest)) 0"
    unfolding blk using len by (metis append_eq_conv_conj)
  show "length (Message_Block d) = 64" "Message_Block_Index d = n"
    using n s(2) by (auto simp: d)
  show "Intermediate_Hash d = Intermediate_Hash c" "Length_High d = Length_High c"
    "Length_Low d = Length_Low c"
    by (simp_all add: d sha1_store_byte_def)
qed

lemma SHA1PadMessage_hash:
  assumes h: "sha1_holds iv n0 front rest c"
  shows "Intermediate_Hash (SHA1PadMessage c) = fips_hash_from iv n0 (front @ rest)"
proof -
  let ?r = "length rest" and ?n = "8 * (n0 + length front + length rest)"
  let ?L = "be64_bytes ?n"
  have hc: "length front mod 64 = 0" "?r < 64" "length (Intermediate_Hash c) = 5"
    "Intermediate_Hash c = foldl fips_compress iv (full_blocks front)"
    "Message_Block_Index c = ?r"
    "unat (Length_High c) * 2 ^ 32 + unat (Length_Low c) = ?n"
    using h by (auto simp: sha1_holds_def)
  have pad: "full_blocks (fips_pad n0 (front @ rest)) = full_blocks front
      @ full_blocks (rest @ [0x80] @ replicate ((119 - ?r) mod 64) 0 @ ?L)"
  proof -
    have "(length front + ?r) mod 64 = ?r" using hc by (simp add: mod_add_eq [of "length front", symmetric])
    then have "fips_pad n0 (front @ rest)
        = front @ (rest @ [0x80] @ replicate ((119 - ?r) mod 64) 0 @ ?L)"
      by (simp add: fips_pad_def add.assoc)
    then show ?thesis using hc full_blocks_append by simp
  qed
  show ?thesis
  proof (cases "?r > 55")
    case False
    define d where "d = sha1_zero_until 56 (sha1_store_byte 0x80 c)"
    have r56: "?r < 56" "(56 :: nat) \<le> 64" using False by auto
    note m = sha1_mark_zeros [OF h r56, folded d_def]
    have cnt: "unat (Length_High d) * 2 ^ 32 + unat (Length_Low d) = ?n"
      using hc(6) by (simp only: m(5,6))
    have "Message_Block (sha1_store_length d) = take 56 (Message_Block d) @ ?L"
      by (rule sha1_store_length_block [OF m(2) cnt])
    then have blk: "Message_Block (sha1_store_length d) = rest @ [0x80] @ replicate (55 - ?r) 0 @ ?L"
      by (simp only: m(1)) simp
    have z: "(119 - ?r) mod 64 = 55 - ?r"
      using False by (simp add: le_mod_geq)
    have "full_blocks (fips_pad n0 (front @ rest)) = full_blocks front
        @ [rest @ [0x80] @ replicate (55 - ?r) 0 @ ?L]"
      unfolding pad z using False by simp
    then show ?thesis
      using False hc(3,4,5) m(4) blk
      by (simp add: SHA1PadMessage_def Let_def d_def [symmetric] fips_hash_from_def
          SHA1ProcessMessageBlock_fips)
  next
    case True
    define d where "d = sha1_zero_until 64 (sha1_store_byte 0x80 c)"
    define e where "e = SHA1ProcessMessageBlock d"
    define g where "g = sha1_zero_until 56 e"
    have r64: "?r < 64" "(64 :: nat) \<le> 64" using hc by auto
    note m = sha1_mark_zeros [OF h r64, folded d_def]
    have blk1: "Message_Block d = rest @ [0x80] @ replicate (63 - ?r) 0"
      using m(1,2) by simp
    have e: "e = d\<lparr>Intermediate_Hash := fips_compress (Intermediate_Hash c) (Message_Block d),
        Message_Block_Index := 0\<rparr>"
      unfolding e_def using m(4) hc(3) by (simp add: SHA1ProcessMessageBlock_fips)
    have g: "g = e\<lparr>Message_Block := replicate 56 0 @ drop 56 (Message_Block d),
        Message_Block_Index := 56\<rparr>"
      unfolding g_def using sha1_zero_until_eq [of e 56] m(2) by (simp add: e)
    have cnt: "length (Message_Block g) = 64"
      "unat (Length_High g) * 2 ^ 32 + unat (Length_Low g) = ?n"
      using hc(6) m(2,5,6) by (simp_all add: g e)
    have blk2: "Message_Block (sha1_store_length g) = replicate 56 0 @ ?L"
      unfolding sha1_store_length_block [OF cnt] by (simp add: g)
    have z: "replicate ((119 - ?r) mod 64) (0 :: u8) = replicate (63 - ?r) 0 @ replicate 56 0"
      using True hc by (simp flip: replicate_add)
    have "full_blocks ((rest @ [0x80] @ replicate (63 - ?r) 0) @ (replicate 56 0 @ ?L))
        = [rest @ [0x80] @ replicate (63 - ?r) 0, replicate 56 0 @ ?L]"
      using True hc by (subst full_blocks_append) auto
    then have "full_blocks (fips_pad n0 (front @ rest)) = full_blocks front
        @ [Message_Block d, replicate 56 0 @ ?L]"
      unfolding pad z blk1 by simp
    moreover have "Intermediate_Hash (SHA1PadMessage c)
        = fips_compress (fips_compress (Intermediate_Hash c) (Message_Block d)) (replicate 56 0 @ ?L)"
    proof -
      have "SHA1PadMessage c = SHA1ProcessMessageBlock (sha1_store_length g)"
        using True hc(5) by (simp add: SHA1PadMessage_def Let_def d_def e_def g_def)
      then show ?thesis
        using blk2 by (simp add: SHA1ProcessMessageBlock_fips g e)
    qed
    ultimately show ?thesis using hc by (simp add: fips_hash_from_def)
  qed
qed

lemma SHA1PadMessage_Corrupted [simp]: "Corrupted (SHA1PadMessage c) = Corrupted c"
proof -
  have "Corrupted (sha1_zero_until n d) = Corrupted d" for n d
    by (induction n d rule: sha1_zero_until.induct)
      (subst sha1_zero_until.simps, simp add: sha1_store_byte_def)
  then show ?thesis
    by (simp add: SHA1PadMessage_def Let_def SHA1ProcessMessageBlock_def
        sha1_store_length_def sha1_store_byte_def)
qed

lemma SHA1Result_absorbed:
  assumes "sha1_absorbed iv n0 m c"
  obtains c' where
    "SHA1Result (Some c) False = (shaSuccess, Some c', Some (fips_digest (fips_hash_from iv n0 m)))"
    and "Computed c' = 1" and "Corrupted c' = 0"
    and "Message_Block c' = replicate 64 0"
    and "Intermediate_Hash c' = fips_hash_from iv n0 m"
proof -
  from assms obtain front rest where m: "m = front @ rest" and h: "sha1_holds iv n0 front rest c"
    by (auto simp: sha1_absorbed_def)
  have z: "Computed c = 0" "Corrupted c = 0" using h by (auto simp: sha1_holds_def)
  show ?thesis
    using that [of "sha1_finish c"] z SHA1PadMessage_Corrupted [of c] SHA1PadMessage_hash [OF h] m
    by (simp add: SHA1Result_def sha1_finish_def Let_def fips_digest_def del: upt_rec_numeral)
qed

section \<open>Properties\<close>

text \<open>
  The call sequence of every user of the module (\<open>SHA1Reset\<close>, any number of \<open>SHA1Input\<close>s,
  \<open>SHA1Result\<close>), with the return codes ignored as the callers ignore them.
\<close>

definition sha1_call_input :: "u8 list \<Rightarrow> SHA1Context option \<Rightarrow> SHA1Context option" where
  "sha1_call_input bs c = snd (SHA1Input c (Some bs) (length bs))"

definition sha1_of_chunks :: "SHA1Context \<Rightarrow> u8 list list \<Rightarrow> u8 list option" where
  "sha1_of_chunks c chunks =
     snd (snd (SHA1Result (fold sha1_call_input chunks (snd (SHA1Reset (Some c)))) False))"

lemma sha1_feed_absorbed:
  "sha1_absorbed iv n0 m c \<Longrightarrow> 8 * (n0 + length m + length (concat chunks)) < 2 ^ 64 \<Longrightarrow>
   \<exists>c'. fold sha1_call_input chunks (Some c) = Some c' \<and> sha1_absorbed iv n0 (m @ concat chunks) c'"
proof (induction chunks arbitrary: m c)
  case Nil
  then show ?case by simp
next
  case (Cons b bs)
  have "8 * (n0 + length m + length b) < 2 ^ 64" using Cons.prems by simp
  then obtain c1 where c1: "SHA1Input (Some c) (Some b) (length b) = (shaSuccess, Some c1)"
    "sha1_absorbed iv n0 (m @ b) c1"
    using SHA1Input_absorbed [OF Cons.prems(1)] by blast
  moreover have "8 * (n0 + length (m @ b) + length (concat bs)) < 2 ^ 64"
    using Cons.prems(2) by simp
  ultimately show ?case using Cons.IH [of "m @ b" c1] by (simp add: sha1_call_input_def)
qed

lemma sha1_streaming_digest:
  assumes "length (Message_Block c) = 64" and "8 * length (concat chunks) < 2 ^ 64"
  shows "sha1_of_chunks c chunks = Some (sha1_spec (concat chunks))"
proof -
  obtain c0 where c0: "SHA1Reset (Some c) = (shaSuccess, Some c0)" "sha1_absorbed sha1_init 0 [] c0"
    using SHA1Reset_absorbed [OF assms(1)] by blast
  obtain c1 where c1: "fold sha1_call_input chunks (Some c0) = Some c1"
    "sha1_absorbed sha1_init 0 (concat chunks) c1"
    using sha1_feed_absorbed [OF c0(2), of chunks] assms(2) by auto
  obtain c2 where "SHA1Result (Some c1) False
      = (shaSuccess, Some c2, Some (fips_digest (fips_hash_from sha1_init 0 (concat chunks))))"
    using SHA1Result_absorbed [OF c1(2)] by blast
  then show ?thesis by (simp add: sha1_of_chunks_def c0 c1 sha1_spec_def)
qed


definition sha1_example_context :: SHA1Context where
  "sha1_example_context =
     \<lparr>Intermediate_Hash = [], Length_Low = 7, Length_High = 9, Message_Block_Index = 63,
      Message_Block = replicate 64 0xEE, Computed = 1, Corrupted = shaStateError\<rparr>"


text \<open>
  C30. The block function of the code (four loops with the constant and the Boolean function
  of their stage, the shift macro, the schedule array filled by two loops) is the
  compression function of the standard, and leaves every other field but the buffer index.
\<close>

theorem sha1_block_is_fips:
  assumes "length (Intermediate_Hash c) = 5"
  shows "SHA1ProcessMessageBlock c =
     c\<lparr>Intermediate_Hash := fips_compress (Intermediate_Hash c) (Message_Block c),
       Message_Block_Index := 0\<rparr>"
  using assms by (rule SHA1ProcessMessageBlock_fips)

theorem sha1_block_is_fips_witness:
  "SHA1ProcessMessageBlock (sha1_example_context\<lparr>Intermediate_Hash := sha1_init\<rparr>) =
     sha1_example_context\<lparr>Intermediate_Hash :=
         fips_compress sha1_init (Message_Block sha1_example_context), Message_Block_Index := 0\<rparr>"
  using sha1_block_is_fips [of "sha1_example_context\<lparr>Intermediate_Hash := sha1_init\<rparr>"]
  by (simp add: sha1_init_def)

lemma sha1_finish_done: "Computed (sha1_finish c) \<noteq> 0"
  by (simp add: sha1_finish_def)

lemma sha1_finish_idem [simp]: "sha1_finish (sha1_finish c) = sha1_finish c"
  using sha1_finish_done [of c] by (simp add: sha1_finish_def [of "sha1_finish c"])

lemma sha1_finish_Corrupted [simp]: "Corrupted (sha1_finish c) = Corrupted c"
  by (simp add: sha1_finish_def)

text \<open>
  A context whose digest was delivered keeps delivering the same digest, refuses
  further input with \<open>shaStateError\<close>, and after such an attempt answers every later request
  for the digest with \<open>shaStateError\<close> and writes nothing.
\<close>

theorem sha1_result_final:
  assumes "SHA1Result (Some c) False = (r, Some c', Some d)" and "0 < len"
  shows "SHA1Result (Some c') False = (shaSuccess, Some c', Some d)
    \<and> SHA1Input (Some c') (Some msg) len = (shaStateError, Some (c'\<lparr>Corrupted := shaStateError\<rparr>))
    \<and> SHA1Result (Some (c'\<lparr>Corrupted := shaStateError\<rparr>)) False
        = (shaStateError, Some (c'\<lparr>Corrupted := shaStateError\<rparr>), None)"
proof -
  have c': "c' = sha1_finish c" "Corrupted c = 0"
    "d = map (sha1_digest_byte (Intermediate_Hash (sha1_finish c))) [0..<20]"
    using assms(1) by (auto simp: SHA1Result_def Let_def simp del: upt_rec_numeral split: if_splits)
  have "SHA1Result (Some c') False = (shaSuccess, Some c', Some d)"
    using c' by (simp add: SHA1Result_def Let_def del: upt_rec_numeral)
  moreover have "SHA1Input (Some c') (Some msg) len
      = (shaStateError, Some (c'\<lparr>Corrupted := shaStateError\<rparr>))"
    using c' assms(2) sha1_finish_done [of c] by (simp add: SHA1Input_def)
  moreover have "SHA1Result (Some (c'\<lparr>Corrupted := shaStateError\<rparr>)) False
      = (shaStateError, Some (c'\<lparr>Corrupted := shaStateError\<rparr>), None)"
    by (simp add: SHA1Result_def)
  ultimately show ?thesis by blast
qed

theorem sha1_result_final_witness:
  "\<exists>c' d. SHA1Result (Some (sha1_example_context\<lparr>Corrupted := 0\<rparr>)) False = (shaSuccess, Some c', Some d)
     \<and> SHA1Input (Some c') (Some [1]) 1 = (shaStateError, Some (c'\<lparr>Corrupted := shaStateError\<rparr>))"
proof -
  let ?c = "sha1_example_context\<lparr>Corrupted := 0\<rparr>"
  have r: "SHA1Result (Some ?c) False = (shaSuccess, Some ?c,
      Some (map (sha1_digest_byte (Intermediate_Hash ?c)) [0..<20]))"
    by (simp add: SHA1Result_def sha1_finish_def sha1_example_context_def Let_def del: upt_rec_numeral)
  show ?thesis using r sha1_result_final [OF r zero_less_one, of "[1]"] by blast
qed

text \<open>
  When the 64-bit message length overflows, the loop marks the context with the literal
  \<open>1\<close>, the numeric value of \<open>shaNull\<close> and not of \<open>shaInputTooLong\<close>: the input call that
  overflows still returns \<open>shaSuccess\<close>, and the result is refused with \<open>shaNull\<close>.
\<close>

theorem sha1_overflow_reported_as_null:
  assumes "Length_High c = 0xFFFFFFFF" and "Length_Low c = 0xFFFFFFF8"
    and "Computed c = 0" and "Corrupted c = 0"
  shows "\<exists>c'. SHA1Input (Some c) (Some (b # bs)) (Suc n) = (shaSuccess, Some c')
           \<and> Corrupted c' = shaNull \<and> SHA1Result (Some c') False = (shaNull, Some c', None)"
proof -
  let ?d = "sha1_input_byte b c"
  have "Corrupted ?d = 1"
    using assms by (simp add: sha1_input_byte_def sha1_store_byte_def Let_def
        SHA1ProcessMessageBlock_def)
  moreover from this have "sha1_input_loop (take n bs) ?d = ?d"
    by (cases "take n bs") auto
  ultimately show ?thesis
    using assms by (simp add: SHA1Input_def SHA1Result_def)
qed

theorem sha1_overflow_reported_as_null_witness:
  "\<exists>c'. SHA1Input (Some (sha1_example_context\<lparr>Length_High := 0xFFFFFFFF, Length_Low := 0xFFFFFFF8,
          Computed := 0, Corrupted := 0\<rparr>)) (Some [5, 6]) 2 = (shaSuccess, Some c')
     \<and> Corrupted c' = shaNull \<and> SHA1Result (Some c') False = (shaNull, Some c', None)"
  using sha1_overflow_reported_as_null [of "sha1_example_context\<lparr>Length_High := 0xFFFFFFFF,
      Length_Low := 0xFFFFFFF8, Computed := 0, Corrupted := 0\<rparr>" 5 "[6]" 1]
  by (simp add: numeral_2_eq_2)

end
