(* ===== verification/Rc4.thy ===== *)
theory Rc4
  imports CromwellBase "HOL-Library.Multiset"
begin

text \<open>
  The RC4 cipher of \<open>lib/crypt/rc4.c\<close>: \<open>rc4_prepare_key\<close> and \<open>rc4_crypt\<close> on the key record,
  with the permutation invariant of the state, the keystream view of the cipher and the
  round trip.
\<close>

section \<open>The code\<close>

record rc4_key =
  rc4_state :: "u8 list"
  rc4_x :: u8
  rc4_y :: u8

definition swap_byte :: "u8 list \<Rightarrow> u8 \<Rightarrow> u8 \<Rightarrow> u8 list" where
  "swap_byte st a b = st[unat a := st ! unat b, unat b := st ! unat a]"

text \<open>
  The second loop of \<open>rc4_prepare_key\<close>: \<open>index1\<close> is an \<open>unsigned char\<close>, so
  \<open>(index1 + 1) % key_data_len\<close> is cut to eight bits; \<open>index2\<close> is summed modulo 256.
\<close>

definition rc4_schedule_step :: "u8 list \<Rightarrow> nat \<Rightarrow> u8 list \<times> u8 \<times> u8 \<Rightarrow> u8 list \<times> u8 \<times> u8" where
  "rc4_schedule_step key counter = (\<lambda>(st, index1, index2).
     let index2' = key ! unat index1 + st ! counter + index2;
         st' = swap_byte st (of_nat counter) index2';
         index1' = of_nat ((unat index1 + 1) mod length key)
     in (st', index1', index2'))"

definition rc4_identity :: "u8 list" where
  "rc4_identity = map of_nat [0..<256]"

text \<open>\<open>None\<close>: with \<open>key_data_len = 0\<close> the modulo traps.\<close>

definition rc4_prepare_key :: "u8 list \<Rightarrow> rc4_key option" where
  "rc4_prepare_key key =
     (if key = [] then None
      else case fold (rc4_schedule_step key) [0..<256] (rc4_identity, 0, 0) of
        (st, index1, index2) \<Rightarrow> Some \<lparr>rc4_state = st, rc4_x = 0, rc4_y = 0\<rparr>)"

definition rc4_step :: "rc4_key \<Rightarrow> u8 \<times> rc4_key" where
  "rc4_step k =
     (let x = rc4_x k + 1;
          y = rc4_state k ! unat x + rc4_y k;
          st = swap_byte (rc4_state k) x y;
          xorIndex = st ! unat x + st ! unat y
      in (st ! unat xorIndex, \<lparr>rc4_state = st, rc4_x = x, rc4_y = y\<rparr>))"

fun rc4_crypt :: "u8 list \<Rightarrow> rc4_key \<Rightarrow> u8 list \<times> rc4_key" where
  "rc4_crypt [] k = ([], k)"
| "rc4_crypt (b # bs) k =
     (let (s, k') = rc4_step k; (cs, k'') = rc4_crypt bs k' in ((b XOR s) # cs, k''))"

section \<open>The state is a permutation of the byte values\<close>

definition rc4_permutation :: "u8 list \<Rightarrow> bool" where
  "rc4_permutation st \<longleftrightarrow> mset st = mset rc4_identity"

lemma rc4_permutation_length: "rc4_permutation st \<Longrightarrow> length st = 256"
  unfolding rc4_permutation_def by (metis length_map length_upt mset_eq_length rc4_identity_def diff_zero)

lemma unat_u8_less [simp]: "unat (b :: u8) < 256"
  using unsigned_less [of b] by simp

lemma rc4_permutation_swap:
  assumes "rc4_permutation st"
  shows "rc4_permutation (swap_byte st a b)"
  using assms rc4_permutation_length [OF assms]
  unfolding rc4_permutation_def swap_byte_def by (simp add: mset_swap)

lemma rc4_identity_permutation [simp]: "rc4_permutation rc4_identity"
  by (simp add: rc4_permutation_def)

lemma rc4_permutation_iff:
  "rc4_permutation st \<longleftrightarrow> length st = 256 \<and> distinct st"
proof -
  have id: "distinct rc4_identity" "set rc4_identity = UNIV" "length rc4_identity = 256"
  proof -
    show "distinct rc4_identity"
      unfolding rc4_identity_def
      by (auto simp: distinct_map inj_on_def word_of_nat_eq_iff take_bit_nat_eq_self)
    show "set rc4_identity = UNIV"
    proof (intro set_eqI iffI UNIV_I)
      fix b :: u8 assume "b \<in> UNIV"
      have "b = of_nat (unat b)" "unat b \<in> {0..<256}" by simp_all
      then show "b \<in> set rc4_identity"
        unfolding rc4_identity_def set_map set_upt by (rule image_eqI)
    qed
    show "length rc4_identity = 256" by (simp add: rc4_identity_def)
  qed
  show ?thesis
  proof
    assume "rc4_permutation st"
    then show "length st = 256 \<and> distinct st"
      using id by (metis rc4_permutation_def rc4_permutation_length distinct_count_atmost_1 set_mset_mset
          mset_eq_setD)
  next
    assume st: "length st = 256 \<and> distinct st"
    then have "card (set st) = CARD(u8)" by (simp add: distinct_card card_word)
    then have "set st = UNIV" by (intro card_subset_eq) auto
    with st id show "rc4_permutation st"
      unfolding rc4_permutation_def by (metis set_eq_iff_mset_eq_distinct)
  qed
qed

lemma rc4_schedule_permutation:
  "rc4_permutation (fst s) \<Longrightarrow> rc4_permutation (fst (fold (rc4_schedule_step key) cs s))"
proof (induction cs arbitrary: s)
  case (Cons c cs)
  have "rc4_permutation (fst (rc4_schedule_step key c s))"
    using Cons.prems by (cases s) (simp add: rc4_schedule_step_def Let_def rc4_permutation_swap)
  then show ?case using Cons.IH by simp
qed simp

lemma rc4_prepare_key_permutation:
  "rc4_prepare_key key = Some k \<Longrightarrow> rc4_permutation (rc4_state k)"
  using rc4_schedule_permutation [of "(rc4_identity, 0, 0)" key "[0..<256]"]
  by (auto simp: rc4_prepare_key_def simp del: upt_rec_numeral split: if_splits prod.splits)

lemma rc4_step_permutation:
  "rc4_permutation (rc4_state k) \<Longrightarrow> rc4_permutation (rc4_state (snd (rc4_step k)))"
  by (simp add: rc4_step_def Let_def rc4_permutation_swap)

lemma rc4_crypt_permutation:
  "rc4_permutation (rc4_state k) \<Longrightarrow> rc4_permutation (rc4_state (snd (rc4_crypt bs k)))"
  by (induction bs arbitrary: k) (simp_all add: Let_def split_def rc4_step_permutation)

section \<open>The cipher as a keystream\<close>

fun rc4_keystream :: "nat \<Rightarrow> rc4_key \<Rightarrow> u8 list" where
  "rc4_keystream 0 k = []"
| "rc4_keystream (Suc n) k = fst (rc4_step k) # rc4_keystream n (snd (rc4_step k))"

fun rc4_advance :: "nat \<Rightarrow> rc4_key \<Rightarrow> rc4_key" where
  "rc4_advance 0 k = k"
| "rc4_advance (Suc n) k = rc4_advance n (snd (rc4_step k))"

lemma length_rc4_keystream [simp]: "length (rc4_keystream n k) = n"
  by (induction n arbitrary: k) auto

lemma rc4_crypt_keystream:
  "rc4_crypt bs k = (map2 (XOR) bs (rc4_keystream (length bs) k), rc4_advance (length bs) k)"
  by (induction bs arbitrary: k) (auto simp: Let_def split: prod.splits)

lemma rc4_keystream_add:
  "rc4_keystream (m + n) k = rc4_keystream m k @ rc4_keystream n (rc4_advance m k)"
  by (induction m arbitrary: k) auto

lemma rc4_advance_add: "rc4_advance (m + n) k = rc4_advance n (rc4_advance m k)"
  by (induction m arbitrary: k) auto

lemma rc4_crypt_length [simp]: "length (fst (rc4_crypt bs k)) = length bs"
  by (simp add: rc4_crypt_keystream)

lemma rc4_crypt_append:
  "rc4_crypt (as @ bs) k =
     (fst (rc4_crypt as k) @ fst (rc4_crypt bs (snd (rc4_crypt as k))),
      snd (rc4_crypt bs (snd (rc4_crypt as k))))"
  by (simp add: rc4_crypt_keystream rc4_keystream_add rc4_advance_add zip_append)

lemma map2_xor_twice:
  "length bs \<le> length ks \<Longrightarrow> map2 (XOR) (map2 (XOR) bs ks) ks = (bs :: u8 list)"
proof (induction bs arbitrary: ks)
  case (Cons b bs)
  then show ?case by (cases ks) (auto simp: xor.assoc)
qed simp

lemma rc4_crypt_twice:
  "rc4_crypt (fst (rc4_crypt bs k)) k = (bs, snd (rc4_crypt bs k))"
  by (simp add: rc4_crypt_keystream map2_xor_twice)

section \<open>Properties\<close>

text \<open>
  The RC4 state set up from any non-empty key, and the state after encrypting any
  buffers with it, is a permutation of the 256 byte values, so no table access leaves the
  array and no value is lost by the swaps.
\<close>

theorem rc4_state_permutation:
  assumes "rc4_prepare_key key = Some k"
  shows "let st = rc4_state (fold (\<lambda>b k. snd (rc4_crypt b k)) bufs k)
         in length st = 256 \<and> distinct st"
proof -
  have "rc4_permutation (rc4_state (fold (\<lambda>b k. snd (rc4_crypt b k)) bufs k))"
    using rc4_prepare_key_permutation [OF assms]
    by (induction bufs arbitrary: k) (auto simp: rc4_crypt_permutation)
  then show ?thesis by (simp add: rc4_permutation_iff Let_def)
qed

theorem rc4_state_permutation_witness:
  "\<exists>k. rc4_prepare_key [0x4B] = Some k
     \<and> length (rc4_state (snd (rc4_crypt [1, 2, 3] k))) = 256
     \<and> distinct (rc4_state (snd (rc4_crypt [1, 2, 3] k)))"
proof -
  obtain k where k: "rc4_prepare_key [0x4B] = Some k"
    unfolding rc4_prepare_key_def split_def by (simp del: upt_rec_numeral)
  from rc4_state_permutation [OF k, of "[[1, 2, 3]]"] k show ?thesis by (simp add: Let_def)
qed


end
