(* ===== verification/HddKey.thy ===== *)
theory HddKey
  imports Sha1 Rc4
begin

text \<open>
  The keyed hashes and the recovery of the hard-disk key from the EEPROM of
  \<open>drivers/ide/BootHddKey.c\<close>: \<open>HMAC_SHA1\<close>, the two midstate resets, \<open>HMAC_hdd_calculation\<close>
  with its digest written into the message block it then hashes, and
  \<open>BootHddKeyGenerateEepromKeyData\<close>. A local \<open>SHA1Context\<close> starts with whatever its stack
  frame held; it is an argument of the definitions.
\<close>

section \<open>The code\<close>

subsection \<open>HMAC\<close>

text \<open>\<open>state1\<close>/\<open>state2\<close>: the pad byte beyond the key, the masked key before.\<close>

definition hmac_pad :: "u8 \<Rightarrow> u8 list \<Rightarrow> u8 list" where
  "hmac_pad p key = map (\<lambda>i. if i \<ge> length key then p else key ! i XOR p) [0..<64]"

definition sha1_digest_of :: "SHA1Context option \<Rightarrow> u8 list" where
  "sha1_digest_of c = the (snd (snd (SHA1Result c False)))"

definition sha1_result_context :: "SHA1Context option \<Rightarrow> SHA1Context option" where
  "sha1_result_context c = fst (snd (SHA1Result c False))"

definition sha1_reset_of :: "SHA1Context option \<Rightarrow> SHA1Context option" where
  "sha1_reset_of c = snd (SHA1Reset c)"

definition HMAC_SHA1 :: "SHA1Context \<Rightarrow> u8 list \<Rightarrow> u8 list \<Rightarrow> u8 list \<Rightarrow> u8 list" where
  "HMAC_SHA1 context key text1 text2 =
     (let c1 = sha1_reset_of (Some context);
          c2 = sha1_call_input (hmac_pad 0x36 key) c1;
          c3 = sha1_call_input text1 c2;
          c4 = sha1_call_input text2 c3;
          c5 = sha1_result_context c4;
          state2 = hmac_pad 0x5C key @ sha1_digest_of c4;
          c6 = sha1_reset_of c5;
          c7 = sha1_call_input state2 c6
      in sha1_digest_of c7)"

subsection \<open>The midstates of the hard-disk hash\<close>

definition hdd_iv1 :: "nat \<Rightarrow> u32 list \<Rightarrow> u32 list" where
  "hdd_iv1 version H =
     (if version = 9 then [0x85F9E51A, 0xE04613D2, 0x6D86A50C, 0x77C32E3C, 0x4BD717A4]
      else if version = 10 then [0x72127625, 0x336472B9, 0xBE609BEA, 0xF55E226B, 0x99958DAC]
      else if version = 11 then [0x39B06E79, 0xC9BD25E8, 0xDBC6B498, 0x40B4389D, 0x86BBD7ED]
      else if version = 12 then [0x8058763a, 0xf97d4e0e, 0x865a9762, 0x8a3d920d, 0x08995b2c]
      else H)"

definition hdd_iv2 :: "nat \<Rightarrow> u32 list \<Rightarrow> u32 list" where
  "hdd_iv2 version H =
     (if version = 9 then [0x5D7A9C6B, 0xE1922BEB, 0xB82CCDBC, 0x3137AB34, 0x486B52B3]
      else if version = 10 then [0x76441D41, 0x4DE82659, 0x2E8EF85E, 0xB256FACA, 0xC4FE2DE8]
      else if version = 11 then [0x9B49BED3, 0x84B430FC, 0x6B8749CD, 0xEBFE5FE5, 0xD96E7393]
      else if version = 12 then [0x01075307, 0xa2f1e037, 0x1186eeea, 0x88da9992, 0x168a5609]
      else H)"

definition HMAC1hddReset :: "nat \<Rightarrow> SHA1Context \<Rightarrow> SHA1Context" where
  "HMAC1hddReset version context =
     (let c = the (sha1_reset_of (Some context))
      in c\<lparr>Intermediate_Hash := hdd_iv1 version (Intermediate_Hash c), Length_Low := 512\<rparr>)"

definition HMAC2hddReset :: "nat \<Rightarrow> SHA1Context \<Rightarrow> SHA1Context" where
  "HMAC2hddReset version context =
     (let c = the (sha1_reset_of (Some context))
      in c\<lparr>Intermediate_Hash := hdd_iv2 version (Intermediate_Hash c), Length_Low := 512\<rparr>)"

text \<open>
  \<open>SHA1Input(&context, &context.Message_Block[0], n)\<close>: the bytes come from the buffer the
  call itself writes; the \<open>j\<close>-th is read when it is its turn.
\<close>

fun sha1_input_self :: "nat \<Rightarrow> nat \<Rightarrow> SHA1Context \<Rightarrow> SHA1Context" where
  "sha1_input_self 0 j c = c"
| "sha1_input_self (Suc n) j c =
     (if Corrupted c \<noteq> 0 then c
      else sha1_input_self n (Suc j) (sha1_input_byte (Message_Block c ! j) c))"

text \<open>\<open>SHA1Result(&context, &context.Message_Block[0])\<close> leaves the digest in the block.\<close>

definition sha1_result_in_block :: "SHA1Context \<Rightarrow> SHA1Context" where
  "sha1_result_in_block c =
     (let c' = the (sha1_result_context (Some c))
      in c'\<lparr>Message_Block := sha1_digest_of (Some c) @ drop 20 (Message_Block c')\<rparr>)"

definition HMAC_hdd_calculation :: "SHA1Context \<Rightarrow> nat \<Rightarrow> u8 list list \<Rightarrow> u8 list" where
  "HMAC_hdd_calculation context version buffers =
     (let c1 = HMAC1hddReset version context;
          c2 = the (fold sha1_call_input buffers (Some c1));
          c3 = sha1_result_in_block c2;
          c4 = HMAC2hddReset version c3;
          c5 = sha1_input_self 0x14 0 c4
      in sha1_digest_of (Some c5))"

subsection \<open>The strings of an IDE identification\<close>

text \<open>
  \<open>copy_swap_trim\<close> works on memory, since callers pass the same pointer twice. The first
  loop swaps byte pairs; the second scans down from the end for a byte that is no blank and
  ends the string behind it.
\<close>

function swap_pairs :: "nat \<Rightarrow> nat \<Rightarrow> u32 \<Rightarrow> u32 \<Rightarrow> mem \<Rightarrow> mem" where
  "swap_pairs i len dst src m =
     (if i < len
      then let tmp = m (src + of_nat i);
               m1 = m(dst + of_nat i := m (src + of_nat (i + 1)));
               m2 = m1(dst + of_nat (i + 1) := tmp)
           in swap_pairs (i + 2) len dst src m2
      else m)"
  by pat_completeness auto
termination
  by (relation "measure (\<lambda>(i, len, _). len - i)") auto

declare swap_pairs.simps [simp del]

fun trim_blanks :: "nat \<Rightarrow> u32 \<Rightarrow> mem \<Rightarrow> nat \<times> mem" where
  "trim_blanks 0 dst m = (0, m)"
| "trim_blanks (Suc i) dst m =
     (if m (dst + of_nat i) \<noteq> 0x20 then (Suc i, m(dst + of_nat (Suc i) := 0))
      else trim_blanks i dst m)"

definition copy_swap_trim :: "u32 \<Rightarrow> u32 \<Rightarrow> nat \<Rightarrow> mem \<Rightarrow> nat \<times> mem" where
  "copy_swap_trim dst src len m = trim_blanks len dst (swap_pairs 0 len dst src m)"

subsection \<open>The key from the EEPROM\<close>

definition hdd_try :: "SHA1Context \<Rightarrow> nat \<Rightarrow> u8 list \<Rightarrow> u8 list \<times> u8 list" where
  "hdd_try context version data =
     (let baKeyHash = HMAC_hdd_calculation context version [take 20 data];
          k0 = the (rc4_prepare_key baKeyHash);
          (confounder, k1) = rc4_crypt (take 8 (drop 20 data)) k0;
          (real, k2) = rc4_crypt (take 20 (drop 28 data)) k1;
          baDataHashConfirm = HMAC_hdd_calculation context version [confounder, real]
      in (take 20 data @ confounder @ real, baDataHashConfirm))"

fun hdd_versions :: "SHA1Context \<Rightarrow> u8 list \<Rightarrow> nat list \<Rightarrow> u8 list \<Rightarrow> nat \<times> u8 list" where
  "hdd_versions context data [] copy = (0, copy)"
| "hdd_versions context data (counter # cs) copy =
     (case hdd_try context counter data of
        (copy', confirm) \<Rightarrow>
          if take 0x14 copy' = confirm then (counter, copy')
          else hdd_versions context data cs copy')"

definition BootHddKeyGenerateEepromKeyData :: "SHA1Context \<Rightarrow> u8 list \<Rightarrow> nat \<times> u8 list" where
  "BootHddKeyGenerateEepromKeyData context data =
     (case hdd_versions context data [9, 10, 11, 12] [] of
        (version, copy) \<Rightarrow> (version, take 16 (drop 28 copy)))"

section \<open>HMAC\<close>

definition hmac_spec :: "u8 list \<Rightarrow> u8 list \<Rightarrow> u8 list" where
  "hmac_spec key msg =
     (let k = key @ replicate (64 - length key) 0
      in sha1_spec (map (\<lambda>b. b XOR 0x5C) k @ sha1_spec (map (\<lambda>b. b XOR 0x36) k @ msg)))"

lemma hmac_pad_map:
  assumes "length key \<le> 64"
  shows "hmac_pad p key = map (\<lambda>b. b XOR p) (key @ replicate (64 - length key) 0)"
  by (rule nth_equalityI) (use assms in \<open>auto simp: hmac_pad_def nth_append simp del: upt_rec_numeral\<close>)

lemma length_hmac_pad [simp]: "length (hmac_pad p key) = 64"
  by (simp add: hmac_pad_def)

lemma sha1_reset_absorbed:
  assumes "length (Message_Block c) = 64"
  shows "\<exists>c'. sha1_reset_of (Some c) = Some c' \<and> sha1_absorbed sha1_init 0 [] c'"
  using SHA1Reset_absorbed [OF assms] by (metis sha1_reset_of_def snd_conv)

lemma sha1_result_absorbed:
  assumes "sha1_absorbed iv n0 m c"
  shows "sha1_digest_of (Some c) = fips_digest (fips_hash_from iv n0 m)
    \<and> (\<exists>c'. sha1_result_context (Some c) = Some c' \<and> length (Message_Block c') = 64)"
proof -
  obtain c' where "SHA1Result (Some c) False
      = (shaSuccess, Some c', Some (fips_digest (fips_hash_from iv n0 m)))"
    "Message_Block c' = replicate 64 0"
    using SHA1Result_absorbed [OF assms] by blast
  then show ?thesis by (simp add: sha1_digest_of_def sha1_result_context_def del: replicate_Suc)
qed

lemma sha1_call_input_absorbed:
  assumes "sha1_absorbed iv n0 m c" "8 * (n0 + length m + length bs) < 2 ^ 64"
  shows "\<exists>c'. sha1_call_input bs (Some c) = Some c' \<and> sha1_absorbed iv n0 (m @ bs) c'"
  using SHA1Input_absorbed [OF assms] by (metis sha1_call_input_def snd_conv)

lemma HMAC_SHA1_hmac:
  assumes c: "length (Message_Block c) = 64" and k: "length key \<le> 64"
    and l: "8 * (64 + length text1 + length text2) < 2 ^ 64"
  shows "HMAC_SHA1 c key text1 text2 = hmac_spec key (text1 @ text2)"
proof -
  obtain c1 where c1: "sha1_reset_of (Some c) = Some c1" "sha1_absorbed sha1_init 0 [] c1"
    using sha1_reset_absorbed [OF c] by blast
  obtain c2 where c2: "sha1_call_input (hmac_pad 0x36 key) (Some c1) = Some c2"
    "sha1_absorbed sha1_init 0 (hmac_pad 0x36 key) c2"
    using sha1_call_input_absorbed [OF c1(2), of "hmac_pad 0x36 key"] by auto
  obtain c3 where c3: "sha1_call_input text1 (Some c2) = Some c3"
    "sha1_absorbed sha1_init 0 (hmac_pad 0x36 key @ text1) c3"
    using sha1_call_input_absorbed [OF c2(2), of text1] l by auto
  obtain c4 where c4: "sha1_call_input text2 (Some c3) = Some c4"
    "sha1_absorbed sha1_init 0 ((hmac_pad 0x36 key @ text1) @ text2) c4"
    using sha1_call_input_absorbed [OF c3(2), of text2] l by auto
  obtain c5 where c5: "sha1_result_context (Some c4) = Some c5" "length (Message_Block c5) = 64"
    "sha1_digest_of (Some c4) = sha1_spec (hmac_pad 0x36 key @ text1 @ text2)"
    using sha1_result_absorbed [OF c4(2)] by (auto simp: sha1_spec_def)
  obtain c6 where c6: "sha1_reset_of (Some c5) = Some c6" "sha1_absorbed sha1_init 0 [] c6"
    using sha1_reset_absorbed [OF c5(2)] by blast
  let ?s2 = "hmac_pad 0x5C key @ sha1_spec (hmac_pad 0x36 key @ text1 @ text2)"
  obtain c7 where c7: "sha1_call_input ?s2 (Some c6) = Some c7" "sha1_absorbed sha1_init 0 ?s2 c7"
    using sha1_call_input_absorbed [OF c6(2), of ?s2] by auto
  have "sha1_digest_of (Some c7) = sha1_spec ?s2"
    using sha1_result_absorbed [OF c7(2)] by (simp only: sha1_spec_def)
  then have "HMAC_SHA1 c key text1 text2 = sha1_spec ?s2"
    by (simp only: HMAC_SHA1_def Let_def c1 c2 c3 c4 c5 c6 c7)
  then show ?thesis by (simp add: hmac_spec_def hmac_pad_map [OF k] Let_def)
qed

section \<open>The hard-disk hash\<close>

definition hdd_hash :: "nat \<Rightarrow> u8 list \<Rightarrow> u8 list" where
  "hdd_hash version msg =
     fips_digest (fips_hash_from (hdd_iv2 version sha1_init) 64
       (fips_digest (fips_hash_from (hdd_iv1 version sha1_init) 64 msg)))"

lemma length_hdd_iv [simp]:
  "length (hdd_iv1 v sha1_init) = 5" "length (hdd_iv2 v sha1_init) = 5"
  by (simp_all add: hdd_iv1_def hdd_iv2_def sha1_init_def)

lemma hdd_reset_absorbed:
  assumes "length (Message_Block c) = 64"
  shows "sha1_absorbed (hdd_iv1 v sha1_init) 64 [] (HMAC1hddReset v c)"
    and "sha1_holds (hdd_iv2 v sha1_init) 64 [] [] (HMAC2hddReset v c)"
  using assms length_hdd_iv [of v]
  by (auto simp: HMAC1hddReset_def HMAC2hddReset_def sha1_reset_of_def SHA1Reset_def Let_def
      sha1_absorbed_def sha1_holds_def simp del: length_hdd_iv)

lemma HMAC2hddReset_block [simp]: "Message_Block (HMAC2hddReset v c) = Message_Block c"
  by (simp add: HMAC2hddReset_def sha1_reset_of_def SHA1Reset_def Let_def)

lemma sha1_input_self_holds:
  "sha1_holds iv n0 [] (take j mb) c \<Longrightarrow> Message_Block c = mb \<Longrightarrow> j + n < 64 \<Longrightarrow>
   8 * (n0 + j + n) < 2 ^ 64 \<Longrightarrow>
   sha1_holds iv n0 [] (take (j + n) mb) (sha1_input_self n j c)"
proof (induction n arbitrary: j c)
  case 0
  then show ?case by simp
next
  case (Suc n)
  let ?c = "sha1_input_byte (mb ! j) c"
  have h: "length mb = 64" "Message_Block_Index c = j" "Corrupted c = 0"
    using Suc.prems by (auto simp: sha1_holds_def)
  have len: "8 * (n0 + length ([] :: u8 list) + length (take j mb) + 1) < 2 ^ 64"
    using Suc.prems h by simp
  have "sha1_holds iv n0 [] (take j mb @ [mb ! j]) ?c"
    using sha1_input_byte_holds [OF Suc.prems(1) len, of "mb ! j"] Suc.prems h by simp
  then have step: "sha1_holds iv n0 [] (take (Suc j) mb) ?c"
    using h Suc.prems by (simp add: take_Suc_conv_app_nth)
  have "Message_Block ?c = mb"
    using Suc.prems h
    by (simp add: sha1_input_byte_def Let_def sha1_store_byte_def SHA1ProcessMessageBlock_def)
  with Suc.IH [OF step] Suc.prems h show ?case by simp
qed

lemma HMAC_hdd_calculation_hash:
  assumes c: "length (Message_Block c) = 64"
    and len: "8 * (64 + length (concat bufs)) < 2 ^ 64"
  shows "HMAC_hdd_calculation c version bufs = hdd_hash version (concat bufs)"
proof -
  obtain c2 where c2: "fold sha1_call_input bufs (Some (HMAC1hddReset version c)) = Some c2"
    "sha1_absorbed (hdd_iv1 version sha1_init) 64 (concat bufs) c2"
    using sha1_feed_absorbed [OF hdd_reset_absorbed(1) [OF c], of bufs] len by auto
  let ?d = "fips_digest (fips_hash_from (hdd_iv1 version sha1_init) 64 (concat bufs))"
  obtain c3 where c3: "sha1_result_context (Some c2) = Some c3" "length (Message_Block c3) = 64"
    "sha1_digest_of (Some c2) = ?d"
    using sha1_result_absorbed [OF c2(2)] by blast
  define c4 where "c4 = HMAC2hddReset version (sha1_result_in_block c2)"
  have blk: "Message_Block c4 = ?d @ drop 20 (Message_Block c3)"
    by (simp add: c4_def sha1_result_in_block_def Let_def c3)
  have "length (Message_Block (sha1_result_in_block c2)) = 64"
    by (simp add: sha1_result_in_block_def Let_def c3)
  then have "sha1_holds (hdd_iv2 version sha1_init) 64 [] (take 0 (Message_Block c4)) c4"
    unfolding c4_def by (simp add: hdd_reset_absorbed(2))
  from sha1_input_self_holds [OF this refl, of 20] blk
  have "sha1_holds (hdd_iv2 version sha1_init) 64 [] ?d (sha1_input_self 20 0 c4)"
    by simp
  then have "sha1_absorbed (hdd_iv2 version sha1_init) 64 ?d (sha1_input_self 20 0 c4)"
    unfolding sha1_absorbed_def by fastforce
  from sha1_result_absorbed [OF this]
  have "sha1_digest_of (Some (sha1_input_self 20 0 c4)) = hdd_hash version (concat bufs)"
    by (simp only: hdd_hash_def)
  then show ?thesis
    by (simp add: HMAC_hdd_calculation_def Let_def c2 c4_def [symmetric])
qed

lemma length_hdd_hash [simp]: "length (hdd_hash v m) = 20"
  by (simp add: hdd_hash_def)

section \<open>Sealing and opening the key block\<close>

text \<open>
  The data an EEPROM of a given version holds: the hash of the confounder and of the 20
  bytes of key and region, and both encrypted with the key derived from that hash.
\<close>

definition hdd_rc4 :: "nat \<Rightarrow> u8 list \<Rightarrow> rc4_key" where
  "hdd_rc4 version hash = the (rc4_prepare_key (hdd_hash version hash))"

definition hdd_seal :: "nat \<Rightarrow> u8 list \<Rightarrow> u8 list \<Rightarrow> u8 list" where
  "hdd_seal version confounder real =
     (let hash = hdd_hash version (confounder @ real)
      in hash @ fst (rc4_crypt (confounder @ real) (hdd_rc4 version hash)))"

definition hdd_accepts :: "nat \<Rightarrow> u8 list \<Rightarrow> bool" where
  "hdd_accepts version data \<longleftrightarrow>
     take 20 data = hdd_hash version
       (fst (rc4_crypt (take 28 (drop 20 data)) (hdd_rc4 version (take 20 data))))"

lemma hdd_try_eq:
  fixes v :: nat
  assumes c: "length (Message_Block c) = 64" and d: "length data = 48"
  defines "plain \<equiv> fst (rc4_crypt (take 28 (drop 20 data)) (hdd_rc4 v (take 20 data)))"
  shows "hdd_try c v data = (take 20 data @ plain, hdd_hash v plain)"
proof -
  have split: "take 28 (drop 20 data) = take 8 (drop 20 data) @ take 20 (drop 28 data)"
    using d by (simp add: take_add [of 8 20, simplified])
  have h1: "HMAC_hdd_calculation c v [take 20 data] = hdd_hash v (take 20 data)"
    using d HMAC_hdd_calculation_hash [OF c, of "[take 20 data]" v] by simp
  have plain: "plain = fst (rc4_crypt (take 8 (drop 20 data)) (hdd_rc4 v (take 20 data)))
      @ fst (rc4_crypt (take 20 (drop 28 data))
          (snd (rc4_crypt (take 8 (drop 20 data)) (hdd_rc4 v (take 20 data)))))"
    unfolding plain_def split rc4_crypt_append by simp
  have h2: "HMAC_hdd_calculation c v
      [fst (rc4_crypt (take 8 (drop 20 data)) (hdd_rc4 v (take 20 data))),
       fst (rc4_crypt (take 20 (drop 28 data))
          (snd (rc4_crypt (take 8 (drop 20 data)) (hdd_rc4 v (take 20 data)))))] = hdd_hash v plain"
    unfolding plain by (subst HMAC_hdd_calculation_hash [OF c]) (use d in simp_all)
  show ?thesis
    unfolding hdd_try_def h1 Let_def hdd_rc4_def [symmetric] split_def fst_conv snd_conv h2
    by (simp add: plain)
qed

lemma hdd_try_accepts:
  assumes "length (Message_Block c) = 64" "length data = 48" "hdd_try c v data = (copy, confirm)"
  shows "take 20 copy = confirm \<longleftrightarrow> hdd_accepts v data"
    and "take 16 (drop 28 copy)
      = take 16 (drop 8 (fst (rc4_crypt (take 28 (drop 20 data)) (hdd_rc4 v (take 20 data)))))"
  using assms hdd_try_eq [OF assms(1,2), of v] by (auto simp: hdd_accepts_def)

lemma length_hdd_seal [simp]: "length (hdd_seal v a b) = 20 + length a + length b"
  by (simp add: hdd_seal_def Let_def)

lemma hdd_accepts_seal:
  assumes "length (confounder @ real) = 28"
  shows "hdd_accepts v (hdd_seal v confounder real)"
    and "fst (rc4_crypt (take 28 (drop 20 (hdd_seal v confounder real)))
            (hdd_rc4 v (take 20 (hdd_seal v confounder real)))) = confounder @ real"
  using assms by (auto simp: hdd_accepts_def hdd_seal_def Let_def rc4_crypt_twice)

lemma hdd_accepts_sealed:
  assumes "hdd_accepts v data" "length data = 48"
  shows "\<exists>plain. length plain = 28 \<and> data = hdd_seal v (take 8 plain) (drop 8 plain)"
proof -
  let ?k = "hdd_rc4 v (take 20 data)"
  let ?plain = "fst (rc4_crypt (take 28 (drop 20 data)) ?k)"
  have "take 20 data = hdd_hash v ?plain" using assms by (simp add: hdd_accepts_def)
  moreover have "fst (rc4_crypt ?plain ?k) = drop 20 data"
    using assms by (simp add: rc4_crypt_twice)
  ultimately have "data = hdd_seal v (take 8 ?plain) (drop 8 ?plain)"
    by (simp add: hdd_seal_def Let_def)
  then show ?thesis using assms by (intro exI [of _ ?plain]) simp
qed

lemma hdd_versions_first:
  assumes c: "length (Message_Block c) = 64" and d: "length data = 48"
  shows "fst (hdd_versions c data vs copy) =
      (case filter (\<lambda>w. hdd_accepts w data) vs of [] \<Rightarrow> 0 | w # _ \<Rightarrow> w)"
    and "filter (\<lambda>w. hdd_accepts w data) vs = w # ws \<Longrightarrow>
      snd (hdd_versions c data vs copy)
        = take 20 data @ fst (rc4_crypt (take 28 (drop 20 data)) (hdd_rc4 w (take 20 data)))"
    and "filter (\<lambda>w. hdd_accepts w data) vs = [] \<Longrightarrow> vs \<noteq> [] \<Longrightarrow>
      snd (hdd_versions c data vs copy)
        = take 20 data @ fst (rc4_crypt (take 28 (drop 20 data)) (hdd_rc4 (last vs) (take 20 data)))"
  by (induction vs arbitrary: copy)
    (auto simp: hdd_try_eq [OF c d] hdd_accepts_def d split: if_splits)

section \<open>Properties\<close>

text \<open>
  \<open>HMAC_SHA1\<close> is the HMAC of RFC 2104 over SHA-1 for keys of at most 64 bytes: inner and
  outer pad, key filled with zeros, the two text parts hashed as one message. The reused
  context leaks nothing from the inner hash into the outer one.
\<close>

theorem HMAC_SHA1_is_hmac:
  assumes "length (Message_Block c) = 64" and "length key \<le> 64"
    and "8 * (64 + length text1 + length text2) < 2 ^ 64"
  shows "HMAC_SHA1 c key text1 text2 = hmac_spec key (text1 @ text2)"
  using assms by (rule HMAC_SHA1_hmac)

theorem HMAC_SHA1_is_hmac_witness:
  "HMAC_SHA1 sha1_example_context [0x0B, 0x0C] [1, 2] [3] = hmac_spec [0x0B, 0x0C] [1, 2, 3]"
  using HMAC_SHA1_is_hmac [of sha1_example_context "[0x0B, 0x0C]" "[1, 2]" "[3]"]
  by (simp add: sha1_example_context_def)

text \<open>
  C37. \<open>HMAC_hdd_calculation\<close> is the nested hash that starts from the precomputed midstates of
  the console version and counts the 64 pad bytes they stand for, although the inner digest
  is written into the message block that the outer \<open>SHA1Input\<close> then reads and refills.
\<close>

theorem HMAC_hdd_is_nested_hash:
  assumes "length (Message_Block c) = 64" and "8 * (64 + length (concat bufs)) < 2 ^ 64"
  shows "HMAC_hdd_calculation c version bufs =
    fips_digest (fips_hash_from (hdd_iv2 version sha1_init) 64
      (fips_digest (fips_hash_from (hdd_iv1 version sha1_init) 64 (concat bufs))))"
  using HMAC_hdd_calculation_hash [OF assms] by (simp only: hdd_hash_def)

theorem HMAC_hdd_is_nested_hash_witness:
  "HMAC_hdd_calculation sha1_example_context 12 [[1, 2], [3]] =
    fips_digest (fips_hash_from (hdd_iv2 12 sha1_init) 64
      (fips_digest (fips_hash_from (hdd_iv1 12 sha1_init) 64 [1, 2, 3])))"
  using HMAC_hdd_is_nested_hash [of sha1_example_context "[[1, 2], [3]]" 12]
  by (simp add: sha1_example_context_def)

lemma hdd_versions_unsealed:
  assumes "length (Message_Block c) = 64" and "v \<in> {9, 10, 11, 12}"
    and "length confounder = 8" and "length real = 20"
    and "\<forall>w \<in> {9..<v}. \<not> hdd_accepts w (hdd_seal v confounder real)"
  shows "hdd_versions c (hdd_seal v confounder real) [9, 10, 11, 12] [] = (v, take 20 (hdd_seal v confounder real) @ confounder @ real)"
proof -
  let ?data = "hdd_seal v confounder real"
  have d: "length ?data = 48" using assms by simp
  have l: "length (confounder @ real) = 28" using assms by simp
  note open' = hdd_accepts_seal [OF l, of v]
  have "\<exists>ws. filter (\<lambda>w. hdd_accepts w ?data) [9, 10, 11, 12] = v # ws"
    using assms(2,5) open'(1) by auto
  then obtain ws where f: "filter (\<lambda>w. hdd_accepts w ?data) [9, 10, 11, 12] = v # ws" by blast
  have "fst (hdd_versions c ?data [9, 10, 11, 12] []) = v"
    unfolding hdd_versions_first(1) [OF assms(1) d] f by simp
  moreover have "snd (hdd_versions c ?data [9, 10, 11, 12] []) = take 20 ?data @ confounder @ real"
    using hdd_versions_first(2) [OF assms(1) d f] open'(2) by simp
  ultimately show ?thesis by (simp add: prod_eq_iff del: hdd_versions.simps)
qed

text \<open>
  C16. Key recovery is the inverse of sealing: from the 48 bytes sealed for a console version,
  the search over the versions returns that version and the 16 bytes of the hard-disk key,
  unless the data happens to verify under a version tried before.
\<close>

theorem hdd_key_recovered:
  assumes "length (Message_Block c) = 64" and "v \<in> {9, 10, 11, 12}"
    and "length confounder = 8" and "length real = 20"
    and "\<forall>w \<in> {9..<v}. \<not> hdd_accepts w (hdd_seal v confounder real)"
  shows "BootHddKeyGenerateEepromKeyData c (hdd_seal v confounder real) = (v, take 16 real)"
proof -
  have "length (hdd_seal v confounder real) = 48" using assms by simp
  then show ?thesis
    using assms(3,4) by (simp add: BootHddKeyGenerateEepromKeyData_def hdd_versions_unsealed [OF assms] del: hdd_versions.simps)
qed

theorem hdd_key_recovered_witness:
  "BootHddKeyGenerateEepromKeyData sha1_example_context
     (hdd_seal 9 [1, 2, 3, 4, 5, 6, 7, 8] (replicate 16 0x5A @ [1, 0, 0, 0])) = (9, replicate 16 0x5A)"
  using hdd_key_recovered [of sha1_example_context 9 "[1, 2, 3, 4, 5, 6, 7, 8]"
      "replicate 16 0x5A @ [1, 0, 0, 0]"]
  by (simp add: sha1_example_context_def)

text \<open>
  C27. The version reported is the proof of authenticity: it is \<open>0\<close> exactly when no version
  verifies, and otherwise the data is the sealing of the returned key for that version; the
  key bytes are written either way, and without a match they are what version 12 decrypts.
\<close>

theorem hdd_key_authentic:
  assumes "length (Message_Block c) = 64" and "length data = 48"
    and "BootHddKeyGenerateEepromKeyData c data = (v, key)"
  shows "if \<exists>w \<in> {9, 10, 11, 12}. hdd_accepts w data
    then v \<in> {9, 10, 11, 12} \<and>
      (\<exists>confounder region. length confounder = 8 \<and> length region = 4 \<and> length key = 16
         \<and> data = hdd_seal v confounder (key @ region))
    else v = 0 \<and> key = take 16 (drop 8 (fst (rc4_crypt (take 28 (drop 20 data))
                          (hdd_rc4 12 (take 20 data)))))"
proof -
  let ?vs = "[9, 10, 11, 12] :: nat list"
  let ?r = "hdd_versions c data ?vs []"
  note first = hdd_versions_first [OF assms(1,2), where vs = ?vs and copy = "[]"]
  have res: "v = fst ?r" "key = take 16 (drop 28 (snd ?r))"
    using assms(3) by (auto simp: BootHddKeyGenerateEepromKeyData_def simp del: hdd_versions.simps
        split: prod.splits)
  show ?thesis
  proof (cases "filter (\<lambda>w. hdd_accepts w data) ?vs")
    case Nil
    then have "\<not> (\<exists>w \<in> {9, 10, 11, 12}. hdd_accepts w data)"
      unfolding filter_empty_conv by simp
    moreover have "v = 0" using res(1) unfolding first(1) Nil by simp
    ultimately show ?thesis using res(2) first(3) [OF Nil] assms(2) by simp
  next
    case (Cons w ws)
    have "w \<in> set (filter (\<lambda>w. hdd_accepts w data) ?vs)" unfolding Cons by simp
    then have w: "w \<in> {9, 10, 11, 12}" "hdd_accepts w data"
      unfolding set_filter by simp_all
    have v: "v = w" using res(1) unfolding first(1) Cons by simp
    let ?plain = "fst (rc4_crypt (take 28 (drop 20 data)) (hdd_rc4 w (take 20 data)))"
    have key: "key = take 16 (drop 8 ?plain)"
      using res(2) unfolding first(2) [OF Cons] using assms(2) by simp
    obtain plain where p: "length plain = 28" "data = hdd_seal w (take 8 plain) (drop 8 plain)"
      using hdd_accepts_sealed [OF w(2) assms(2)] by blast
    have "?plain = plain"
      using hdd_accepts_seal(2) [of "take 8 plain" "drop 8 plain" w] p by simp
    then have "drop 8 plain = key @ drop 16 (drop 8 plain)" "length key = 16"
      using key p by (metis append_take_drop_id, simp)
    with p have "length (take 8 plain) = 8 \<and> length (drop 24 plain) = 4 \<and> length key = 16
      \<and> data = hdd_seal v (take 8 plain) (key @ drop 24 plain)"
      by (simp add: v)
    then have "\<exists>confounder region. length confounder = 8 \<and> length region = 4 \<and> length key = 16
      \<and> data = hdd_seal v confounder (key @ region)" by blast
    moreover have "\<exists>w \<in> {9, 10, 11, 12}. hdd_accepts w data" using w by blast
    ultimately show ?thesis using w(1) v by (simp only: if_True)
  qed
qed

theorem hdd_key_authentic_witness:
  "\<exists>v key confounder region.
     BootHddKeyGenerateEepromKeyData sha1_example_context
       (hdd_seal 9 [1, 2, 3, 4, 5, 6, 7, 8] (replicate 16 0x5A @ [1, 0, 0, 0])) = (v, key)
     \<and> v \<in> {9, 10, 11, 12} \<and> length confounder = 8 \<and> length region = 4
     \<and> hdd_seal 9 [1, 2, 3, 4, 5, 6, 7, 8] (replicate 16 0x5A @ [1, 0, 0, 0])
         = hdd_seal v confounder (key @ region)"
proof -
  let ?d = "hdd_seal 9 [1, 2, 3, 4, 5, 6, 7, 8] (replicate 16 0x5A @ [1, 0, 0, 0])"
  have b: "length (Message_Block sha1_example_context) = 64"
    by (simp add: sha1_example_context_def)
  have d: "length ?d = 48" by simp
  obtain v key where r: "BootHddKeyGenerateEepromKeyData sha1_example_context ?d = (v, key)"
    by (cases "BootHddKeyGenerateEepromKeyData sha1_example_context ?d")
  have "hdd_accepts 9 ?d" by (rule hdd_accepts_seal(1)) simp
  then have a: "\<exists>w \<in> {9, 10, 11, 12}. hdd_accepts w ?d" by blast
  from hdd_key_authentic [OF b d r, unfolded if_P [OF a]] r show ?thesis by blast
qed

end
