(* ===== verification/BootString.thy ===== *)
theory BootString
  imports CromwellBase
begin

text \<open>
  The memory and string routines of \<open>lib/misc/BootLibrary.c\<close> on the flat memory. Those written
  in assembler are translated instruction by instruction (count register, direction forward);
  loops that only a NUL byte ends are \<open>partial_function (option)\<close>s, with \<open>None\<close> for a run
  that never ends. Strings are described by \<open>cstr m p s\<close>: the bytes \<open>s\<close> and a NUL at \<open>p\<close>.
\<close>

section \<open>The code\<close>

subsection \<open>memcpy, memset, memcmp, memmove\<close>

text \<open>\<open>rep movs\<close> with operands of \<open>w\<close> bytes.\<close>

fun rep_movs :: "nat \<Rightarrow> nat \<Rightarrow> u32 \<Rightarrow> u32 \<Rightarrow> mem \<Rightarrow> mem" where
  "rep_movs w 0 edi esi m = m"
| "rep_movs w (Suc ecx) edi esi m =
     rep_movs w ecx (edi + of_nat w) (esi + of_nat w) (wr edi (rd m esi w) m)"

definition memcpy :: "u32 \<Rightarrow> u32 \<Rightarrow> nat \<Rightarrow> mem \<Rightarrow> mem" where
  "memcpy to from n m =
     (let c = n div 4;
          m1 = rep_movs 4 c to from m;
          d1 = to + of_nat (4 * c); s1 = from + of_nat (4 * c);
          (m2, d2, s2) = (if odd (n div 2) then (rep_movs 2 1 d1 s1 m1, d1 + 2, s1 + 2)
                          else (m1, d1, s1))
      in if odd n then rep_movs 1 1 d2 s2 m2 else m2)"

fun memset :: "u32 \<Rightarrow> u8 \<Rightarrow> nat \<Rightarrow> mem \<Rightarrow> mem" where
  "memset edi al 0 m = m"
| "memset edi al (Suc ecx) m = memset (edi + 1) al ecx (m(edi := al))"

fun memcmp :: "mem \<Rightarrow> u32 \<Rightarrow> u32 \<Rightarrow> nat \<Rightarrow> int" where
  "memcmp m su1 su2 0 = 0"
| "memcmp m su1 su2 (Suc count) =
     (let res = uint (m su1) - uint (m su2)
      in if res \<noteq> 0 then res else memcmp m (su1 + 1) (su2 + 1) count)"

fun copy_up :: "nat \<Rightarrow> u32 \<Rightarrow> u32 \<Rightarrow> mem \<Rightarrow> mem" where
  "copy_up 0 tmp s m = m"
| "copy_up (Suc count) tmp s m = copy_up count (tmp + 1) (s + 1) (m(tmp := m s))"

fun copy_down :: "nat \<Rightarrow> u32 \<Rightarrow> u32 \<Rightarrow> mem \<Rightarrow> mem" where
  "copy_down 0 tmp s m = m"
| "copy_down (Suc count) tmp s m =
     copy_down count (tmp - 1) (s - 1) (m(tmp - 1 := m (s - 1)))"

definition memmove :: "u32 \<Rightarrow> u32 \<Rightarrow> nat \<Rightarrow> mem \<Rightarrow> mem" where
  "memmove dest src count m =
     (if dest \<le> src then copy_up count dest src m
      else copy_down count (dest + of_nat count) (src + of_nat count) m)"

subsection \<open>Characters\<close>

definition tolower :: "u32 \<Rightarrow> u32" where
  "tolower ch = (if ch - 0x41 < 26 then ch + (0x61 - 0x41) else ch)"

definition isspace :: "u8 \<Rightarrow> bool" where
  "isspace c \<longleftrightarrow> c = 0x20 \<or> c = 0x09 \<or> c = 0x0D \<or> c = 0x0A"

subsection \<open>Length and comparison\<close>

function repne_scasb :: "mem \<Rightarrow> u32 \<Rightarrow> u32 \<Rightarrow> u32" where
  "repne_scasb m edi ecx =
     (if ecx = 0 then 0 else if m edi = 0 then ecx - 1 else repne_scasb m (edi + 1) (ecx - 1))"
  by pat_completeness auto
termination
  by (relation "measure (\<lambda>(m, edi, ecx). unat ecx)") (auto simp: measure_unat)

declare repne_scasb.simps [simp del]

definition strlen :: "mem \<Rightarrow> u32 \<Rightarrow> u32" where
  "strlen m s = NOT (repne_scasb m s 0xffffffff) - 1"

lemma sign_of_pred_0: "bit ((0 :: u32) - 1) 31"
  by (simp add: diff_0)

text \<open>\<open>strncmp\<close>: \<open>decl\<close> and \<open>js\<close> test the count as a signed number; the result is \<open>-1\<close>, \<open>0\<close> or \<open>1\<close>.\<close>

function strncmp :: "mem \<Rightarrow> u32 \<Rightarrow> u32 \<Rightarrow> u32 \<Rightarrow> int" where
  "strncmp m cs ct count =
     (let ecx = count - 1
      in if bit ecx 31 then 0
         else if m cs \<noteq> m ct then (if m cs < m ct then -1 else 1)
         else if m cs = 0 then 0
         else strncmp m (cs + 1) (ct + 1) ecx)"
  by pat_completeness auto
termination
proof (relation "measure (\<lambda>(m, cs, ct, count). unat count)")
  fix m :: mem and cs ct count x :: u32
  assume "x = count - 1" "\<not> bit x 31"
  then have "count \<noteq> 0" using sign_of_pred_0 by metis
  with \<open>x = count - 1\<close>
  show "((m, cs + 1, ct + 1, x), m, cs, ct, count) \<in> measure (\<lambda>(m, cs, ct, count). unat count)"
    by (simp add: measure_unat)
qed auto

declare strncmp.simps [simp del]

text \<open>\<open>strcmp\<close> keeps the difference of two chars in a \<open>signed char\<close>.\<close>

partial_function (option) strcmp :: "mem \<Rightarrow> u32 \<Rightarrow> u32 \<Rightarrow> int option" where
  "strcmp m cs ct =
     (let res = sint (m cs - m ct)
      in if res \<noteq> 0 then Some res
         else if m cs = 0 then Some res
         else strcmp m (cs + 1) (ct + 1))"

subsection \<open>Copying and searching\<close>

text \<open>The loop \<open>lodsb; stosb; testb; jne\<close> of \<open>strcpy\<close>, which is also the second loop of \<open>strcat\<close>.\<close>

partial_function (option) strcpy :: "u32 \<Rightarrow> u32 \<Rightarrow> mem \<Rightarrow> mem option" where
  "strcpy dest src m =
     (let al = m src; m' = m(dest := al)
      in if al = 0 then Some m' else strcpy (dest + 1) (src + 1) m')"

function strncpy :: "u32 \<Rightarrow> u32 \<Rightarrow> u32 \<Rightarrow> mem \<Rightarrow> mem" where
  "strncpy dest src count m =
     (let ecx = count - 1
      in if bit ecx 31 then m
         else let al = m src; m' = m(dest := al)
              in if al \<noteq> 0 then strncpy (dest + 1) (src + 1) ecx m'
                 else memset (dest + 1) 0 (unat ecx) m')"
  by pat_completeness auto
termination
proof (relation "measure (\<lambda>(dest, src, count, m). unat count)")
  fix dest src count x :: u32 and m z :: mem
  assume "x = count - 1" "\<not> bit x 31"
  then have "count \<noteq> 0" using sign_of_pred_0 by metis
  with \<open>x = count - 1\<close>
  show "((dest + 1, src + 1, x, z), dest, src, count, m)
      \<in> measure (\<lambda>(dest, src, count, m). unat count)"
    by (simp add: measure_unat)
qed auto

declare strncpy.simps [simp del]

function strstr_loop :: "mem \<Rightarrow> u32 \<Rightarrow> u32 \<Rightarrow> int \<Rightarrow> int \<Rightarrow> u32" where
  "strstr_loop m s1 s2 l1 l2 =
     (if l1 \<ge> l2
      then if memcmp m s1 s2 (nat l2) = 0 then s1 else strstr_loop m (s1 + 1) s2 (l1 - 1) l2
      else 0)"
  by pat_completeness auto
termination
  by (relation "measure (\<lambda>(m, s1, s2, l1, l2). nat (l1 - l2 + 1))") auto

declare strstr_loop.simps [simp del]

definition strstr :: "mem \<Rightarrow> u32 \<Rightarrow> u32 \<Rightarrow> u32" where
  "strstr m s1 s2 =
     (let l2 = strlen m s2
      in if l2 = 0 then s1 else strstr_loop m s1 s2 (sint (strlen m s1)) (sint l2))"

partial_function (option) str_end :: "mem \<Rightarrow> u32 \<Rightarrow> u32 option" where
  "str_end m s = (if m s = 0 then Some s else str_end m (s + 1))"

definition strcat :: "u32 \<Rightarrow> u32 \<Rightarrow> mem \<Rightarrow> mem option" where
  "strcat s app m =
     (case str_end m s of None \<Rightarrow> None | Some e \<Rightarrow> strcpy e app m)"

partial_function (option) chr_in :: "mem \<Rightarrow> u8 \<Rightarrow> u32 \<Rightarrow> bool option" where
  "chr_in m c sc2 =
     (if m sc2 = 0 then Some False
      else if c = m sc2 then Some True else chr_in m c (sc2 + 1))"

partial_function (option) strpbrk :: "mem \<Rightarrow> u32 \<Rightarrow> u32 \<Rightarrow> u32 option" where
  "strpbrk m cs ct =
     (if m cs = 0 then Some 0
      else case chr_in m (m cs) ct of
        None \<Rightarrow> None
      | Some b \<Rightarrow> if b then Some cs else strpbrk m (cs + 1) ct)"

text \<open>\<open>strsep\<close>: the token, the new value of \<open>*s\<close> and the memory.\<close>

definition strsep :: "u32 \<Rightarrow> u32 \<Rightarrow> mem \<Rightarrow> (u32 \<times> u32 \<times> mem) option" where
  "strsep s ct m =
     (if s = 0 then Some (0, s, m)
      else case strpbrk m s ct of
        None \<Rightarrow> None
      | Some e \<Rightarrow> if e \<noteq> 0 then Some (s, e + 1, m(e := 0)) else Some (s, e, m))"

partial_function (option) strrchr0 :: "mem \<Rightarrow> u32 \<Rightarrow> u8 \<Rightarrow> u32 option" where
  "strrchr0 m ptr ch =
     (if m ptr = 0 then Some 0 else if m ptr = ch then Some ptr else strrchr0 m (ptr + 1) ch)"

partial_function (option) chrreplace :: "u32 \<Rightarrow> u8 \<Rightarrow> u8 \<Rightarrow> mem \<Rightarrow> mem option" where
  "chrreplace ptr search ch m =
     (if m ptr = 0 then Some m
      else if m ptr = search then chrreplace ptr search ch (m(ptr := ch))
      else chrreplace (ptr + 1) search ch m)"

section \<open>Strings in memory\<close>

fun cstr :: "mem \<Rightarrow> u32 \<Rightarrow> u8 list \<Rightarrow> bool" where
  "cstr m p [] \<longleftrightarrow> m p = 0"
| "cstr m p (c # cs) \<longleftrightarrow> c \<noteq> 0 \<and> m p = c \<and> cstr m (p + 1) cs"

lemma cstr_nth: "cstr m p s \<Longrightarrow> i < length s \<Longrightarrow> m (p + of_nat i) = s ! i \<and> s ! i \<noteq> 0"
  by (induction m p s arbitrary: i rule: cstr.induct)
    (auto simp: nth_Cons add.assoc split: nat.splits)

lemma cstr_end: "cstr m p s \<Longrightarrow> m (p + of_nat (length s)) = 0"
  by (induction m p s rule: cstr.induct) (auto simp: add_ac)

lemma cstr_no_nul: "cstr m p s \<Longrightarrow> 0 \<notin> set s"
  by (induction m p s rule: cstr.induct) auto

lemma cstr_iff:
  "cstr m p s \<longleftrightarrow> rd m p (length s) = s \<and> 0 \<notin> set s \<and> m (p + of_nat (length s)) = 0"
  by (induction m p s rule: cstr.induct) (auto simp: rd_Suc add.assoc)

lemma cstr_length: "cstr m p s \<Longrightarrow> length s < 2 ^ 32"
proof (rule ccontr)
  assume c: "cstr m p s" and "\<not> length s < 2 ^ 32"
  then have l: "length s - 2 ^ 32 < length s" "(of_nat (length s - 2 ^ 32) :: u32) = of_nat (length s)"
    by (auto simp: of_nat_diff)
  with cstr_nth [OF c l(1)] cstr_end [OF c] show False by simp
qed

lemma cstr_append:
  "cstr m p (s @ t) \<longleftrightarrow> 0 \<notin> set s \<and> rd m p (length s) = s \<and> cstr m (p + of_nat (length s)) t"
  by (induction s arbitrary: p) (auto simp: rd_Suc add.assoc)

lemma cstr_cong:
  "cstr m p s \<Longrightarrow> (\<And>a. a \<in> region p (Suc (length s)) \<Longrightarrow> m' a = m a) \<Longrightarrow> cstr m' p s"
  by (induction m p s rule: cstr.induct) (auto simp: region_Suc)

lemma cstr_upd_other: "cstr m p s \<Longrightarrow> a \<notin> region p (Suc (length s)) \<Longrightarrow> cstr (m(a := b)) p s"
  by (erule cstr_cong) auto

subsection \<open>Length and end\<close>

lemma repne_scasb_cstr:
  "cstr m p s \<Longrightarrow> length s < unat ecx \<Longrightarrow> repne_scasb m p ecx = ecx - of_nat (length s) - 1"
proof (induction m p s arbitrary: ecx rule: cstr.induct)
  case (1 m p)
  then show ?case by (auto simp: repne_scasb.simps [of m p ecx])
next
  case (2 m p c cs)
  have "ecx \<noteq> 0" using "2.prems" by auto
  then have "unat (ecx - 1) = unat ecx - 1" by (simp add: unat_minus_one)
  with 2 \<open>ecx \<noteq> 0\<close> show ?case by (auto simp: repne_scasb.simps [of m p ecx] diff_diff_eq add_ac)
qed

lemma strlen_cstr: "cstr m p s \<Longrightarrow> length s < 2 ^ 32 - 1 \<Longrightarrow> strlen m p = of_nat (length s)"
  by (simp add: strlen_def repne_scasb_cstr not_eq_complement)

lemma sint_strlen_cstr:
  assumes "cstr m p s" "length s < 2 ^ 31"
  shows "sint (strlen m p) = int (length s)"
proof -
  have "strlen m p = of_nat (length s)" using assms by (simp add: strlen_cstr)
  moreover have "sint (of_nat (length s) :: u32) = int (length s)"
    using assms(2) by (simp add: signed_of_nat signed_take_bit_int_eq_self)
  ultimately show ?thesis by simp
qed

lemma str_end_cstr: "cstr m p s \<Longrightarrow> str_end m p = Some (p + of_nat (length s))"
  by (induction m p s rule: cstr.induct) (subst str_end.simps, simp add: add_ac)+

subsection \<open>Copying\<close>

lemma strcpy_cstr:
  "cstr m src s \<Longrightarrow> region dest (Suc (length s)) \<inter> region src (Suc (length s)) = {} \<Longrightarrow>
   strcpy dest src m = Some (wr dest (s @ [0]) m)"
proof (induction s arbitrary: dest src m)
  case Nil
  then show ?case by (subst strcpy.simps) (simp add: Let_def)
next
  case (Cons c cs)
  have "cstr (m(dest := c)) (src + 1) cs"
    using Cons.prems by (intro cstr_upd_other) (auto simp: region_Suc)
  moreover have "region (dest + 1) (Suc (length cs)) \<inter> region (src + 1) (Suc (length cs)) = {}"
    using Cons.prems(2) by (auto simp: region_Suc)
  ultimately have "strcpy (dest + 1) (src + 1) (m(dest := c))
      = Some (wr (dest + 1) (cs @ [0]) (m(dest := c)))"
    by (rule Cons.IH)
  then show ?case using Cons.prems(1) by (subst strcpy.simps) (simp add: Let_def)
qed

lemma cstr_wr: "0 \<notin> set s \<Longrightarrow> length s < 2 ^ 32 \<Longrightarrow> cstr (wr p (s @ [0]) m) p s"
proof -
  assume a: "0 \<notin> set s" "length s < 2 ^ 32"
  have "rd (wr p (s @ [0]) m) p (length (s @ [0])) = s @ [0]" using a by (intro rd_wr) auto
  moreover have "rd m' p (Suc n) = rd m' p n @ [m' (p + of_nat n)]" for m' n
    by (simp add: rd_def)
  ultimately show ?thesis using a by (simp add: cstr_iff)
qed

lemma strcat_cstr:
  assumes "cstr m p s" "cstr m q t" "length s + length t < 2 ^ 32"
    and "region (p + of_nat (length s)) (Suc (length t)) \<inter> region q (Suc (length t)) = {}"
  shows "\<exists>m'. strcat p q m = Some m' \<and> cstr m' p (s @ t)
           \<and> (\<forall>a. a \<notin> region (p + of_nat (length s)) (Suc (length t)) \<longrightarrow> m' a = m a)"
proof -
  let ?e = "p + of_nat (length s)" and ?m = "wr (p + of_nat (length s)) (t @ [0]) m"
  have "strcat p q m = Some ?m"
    using assms by (simp add: strcat_def str_end_cstr strcpy_cstr)
  moreover have "cstr ?m ?e t"
    using assms cstr_no_nul [OF assms(2)] by (intro cstr_wr) auto
  moreover have "rd ?m p (length s) = rd m p (length s)"
  proof (rule rd_cong, rule wr_outside)
    fix a assume "a \<in> region p (length s)"
    then obtain i where i: "i < length s" "a = p + of_nat i" by (auto simp: region_def)
    show "a \<notin> region ?e (length (t @ [0]))"
    proof
      assume "a \<in> region ?e (length (t @ [0]))"
      then obtain j where j: "j < Suc (length t)" "a = ?e + of_nat j" by (auto simp: region_def)
      with i have "(of_nat i :: u32) = of_nat (length s + j)" by (simp add: add_ac)
      moreover have "i < 2 ^ 32" "length s + j < 2 ^ 32" using i j assms(3) by auto
      ultimately show False using i of_nat_u32_eq_iff by (metis not_add_less1)
    qed
  qed
  ultimately show ?thesis
    using assms by (auto simp: cstr_append cstr_iff [of m p s] wr_outside)
qed

subsection \<open>Moving memory\<close>

lemma rep_movs_wr:
  "region edi (w * c) \<inter> region esi (w * c) = {} \<Longrightarrow> rep_movs w c edi esi m = wr edi (rd m esi (w * c)) m"
proof (induction c arbitrary: edi esi m)
  case (Suc c)
  let ?d = "edi + of_nat w" and ?s = "esi + of_nat w" and ?m = "wr edi (rd m esi w) m"
  have split: "region p (w * Suc c) = region p w \<union> region (p + of_nat w) (w * c)" for p
    using region_add [of p w "w * c"] by simp
  have "rd ?m ?s (w * c) = rd m ?s (w * c)"
    using Suc.prems unfolding split by (intro rd_cong wr_outside) (simp, blast)
  then have "rep_movs w c ?d ?s ?m = wr ?d (rd m ?s (w * c)) ?m"
    using Suc.IH [of ?d ?s ?m] Suc.prems unfolding split by auto
  then show ?case using rd_add [of m esi w "w * c"] by (simp add: wr_append)
qed simp

text \<open>The double words, the word and the byte of a copy make up the whole of it.\<close>

lemma memcpy_wr:
  assumes "region to n \<inter> region from n = {}"
  shows "memcpy to from n m = wr to (rd m from n) m"
proof -
  define c where "c = n div 4"
  define w where "w = (if odd (n div 2) then 2 else 0 :: nat)"
  define b where "b = (if odd n then 1 else 0 :: nat)"
  have n: "n = 4 * c + (w + b)"
    unfolding c_def w_def b_def by (cases "odd n"; cases "odd (n div 2)") (auto elim!: oddE evenE)
  have le: "4 * c \<le> n" "4 * c + w \<le> n" "4 * c + w + b \<le> n" using n by simp_all
  have wb: "w = 0 \<or> w = 2" "b = 0 \<or> b = 1" by (simp_all add: w_def b_def)
  have prefix: "region p k \<subseteq> region p n" if "k \<le> n" for p k
    using that by (auto simp: region_def)
  have copy: "rep_movs k i (to + of_nat j) (from + of_nat j) (wr to (rd m from j) m) = wr to (rd m from (j + k * i)) m"
    if "j + k * i \<le> n" for k i j
  proof -
    have disj: "region to (j + k * i) \<inter> region from (j + k * i) = {}" using assms prefix [OF that] by blast
    have "rd (wr to (rd m from j) m) (from + of_nat j) (k * i) = rd m (from + of_nat j) (k * i)"
      using disj unfolding region_add by (intro rd_cong wr_outside) (simp, blast)
    moreover have "rep_movs k i (to + of_nat j) (from + of_nat j) (wr to (rd m from j) m)
        = wr (to + of_nat j) (rd (wr to (rd m from j) m) (from + of_nat j) (k * i)) (wr to (rd m from j) m)"
      using disj unfolding region_add by (intro rep_movs_wr) blast
    ultimately show ?thesis by (simp add: rd_add wr_append)
  qed
  have dwords: "rep_movs 4 c to from m = wr to (rd m from (4 * c)) m"
    using copy [of 0 4 c] le(1) by simp
  have words: "(if w = 2 then rep_movs 2 1 (to + of_nat (4 * c)) (from + of_nat (4 * c)) (wr to (rd m from (4 * c)) m)
      else wr to (rd m from (4 * c)) m) = wr to (rd m from (4 * c + w)) m"
    using copy [of "4 * c" 2 1] le(2) wb(1) by auto
  have bytes: "(if b = 1 then rep_movs 1 1 (to + of_nat (4 * c + w)) (from + of_nat (4 * c + w)) (wr to (rd m from (4 * c + w)) m)
      else wr to (rd m from (4 * c + w)) m) = wr to (rd m from n) m"
    using copy [of "4 * c + w" 1 1] le(3) wb(2) n by (auto simp: add.assoc)
  show ?thesis
    using words bytes unfolding memcpy_def Let_def c_def [symmetric] dwords
    by (cases "odd (n div 2)"; cases "odd n") (simp_all add: w_def b_def add_ac)
qed

lemma copy_up_outside: "a \<notin> region d n \<Longrightarrow> copy_up n d s m a = m a"
  by (induction n d s m rule: copy_up.induct) (auto simp: region_Suc)

lemma copy_up_moves:
  "unat d + n \<le> 2 ^ 32 \<Longrightarrow> unat s + n \<le> 2 ^ 32 \<Longrightarrow> unat d \<le> unat s \<Longrightarrow> i < n \<Longrightarrow>
   copy_up n d s m (d + of_nat i) = m (s + of_nat i)"
proof (induction n arbitrary: d s m i)
  case 0
  then show ?case by simp
next
  case (Suc n)
  let ?m = "m(d := m s)"
  show ?case
  proof (cases i)
    case 0
    have "d \<notin> region (d + 1) n" using Suc.prems by (intro start_not_in_tail) auto
    then show ?thesis using 0 by (simp add: copy_up_outside)
  next
    case (Suc j)
    then have n: "0 < n" using Suc.prems(4) by simp
    have un: "unat (d + 1) = unat d + 1" "unat (s + 1) = unat s + 1"
      using Suc.prems n by (auto simp: unat_word_ariths)
    have "copy_up n (d + 1) (s + 1) ?m (d + 1 + of_nat j) = ?m (s + 1 + of_nat j)"
      using Suc.prems Suc un by (intro Suc.IH) auto
    moreover have "s + 1 + of_nat j \<noteq> d"
    proof
      assume "s + 1 + of_nat j = d"
      then have "unat (s + of_nat (Suc j)) = unat d" by (simp add: add_ac)
      moreover have "unat (s + of_nat (Suc j)) = unat s + Suc j"
        using Suc.prems Suc by (simp add: unat_word_ariths unat_of_nat take_bit_nat_eq_self del: of_nat_Suc)
      ultimately show False using Suc.prems by simp
    qed
    ultimately show ?thesis using Suc by (simp add: add_ac)
  qed
qed

lemma copy_down_outside: "a \<notin> region d n \<Longrightarrow> copy_down n (d + of_nat n) s m a = m a"
proof (induction n arbitrary: s m)
  case (Suc n)
  have e: "d + of_nat (Suc n) - 1 = d + of_nat n" by simp
  have "region d (Suc n) = insert (d + of_nat n) (region d n)"
    by (simp add: region_def lessThan_Suc)
  with Suc show ?case unfolding copy_down.simps e by simp
qed simp

lemma copy_down_moves:
  "unat d + n \<le> 2 ^ 32 \<Longrightarrow> unat s + n \<le> 2 ^ 32 \<Longrightarrow> unat s \<le> unat d \<Longrightarrow> i < n \<Longrightarrow>
   copy_down n (d + of_nat n) (s + of_nat n) m (d + of_nat i) = m (s + of_nat i)"
proof (induction n arbitrary: m i)
  case 0
  then show ?case by simp
next
  case (Suc n)
  have e: "d + of_nat (Suc n) - 1 = d + of_nat n" "s + of_nat (Suc n) - 1 = s + of_nat n"
    by simp_all
  let ?m = "m(d + of_nat n := m (s + of_nat n))"
  show ?case
  proof (cases "i = n")
    case True
    have "d + of_nat n \<notin> region d n"
      using Suc.prems by (subst not_in_region) auto
    then show ?thesis
      unfolding copy_down.simps e True by (simp add: copy_down_outside)
  next
    case False
    then have i: "i < n" using Suc.prems(4) by simp
    have "copy_down n (d + of_nat n) (s + of_nat n) ?m (d + of_nat i) = ?m (s + of_nat i)"
      using Suc.prems i by (intro Suc.IH) auto
    moreover have "s + of_nat i \<noteq> d + of_nat n"
    proof
      assume "s + of_nat i = d + of_nat n"
      then have "unat (s + of_nat i) = unat (d + of_nat n)" by simp
      moreover have "unat (s + of_nat i) = unat s + i" "unat (d + of_nat n) = unat d + n"
        using Suc.prems i by (auto simp: unat_word_ariths unat_of_nat take_bit_nat_eq_self)
      ultimately show False using Suc.prems i by simp
    qed
    ultimately show ?thesis unfolding copy_down.simps e by simp
  qed
qed

lemma memmove_moves:
  assumes "unat dest + n \<le> 2 ^ 32" "unat src + n \<le> 2 ^ 32"
  shows "rd (memmove dest src n m) dest n = rd m src n"
    and "a \<notin> region dest n \<Longrightarrow> memmove dest src n m a = m a"
proof -
  have "i < n \<Longrightarrow> memmove dest src n m (dest + of_nat i) = m (src + of_nat i)" for i
    using assms copy_up_moves [of dest n src i m] copy_down_moves [of dest n src i m]
    by (auto simp: memmove_def word_le_nat_alt)
  then show "rd (memmove dest src n m) dest n = rd m src n"
    by (intro nth_equalityI) auto
  show "a \<notin> region dest n \<Longrightarrow> memmove dest src n m a = m a"
    by (auto simp: memmove_def copy_up_outside copy_down_outside)
qed

subsection \<open>Replacing and searching characters\<close>

lemma chrreplace_cstr:
  "cstr m p s \<Longrightarrow> search \<noteq> ch \<Longrightarrow> ch \<noteq> 0 \<Longrightarrow>
   chrreplace p search ch m = Some (wr p (map (\<lambda>c. if c = search then ch else c) s) m)"
proof (induction s arbitrary: p m)
  case Nil
  then show ?case by (subst chrreplace.simps) simp
next
  case (Cons c cs)
  have len: "length (c # cs) < 2 ^ 32" using Cons.prems(1) cstr_length by blast
  show ?case
  proof (cases "c = search")
    case True
    have "p \<notin> region (p + 1) (Suc (length cs))" using len by (intro start_not_in_tail) simp
    then have "cstr (m(p := ch)) (p + 1) cs"
      using Cons.prems(1) by (intro cstr_upd_other) auto
    note rest = Cons.IH [OF this Cons.prems(2,3)]
    have "chrreplace p search ch m = chrreplace p search ch (m(p := ch))"
      using Cons.prems True by (subst chrreplace.simps) auto
    also have "\<dots> = chrreplace (p + 1) search ch (m(p := ch))"
      using Cons.prems(2,3) by (subst chrreplace.simps) simp
    finally have e: "chrreplace p search ch m = chrreplace (p + 1) search ch (m(p := ch))" .
    show ?thesis unfolding e rest using True by simp
  next
    case False
    have "m(p := c) = m" using Cons.prems(1) by auto
    with False Cons.IH [of m "p + 1"] Cons.prems show ?thesis
      by (subst chrreplace.simps) auto
  qed
qed

lemma chrreplace_stuck: "m p = ch \<Longrightarrow> ch \<noteq> 0 \<Longrightarrow> chrreplace p ch ch m = None"
proof (rule ccontr)
  assume h: "m p = ch" "ch \<noteq> 0" and "chrreplace p ch ch m \<noteq> None"
  then obtain r where r: "chrreplace p ch ch m = Some r" by blast
  have "\<not> (m p = ch \<and> ch = ch \<and> ch \<noteq> 0)"
  proof (rule chrreplace.raw_induct [where P = "\<lambda>p s c m r. \<not> (m p = s \<and> s = c \<and> s \<noteq> 0)", OF _ r])
    fix f and p :: u32 and s c :: u8 and m r :: mem
    assume IH: "\<And>p s c m r. f p s c m = Some r \<Longrightarrow> \<not> (m p = s \<and> s = c \<and> s \<noteq> 0)"
      and eq: "(if m p = 0 then Some m else if m p = s then f p s c (m(p := c)) else f (p + 1) s c m)
        = Some r"
    show "\<not> (m p = s \<and> s = c \<and> s \<noteq> 0)"
    proof
      assume a: "m p = s \<and> s = c \<and> s \<noteq> 0"
      with eq have "f p s c (m(p := c)) = Some r" by auto
      from IH [OF this] a show False by simp
    qed
  qed
  with h show False by simp
qed

lemma chrreplace_same:
  "cstr m p s \<Longrightarrow> ch \<noteq> 0 \<Longrightarrow> chrreplace p ch ch m = (if ch \<in> set s then None else Some m)"
proof (induction s arbitrary: p)
  case Nil
  then show ?case by (subst chrreplace.simps) simp
next
  case (Cons c cs)
  show ?case
  proof (cases "c = ch")
    case True
    with Cons.prems chrreplace_stuck [of m p ch] show ?thesis by simp
  next
    case False
    with Cons show ?thesis by (subst chrreplace.simps) auto
  qed
qed

lemma chr_in_cstr: "cstr m ct d \<Longrightarrow> c \<noteq> 0 \<Longrightarrow> chr_in m c ct = Some (c \<in> set d)"
  by (induction d arbitrary: ct) (subst chr_in.simps, auto)+

lemma strpbrk_cstr:
  "cstr m p s \<Longrightarrow> cstr m ct d \<Longrightarrow>
   strpbrk m p ct = Some (if \<exists>c \<in> set s. c \<in> set d
     then p + of_nat (length (takeWhile (\<lambda>c. c \<notin> set d) s)) else 0)"
proof (induction s arbitrary: p)
  case Nil
  then show ?case by (subst strpbrk.simps) simp
next
  case (Cons c cs)
  then show ?case by (subst strpbrk.simps) (auto simp: chr_in_cstr add_ac)
qed

lemma strsep_cstr:
  assumes "cstr m p s" "cstr m ct d" "p \<noteq> 0"
    and wrap: "unat p + length s < 2 ^ 32"
  defines "tok \<equiv> takeWhile (\<lambda>c. c \<notin> set d) s"
  shows "strsep p ct m =
    (if tok = s then Some (p, 0, m)
     else Some (p, p + of_nat (length tok) + 1, m(p + of_nat (length tok) := 0)))"
proof (cases "\<exists>c \<in> set s. c \<in> set d")
  case True
  then have "length tok < length s" "tok \<noteq> s"
    unfolding tok_def by (metis (mono_tags, lifting) length_takeWhile_le linorder_not_less nat_less_le
        takeWhile_eq_take take_all takeWhile_eq_all_conv, metis takeWhile_eq_all_conv)
  have "p + of_nat (length tok) \<noteq> 0"
  proof -
    have "unat (p + of_nat (length tok)) = unat p + length tok"
      using wrap \<open>length tok < length s\<close>
      by (simp add: unat_word_ariths unat_of_nat take_bit_nat_eq_self)
    moreover have "unat p \<noteq> 0" using assms(3) by (simp add: unat_eq_zero)
    ultimately show ?thesis by (metis add_is_0 unat_0)
  qed
  with True assms(1-3) \<open>tok \<noteq> s\<close> show ?thesis
    by (simp add: strsep_def strpbrk_cstr tok_def [symmetric])
next
  case False
  then have "tok = s" unfolding tok_def by (auto simp: takeWhile_eq_all_conv)
  with False assms(1-3) show ?thesis by (simp add: strsep_def strpbrk_cstr)
qed

lemma memcmp_rd: "memcmp m a b n = 0 \<longleftrightarrow> rd m a n = rd m b n"
  by (induction m a b n rule: memcmp.induct) (auto simp: rd_Suc Let_def word_uint_eq_iff)

subsection \<open>Comparing with a literal\<close>

lemma strncmp_prefix:
  "cstr m a s \<Longrightarrow> cstr m b t \<Longrightarrow> length t < 2 ^ 31 \<Longrightarrow> n = of_nat (length t) \<Longrightarrow>
   strncmp m a b n = 0 \<longleftrightarrow> take (length t) s = t"
proof (induction t arbitrary: a b s n)
  case Nil
  have "bit ((0 :: u32) - 1) 31" by (rule sign_of_pred_0)
  then show ?case using Nil by (subst strncmp.simps) (simp add: Let_def)
next
  case (Cons c t)
  have l: "length t < 2 ^ 31" using Cons.prems(3) by simp
  then have "unat (of_nat (length t) :: u32) = length t"
    by (simp add: unat_of_nat take_bit_nat_eq_self)
  then have "\<not> bit (unat (of_nat (length t) :: u32)) 31" using l by (simp add: bit_iff_odd)
  then have "\<not> bit (of_nat (length t) :: u32) 31" by (simp add: bit_unsigned_iff)
  then have "\<not> bit (n - 1) 31" using Cons.prems(4) by simp
  note s = strncmp.simps [of m a b n]
  show ?case
  proof (cases s)
    case Nil
    then show ?thesis using Cons.prems \<open>\<not> bit (n - 1) 31\<close> by (subst s) (auto simp: Let_def)
  next
    case (Cons d s')
    then show ?thesis
      using Cons.prems Cons.IH [of "a + 1" s' "b + 1" "n - 1"] \<open>\<not> bit (n - 1) 31\<close> l
      by (subst s) (auto simp: Let_def)
  qed
qed

subsection \<open>Finding a substring\<close>

definition occurs_at :: "u8 list \<Rightarrow> u8 list \<Rightarrow> nat \<Rightarrow> bool" where
  "occurs_at t s i \<longleftrightarrow> i + length t \<le> length s \<and> take (length t) (drop i s) = t"

fun first_occurrence :: "u8 list \<Rightarrow> u8 list \<Rightarrow> nat option" where
  "first_occurrence t [] = (if t = [] then Some 0 else None)"
| "first_occurrence t (c # cs) =
     (if take (length t) (c # cs) = t then Some 0 else map_option Suc (first_occurrence t cs))"

lemma take_length_eqD: "take (length t) s = t \<Longrightarrow> length t \<le> length s"
  by (metis length_take min.cobounded1)

lemma first_occurrence_Some:
  "first_occurrence t s = Some i \<Longrightarrow> occurs_at t s i \<and> (\<forall>j < i. \<not> occurs_at t s j)"
proof (induction s arbitrary: i)
  case Nil
  then show ?case by (auto simp: occurs_at_def split: if_splits)
next
  case (Cons c cs)
  show ?case
  proof (cases "take (length t) (c # cs) = t")
    case True
    with Cons.prems take_length_eqD [OF True] show ?thesis by (auto simp: occurs_at_def)
  next
    case False
    with Cons.prems obtain k where k: "first_occurrence t cs = Some k" "i = Suc k" by auto
    have "occurs_at t (c # cs) j \<longleftrightarrow> (case j of 0 \<Rightarrow> False | Suc j' \<Rightarrow> occurs_at t cs j')" for j
      using False by (auto simp: occurs_at_def split: nat.splits)
    with Cons.IH [OF k(1)] k(2) show ?thesis by (auto split: nat.splits)
  qed
qed

lemma first_occurrence_None: "first_occurrence t s = None \<Longrightarrow> \<not> occurs_at t s i"
proof (induction s arbitrary: i)
  case Nil
  then show ?case by (auto simp: occurs_at_def split: if_splits)
next
  case (Cons c cs)
  then show ?case by (cases i) (auto simp: occurs_at_def split: if_splits)
qed

lemma strstr_loop_cstr:
  "cstr m a s \<Longrightarrow> rd m b (length t) = t \<Longrightarrow> t \<noteq> [] \<Longrightarrow>
   strstr_loop m a b (int (length s)) (int (length t)) =
     (case first_occurrence t s of None \<Rightarrow> 0 | Some i \<Rightarrow> a + of_nat i)"
proof (induction s arbitrary: a)
  case Nil
  then show ?case by (subst strstr_loop.simps) simp
next
  case (Cons c cs)
  show ?case
  proof (cases "length t \<le> length (c # cs)")
    case False
    moreover have "first_occurrence t (c # cs) = None"
      using False first_occurrence_Some [of t "c # cs"] by (cases "first_occurrence t (c # cs)")
        (auto simp: occurs_at_def)
    ultimately show ?thesis by (subst strstr_loop.simps) simp
  next
    case True
    have "rd m a (length t) = take (length t) (c # cs)"
    proof (rule nth_equalityI)
      fix i assume "i < length (rd m a (length t))"
      then have i: "i < length t" "i < length (c # cs)" using True by auto
      with cstr_nth [OF Cons.prems(1) i(2)]
      show "rd m a (length t) ! i = take (length t) (c # cs) ! i" by simp
    qed (use True in simp)
    then have cmp: "memcmp m a b (length t) = 0 \<longleftrightarrow> take (length t) (c # cs) = t"
      using Cons.prems(2) by (simp add: memcmp_rd)
    have "cstr m (a + 1) cs" using Cons.prems(1) by simp
    from Cons.IH [OF this Cons.prems(2,3)]
    have "strstr_loop m (a + 1) b (int (length (c # cs)) - 1) (int (length t))
      = (case first_occurrence t cs of None \<Rightarrow> 0 | Some i \<Rightarrow> a + 1 + of_nat i)" by simp
    with True cmp show ?thesis
      by (subst strstr_loop.simps) (auto split: option.splits simp: add_ac)
  qed
qed

lemma strstr_cstr:
  assumes "cstr m a s" "cstr m b t" "length s < 2 ^ 31" "length t < 2 ^ 31"
  shows "strstr m a b = (case first_occurrence t s of None \<Rightarrow> 0 | Some i \<Rightarrow> a + of_nat i)"
proof (cases "t = []")
  case True
  then have "first_occurrence t s = Some 0" by (cases s) auto
  moreover have "strlen m b = 0" using assms True strlen_cstr [of m b t] by simp
  ultimately show ?thesis by (simp add: strstr_def)
next
  case False
  have "strlen m b \<noteq> 0"
    using sint_strlen_cstr [OF assms(2,4)] False by auto
  with strstr_loop_cstr [of m a s b t] sint_strlen_cstr [OF assms(1,3)] sint_strlen_cstr [OF assms(2,4)]
    assms False show ?thesis
    by (simp add: strstr_def Let_def cstr_iff [of m b t])
qed

section \<open>Properties\<close>

text \<open>
  \<open>memmove\<close> is right for overlapping areas in both directions: when neither area runs past
  the end of the address space, the destination afterwards holds the bytes the source held
  before, and no byte outside the destination changes.
\<close>

theorem memmove_overlap:
  assumes "unat dest + n \<le> 2 ^ 32" and "unat src + n \<le> 2 ^ 32"
  shows "rd (memmove dest src n m) dest n = rd m src n
    \<and> (\<forall>a. (unat a < unat dest \<or> unat dest + n \<le> unat a) \<longrightarrow> memmove dest src n m a = m a)"
  using memmove_moves [OF assms] region_unat [OF assms(1)] by auto

theorem memmove_overlap_witness:
  "rd (memmove 0x1002 0x1000 5 (\<lambda>a. ucast a)) 0x1002 5 = rd (\<lambda>a. ucast a) 0x1000 5"
  using memmove_overlap [where dest = "0x1002" and n = 5 and src = "0x1000" and m = "\<lambda>a. ucast a"] by simp

text \<open>
  \<open>strstr\<close> on two NUL-terminated strings returns the address of the first occurrence of
  the second in the first, and NULL when there is none.
\<close>

theorem strstr_first_occurrence:
  assumes "cstr m a s" and "cstr m b t" and "length s < 2 ^ 31" and "length t < 2 ^ 31"
  shows "if \<exists>i. occurs_at t s i
    then strstr m a b = a + of_nat (LEAST i. occurs_at t s i)
    else strstr m a b = 0"
proof (cases "first_occurrence t s")
  case None
  with first_occurrence_None [OF None] strstr_cstr [OF assms] show ?thesis by simp
next
  case (Some i)
  have "(LEAST i. occurs_at t s i) = i"
    using first_occurrence_Some [OF Some] by (intro Least_equality) (auto simp: not_less [symmetric])
  with Some first_occurrence_Some [OF Some] strstr_cstr [OF assms] show ?thesis by auto
qed

definition string_example :: mem where
  "string_example = wr 0x100 [0x61, 0x62, 0x61, 0x62, 0x63, 0] (wr 0x200 [0x62, 0x63, 0] (\<lambda>_. 0xFF))"

lemma string_example_strings:
  "cstr string_example 0x100 [0x61, 0x62, 0x61, 0x62, 0x63]"
  "cstr string_example 0x200 [0x62, 0x63]"
  by (simp_all add: string_example_def)

theorem strstr_first_occurrence_witness: "strstr string_example 0x100 0x200 = 0x103"
proof -
  have e: "occurs_at [0x62, 0x63] [0x61, 0x62, 0x61, 0x62, 0x63 :: u8] i \<longleftrightarrow> i = 3" for i
    by (cases "i \<le> 3") (auto simp: occurs_at_def le_Suc_eq numeral_3_eq_3)
  have "(LEAST i. occurs_at [0x62, 0x63] [0x61, 0x62, 0x61, 0x62, 0x63 :: u8] i) = 3"
    unfolding e by (rule Least_equality) auto
  with strstr_first_occurrence [OF string_example_strings] e show ?thesis by simp
qed

text \<open>
  \<open>chrreplace\<close> returns exactly when it can make progress: for different characters (the
  new one no NUL) it ends and rewrites every occurrence; asked to replace a character that
  occurs by itself it never returns.
\<close>

theorem chrreplace_behaviour:
  assumes "cstr m p s" and "ch \<noteq> 0"
  shows "chrreplace p search ch m =
    (if search = ch \<and> ch \<in> set s then None
     else Some (wr p (map (\<lambda>c. if c = search then ch else c) s) m))"
proof (cases "search = ch")
  case True
  have "wr q (map (\<lambda>c. if c = ch then ch else c) t) m = m" if "cstr m q t" for q t
    using that
  proof (induction t arbitrary: q)
    case (Cons c t)
    have "m(q := c) = m" using Cons.prems by auto
    with Cons show ?case by auto
  qed simp
  with chrreplace_same [OF assms] assms True show ?thesis by simp
next
  case False
  with chrreplace_cstr [OF assms(1) False assms(2)] show ?thesis by simp
qed

theorem chrreplace_behaviour_witness:
  "chrreplace 0x100 0x61 0x61 string_example = None
   \<and> chrreplace 0x100 0x61 0x2F string_example
       = Some (wr 0x100 [0x2F, 0x62, 0x2F, 0x62, 0x63] string_example)"
  using chrreplace_behaviour [OF string_example_strings(1), where ch = "0x61" and search = "0x61"]
    chrreplace_behaviour [OF string_example_strings(1), where ch = "0x2F" and search = "0x61"] by simp

text \<open>
  \<open>strsep\<close> cuts the string at its first delimiter: the token is what comes before and is
  terminated in place, \<open>*s\<close> moves behind it where the remainder still is a string, and
  becomes NULL when no delimiter is left.
\<close>

theorem strsep_tokens:
  assumes "cstr m p s" and "cstr m ct d" and "p \<noteq> 0" and "unat p + length s < 2 ^ 32"
    and "tok = takeWhile (\<lambda>c. c \<notin> set d) s"
  shows "if tok = s then strsep p ct m = Some (p, 0, m)
    else \<exists>m'. strsep p ct m = Some (p, p + of_nat (length tok) + 1, m') \<and> cstr m' p tok
           \<and> cstr m' (p + of_nat (length tok) + 1) (drop (length tok + 1) s)
           \<and> (\<forall>a. a \<noteq> p + of_nat (length tok) \<longrightarrow> m' a = m a)"
proof (cases "tok = s")
  case True
  then have "takeWhile (\<lambda>c. c \<notin> set d) s = s" using assms(5) by simp
  with strsep_cstr [OF assms(1-4)] True show ?thesis by (simp only: if_True refl)
next
  case False
  let ?e = "p + of_nat (length tok)" and ?rest = "drop (length tok + 1) s"
  have dw: "tok @ dropWhile (\<lambda>c. c \<notin> set d) s = s" unfolding assms(5) by simp
  with False have "dropWhile (\<lambda>c. c \<notin> set d) s \<noteq> []" by (metis append_Nil2)
  then obtain c r where r: "dropWhile (\<lambda>c. c \<notin> set d) s = c # r" by (meson list.exhaust)
  have r': "s = tok @ c # r" using dw r by simp
  then have "r = ?rest" by simp
  with r' have s: "s = tok @ c # ?rest" by simp
  then have c: "rd m p (length tok) = tok" "0 \<notin> set tok" "cstr m (?e + 1) ?rest"
    using assms(1) cstr_append [of m p tok "c # ?rest"] by auto
  have len: "length s < 2 ^ 32" using cstr_length [OF assms(1)] .
  have l: "length tok + length ?rest + 1 = length s" using s by (metis add.assoc add.commute length_Cons length_append plus_1_eq_Suc)
  have "cstr (m(?e := 0)) p tok"
  proof -
    have "?e \<notin> region p (length tok)" using len l by (subst not_in_region) auto
    then have "rd (m(?e := 0)) p (length tok) = rd m p (length tok)" by (intro rd_cong) auto
    with c show ?thesis by (simp add: cstr_iff)
  qed
  moreover have "cstr (m(?e := 0)) (?e + 1) ?rest"
    using c(3) len l by (intro cstr_upd_other start_not_in_tail) auto
  moreover have "strsep p ct m = Some (p, ?e + 1, m(?e := 0))"
    using strsep_cstr [OF assms(1-4)] False unfolding assms(5) [symmetric] by (simp only: if_False)
  ultimately show ?thesis using False by auto
qed

theorem strsep_tokens_witness:
  "\<exists>m'. strsep 0x100 0x200 string_example = Some (0x100, 0x102, m') \<and> cstr m' 0x100 [0x61]
     \<and> cstr m' 0x102 [0x61, 0x62, 0x63]"
proof -
  have "[0x61] = takeWhile (\<lambda>c. c \<notin> set [0x62, 0x63]) [0x61, 0x62, 0x61, 0x62, 0x63 :: u8]"
    by simp
  from strsep_tokens [OF string_example_strings _ _ this] show ?thesis by auto
qed

text \<open>
  \<open>strcat\<close> on two strings that do not overlap the written area leaves the concatenation
  at the first address and touches only the bytes from the old end on.
\<close>

theorem strcat_concatenates:
  assumes "cstr m p s" and "cstr m q t" and "length s + length t < 2 ^ 32"
    and "region (p + of_nat (length s)) (length t + 1) \<inter> region q (length t + 1) = {}"
  shows "\<exists>m'. strcat p q m = Some m' \<and> cstr m' p (s @ t)
    \<and> (\<forall>a. a \<notin> region (p + of_nat (length s)) (length t + 1) \<longrightarrow> m' a = m a)"
  using strcat_cstr [OF assms(1,2,3)] assms(4) by simp

theorem strcat_concatenates_witness:
  "\<exists>m'. strcat 0x100 0x200 string_example = Some m'
     \<and> cstr m' 0x100 [0x61, 0x62, 0x61, 0x62, 0x63, 0x62, 0x63]"
proof -
  have "region (0x100 + of_nat (length [0x61, 0x62, 0x61, 0x62, 0x63 :: u8]))
      (length [0x62, 0x63 :: u8] + 1) \<inter> region 0x200 (length [0x62, 0x63 :: u8] + 1) = {}"
    by (simp add: region_Suc region_0)
  from strcat_concatenates [OF string_example_strings _ this] show ?thesis by auto
qed

end
