(* ===== verification/Heap.thy ===== *)
theory Heap
  imports BootString
begin

text \<open>
  The memory manager of \<open>lib/misc/BootLibrary.c\<close>: a table of 1024 bytes at the start of the
  heap, one per 16 kB sector, \<open>t_malloc\<close> and \<open>t_free\<close> on it, and \<open>malloc\<close> and \<open>free\<close> with
  the header in front of a block and the interrupt flag they clear and set. The abstract view
  is a set of blocks; the lemmas show that every operation acts on that set and where the
  code leaves it.
\<close>

section \<open>The code\<close>

text \<open>\<open>memsmall[i]\<close>, with \<open>memsmall\<close> the global \<open>MemoryManagerStartAddress\<close>.\<close>

definition tab :: "u32 \<Rightarrow> mem \<Rightarrow> nat \<Rightarrow> u8" where
  "tab start m i = m (start + of_nat i)"

definition set_tab :: "u32 \<Rightarrow> nat \<Rightarrow> u8 \<Rightarrow> mem \<Rightarrow> mem" where
  "set_tab start i b m = m(start + of_nat i := b)"

definition MemoryManagerGetFree :: "u32 \<Rightarrow> mem \<Rightarrow> nat" where
  "MemoryManagerGetFree start m =
     fold (\<lambda>counter freeblocks. if tab start m counter = 0 then freeblocks + 1 else freeblocks)
       [0..<0x400] 0"

text \<open>The start address and the memory; the length argument is not looked at.\<close>

definition MemoryManagementInitialization :: "u32 \<Rightarrow> u32 \<Rightarrow> mem \<Rightarrow> u32 \<times> mem" where
  "MemoryManagementInitialization pvStartAddress dwTotalMemoryAllocLength m =
     (pvStartAddress, set_tab pvStartAddress 0 0xff (memset pvStartAddress 0 0x4000 m))"

text \<open>\<open>memcmp(&memsmall[i], &dummy, 4) == 0\<close> and \<open>memcpy(&memsmall[i], &dummy, 4)\<close>.\<close>

definition tab4_is :: "u32 \<Rightarrow> mem \<Rightarrow> nat \<Rightarrow> u32 \<Rightarrow> bool" where
  "tab4_is start m i dummy \<longleftrightarrow>
     map (\<lambda>k. tab start m (i + k)) [0..<4] = map (byte_of32 dummy) [0..<4]"

definition set_tab4 :: "u32 \<Rightarrow> nat \<Rightarrow> u32 \<Rightarrow> mem \<Rightarrow> mem" where
  "set_tab4 start i dummy m =
     fold (\<lambda>k. set_tab start (i + k) (byte_of32 dummy k)) [0..<4] m"

definition sector_address :: "u32 \<Rightarrow> nat \<Rightarrow> u32" where
  "sector_address start counter = start + of_nat counter * 0x4000"

definition need_sectors :: "u32 \<Rightarrow> nat" where
  "need_sectors sz = unat (((sz AND 0xffffc000) + 0x4000) div 0x4000)"

definition mark_big :: "u32 \<Rightarrow> nat \<Rightarrow> nat \<Rightarrow> mem \<Rightarrow> mem" where
  "mark_big start counter n m =
     (let m1 = memset (start + of_nat counter) 0xFF n m;
          m2 = set_tab start counter 0xBB m1;
          m3 = set_tab start (counter + 1) 0xCC m2;
          m4 = set_tab start (counter + n - 2) 0xCC m3
      in set_tab start (counter + n - 1) 0xBB m4)"

text \<open>\<open>t_malloc\<close>: the loops over \<open>counter\<close> stop at the first fit; NULL is \<open>0\<close>.\<close>

definition t_malloc :: "u32 \<Rightarrow> u32 \<Rightarrow> mem \<Rightarrow> u32 \<times> mem" where
  "t_malloc start sz m =
     (if sz < 0x4000 + 1
      then case find (\<lambda>counter. tab start m counter = 0) [1..<0x400] of
             Some counter \<Rightarrow> (sector_address start counter, set_tab start counter 0xAA m)
           | None \<Rightarrow> (0, m)
      else if sz < 0x10000 + 1
      then case find (\<lambda>counter. tab4_is start m counter 0) [1..<0x400] of
             Some counter \<Rightarrow> (sector_address start counter, set_tab4 start counter 0xB8BADCFE m)
           | None \<Rightarrow> (0, m)
      else if sz < 5 * 1024 * 1024 + 1
      then let n = need_sectors sz
           in case find (\<lambda>counter. \<forall>blockcount \<in> set [0..<n]. tab start m (counter + blockcount) = 0)
                   [1..<0x400] of
                Some counter \<Rightarrow> (sector_address start counter, mark_big start counter n m)
              | None \<Rightarrow> (0, m)
      else (0, m))"

text \<open>The scan of \<open>t_free\<close> for the end marker of a big block.\<close>

function free_big :: "u32 \<Rightarrow> nat \<Rightarrow> mem \<Rightarrow> mem" where
  "free_big start counter m =
     (if counter < 0x400
      then if tab start m counter = 0xCC \<and> tab start m (counter + 1) = 0xBB
           then set_tab start (counter + 1) 0 (set_tab start counter 0 m)
           else free_big start (counter + 1) (set_tab start counter 0 m)
      else m)"
  by pat_completeness auto
termination
  by (relation "measure (\<lambda>(start, counter, m). 0x400 - counter)") auto

declare free_big.simps [simp del]

definition t_free :: "u32 \<Rightarrow> u32 \<Rightarrow> mem \<Rightarrow> mem" where
  "t_free start ptr m =
     (let off = ptr - start
      in if off AND 0xffffc000 = off
         then let i = unat (off div 0x4000)
              in if tab start m i = 0xAA then set_tab start i 0 m
                 else if tab4_is start m i 0xB8BADCFE then set_tab4 start i 0 m
                 else if tab4_is start m i 0xFFFFCCBB then free_big start i m
                 else m
         else m)"

subsection \<open>malloc and free\<close>

record heap_state =
  hmem :: mem
  interrupts :: bool

definition rd32 :: "mem \<Rightarrow> u32 \<Rightarrow> u32" where
  "rd32 m a = le32 (m a) (m (a + 1)) (m (a + 2)) (m (a + 3))"

definition wr32 :: "u32 \<Rightarrow> u32 \<Rightarrow> mem \<Rightarrow> mem" where
  "wr32 a w m = m(a := byte_of32 w 0, a + 1 := byte_of32 w 1, a + 2 := byte_of32 w 2,
                  a + 3 := byte_of32 w 3)"

definition malloc :: "u32 \<Rightarrow> u32 \<Rightarrow> heap_state \<Rightarrow> u32 \<times> heap_state" where
  "malloc start sz s =
     (let temp = (sz + 0x200) AND 0xffFFff00;
          (tempmalloc2, m1) = t_malloc start temp (hmem s);
          tempmalloc = (tempmalloc2 + 0x100) AND 0xffFFff00;
          m2 = wr32 (tempmalloc - 8) tempmalloc2 m1;
          m3 = wr32 (tempmalloc - 4) 0x1234567 m2
      in (tempmalloc, s\<lparr>hmem := m3, interrupts := True\<rparr>))"

definition free :: "u32 \<Rightarrow> u32 \<Rightarrow> heap_state \<Rightarrow> heap_state" where
  "free start ptr s =
     (let s1 = s\<lparr>interrupts := False\<rparr>
      in if ptr = 0 then s1
         else if rd32 (hmem s) (ptr - 4) \<noteq> 0x1234567 then s1\<lparr>interrupts := True\<rparr>
         else s1\<lparr>hmem := t_free start (rd32 (hmem s) (ptr - 8)) (hmem s), interrupts := True\<rparr>)"

section \<open>The table\<close>

lemma tab_set_tab:
  "i < 2 ^ 32 \<Longrightarrow> j < 2 ^ 32 \<Longrightarrow> tab start (set_tab start j b m) i = (if i = j then b else tab start m i)"
  by (simp add: tab_def set_tab_def of_nat_u32_eq_iff)

lemma tab_memset:
  "c + n \<le> 2 ^ 32 \<Longrightarrow> i < 2 ^ 32 \<Longrightarrow>
   tab start (memset (start + of_nat c) b n m) i = (if c \<le> i \<and> i < c + n then b else tab start m i)"
proof (induction n arbitrary: c m)
  case 0
  then show ?case by auto
next
  case (Suc n)
  have e: "start + of_nat c + 1 = start + of_nat (Suc c)" by simp
  have "tab start (memset (start + of_nat c + 1) b n (m(start + of_nat c := b))) i
      = (if Suc c \<le> i \<and> i < Suc c + n then b else tab start (m(start + of_nat c := b)) i)"
    unfolding e using Suc.prems by (intro Suc.IH) auto
  moreover have "tab start (m(start + of_nat c := b)) i = (if i = c then b else tab start m i)"
    using Suc.prems tab_set_tab [of i c start b m] by (simp add: set_tab_def)
  ultimately show ?case by auto
qed

lemma upt_4: "[0..<4] = [0, 1, 2, 3 :: nat]"
  by (simp add: upt_rec)

lemma tab_set_tab4:
  assumes "i < 2 ^ 32" "j + 4 \<le> 2 ^ 32"
  shows "tab start (set_tab4 start j d m) i =
    (if j \<le> i \<and> i < j + 4 then byte_of32 d (i - j) else tab start m i)"
proof -
  have "tab start (set_tab4 start j d m) i =
    (if i = j + 3 then byte_of32 d 3 else if i = j + 2 then byte_of32 d 2
     else if i = j + 1 then byte_of32 d 1 else if i = j then byte_of32 d 0 else tab start m i)"
    using assms by (simp add: set_tab4_def upt_4 tab_set_tab)
  also have "\<dots> = (if j \<le> i \<and> i < j + 4 then byte_of32 d (i - j) else tab start m i)"
    using assms by auto
  finally show ?thesis .
qed

lemma tab4_is_iff: "tab4_is start m i d \<longleftrightarrow> (\<forall>k < 4. tab start m (i + k) = byte_of32 d k)"
  by (auto simp: tab4_is_def upt_4 less_Suc_eq numeral_eq_Suc)

section \<open>Blocks\<close>

text \<open>
  A block is its first sector and its number of sectors; the table marks its sectors with
  the pattern of its size class, which has no zero byte.
\<close>

type_synonym block = "nat \<times> nat"

definition block_pattern :: "nat \<Rightarrow> nat \<Rightarrow> u8" where
  "block_pattern n k =
     (if n = 1 then 0xAA
      else if n = 4 then byte_of32 0xB8BADCFE k
      else if k = 0 \<or> k = n - 1 then 0xBB
      else if k = 1 \<or> k = n - 2 then 0xCC
      else 0xFF)"

definition block_sizes :: "nat set" where
  "block_sizes = {1, 4} \<union> {5..321}"

definition sectors :: "block \<Rightarrow> nat set" where
  "sectors b = {fst b..<fst b + snd b}"

definition holds_block :: "(nat \<Rightarrow> u8) \<Rightarrow> block \<Rightarrow> bool" where
  "holds_block t b \<longleftrightarrow> 1 \<le> fst b \<and> fst b < 0x400 \<and> snd b \<in> block_sizes
     \<and> (\<forall>k < snd b. t (fst b + k) = block_pattern (snd b) k)"

definition heap_inv :: "(nat \<Rightarrow> u8) \<Rightarrow> block set \<Rightarrow> bool" where
  "heap_inv t A \<longleftrightarrow> (\<forall>b \<in> A. holds_block t b)
     \<and> (\<forall>b \<in> A. \<forall>b' \<in> A. b \<noteq> b' \<longrightarrow> sectors b \<inter> sectors b' = {})
     \<and> (\<forall>i. 1 \<le> i \<and> i < 0x400 \<and> (\<forall>b \<in> A. i \<notin> sectors b) \<longrightarrow> t i = 0)"

lemma block_pattern_4:
  "block_pattern 4 0 = 0xFE" "block_pattern 4 (Suc 0) = 0xDC" "block_pattern 4 2 = 0xBA"
  "block_pattern 4 3 = 0xB8"
  by (simp_all add: block_pattern_def byte_of32_def)

lemma block_pattern_nonzero: "n \<in> block_sizes \<Longrightarrow> k < n \<Longrightarrow> block_pattern n k \<noteq> 0"
proof (cases "n = 4")
  case True
  assume "k < n"
  with True have "k = 0 \<or> k = 1 \<or> k = 2 \<or> k = 3" by auto
  with True show ?thesis using block_pattern_4 by auto
qed (simp add: block_pattern_def)

lemma heap_inv_insert:
  assumes inv: "heap_inv t A" and n: "n \<in> block_sizes" and c: "1 \<le> c" "c < 0x400"
    and unused: "\<And>k. k < n \<Longrightarrow> t (c + k) = 0"
    and t': "\<And>i. i < 0x800 \<Longrightarrow> t' i = (if c \<le> i \<and> i < c + n then block_pattern n (i - c) else t i)"
  shows "heap_inv t' (insert (c, n) A)" and "\<forall>b \<in> A. sectors b \<inter> sectors (c, n) = {}"
proof -
  have small: "c + k < 0x800" if "k < n" for k
    using that n c by (auto simp: block_sizes_def)
  show disj: "\<forall>b \<in> A. sectors b \<inter> sectors (c, n) = {}"
  proof (intro ballI, rule ccontr)
    fix b assume b: "b \<in> A" and "sectors b \<inter> sectors (c, n) \<noteq> {}"
    then obtain i where i: "i \<in> sectors b" "i \<in> sectors (c, n)" by blast
    then have i': "c \<le> i" "i < c + n" by (auto simp: sectors_def)
    have k: "i - fst b < snd b" "fst b + (i - fst b) = i" using i(1) by (auto simp: sectors_def)
    have "t i = 0" using unused [of "i - c"] i' by simp
    moreover have h: "holds_block t b" using inv b by (simp add: heap_inv_def)
    then have "t i = block_pattern (snd b) (i - fst b)" using k unfolding holds_block_def by metis
    then have "t i \<noteq> 0" using block_pattern_nonzero k h by (simp add: holds_block_def)
    ultimately show False by simp
  qed
  have old: "holds_block t' b" if b: "b \<in> A" for b
  proof -
    have h: "holds_block t b" using inv b by (simp add: heap_inv_def)
    have "t' (fst b + k) = t (fst b + k)" if k: "k < snd b" for k
    proof -
      have "fst b + k < 0x800" using h k by (auto simp: holds_block_def block_sizes_def)
      moreover have "\<not> (c \<le> fst b + k \<and> fst b + k < c + n)"
        using disj b k by (auto simp: sectors_def)
      ultimately show ?thesis by (auto simp: t')
    qed
    with h show ?thesis by (simp add: holds_block_def)
  qed
  have new: "holds_block t' (c, n)"
    using n c t' small by (simp add: holds_block_def)
  show "heap_inv t' (insert (c, n) A)"
    unfolding heap_inv_def
  proof (intro conjI)
    show "\<forall>b \<in> insert (c, n) A. holds_block t' b" using old new by blast
    show "\<forall>b \<in> insert (c, n) A. \<forall>b' \<in> insert (c, n) A. b \<noteq> b' \<longrightarrow> sectors b \<inter> sectors b' = {}"
      using inv disj unfolding heap_inv_def by blast
    show "\<forall>i. 1 \<le> i \<and> i < 0x400 \<and> (\<forall>b \<in> insert (c, n) A. i \<notin> sectors b) \<longrightarrow> t' i = 0"
      using inv t' by (auto simp: heap_inv_def sectors_def)
  qed
qed

lemma heap_inv_remove:
  assumes inv: "heap_inv t A" and b: "(c, n) \<in> A"
    and t': "\<And>i. i < 0x800 \<Longrightarrow> t' i = (if c \<le> i \<and> i < c + n then 0 else t i)"
  shows "heap_inv t' (A - {(c, n)})"
  unfolding heap_inv_def
proof (intro conjI ballI impI allI)
  fix b assume "b \<in> A - {(c, n)}"
  then have b': "holds_block t b" "sectors b \<inter> sectors (c, n) = {}"
    using inv b unfolding heap_inv_def by blast+
  have "t' (fst b + k) = t (fst b + k)" if k: "k < snd b" for k
  proof -
    have "fst b + k < 0x800" using b' k by (auto simp: holds_block_def block_sizes_def)
    moreover have "fst b + k \<in> sectors b" using k by (simp add: sectors_def)
    then have "\<not> (c \<le> fst b + k \<and> fst b + k < c + n)" using b'(2) by (auto simp: sectors_def)
    ultimately show ?thesis by (auto simp: t')
  qed
  with b' show "holds_block t' b" by (simp add: holds_block_def)
next
  fix b b' assume "b \<in> A - {(c, n)}" "b' \<in> A - {(c, n)}" "b \<noteq> b'"
  then show "sectors b \<inter> sectors b' = {}" using inv unfolding heap_inv_def by blast
next
  fix i assume i: "1 \<le> i \<and> i < 0x400 \<and> (\<forall>b \<in> A - {(c, n)}. i \<notin> sectors b)"
  show "t' i = 0"
  proof (cases "i \<in> sectors (c, n)")
    case True
    then show ?thesis using t' i by (simp add: sectors_def)
  next
    case False
    then have "t i = 0" using inv i unfolding heap_inv_def by blast
    with t' i show ?thesis by simp
  qed
qed

subsection \<open>Sector arithmetic\<close>

lemma and_sector_mask: "(w :: u32) AND 0xffffc000 = push_bit 14 (drop_bit 14 w)"
proof -
  have c: "(0xffffc000 :: u32) = push_bit 14 (mask 18)" by (simp add: mask_eq_decr_exp)
  show ?thesis unfolding c by (rule bit_word_eqI) (auto simp: bit_simps)
qed

lemma unat_and_sector_mask: "unat ((w :: u32) AND 0xffffc000) = unat w div 0x4000 * 0x4000"
proof -
  have "drop_bit 14 w = w div 0x4000" by (simp add: drop_bit_eq_div)
  then have d: "unat (drop_bit 14 w) = unat w div 0x4000" by (simp add: unat_div)
  have "unat (push_bit 14 (drop_bit 14 w)) = unat (drop_bit 14 w) * 0x4000 mod 2 ^ 32"
    by (simp add: push_bit_eq_mult unat_word_ariths)
  moreover have "unat w div 0x4000 * 0x4000 \<le> unat w" by simp
  moreover have "unat w < 2 ^ 32" using unsigned_less [of w] by simp
  ultimately show ?thesis using d by (simp add: and_sector_mask)
qed

lemma need_sectors_eq:
  assumes "unat sz \<le> 5 * 1024 * 1024"
  shows "need_sectors sz = unat sz div 0x4000 + 1"
proof -
  let ?q = "unat sz div 0x4000"
  have "?q \<le> 320" using assms by simp
  then have "unat ((sz AND 0xffffc000) + 0x4000) = (?q + 1) * 0x4000"
    by (simp add: unat_word_ariths unat_and_sector_mask)
  then show ?thesis by (simp add: need_sectors_def unat_div)
qed

lemma sector_offset:
  assumes "c < 0x400"
  shows "sector_address start c - start AND 0xffffc000 = sector_address start c - start"
    and "unat ((sector_address start c - start) div 0x4000) = c"
proof -
  have u: "unat (of_nat c * 0x4000 :: u32) = c * 0x4000"
    using assms by (simp add: unat_word_ariths unat_of_nat take_bit_nat_eq_self)
  have "unat (of_nat c * 0x4000 AND 0xffffc000 :: u32) = unat (of_nat c * 0x4000 :: u32)"
    unfolding unat_and_sector_mask u by simp
  then show "sector_address start c - start AND 0xffffc000 = sector_address start c - start"
    by (simp add: sector_address_def word_unat_eq_iff)
  show "unat ((sector_address start c - start) div 0x4000) = c"
    using u by (simp add: sector_address_def unat_div)
qed

subsection \<open>Allocation and release\<close>

lemma find_NoneD: "find P xs = None \<Longrightarrow> x \<in> set xs \<Longrightarrow> \<not> P x"
  by (simp add: find_None_iff)

lemma find_uptD: "find P [1..<0x400] = Some c \<Longrightarrow> P c \<and> 1 \<le> c \<and> c < (0x400 :: nat)"
  by (auto simp: find_Some_iff nth_append simp del: upt_rec_numeral)

lemma table_frame:
  assumes "a \<notin> region start 0x800" "i < 0x800"
  shows "a \<noteq> start + of_nat i"
  using assms by (auto simp: region_def)

lemma set_tab_frame: "a \<notin> region start 0x800 \<Longrightarrow> i < 0x800 \<Longrightarrow> set_tab start i b m a = m a"
  using table_frame by (simp add: set_tab_def)

lemma memset_table_frame:
  "a \<notin> region start 0x800 \<Longrightarrow> c + n \<le> 0x800 \<Longrightarrow> memset (start + of_nat c) b n m a = m a"
proof (induction n arbitrary: c m)
  case 0
  then show ?case by simp
next
  case (Suc n)
  have e: "start + of_nat c + 1 = start + of_nat (Suc c)" by simp
  have "memset (start + of_nat c + 1) b n (m(start + of_nat c := b)) a = (m(start + of_nat c := b)) a"
    unfolding e using Suc.prems by (intro Suc.IH) auto
  with Suc.prems table_frame [of a start c] show ?case by simp
qed

lemma set_tab4_frame: "a \<notin> region start 0x800 \<Longrightarrow> i + 4 \<le> 0x800 \<Longrightarrow> set_tab4 start i d m a = m a"
  by (simp add: set_tab4_def upt_4 set_tab_frame)

lemma free_big_frame:
  "a \<notin> region start 0x800 \<Longrightarrow> free_big start counter m a = m a"
proof (induction start counter m rule: free_big.induct)
  case (1 start counter m)
  then show ?case
    by (subst free_big.simps) (auto simp: set_tab_frame)
qed

text \<open>The number of sectors of the class a size falls in.\<close>

definition class_sectors :: "u32 \<Rightarrow> nat" where
  "class_sectors sz = (if unat sz \<le> 0x4000 then 1 else if unat sz \<le> 0x10000 then 4
     else unat sz div 0x4000 + 1)"

definition mark_class :: "u32 \<Rightarrow> nat \<Rightarrow> u32 \<Rightarrow> mem \<Rightarrow> mem" where
  "mark_class start c sz m =
     (if unat sz \<le> 0x4000 then set_tab start c 0xAA m
      else if unat sz \<le> 0x10000 then set_tab4 start c 0xB8BADCFE m
      else mark_big start c (need_sectors sz) m)"

lemma class_sectors_size: "unat sz \<le> class_sectors sz * 0x4000"
proof -
  have "unat sz < 0x4000 + unat sz div 0x4000 * 0x4000"
    by (rule dividend_less_div_times) simp
  then show ?thesis by (simp add: class_sectors_def)
qed

lemma class_sectors_pos: "0 < class_sectors sz"
  by (simp add: class_sectors_def)

lemma class_sectors_in: "unat sz \<le> 5 * 1024 * 1024 \<Longrightarrow> class_sectors sz \<in> block_sizes"
  by (auto simp: class_sectors_def block_sizes_def)

lemma tab_mark_big:
  assumes "5 \<le> n" "c + n < 0x1000" "i < 0x1000"
  shows "tab start (mark_big start c n m) i =
      (if i = c + n - 1 then 0xBB else if i = c + n - 2 then 0xCC else if i = c + 1 then 0xCC
       else if i = c then 0xBB else if c \<le> i \<and> i < c + n then 0xFF else tab start m i)"
proof -
  have b: "c + n \<le> 2 ^ 32" "i < 2 ^ 32" "c < 2 ^ 32" "c + 1 < 2 ^ 32" "c + n - 2 < 2 ^ 32"
    "c + n - 1 < 2 ^ 32"
    using assms by auto
  show ?thesis
    unfolding mark_big_def Let_def tab_set_tab [OF b(2) b(6)] tab_set_tab [OF b(2) b(5)]
      tab_set_tab [OF b(2) b(4)] tab_set_tab [OF b(2) b(3)] tab_memset [OF b(1) b(2)] ..
qed

lemma big_pattern:
  assumes "5 \<le> n"
  shows "(if i = c + n - 1 then 0xBB else if i = c + n - 2 then 0xCC else if i = c + 1 then 0xCC
       else if i = c then 0xBB else if c \<le> i \<and> i < c + n then 0xFF else t) =
     (if c \<le> i \<and> i < c + n then block_pattern n (i - c) else t)"
proof (cases "c \<le> i")
  case True
  then obtain k where k: "i = c + k" using le_Suc_ex by blast
  show ?thesis using assms unfolding k by (auto simp: block_pattern_def)
qed (use assms in auto)

lemma mark_big_frame:
  assumes "a \<notin> region start 0x800" "5 \<le> n" "c + n < 0x800"
  shows "mark_big start c n m a = m a"
proof -
  have "memset (start + of_nat c) 0xFF n m a = m a" by (rule memset_table_frame) (use assms in simp_all)
  then show ?thesis using assms by (simp add: mark_big_def set_tab_frame del: of_nat_add)
qed

lemma tab_mark_class:
  assumes "unat sz \<le> 5 * 1024 * 1024" "c < 0x400" "i < 0x800"
  shows "tab start (mark_class start c sz m) i =
    (if c \<le> i \<and> i < c + class_sectors sz then block_pattern (class_sectors sz) (i - c)
     else tab start m i)"
proof -
  consider "unat sz \<le> 0x4000" | "0x4000 < unat sz" "unat sz \<le> 0x10000" | "0x10000 < unat sz" by linarith
  then show ?thesis
  proof cases
    case 1
    then show ?thesis using assms by (auto simp: mark_class_def class_sectors_def tab_set_tab block_pattern_def)
  next
    case 2
    then show ?thesis using assms by (auto simp: mark_class_def class_sectors_def tab_set_tab4 block_pattern_def)
  next
    case 3
    define n where "n = unat sz div 0x4000 + 1"
    have n: "5 \<le> n" "n \<le> 321" using 3 assms(1) by (auto simp: n_def)
    have "mark_class start c sz m = mark_big start c n m"
      using 3 assms(1) by (simp add: mark_class_def need_sectors_eq n_def)
    moreover have "class_sectors sz = n" using 3 by (simp add: class_sectors_def n_def)
    moreover have "tab start (mark_big start c n m) i =
      (if i = c + n - 1 then 0xBB else if i = c + n - 2 then 0xCC else if i = c + 1 then 0xCC
       else if i = c then 0xBB else if c \<le> i \<and> i < c + n then 0xFF else tab start m i)"
      by (rule tab_mark_big) (use n assms in simp_all)
    ultimately show ?thesis using big_pattern [OF n(1), where c = c and i = i and t = "tab start m i"]
      by metis
  qed
qed

lemma mark_class_frame:
  assumes "a \<notin> region start 0x800" "unat sz \<le> 5 * 1024 * 1024" "c < 0x400"
  shows "mark_class start c sz m a = m a"
proof (cases "unat sz \<le> 0x10000")
  case True
  with assms show ?thesis by (simp add: mark_class_def set_tab_frame set_tab4_frame)
next
  case False
  have "mark_big start c (need_sectors sz) m a = m a"
    by (rule mark_big_frame) (use False assms in \<open>auto simp: need_sectors_eq\<close>)
  with False show ?thesis by (simp add: mark_class_def)
qed

lemma t_malloc_by_class:
  "t_malloc start sz m =
     (if unat sz \<le> 5 * 1024 * 1024
      then case find (\<lambda>c. \<forall>k < class_sectors sz. tab start m (c + k) = 0) [1..<0x400] of
             Some c \<Rightarrow> (sector_address start c, mark_class start c sz m)
           | None \<Rightarrow> (0, m)
      else (0, m))"
proof -
  consider "unat sz \<le> 0x4000" | "0x4000 < unat sz" "unat sz \<le> 0x10000"
    | "0x10000 < unat sz" "unat sz \<le> 5 * 1024 * 1024" | "5 * 1024 * 1024 < unat sz" by linarith
  then show ?thesis
  proof cases
    case 1
    then have "sz < 0x4000 + 1" by (simp add: word_less_nat_alt)
    with 1 show ?thesis
      by (simp add: t_malloc_def class_sectors_def mark_class_def cong: option.case_cong)
  next
    case 2
    then have "\<not> sz < 0x4000 + 1" "sz < 0x10000 + 1" by (simp_all add: word_less_nat_alt)
    with 2 show ?thesis
      by (simp add: t_malloc_def class_sectors_def mark_class_def tab4_is_iff byte_of32_def
          cong: option.case_cong)
  next
    case 3
    then have "\<not> sz < 0x4000 + 1" "\<not> sz < 0x10000 + 1" "sz < 5 * 1024 * 1024 + 1"
      by (simp_all add: word_less_nat_alt)
    with 3 show ?thesis
      by (simp add: t_malloc_def class_sectors_def mark_class_def need_sectors_eq Ball_def
          cong: option.case_cong del: upt_rec_numeral)
  next
    case 4
    then have "\<not> sz < 0x4000 + 1" "\<not> sz < 0x10000 + 1" "\<not> sz < 5 * 1024 * 1024 + 1"
      by (simp_all add: word_less_nat_alt)
    with 4 show ?thesis by (simp add: t_malloc_def)
  qed
qed

subsection \<open>Release\<close>

lemma holds_block_pattern:
  "holds_block t (c, n) \<Longrightarrow> k < n \<Longrightarrow> t (c + k) = block_pattern n k"
  by (simp add: holds_block_def)

lemma free_big_clears:
  assumes "c \<le> e" "Suc e < 0x401" "\<forall>i. c \<le> i \<and> i < e \<longrightarrow> \<not> (t i = 0xCC \<and> t (i + 1) = 0xBB)"
    "t e = 0xCC" "t (e + 1) = 0xBB" "\<forall>i < 0x800. tab start m i = t i" "i < 0x800"
  shows "tab start (free_big start c m) i = (if c \<le> i \<and> i \<le> e + 1 then 0 else tab start m i)"
  using assms
proof (induction "e - c" arbitrary: c m t)
  case 0
  then have "c = e" by simp
  with 0 show ?case by (subst free_big.simps) (auto simp: tab_set_tab)
next
  case (Suc d)
  have c: "c < 0x400" "\<not> (tab start m c = 0xCC \<and> tab start m (c + 1) = 0xBB)"
    using Suc.hyps Suc.prems by auto
  have "tab start (free_big start (c + 1) (set_tab start c 0 m)) i
      = (if c + 1 \<le> i \<and> i \<le> e + 1 then 0 else tab start (set_tab start c 0 m) i)"
    using Suc.hyps(2) Suc.prems
    by (intro Suc.hyps(1) [where t = "t(c := 0)"]) (auto simp: tab_set_tab)
  with c Suc.prems Suc.hyps(2) show ?case by (subst free_big.simps) (auto simp: tab_set_tab)
qed

lemma free_class:
  assumes h: "holds_block (tab start m) (c, n)" and n: "n \<noteq> 5" and e: "c + n \<le> 0x400" and i: "i < 0x800"
  shows "tab start (t_free start (sector_address start c) m) i
    = (if c \<le> i \<and> i < c + n then 0 else tab start m i)"
proof -
  have c: "c < 0x400" using h by (simp add: holds_block_def)
  consider "n = 1" | "n = 4" | "6 \<le> n" using h n by (fastforce simp: holds_block_def block_sizes_def)
  then show ?thesis
  proof cases
    case 1
    then have "tab start m c = 0xAA" using holds_block_pattern [OF h, of 0] by (simp add: block_pattern_def)
    with 1 c i show ?thesis by (auto simp: t_free_def Let_def sector_offset tab_set_tab)
  next
    case 2
    then have t: "\<forall>k < 4. tab start m (c + k) = byte_of32 0xB8BADCFE k"
      using holds_block_pattern [OF h] by (simp add: block_pattern_def)
    then have "tab start m c \<noteq> 0xAA" using t [rule_format, of 0] by (simp add: byte_of32_def)
    with 2 c i t show ?thesis
      by (simp add: t_free_def Let_def sector_offset tab4_is_iff tab_set_tab4)
        (auto simp: byte_of32_def)
  next
    case 3
    note b = holds_block_pattern [OF h]
    have bytes: "byte_of32 0xFFFFCCBB 0 = 0xBB" "byte_of32 0xFFFFCCBB 1 = 0xCC"
      "byte_of32 0xFFFFCCBB 2 = 0xFF" "byte_of32 0xFFFFCCBB 3 = 0xFF"
      by (simp_all add: byte_of32_def)
    have "tab start m c = 0xBB" using b [of 0] 3 by (simp add: block_pattern_def)
    moreover have "tab4_is start m c 0xFFFFCCBB"
      unfolding tab4_is_iff
    proof (intro allI impI)
      fix k :: nat assume "k < 4"
      then consider "k = 0" | "k = 1" | "k = 2" | "k = 3" by linarith
      then show "tab start m (c + k) = byte_of32 0xFFFFCCBB k"
        by cases (use b [of k] 3 bytes in \<open>auto simp: block_pattern_def\<close>)
    qed
    moreover have "\<not> tab4_is start m c 0xB8BADCFE"
      using \<open>tab start m c = 0xBB\<close> by (auto simp: tab4_is_iff byte_of32_def intro!: exI [of _ 0])
    ultimately have "t_free start (sector_address start c) m = free_big start c m"
      using c by (simp add: t_free_def Let_def sector_offset)
    moreover have "tab start (free_big start c m) i
        = (if c \<le> i \<and> i \<le> (c + n - 2) + 1 then 0 else tab start m i)"
    proof (rule free_big_clears [where t = "tab start m"])
      show "\<forall>i. c \<le> i \<and> i < c + n - 2 \<longrightarrow> \<not> (tab start m i = 0xCC \<and> tab start m (i + 1) = 0xBB)"
      proof (intro allI impI)
        fix j assume j: "c \<le> j \<and> j < c + n - 2"
        define k where "k = j - c"
        have k: "j = c + k" "k + 2 < n" using j by (auto simp: k_def)
        have "k + 1 \<noteq> 0" "k + 1 \<noteq> n - 1" "k + 1 < n" using k by auto
        then have "block_pattern n (k + 1) \<noteq> 0xBB" using 3 by (simp add: block_pattern_def)
        moreover have "tab start m (j + 1) = block_pattern n (k + 1)"
          using b [OF \<open>k + 1 < n\<close>] k(1) by (simp add: add.assoc)
        ultimately show "\<not> (tab start m j = 0xCC \<and> tab start m (j + 1) = 0xBB)" by metis
      qed
      show "tab start m (c + n - 2) = 0xCC" using b [of "n - 2"] 3 by (simp add: block_pattern_def)
      have "c + n - 2 + 1 = c + (n - 1)" using 3 by simp
      then show "tab start m (c + n - 2 + 1) = 0xBB" using b [of "n - 1"] 3 by (simp add: block_pattern_def)
    qed (use 3 e i in auto)
    ultimately show ?thesis using 3 by auto
  qed
qed

lemma t_free_frame:
  assumes "a \<notin> region start 0x800" "c < 0x400"
  shows "t_free start (sector_address start c) m a = m a"
  using assms by (simp add: t_free_def Let_def sector_offset set_tab_frame set_tab4_frame free_big_frame)

lemma t_malloc_facts:
  assumes inv: "heap_inv (tab start m) A" and r: "t_malloc start sz m = (p, m')"
  shows "(p = 0 \<and> m' = m \<and>
        (unat sz \<le> 5 * 1024 * 1024 \<longrightarrow>
         (\<forall>c. 1 \<le> c \<and> c < 0x400 \<longrightarrow> (\<exists>k < class_sectors sz. tab start m (c + k) \<noteq> 0))))
     \<or> (\<exists>c. p = sector_address start c \<and> 1 \<le> c \<and> c < 0x400
          \<and> class_sectors sz \<in> block_sizes
          \<and> m' = mark_class start c sz m
          \<and> heap_inv (tab start m') (insert (c, class_sectors sz) A)
          \<and> (\<forall>b \<in> A. sectors b \<inter> sectors (c, class_sectors sz) = {})
          \<and> (\<forall>a. a \<notin> region start 0x800 \<longrightarrow> m' a = m a))"
proof (cases "unat sz \<le> 5 * 1024 * 1024")
  case False
  then show ?thesis using r by (simp add: t_malloc_by_class)
next
  case sz: True
  let ?P = "\<lambda>c. \<forall>k < class_sectors sz. tab start m (c + k) = 0"
  show ?thesis
  proof (cases "find ?P [1..<0x400]")
    case None
    have "\<exists>k < class_sectors sz. tab start m (c + k) \<noteq> 0" if "1 \<le> c \<and> c < 0x400" for c
      using find_NoneD [OF None, of c] that by auto
    then show ?thesis using None r sz by (simp add: t_malloc_by_class del: upt_rec_numeral)
  next
    case (Some c)
    note c = find_uptD [OF Some]
    have m': "p = sector_address start c" "m' = mark_class start c sz m"
      using Some r sz by (simp_all add: t_malloc_by_class del: upt_rec_numeral)
    note t' = tab_mark_class [OF sz, of c]
    note ins = heap_inv_insert [OF inv class_sectors_in [OF sz], of c "tab start m'"]
    have "heap_inv (tab start m') (insert (c, class_sectors sz) A)"
      by (rule ins) (use c t' m' in auto)
    moreover have "\<forall>b \<in> A. sectors b \<inter> sectors (c, class_sectors sz) = {}"
      by (rule ins) (use c t' m' in auto)
    moreover have "\<forall>a. a \<notin> region start 0x800 \<longrightarrow> m' a = m a"
      using mark_class_frame [OF _ sz, of _ start c m] c m' by simp
    ultimately show ?thesis using c m' class_sectors_in [OF sz] by blast
  qed
qed

section \<open>The allocator as an interface\<close>

text \<open>
  What a client of an allocator relies on: \<open>inv s A\<close> says that the live blocks in the state
  \<open>s\<close> are those of \<open>A\<close>. An allocation adds a block apart from all others or leaves the
  set as it is; releasing a live block that \<open>can_release\<close> allows takes out that block.
\<close>

datatype ('r, 'b) request = Acquire 'r | Release 'b

locale allocator =
  fixes inv :: "'s \<Rightarrow> 'b set \<Rightarrow> bool"
    and acquire :: "'r \<Rightarrow> 's \<Rightarrow> 'b option \<times> 's"
    and release :: "'b \<Rightarrow> 's \<Rightarrow> 's"
    and can_release :: "'b \<Rightarrow> bool"
    and apart :: "'b \<Rightarrow> 'b \<Rightarrow> bool"
  assumes acquire_none: "inv s A \<Longrightarrow> acquire r s = (None, s') \<Longrightarrow> inv s' A"
    and acquire_some: "inv s A \<Longrightarrow> acquire r s = (Some b, s') \<Longrightarrow>
      inv s' (insert b A) \<and> b \<notin> A \<and> (\<forall>a \<in> A. apart a b \<and> apart b a)"
    and release_live: "inv s A \<Longrightarrow> b \<in> A \<Longrightarrow> can_release b \<Longrightarrow> inv (release b s) (A - {b})"

text \<open>A client's step: it only releases what it holds and what can be released.\<close>

fun client_step :: "('r \<Rightarrow> 's \<Rightarrow> 'b option \<times> 's) \<Rightarrow> ('b \<Rightarrow> 's \<Rightarrow> 's) \<Rightarrow> ('b \<Rightarrow> bool) \<Rightarrow>
    ('r, 'b) request \<Rightarrow> 's \<times> 'b set \<Rightarrow> 's \<times> 'b set" where
  "client_step acquire release can_release (Acquire r) (s, A) =
     (case acquire r s of (None, s') \<Rightarrow> (s', A) | (Some b, s') \<Rightarrow> (s', insert b A))"
| "client_step acquire release can_release (Release b) (s, A) =
     (if b \<in> A \<and> can_release b then (release b s, A - {b}) else (s, A))"

context allocator begin

lemma step_keeps:
  assumes "inv s A" "\<forall>a \<in> A. \<forall>b \<in> A. a \<noteq> b \<longrightarrow> apart a b"
    "client_step acquire release can_release req (s, A) = (s', A')"
  shows "inv s' A' \<and> (\<forall>a \<in> A'. \<forall>b \<in> A'. a \<noteq> b \<longrightarrow> apart a b)"
proof (cases req)
  case (Acquire r)
  obtain ob s1 where r: "acquire r s = (ob, s1)" by (cases "acquire r s")
  show ?thesis
  proof (cases ob)
    case None
    then show ?thesis using acquire_none [OF assms(1)] assms r Acquire by auto
  next
    case (Some b)
    then show ?thesis using acquire_some [OF assms(1)] assms r Acquire by auto
  qed
next
  case (Release b)
  then show ?thesis using release_live [OF assms(1)] assms by (auto split: if_splits)
qed

lemma run_keeps:
  "inv s A \<Longrightarrow> \<forall>a \<in> A. \<forall>b \<in> A. a \<noteq> b \<longrightarrow> apart a b \<Longrightarrow>
   fold (client_step acquire release can_release) reqs (s, A) = (s', A') \<Longrightarrow>
   inv s' A' \<and> (\<forall>a \<in> A'. \<forall>b \<in> A'. a \<noteq> b \<longrightarrow> apart a b)"
proof (induction reqs arbitrary: s A)
  case Nil
  then show ?case by simp
next
  case (Cons req reqs)
  obtain s1 A1 where r: "client_step acquire release can_release req (s, A) = (s1, A1)" by fastforce
  show ?case
    using Cons.IH [of s1 A1] step_keeps [OF Cons.prems(1,2) r] Cons.prems(3) r by simp
qed

end

subsection \<open>\<open>t_malloc\<close> and \<open>t_free\<close> behind that interface\<close>

text \<open>
  A client holds a pointer and the size it asked for. \<open>live\<close> ties such a set to the table.
\<close>

definition block_of :: "u32 \<Rightarrow> u32 \<times> u32 \<Rightarrow> block" where
  "block_of start b = (unat ((fst b - start) div 0x4000), class_sectors (snd b))"

definition live :: "u32 \<Rightarrow> mem \<Rightarrow> (u32 \<times> u32) set \<Rightarrow> bool" where
  "live start m A \<longleftrightarrow> 0 < unat start \<and> unat start + 0x1600000 \<le> 2 ^ 32
     \<and> heap_inv (tab start m) (block_of start ` A)
     \<and> (\<forall>b \<in> A. unat (snd b) \<le> 5 * 1024 * 1024
          \<and> (\<exists>c. 1 \<le> c \<and> c < 0x400 \<and> fst b = sector_address start c))
     \<and> (\<forall>b \<in> A. \<forall>b' \<in> A. fst b = fst b' \<longrightarrow> b = b')"

definition heap_acquire :: "u32 \<Rightarrow> u32 \<Rightarrow> mem \<Rightarrow> (u32 \<times> u32) option \<times> mem" where
  "heap_acquire start sz m =
     (case t_malloc start sz m of (p, m') \<Rightarrow> if p = 0 then (None, m') else (Some (p, sz), m'))"

definition heap_release :: "u32 \<Rightarrow> u32 \<times> u32 \<Rightarrow> mem \<Rightarrow> mem" where
  "heap_release start b m = t_free start (fst b) m"

definition releasable :: "u32 \<Rightarrow> u32 \<times> u32 \<Rightarrow> bool" where
  "releasable start b \<longleftrightarrow> (case block_of start b of (c, n) \<Rightarrow> n \<noteq> 5 \<and> c + n \<le> 0x400)"

definition bytes_apart :: "u32 \<times> u32 \<Rightarrow> u32 \<times> u32 \<Rightarrow> bool" where
  "bytes_apart a b \<longleftrightarrow> region (fst a) (unat (snd a)) \<inter> region (fst b) (unat (snd b)) = {}"

lemma unat_sector_address:
  "unat start + 0x1600000 \<le> 2 ^ 32 \<Longrightarrow> c < 0x400 \<Longrightarrow>
   unat (sector_address start c) = unat start + c * 0x4000"
  by (simp add: sector_address_def unat_word_ariths unat_of_nat take_bit_nat_eq_self)

lemma block_of_address: "c < 0x400 \<Longrightarrow> block_of start (sector_address start c, sz) = (c, class_sectors sz)"
  by (simp add: block_of_def sector_offset)

lemma sectors_bytes_apart:
  assumes st: "unat start + 0x1600000 \<le> 2 ^ 32" and c: "c < 0x400" "c' < 0x400"
    and sz: "unat sz \<le> 5 * 1024 * 1024" "unat sz' \<le> 5 * 1024 * 1024"
    and d: "sectors (c, class_sectors sz) \<inter> sectors (c', class_sectors sz') = {}"
  shows "bytes_apart (sector_address start c, sz) (sector_address start c', sz')"
proof -
  let ?n = "class_sectors sz" and ?n' = "class_sectors sz'"
  have n: "1 \<le> ?n" "1 \<le> ?n'" by (simp_all add: class_sectors_def)
  have "c \<notin> sectors (c', ?n') \<and> c' \<notin> sectors (c, ?n)" using d n by (auto simp: sectors_def)
  with n have "c + ?n \<le> c' \<or> c' + ?n' \<le> c" by (auto simp: sectors_def)
  then have "(c + ?n) * 0x4000 \<le> c' * 0x4000 \<or> (c' + ?n') * 0x4000 \<le> c * 0x4000" by fastforce
  then have sep: "c * 0x4000 + unat sz \<le> c' * 0x4000 \<or> c' * 0x4000 + unat sz' \<le> c * 0x4000"
    using class_sectors_size [of sz] class_sectors_size [of sz'] by (auto simp: add_mult_distrib)
  have b: "unat (sector_address start c) + unat sz \<le> 2 ^ 32"
    "unat (sector_address start c') + unat sz' \<le> 2 ^ 32"
    using st c sz by (simp_all add: unat_sector_address)
  show ?thesis
    using sep by (auto simp: bytes_apart_def region_unat [OF b(1)] region_unat [OF b(2)]
        unat_sector_address [OF st c(1)] unat_sector_address [OF st c(2)])
qed

lemma acquire_result:
  assumes lv: "live start m A" and r: "t_malloc start sz m = (p, m')" and p: "p \<noteq> 0"
  shows "live start m' (insert (p, sz) A) \<and> (p, sz) \<notin> A
    \<and> (\<forall>a \<in> A. bytes_apart a (p, sz) \<and> bytes_apart (p, sz) a)"
proof -
  have inv: "heap_inv (tab start m) (block_of start ` A)" and st: "unat start + 0x1600000 \<le> 2 ^ 32"
    using lv by (simp_all add: live_def)
  have szle: "unat sz \<le> 5 * 1024 * 1024"
    using r p by (auto simp: t_malloc_by_class split: if_splits)
  obtain c where c: "p = sector_address start c" "1 \<le> c" "c < 0x400"
    and inv': "heap_inv (tab start m') (insert (c, class_sectors sz) (block_of start ` A))"
    and dj: "\<forall>b \<in> block_of start ` A. sectors b \<inter> sectors (c, class_sectors sz) = {}"
    using t_malloc_facts [OF inv r] p by blast
  have old: "\<exists>k. fst a = sector_address start k \<and> k < 0x400 \<and> unat (snd a) \<le> 5 * 1024 * 1024
      \<and> bytes_apart a (p, sz) \<and> fst a \<noteq> p" if a: "a \<in> A" for a
  proof -
    obtain k where k: "1 \<le> k" "k < 0x400" "fst a = sector_address start k" "unat (snd a) \<le> 5 * 1024 * 1024"
      using lv a by (auto simp: live_def)
    have ba: "block_of start a = (k, class_sectors (snd a))"
      using block_of_address [OF k(2), of start "snd a"] k(3) by (metis prod.collapse)
    have d: "sectors (k, class_sectors (snd a)) \<inter> sectors (c, class_sectors sz) = {}"
      using dj a ba by force
    have "bytes_apart (sector_address start k, snd a) (sector_address start c, sz)"
      by (rule sectors_bytes_apart [OF st k(2) c(3) k(4) szle d])
    moreover have "k \<noteq> c"
      using d class_sectors_pos [of sz] class_sectors_pos [of "snd a"] by (auto simp: sectors_def)
    then have "unat (fst a) \<noteq> unat p" using st k c by (simp add: unat_sector_address)
    ultimately show ?thesis using k c by (metis prod.collapse)
  qed
  have "live start m' (insert (p, sz) A)"
    unfolding live_def
  proof (intro conjI)
    show "0 < unat start" "unat start + 0x1600000 \<le> 2 ^ 32" using lv by (simp_all add: live_def)
    show "heap_inv (tab start m') (block_of start ` insert (p, sz) A)"
      using inv' c by (simp add: block_of_address)
    show "\<forall>b \<in> insert (p, sz) A. unat (snd b) \<le> 5 * 1024 * 1024
        \<and> (\<exists>c. 1 \<le> c \<and> c < 0x400 \<and> fst b = sector_address start c)"
      using lv c szle by (auto simp: live_def)
    show "\<forall>b \<in> insert (p, sz) A. \<forall>b' \<in> insert (p, sz) A. fst b = fst b' \<longrightarrow> b = b'"
      using lv old unfolding live_def by (metis fst_conv insert_iff)
  qed
  moreover have "(p, sz) \<notin> A" using old by force
  moreover have "bytes_apart a (p, sz) \<and> bytes_apart (p, sz) a" if "a \<in> A" for a
    using old [OF that] by (auto simp: bytes_apart_def)
  ultimately show ?thesis by blast
qed

lemma live_block_inj:
  assumes "live start m A" "b \<in> A" "b' \<in> A" "block_of start b = block_of start b'"
  shows "b = b'"
proof -
  obtain k where k: "k < 0x400" "fst b = sector_address start k" using assms by (auto simp: live_def)
  obtain k' where k': "k' < 0x400" "fst b' = sector_address start k'" using assms by (auto simp: live_def)
  have "fst (block_of start b) = k" "fst (block_of start b') = k'"
    using k k' sector_offset(2) by (auto simp: block_of_def)
  with assms k k' have "fst b = fst b'" by simp
  with assms show ?thesis by (auto simp: live_def)
qed

lemma release_result:
  assumes lv: "live start m A" and b: "b \<in> A" and f: "releasable start b"
  shows "live start (heap_release start b m) (A - {b})"
proof -
  have inv: "heap_inv (tab start m) (block_of start ` A)" using lv by (simp add: live_def)
  obtain k where k: "1 \<le> k" "k < 0x400" "fst b = sector_address start k"
    using lv b by (auto simp: live_def)
  let ?n = "class_sectors (snd b)"
  have bb: "block_of start b = (k, ?n)"
    using block_of_address [OF k(2), of start "snd b"] k(3) by (metis prod.collapse)
  have h: "holds_block (tab start m) (k, ?n)" using inv b bb unfolding heap_inv_def by force
  have n: "?n \<noteq> 5" "k + ?n \<le> 0x400" using f bb by (simp_all add: releasable_def)
  have "heap_inv (tab start (heap_release start b m)) (block_of start ` A - {(k, ?n)})"
  proof (rule heap_inv_remove [OF inv])
    show "(k, ?n) \<in> block_of start ` A" using b bb by (metis imageI)
    show "tab start (heap_release start b m) i = (if k \<le> i \<and> i < k + ?n then 0 else tab start m i)"
      if "i < 0x800" for i
      unfolding heap_release_def k(3) by (rule free_class [OF h n that])
  qed
  moreover have "inj_on (block_of start) A" using live_block_inj [OF lv] by (rule inj_onI)
  then have "block_of start ` A - {(k, ?n)} = block_of start ` (A - {b})"
    using inj_on_image_set_diff [of "block_of start" A A "{b}"] b bb by simp
  ultimately show ?thesis using lv by (auto simp: live_def)
qed

interpretation cromwell_heap: allocator "live start" "heap_acquire start" "heap_release start"
  "releasable start" bytes_apart for start
proof
  fix s s' A r b
  show "live start s A \<Longrightarrow> heap_acquire start r s = (None, s') \<Longrightarrow> live start s' A"
  proof -
    assume l: "live start s A" and h: "heap_acquire start r s = (None, s')"
    obtain p m' where t: "t_malloc start r s = (p, m')" by fastforce
    with h have pm: "p = 0" "m' = s'" by (auto simp: heap_acquire_def split: if_splits)
    have st: "0 < unat start" "unat start + 0x1600000 \<le> 2 ^ 32"
      and inv: "heap_inv (tab start s) (block_of start ` A)" using l by (simp_all add: live_def)
    have nz: "p \<noteq> sector_address start c" if "c < 0x400" for c
    proof
      assume "p = sector_address start c"
      then have "unat p = unat start + c * 0x4000" using unat_sector_address [OF st(2) that] by simp
      with st pm show False by simp
    qed
    have "s' = s" using t_malloc_facts [OF inv t] pm nz by blast
    with l show ?thesis by simp
  qed
  show "live start s A \<Longrightarrow> heap_acquire start r s = (Some b, s') \<Longrightarrow>
      live start s' (insert b A) \<and> b \<notin> A \<and> (\<forall>a \<in> A. bytes_apart a b \<and> bytes_apart b a)"
  proof -
    assume l: "live start s A" and h: "heap_acquire start r s = (Some b, s')"
    obtain p m' where t: "t_malloc start r s = (p, m')" by fastforce
    with h have "p \<noteq> 0" "m' = s'" "b = (p, r)" by (auto simp: heap_acquire_def split: if_splits)
    with acquire_result [OF l t] show ?thesis by simp
  qed
  show "live start s A \<Longrightarrow> b \<in> A \<Longrightarrow> releasable start b \<Longrightarrow> live start (heap_release start b s) (A - {b})"
    by (rule release_result)
qed

section \<open>Properties\<close>

lemma init_table:
  assumes "1 \<le> i" "i < 0x800"
  shows "tab start (snd (MemoryManagementInitialization start len m)) i = 0"
proof -
  have "tab start (memset (start + of_nat 0) 0 0x4000 m) i = (if 0 \<le> i \<and> i < 0 + 0x4000 then 0 else tab start m i)"
    by (rule tab_memset) (use assms in simp_all)
  with assms show ?thesis
    unfolding MemoryManagementInitialization_def snd_conv
    by (subst tab_set_tab) simp_all
qed

lemma init_live:
  assumes "0 < unat start" "unat start + 0x1600000 \<le> 2 ^ 32"
  shows "live start (snd (MemoryManagementInitialization start len m)) {}"
  unfolding live_def heap_inv_def using assms by (simp add: init_table)


text \<open>
  \<open>t_malloc\<close> either fails, leaving memory as it was, and then the size is over 5 MB or
  no start sector has enough free sectors after it; or it returns the address of a sector
  whose block is large enough for the size, which was free and is disjoint from all live blocks,
  and the only bytes it writes are those of the table.\<close>

theorem t_malloc_first_fit:
  assumes "heap_inv (tab start m) A" "t_malloc start sz m = (p, m')"
  shows "(p = 0 \<and> m' = m \<and> (unat sz \<le> 5 * 1024 * 1024 \<longrightarrow>
           (\<forall>c. 1 \<le> c \<and> c < 0x400 \<longrightarrow> (\<exists>k < class_sectors sz. tab start m (c + k) \<noteq> 0))))
     \<or> (\<exists>c. p = sector_address start c \<and> 1 \<le> c \<and> c < 0x400 \<and> unat sz \<le> class_sectors sz * 0x4000
          \<and> heap_inv (tab start m') (insert (c, class_sectors sz) A)
          \<and> (\<forall>b \<in> A. sectors b \<inter> sectors (c, class_sectors sz) = {})
          \<and> (\<forall>a. a \<notin> region start 0x800 \<longrightarrow> m' a = m a))"
  using t_malloc_facts [OF assms] class_sectors_size by blast

lemma t_malloc_SomeD:
  assumes "t_malloc start sz m = (p, m')" "p \<noteq> 0"
  obtains c where "p = sector_address start c" "1 \<le> c" "c < 0x400" "m' = mark_class start c sz m"
    "unat sz \<le> 5 * 1024 * 1024" "\<forall>k < class_sectors sz. tab start m (c + k) = 0"
proof -
  have szle: "unat sz \<le> 5 * 1024 * 1024"
    using assms by (auto simp: t_malloc_by_class split: if_splits)
  then obtain c where f: "find (\<lambda>c. \<forall>k < class_sectors sz. tab start m (c + k) = 0) [1..<0x400] = Some c"
    using assms by (auto simp: t_malloc_by_class simp del: upt_rec_numeral split: option.splits)
  with assms szle have "p = sector_address start c" "m' = mark_class start c sz m"
    by (simp_all add: t_malloc_by_class del: upt_rec_numeral)
  with find_uptD [OF f] szle that show thesis by blast
qed

lemma mark_class_holds:
  assumes "unat sz \<le> 5 * 1024 * 1024" "1 \<le> c" "c < 0x400"
  shows "holds_block (tab start (mark_class start c sz m)) (c, class_sectors sz)"
proof -
  have "c + k < 0x800" if "k < class_sectors sz" for k
    using that assms class_sectors_in [OF assms(1)] by (auto simp: block_sizes_def)
  then show ?thesis
    using assms by (simp add: holds_block_def class_sectors_in tab_mark_class)
qed

lemma t_free_restores:
  assumes t: "\<And>i. i < 0x800 \<Longrightarrow> tab start m' i = tab start (mark_class start c sz m) i"
    and sz: "unat sz \<le> 5 * 1024 * 1024" and c: "1 \<le> c" "c < 0x400"
    and free: "\<forall>k < class_sectors sz. tab start m (c + k) = 0"
    and n: "class_sectors sz \<noteq> 5" "c + class_sectors sz \<le> 0x400" and i: "i < 0x800"
  shows "tab start (t_free start (sector_address start c) m') i = tab start m i"
proof -
  have "c + k < 0x800" if "k < class_sectors sz" for k using that n(2) by simp
  then have "holds_block (tab start m') (c, class_sectors sz)"
    using mark_class_holds [OF sz c, of start m] t by (simp add: holds_block_def)
  from free_class [OF this n i] show ?thesis
    using free [rule_format, of "i - c"] tab_mark_class [OF sz c(2) i] t [OF i] by auto
qed

text \<open>
  \<open>t_free\<close> undoes \<open>t_malloc\<close>: freeing the block just allocated gives back the memory as
  it was before, byte for byte, unless the block has five sectors or ends past sector 0x400.\<close>

theorem t_free_undoes_t_malloc:
  assumes r: "t_malloc start sz m = (p, m')" and p: "p \<noteq> 0"
    and n: "class_sectors sz \<noteq> 5"
    and e: "unat ((p - start) div 0x4000) + class_sectors sz \<le> 0x400"
  shows "t_free start p m' = m"
proof
  fix a
  obtain c where c: "p = sector_address start c" "1 \<le> c" "c < 0x400" "m' = mark_class start c sz m"
    "unat sz \<le> 5 * 1024 * 1024" "\<forall>k < class_sectors sz. tab start m (c + k) = 0"
    by (rule t_malloc_SomeD [OF r p])
  show "t_free start p m' a = m a"
  proof (cases "a \<in> region start 0x800")
    case False
    then show ?thesis using c by (simp add: t_free_frame mark_class_frame)
  next
    case True
    then obtain i where i: "i < 0x800" "a = start + of_nat i" by (auto simp: region_def)
    have fits: "c + class_sectors sz \<le> 0x400" using e c sector_offset(2) by simp
    have "tab start (t_free start p m') i = tab start m i"
      unfolding c(1) by (rule t_free_restores [OF _ c(5,2,3,6) n fits i(1)]) (simp add: c(4))
    then show ?thesis using i by (simp add: tab_def)
  qed
qed

text \<open>
  A block of five sectors (a request of 0x10001 to 0x13fff bytes) is never released:
  its marker is BB CC FF CC BB, \<open>t_free\<close> looks for BB CC FF FF, and returns with the table
  unchanged.\<close>

theorem t_free_leaks_five_sectors:
  assumes r: "t_malloc start sz m = (p, m')" and p: "p \<noteq> 0"
    and sz: "0x10000 < unat sz" "unat sz < 0x14000"
  shows "t_free start p m' = m'"
proof -
  have n: "class_sectors sz = 5" using sz by (simp add: class_sectors_def)
  obtain c where c: "p = sector_address start c" "1 \<le> c" "c < 0x400" "m' = mark_class start c sz m"
    "unat sz \<le> 5 * 1024 * 1024"
    by (rule t_malloc_SomeD [OF r p])
  from mark_class_holds [OF c(5,2,3)]
  have h: "tab start m' (c + k) = block_pattern 5 k" if "k < 5" for k
    using that n c(4) by (simp add: holds_block_def)
  have "tab start m' c = 0xBB" using h [of 0] by (simp add: block_pattern_def)
  moreover have "tab start m' (c + 3) = 0xCC" using h [of 3] by (simp add: block_pattern_def)
  moreover have "byte_of32 0xFFFFCCBB 3 = 0xFF" "byte_of32 0xB8BADCFE 3 = 0xB8"
    by (simp_all add: byte_of32_def)
  ultimately have "\<not> tab4_is start m' c 0xFFFFCCBB" "\<not> tab4_is start m' c 0xB8BADCFE"
    by (auto simp: tab4_is_iff intro!: exI [of _ 3])
  with \<open>tab start m' c = 0xBB\<close> c show ?thesis by (simp add: t_free_def Let_def sector_offset)
qed

subsection \<open>\<open>malloc\<close> and \<open>free\<close>\<close>

lemma rd32_wr32 [mem_simps]: "rd32 (wr32 a w m) a = w"
  by (simp add: rd32_def wr32_def)

lemma wr32_frame [mem_simps]: "b \<notin> region a 4 \<Longrightarrow> wr32 a w m b = m b"
  by (auto simp: wr32_def region_def lessThan_Suc_eq_insert_0 eval_nat_numeral)

lemma rd32_cong: "(\<And>b. b \<in> region a 4 \<Longrightarrow> m b = m' b) \<Longrightarrow> rd32 m a = rd32 m' a"
  by (auto simp: rd32_def region_def lessThan_Suc_eq_insert_0 eval_nat_numeral)

definition header_size :: "u32 \<Rightarrow> u32" where
  "header_size sz = (sz + 0x200) AND 0xffffff00"

lemma unat_and_page: "unat ((w :: u32) AND 0xffffff00) = unat w div 0x100 * 0x100"
proof -
  have c: "(0xffffff00 :: u32) = push_bit 8 (mask 24)" by (simp add: mask_eq_decr_exp)
  have "w AND 0xffffff00 = push_bit 8 (drop_bit 8 w)"
    unfolding c by (rule bit_word_eqI) (auto simp: bit_simps)
  moreover have "unat (push_bit 8 (drop_bit 8 w)) = unat w div 0x100 * 0x100 mod 2 ^ 32"
    by (simp add: push_bit_eq_mult drop_bit_eq_div unat_word_ariths unat_div mod_mult_left_eq)
  moreover have "unat w div 0x100 * 0x100 \<le> unat w" by simp
  moreover have "unat w < 2 ^ 32" using unsigned_less [of w] by simp
  ultimately show ?thesis by simp
qed

lemma header_size_ge:
  assumes "unat sz + 0x200 < 2 ^ 32"
  shows "unat sz + 0x100 < unat (header_size sz)"
proof -
  have "unat (sz + 0x200) = unat sz + 0x200" using assms by (simp add: unat_word_ariths)
  moreover have "unat (sz + 0x200) < 0x100 + unat (sz + 0x200) div 0x100 * 0x100"
    by (rule dividend_less_div_times) simp
  ultimately show ?thesis by (simp add: header_size_def unat_and_page)
qed

lemma aligned_header:
  assumes "start AND 0xfff = 0" "unat start + 0x1600000 \<le> 2 ^ 32" "c < 0x400"
  shows "(sector_address start c + 0x100) AND 0xffffff00 = sector_address start c + 0x100"
proof -
  have "(0xfff :: u32) = mask 12" by (simp add: mask_eq_decr_exp)
  with assms(1) have "unat (take_bit 12 start) = 0" by (simp add: take_bit_eq_mask)
  then have "unat start mod 0x1000 = 0" by (simp add: take_bit_eq_mod unat_mod)
  then obtain k where k: "unat start = 0x1000 * k" by (auto elim: dvdE simp: mod_eq_0_iff_dvd)
  have "unat (sector_address start c + 0x100) = unat start + c * 0x4000 + 0x100"
    using assms by (simp add: unat_word_ariths unat_sector_address)
  also have "\<dots> = 0x100 * (0x10 * k + c * 0x40 + 1)" unfolding k by simp
  finally have u: "unat (sector_address start c + 0x100) = 0x100 * (0x10 * k + c * 0x40 + 1)" .
  show ?thesis by (simp only: word_unat_eq_iff unat_and_page u) simp
qed

text \<open>
  \<open>malloc\<close> of a size with an allocation behind it returns a pointer 0x100 bytes into the
  block, behind a header with the block's address and the magic number, with at least
  the bytes asked for up to the end of the block; the interrupts are on again; and \<open>free\<close> of
  that pointer gives memory back as it was except for the eight header bytes.\<close>

theorem free_undoes_malloc:
  assumes al: "start AND 0xfff = 0" and st: "0 < unat start" "unat start + 0x1600000 \<le> 2 ^ 32"
    and sz: "unat sz + 0x200 < 2 ^ 32"
    and r: "t_malloc start (header_size sz) (hmem s) = (q, m1)" and q: "q \<noteq> 0"
    and n: "class_sectors (header_size sz) \<noteq> 5"
    and e: "unat ((q - start) div 0x4000) + class_sectors (header_size sz) \<le> 0x400"
  shows "fst (malloc start sz s) = q + 0x100
    \<and> interrupts (snd (malloc start sz s))
    \<and> unat q + 0x100 + unat sz \<le> unat q + class_sectors (header_size sz) * 0x4000
    \<and> interrupts (free start (q + 0x100) (snd (malloc start sz s)))
    \<and> (\<forall>a. a \<notin> region (q + 0xf8) 8 \<longrightarrow>
         hmem (free start (q + 0x100) (snd (malloc start sz s))) a = hmem s a)"
proof -
  obtain c where c: "q = sector_address start c" "1 \<le> c" "c < 0x400"
    "m1 = mark_class start c (header_size sz) (hmem s)" "unat (header_size sz) \<le> 5 * 1024 * 1024"
    "\<forall>k < class_sectors (header_size sz). tab start (hmem s) (c + k) = 0"
    by (rule t_malloc_SomeD [OF r q])
  have h: "(q + 0x100) AND 0xffffff00 = q + 0x100" using aligned_header [OF al st(2)] c by simp
  define m3 where "m3 = wr32 (q + 0x100 - 4) 0x1234567 (wr32 (q + 0x100 - 8) q m1)"
  have m: "malloc start sz s = (q + 0x100, s\<lparr>hmem := m3, interrupts := True\<rparr>)"
    using r h by (simp add: malloc_def header_size_def [symmetric] m3_def Let_def)
  have "class_sectors (header_size sz) * 0x4000 \<ge> 0x100 + unat sz"
    using class_sectors_size [of "header_size sz"] header_size_ge [OF sz] by linarith
  moreover have "free start (q + 0x100) (snd (malloc start sz s))
      = s\<lparr>hmem := t_free start q m3, interrupts := True\<rparr>"
  proof -
    have "unat q = unat start + c * 0x4000" using c unat_sector_address [OF st(2)] by simp
    then have "unat (q + 0x100) \<noteq> 0" using st c by (simp add: unat_word_ariths)
    then have "q + 0x100 \<noteq> 0" by (metis unat_0)
    moreover have "rd32 m3 (q + 0x100 - 4) = 0x1234567" by (simp add: m3_def rd32_wr32)
    moreover have "rd32 m3 (q + 0x100 - 8) = q"
      unfolding m3_def by (simp add: rd32_def wr32_def)
    ultimately show ?thesis by (simp add: m free_def)
  qed
  moreover have "t_free start q m3 a = hmem s a" if a: "a \<notin> region (q + 0xf8) 8" for a
  proof -
    have uq: "unat q = unat start + c * 0x4000" using c unat_sector_address [OF st(2)] by simp
    have off: "a \<in> region (q + 0xf8) 8 \<longleftrightarrow> (\<exists>i < 8. a = q + 0xf8 + of_nat i)" for a
      by (auto simp: region_def)
    have m3: "m3 b = m1 b" if "b \<notin> region (q + 0xf8) 8" for b
    proof -
      have "\<And>i. i < 8 \<Longrightarrow> b \<noteq> q + 0xf8 + of_nat i" using that by (auto simp: off)
      from this [of 0] this [of 1] this [of 2] this [of 3] this [of 4] this [of 5] this [of 6] this [of 7]
      show ?thesis by (simp add: m3_def wr32_def add.commute)
    qed
    have notab: "start + of_nat i \<notin> region (q + 0xf8) 8" if "i < 0x800" for i
    proof
      assume "start + of_nat i \<in> region (q + 0xf8) 8"
      then obtain j where j: "j < 8" "start + of_nat i = q + 0xf8 + of_nat j" by (auto simp: off)
      have "unat (start + of_nat i) = unat start + i"
        using st that by (simp add: unat_word_ariths unat_of_nat take_bit_nat_eq_self)
      moreover have "unat (q + 0xf8 + of_nat j) = unat start + c * 0x4000 + 0xf8 + j"
        using st c(3) j(1) by (simp add: unat_word_ariths unat_of_nat take_bit_nat_eq_self uq)
      moreover have "unat (start + of_nat i) = unat (q + 0xf8 + of_nat j)" using j(2) by (rule arg_cong)
      ultimately show False using c(2) that by linarith
    qed
    then have tab3: "tab start m3 i = tab start m1 i" if "i < 0x800" for i
      using m3 that by (simp add: tab_def)
    show ?thesis
    proof (cases "a \<in> region start 0x800")
      case False
      then show ?thesis
        using c m3 [OF a] by (simp add: t_free_frame mark_class_frame c(5))
    next
      case True
      then obtain i where i: "i < 0x800" "a = start + of_nat i" by (auto simp: region_def)
      have fits: "c + class_sectors (header_size sz) \<le> 0x400" using e c sector_offset(2) by simp
      have "tab start (t_free start q m3) i = tab start (hmem s) i"
        unfolding c(1) by (rule t_free_restores [OF _ c(5,2,3,6) n fits i(1)])
          (use c(1,4) tab3 in simp)
      then show ?thesis using i by (simp add: tab_def)
    qed
  qed
  ultimately show ?thesis by (simp add: m)
qed

text \<open>
  When no block is found \<open>malloc\<close> does not return NULL: it returns address 0x100, writes its
  header over the eight bytes at 0xf8, and a later \<open>free\<close> of that pointer takes it for a block.\<close>

theorem malloc_out_of_memory:
  assumes "t_malloc start (header_size sz) (hmem s) = (0, m1)"
  shows "malloc start sz s =
      (0x100, s\<lparr>hmem := wr32 0xfc 0x1234567 (wr32 0xf8 0 m1), interrupts := True\<rparr>)
    \<and> hmem (free start 0x100 (snd (malloc start sz s)))
      = t_free start 0 (wr32 0xfc 0x1234567 (wr32 0xf8 0 m1))"
proof -
  have m: "malloc start sz s =
      (0x100, s\<lparr>hmem := wr32 0xfc 0x1234567 (wr32 0xf8 0 m1), interrupts := True\<rparr>)"
    using assms by (simp add: malloc_def header_size_def)
  have "rd32 (wr32 0xfc 0x1234567 (wr32 0xf8 0 m1)) 0xfc = 0x1234567" by (rule rd32_wr32)
  moreover have "rd32 (wr32 0xfc 0x1234567 (wr32 0xf8 0 m1)) 0xf8 = 0"
    by (simp add: rd32_def wr32_def byte_of32_def le32_def)
  ultimately show ?thesis by (simp add: m free_def)
qed

lemma MemoryManagerGetFree_eq:
  "MemoryManagerGetFree start m = length (filter (\<lambda>i. tab start m i = 0) [0..<0x400])"
proof -
  have "fold (\<lambda>i n. if P i then n + 1 else n) xs k = k + length (filter P xs)" for P :: "nat \<Rightarrow> bool" and xs k
    by (induction xs arbitrary: k) auto
  then show ?thesis by (simp add: MemoryManagerGetFree_def del: upt_rec_numeral)
qed

lemma free_null_keeps_interrupts_off: "interrupts (free start 0 s) = False"
  by (simp add: free_def)

subsection \<open>The hypotheses can hold\<close>

text \<open>The heap of the BIOS, at \<open>MEMORYMANAGERSTART\<close>, all free.\<close>

definition heap_example :: "u32 \<times> mem" where
  "heap_example = (0x02A00000, \<lambda>_. 0)"

lemma tab_zero [simp]: "tab start (\<lambda>_. 0) i = 0"
  by (simp add: tab_def)

lemma find_first: "P a \<Longrightarrow> a < b \<Longrightarrow> find P [a..<b] = Some (a :: nat)"
  by (simp add: upt_conv_Cons)

lemma t_malloc_zero:
  "unat sz \<le> 5 * 1024 * 1024 \<Longrightarrow>
   t_malloc 0x02A00000 sz (\<lambda>_. 0) = (0x02A04000, mark_class 0x02A00000 1 sz (\<lambda>_. 0))"
  using find_first [where P = "\<lambda>c. True" and a = 1 and b = "0x400"]
  by (simp add: t_malloc_by_class sector_address_def del: upt_rec_numeral)


lemma t_malloc_first_fit_witness:
  "(sector_address 0x02A00000 1 = 0x02A04000) \<and>
   heap_inv (tab 0x02A00000 (\<lambda>_. 0)) {} \<and>
   (\<exists>c. (0x02A04000 :: u32) = sector_address 0x02A00000 c \<and> 1 \<le> c \<and> c < 0x400
      \<and> heap_inv (tab 0x02A00000 (mark_class 0x02A00000 1 0x20000 (\<lambda>_. 0))) {(c, 9)})"
proof -
  have i: "heap_inv (tab 0x02A00000 (\<lambda>_. 0)) {}" by (simp add: heap_inv_def)
  have t: "t_malloc 0x02A00000 0x20000 (\<lambda>_. 0)
      = (0x02A04000, mark_class 0x02A00000 1 0x20000 (\<lambda>_. 0))" by (simp add: t_malloc_zero)
  show ?thesis using t_malloc_first_fit [OF i t] i by (auto simp: class_sectors_def sector_address_def)
qed

lemma t_free_undoes_t_malloc_witness:
  "t_free 0x02A00000 0x02A04000 (snd (t_malloc 0x02A00000 0x20000 (\<lambda>_. 0))) = (\<lambda>_. 0)"
proof -
  have t: "t_malloc 0x02A00000 0x20000 (\<lambda>_. 0)
      = (0x02A04000, mark_class 0x02A00000 1 0x20000 (\<lambda>_. 0))" by (simp add: t_malloc_zero)
  show ?thesis using t_free_undoes_t_malloc [OF t] t by (simp add: class_sectors_def)
qed

lemma t_free_leaks_five_sectors_witness:
  "t_free 0x02A00000 0x02A04000 (snd (t_malloc 0x02A00000 0x12000 (\<lambda>_. 0)))
   = snd (t_malloc 0x02A00000 0x12000 (\<lambda>_. 0))"
proof -
  have t: "t_malloc 0x02A00000 0x12000 (\<lambda>_. 0)
      = (0x02A04000, mark_class 0x02A00000 1 0x12000 (\<lambda>_. 0))" by (simp add: t_malloc_zero)
  show ?thesis using t_free_leaks_five_sectors [OF t] t by simp
qed

lemma free_undoes_malloc_witness:
  "fst (malloc 0x02A00000 100 \<lparr>hmem = \<lambda>_. 0, interrupts = True\<rparr>) = 0x02A04100 \<and>
   hmem (free 0x02A00000 0x02A04100 (snd (malloc 0x02A00000 100 \<lparr>hmem = \<lambda>_. 0, interrupts = True\<rparr>)))
     0x02A00001 = 0"
proof -
  have h: "header_size 100 = 0x200" by (simp add: header_size_def)
  have t: "t_malloc 0x02A00000 (header_size 100) (hmem \<lparr>hmem = \<lambda>_. 0, interrupts = True\<rparr>)
      = (0x02A04000, mark_class 0x02A00000 1 0x200 (\<lambda>_. 0))" by (simp add: t_malloc_zero h)
  have "unat (0x02A04000 + 0xf8 :: u32) + 8 \<le> 2 ^ 32" by simp
  from region_unat [OF this] have "(0x02A00001 :: u32) \<notin> region (0x02A04000 + 0xf8) 8" by simp
  moreover have "(0x02A00000 :: u32) AND 0xfff = 0" "0 < unat (0x02A00000 :: u32)"
    "unat (0x02A00000 :: u32) + 0x1600000 \<le> 2 ^ 32" "unat (100 :: u32) + 0x200 < 2 ^ 32"
    "(0x02A04000 :: u32) \<noteq> 0" "class_sectors (header_size 100) \<noteq> 5"
    "unat ((0x02A04000 - 0x02A00000 :: u32) div 0x4000) + class_sectors (header_size 100) \<le> 0x400"
    by (simp_all add: h class_sectors_def)
  note free_undoes_malloc [OF this(1-4) t this(5-7)]
  ultimately show ?thesis by simp
qed

lemma malloc_out_of_memory_witness:
  "fst (malloc 0x02A00000 0x600000 \<lparr>hmem = \<lambda>_. 0, interrupts = True\<rparr>) = 0x100"
proof -
  have "t_malloc 0x02A00000 (header_size 0x600000) (hmem \<lparr>hmem = \<lambda>_. 0, interrupts = True\<rparr>)
      = (0, \<lambda>_. 0)" by (simp add: t_malloc_by_class header_size_def)
  from malloc_out_of_memory [OF this] show ?thesis by simp
qed

end
