(* ===== verification/VsPrintf.thy ===== *)
theory VsPrintf
  imports CromwellBase
begin

text \<open>
  The formatted output of \<open>lib/misc/vsprintf.c\<close>: number parsing (\<open>simple_strtoul\<close>,
  \<open>simple_strtol\<close>, \<open>skip_atoi\<close>), \<open>number\<close>, and \<open>vsprintf\<close> with all its conversions,
  those for an IP and an Ethernet address (which call \<open>sprintf\<close> again) included.

  A string is the list of its bytes before the terminator. A pointer that is moved along a
  string is the rest of the list. The variable arguments are a list of tagged values; asking
  for an argument that is not there, or of another kind, is \<open>None\<close>. Widths and precisions
  are unbounded integers (overflow of an \<open>int\<close> is undefined in C).
\<close>

section \<open>The code\<close>

definition peek :: "u8 list \<Rightarrow> u8" where
  "peek cs = (case cs of [] \<Rightarrow> 0 | c # _ \<Rightarrow> c)"

definition isdigit :: "u8 \<Rightarrow> bool" where
  "isdigit c \<longleftrightarrow> 0x30 \<le> c \<and> c \<le> 0x39"

definition isxdigit :: "u8 \<Rightarrow> bool" where
  "isxdigit c \<longleftrightarrow> 0x30 \<le> c \<and> c \<le> 0x39 \<or> 0x61 \<le> c \<and> c \<le> 0x66 \<or> 0x41 \<le> c \<and> c \<le> 0x46"

definition islower :: "u8 \<Rightarrow> bool" where
  "islower c \<longleftrightarrow> 0x61 \<le> c \<and> c \<le> 0x7a"

definition toupper :: "u8 \<Rightarrow> u8" where
  "toupper c = (if islower c then c - 0x20 else c)"

definition digit_value :: "u8 \<Rightarrow> u32" where
  "digit_value c = (if isdigit c then ucast c - 0x30
     else ucast (if islower c then toupper c else c) - 0x41 + 10)"

fun strtoul_loop :: "u32 \<Rightarrow> u32 \<Rightarrow> u8 list \<Rightarrow> u32 \<times> u8 list" where
  "strtoul_loop base res [] = (res, [])"
| "strtoul_loop base res (c # cp) =
     (if isxdigit c \<and> digit_value c < base
      then strtoul_loop base (res * base + digit_value c) cp
      else (res, c # cp))"

text \<open>The value and where \<open>*endp\<close> points.\<close>

definition simple_strtoul :: "u8 list \<Rightarrow> u32 \<Rightarrow> u32 \<times> u8 list" where
  "simple_strtoul cp base =
     (let (base, cp) =
        (if base = 0
         then if peek cp = 0x30
              then if peek (tl cp) = 0x78 \<and> isxdigit (peek (tl (tl cp)))
                   then (16, tl (tl cp)) else (8, tl cp)
              else (10, cp)
         else (base, cp))
      in strtoul_loop base 0 cp)"

definition simple_strtol :: "u8 list \<Rightarrow> u32 \<Rightarrow> u32 \<times> u8 list" where
  "simple_strtol cp base =
     (if peek cp = 0x2d then (case simple_strtoul (tl cp) base of (v, endp) \<Rightarrow> (- v, endp))
      else simple_strtoul cp base)"

fun atoi_loop :: "int \<Rightarrow> u8 list \<Rightarrow> int \<times> u8 list" where
  "atoi_loop i [] = (i, [])"
| "atoi_loop i (c # s) = (if isdigit c then atoi_loop (i * 10 + uint c - 0x30) s else (i, c # s))"

definition skip_atoi :: "u8 list \<Rightarrow> int \<times> u8 list" where
  "skip_atoi s = atoi_loop 0 s"

subsection \<open>number\<close>

definition ZEROPAD :: u32 where "ZEROPAD = 1"
definition SIGN :: u32 where "SIGN = 2"
definition PLUS :: u32 where "PLUS = 4"
definition SPACE :: u32 where "SPACE = 8"
definition LEFT :: u32 where "LEFT = 16"
definition SPECIAL :: u32 where "SPECIAL = 32"
definition LARGE :: u32 where "LARGE = 64"

definition has :: "u32 \<Rightarrow> u32 \<Rightarrow> bool" where
  "has flags f \<longleftrightarrow> flags AND f \<noteq> 0"

text \<open>The byte \<open>digits[k]\<close> of the table the flag LARGE selects.\<close>

definition digits :: "bool \<Rightarrow> nat \<Rightarrow> u8" where
  "digits large k = (if k < 10 then 0x30 + of_nat k
     else (if large then 0x41 else 0x61) + of_nat (k - 10))"

text \<open>The loop over \<open>do_div\<close>; \<open>tmp\<close> has the least significant digit first.\<close>

function number_digits :: "bool \<Rightarrow> u32 \<Rightarrow> u32 \<Rightarrow> u8 list" where
  "number_digits large base num =
     (if num = 0 \<or> base < 2 then []
      else digits large (unat (num mod base)) # number_digits large base (num div base))"
  by pat_completeness auto
termination
  by (relation "measure (\<lambda>(large, base, num). unat num)")
    (auto simp: unat_div unat_gt_0 word_less_nat_alt)

declare number_digits.simps [simp del]

text \<open>
  \<open>number\<close> returns what it stores at \<open>str\<close>; a base out of range returns NULL. The four loops
  on \<open>size\<close> and \<open>precision\<close> are the lengths of the fillings.
\<close>

definition fill :: "int \<Rightarrow> u8 \<Rightarrow> u8 list" where
  "fill n c = replicate (nat n) c"

definition number_fill :: "u32 \<Rightarrow> u8 list \<Rightarrow> u8 list \<Rightarrow> u8 list \<Rightarrow> int \<Rightarrow> int \<Rightarrow> u8 list" where
  "number_fill flags sig prefix tmp size2 precision0 =
     (let c = (if has flags ZEROPAD then 0x30 else 0x20);
          precision = (if int (length tmp) > precision0 then int (length tmp) else precision0);
          size3 = size2 - precision;
          blanks = (if \<not> has flags ZEROPAD \<and> \<not> has flags LEFT then fill size3 0x20 else []);
          size4 = (if \<not> has flags ZEROPAD \<and> \<not> has flags LEFT then min size3 0 else size3);
          pad = (if \<not> has flags LEFT then fill size4 c else []);
          size5 = (if \<not> has flags LEFT then min size4 0 else size4)
      in blanks @ sig @ prefix @ pad @ fill (precision - int (length tmp)) 0x30
           @ rev tmp @ fill size5 0x20)"

definition number :: "u32 \<Rightarrow> u32 \<Rightarrow> int \<Rightarrow> int \<Rightarrow> u32 \<Rightarrow> u8 list option" where
  "number num base size0 precision flags0 =
     (let large = has flags0 LARGE;
          flags = (if has flags0 LEFT then flags0 AND NOT ZEROPAD else flags0)
      in if base < 2 \<or> base > 36 then None
         else let
           neg = (has flags SIGN \<and> num <s 0);
           sig = (if neg then [0x2d]
                  else if has flags SIGN \<and> has flags PLUS then [0x2b]
                  else if has flags SIGN \<and> has flags SPACE then [0x20] else []);
           num = (if neg then - num else num);
           size1 = size0 - int (length sig);
           prefix = (if has flags SPECIAL
                     then if base = 16 then [0x30, if large then 0x58 else 0x78]
                          else if base = 8 then [0x30] else []
                     else []);
           size2 = size1 - int (length prefix);
           tmp = (if num = 0 then [0x30] else number_digits large base num)
         in Some (number_fill flags sig prefix tmp size2 precision))"

subsection \<open>vsprintf\<close>

datatype va_arg = IntArg u32 | StrArg "u8 list option" | EthArg "u8 list" | OutArg

fun va_int :: "va_arg list \<Rightarrow> (u32 \<times> va_arg list) option" where
  "va_int (IntArg w # args) = Some (w, args)"
| "va_int _ = None"

fun parse_flags :: "u32 \<Rightarrow> u8 list \<Rightarrow> u32 \<times> u8 list" where
  "parse_flags flags [] = (flags, [])"
| "parse_flags flags (c # fmt) =
     (if c = 0x2d then parse_flags (flags OR LEFT) fmt
      else if c = 0x2b then parse_flags (flags OR PLUS) fmt
      else if c = 0x20 then parse_flags (flags OR SPACE) fmt
      else if c = 0x23 then parse_flags (flags OR SPECIAL) fmt
      else if c = 0x30 then parse_flags (flags OR ZEROPAD) fmt
      else (flags, c # fmt))"

definition parse_width ::
  "u32 \<Rightarrow> u8 list \<Rightarrow> va_arg list \<Rightarrow> (int \<times> u32 \<times> u8 list \<times> va_arg list) option" where
  "parse_width flags fmt args =
     (if isdigit (peek fmt) then (case skip_atoi fmt of (w, fmt') \<Rightarrow> Some (w, flags, fmt', args))
      else if peek fmt = 0x2a
      then (case va_int args of None \<Rightarrow> None
            | Some (w, args') \<Rightarrow>
                if sint w < 0 then Some (- sint w, flags OR LEFT, tl fmt, args')
                else Some (sint w, flags, tl fmt, args'))
      else Some (-1, flags, fmt, args))"

definition parse_precision ::
  "u8 list \<Rightarrow> va_arg list \<Rightarrow> (int \<times> u8 list \<times> va_arg list) option" where
  "parse_precision fmt args =
     (if peek fmt = 0x2e
      then (if isdigit (peek (tl fmt))
            then (case skip_atoi (tl fmt) of (p, fmt') \<Rightarrow> Some (if p < 0 then 0 else p, fmt', args))
            else if peek (tl fmt) = 0x2a
            then (case va_int args of None \<Rightarrow> None
                  | Some (w, args') \<Rightarrow> Some (if sint w < 0 then 0 else sint w, tl (tl fmt), args'))
            else Some (0, tl fmt, args))
      else Some (-1, fmt, args))"

definition parse_qualifier :: "u8 list \<Rightarrow> u8 \<times> u8 list" where
  "parse_qualifier fmt =
     (if peek fmt \<in> {0x68, 0x6c, 0x4c} then (peek fmt, tl fmt) else (0, fmt))"

definition convert_char :: "u32 \<Rightarrow> int \<Rightarrow> va_arg list \<Rightarrow> (u8 list \<times> va_arg list) option" where
  "convert_char flags field_width args =
     (case va_int args of None \<Rightarrow> None
      | Some (w, args') \<Rightarrow>
          Some ((if \<not> has flags LEFT then fill (field_width - 1) 0x20 else [])
                @ [ucast w] @ (if has flags LEFT then fill (field_width - 1) 0x20 else []), args'))"

definition convert_string ::
  "u32 \<Rightarrow> int \<Rightarrow> int \<Rightarrow> va_arg list \<Rightarrow> (u8 list \<times> va_arg list) option" where
  "convert_string flags field_width precision args =
     (case args of StrArg so # args' \<Rightarrow>
        let s = (case so of None \<Rightarrow> [0x3c, 0x4e, 0x55, 0x4c, 0x4c, 0x3e] | Some s \<Rightarrow> s);
            len = nat (min (int (length s)) (uint (word_of_int precision :: u32)))
        in Some ((if \<not> has flags LEFT then fill (field_width - int len) 0x20 else [])
             @ take len s
             @ (if has flags LEFT then fill (field_width - int len) 0x20 else []), args')
      | _ \<Rightarrow> None)"

text \<open>The integer argument as the qualifier and SIGN read it.\<close>

definition int_arg :: "u8 \<Rightarrow> u32 \<Rightarrow> u32 \<Rightarrow> u32" where
  "int_arg qualifier flags w =
     (if qualifier = 0x6c then w
      else if qualifier = 0x68
      then if has flags SIGN then scast (ucast w :: u16) else ucast (ucast w :: u16)
      else w)"

definition convert_number :: "u8 \<Rightarrow> u32 \<Rightarrow> u32 \<Rightarrow> int \<Rightarrow> int \<Rightarrow> va_arg list \<Rightarrow>
    (u8 list \<times> va_arg list) option" where
  "convert_number qualifier flags base field_width precision args =
     (case va_int args of None \<Rightarrow> None
      | Some (w, args') \<Rightarrow>
          (case number (int_arg qualifier flags w) base field_width precision flags of
             None \<Rightarrow> None | Some s \<Rightarrow> Some (s, args')))"

text \<open>
  \<open>%@\<close> and \<open>%!\<close> print four or six bytes, each with a nested \<open>sprintf\<close> (the parameter
  \<open>spr\<close>), and step back over the last separator.
\<close>

fun each_byte :: "(u8 list \<Rightarrow> va_arg list \<Rightarrow> u8 list option) \<Rightarrow> u8 list \<Rightarrow> u8 list \<Rightarrow> u8 list option" where
  "each_byte spr fmt [] = Some []"
| "each_byte spr fmt (b # bs) =
     (case spr fmt [IntArg (ucast b)] of None \<Rightarrow> None
      | Some s \<Rightarrow> (case each_byte spr fmt bs of None \<Rightarrow> None | Some r \<Rightarrow> Some (s @ r)))"

definition convert_ip ::
  "(u8 list \<Rightarrow> va_arg list \<Rightarrow> u8 list option) \<Rightarrow> va_arg list \<Rightarrow> (u8 list \<times> va_arg list) option" where
  "convert_ip spr args =
     (case va_int args of None \<Rightarrow> None
      | Some (w, args') \<Rightarrow>
          (case each_byte spr [0x25, 0x64, 0x2e] (map (byte_of32 w) [0, 1, 2, 3]) of
             None \<Rightarrow> None | Some s \<Rightarrow> Some (butlast s, args')))"

definition convert_eth ::
  "(u8 list \<Rightarrow> va_arg list \<Rightarrow> u8 list option) \<Rightarrow> va_arg list \<Rightarrow> (u8 list \<times> va_arg list) option" where
  "convert_eth spr args =
     (case args of EthArg p # args' \<Rightarrow>
        if length p = 6
        then (case each_byte spr [0x25, 0x30, 0x32, 0x68, 0x58, 0x3a] p of
                None \<Rightarrow> None | Some s \<Rightarrow> Some (butlast s, args'))
        else None
      | _ \<Rightarrow> None)"

text \<open>
  The switch on the conversion character \<open>peek fmt\<close>: what it stores, the format behind it
  and the arguments left. \<open>%n\<close> stores nothing here; the loop below records the count.
\<close>

definition finish :: "u8 list \<Rightarrow> (u8 list \<times> va_arg list) option \<Rightarrow>
    (u8 list \<times> u8 list \<times> va_arg list \<times> bool) option" where
  "finish fmt r = map_option (\<lambda>(s, args). (s, tl fmt, args, False)) r"

definition convert_pointer :: "u32 \<Rightarrow> int \<Rightarrow> int \<Rightarrow> va_arg list \<Rightarrow> (u8 list \<times> va_arg list) option" where
  "convert_pointer flags field_width precision args =
     (case va_int args of None \<Rightarrow> None
      | Some (w, args') \<Rightarrow>
          map_option (\<lambda>s. (s, args'))
            (if field_width = -1 then number w 16 8 precision (flags OR ZEROPAD)
             else number w 16 field_width precision flags))"

definition conversion :: "(u8 list \<Rightarrow> va_arg list \<Rightarrow> u8 list option) \<Rightarrow> u8 \<Rightarrow> u32 \<Rightarrow> int \<Rightarrow> int \<Rightarrow>
    u8 list \<Rightarrow> va_arg list \<Rightarrow> (u8 list \<times> u8 list \<times> va_arg list \<times> bool) option" where
  "conversion spr qualifier flags field_width precision fmt args =
     (let num = (\<lambda>base flags. finish fmt (convert_number qualifier flags base field_width precision args))
      in if peek fmt = 0x63 then finish fmt (convert_char flags field_width args)
         else if peek fmt = 0x73 then finish fmt (convert_string flags field_width precision args)
         else if peek fmt = 0x70 then finish fmt (convert_pointer flags field_width precision args)
         else if peek fmt = 0x6e
         then (case args of OutArg # args' \<Rightarrow> Some ([], tl fmt, args', True) | _ \<Rightarrow> None)
         else if peek fmt = 0x25 then Some ([0x25], tl fmt, args, False)
         else if peek fmt = 0x6f then num 8 flags
         else if peek fmt = 0x58 then num 16 (flags OR LARGE)
         else if peek fmt = 0x78 then num 16 flags
         else if peek fmt = 0x64 \<or> peek fmt = 0x69 then num 10 (flags OR SIGN)
         else if peek fmt = 0x75 then num 10 flags
         else if peek fmt = 0x40 then finish fmt (convert_ip spr args)
         else if peek fmt = 0x21 then finish fmt (convert_eth spr args)
         else if peek fmt = 0 then Some ([0x25], [], args, False)
         else Some ([0x25, peek fmt], tl fmt, args, False))"

text \<open>A whole specification, from the byte after the percent sign.\<close>

definition convert :: "(u8 list \<Rightarrow> va_arg list \<Rightarrow> u8 list option) \<Rightarrow> u8 list \<Rightarrow> va_arg list \<Rightarrow>
    (u8 list \<times> u8 list \<times> va_arg list \<times> bool) option" where
  "convert spr fmt0 args0 =
     (case parse_flags 0 fmt0 of (flags0, fmt1) \<Rightarrow>
      case parse_width flags0 fmt1 args0 of None \<Rightarrow> None | Some (field_width, flags, fmt2, args1) \<Rightarrow>
      case parse_precision fmt2 args1 of None \<Rightarrow> None | Some (precision, fmt3, args) \<Rightarrow>
      case parse_qualifier fmt3 of (qualifier, fmt) \<Rightarrow>
      conversion spr qualifier flags field_width precision fmt args)"

lemma atoi_loop_length: "length (snd (atoi_loop i s)) \<le> length s"
  by (induction i s rule: atoi_loop.induct) auto

lemma parse_flags_length: "length (snd (parse_flags flags fmt)) \<le> length fmt"
  by (induction flags fmt rule: parse_flags.induct) auto

lemma parse_width_length:
  "parse_width flags fmt args = Some (w, flags', fmt', args') \<Longrightarrow> length fmt' \<le> length fmt"
  using atoi_loop_length [of 0 fmt]
  by (auto simp: parse_width_def skip_atoi_def split: if_splits prod.splits option.splits)

lemma parse_precision_length:
  "parse_precision fmt args = Some (p, fmt', args') \<Longrightarrow> length fmt' \<le> length fmt"
  using atoi_loop_length [of 0 "tl fmt"]
  by (auto simp: parse_precision_def skip_atoi_def split: if_splits prod.splits option.splits)

lemma parse_qualifier_length: "length (snd (parse_qualifier fmt)) \<le> length fmt"
  by (auto simp: parse_qualifier_def)

lemma finish_SomeD: "finish fmt r = Some (s, fmt', args', n) \<Longrightarrow> fmt' = tl fmt"
  by (auto simp: finish_def)

lemma conversion_rest:
  "conversion spr q flags w p fmt args = Some (s, fmt', args', n) \<Longrightarrow> fmt' = tl fmt \<or> fmt' = []"
  unfolding conversion_def Let_def
  by (auto split: if_split_asm list.split_asm va_arg.split_asm dest: finish_SomeD)

lemma convert_length:
  assumes "convert spr fmt args = Some (s, fmt', args', n)"
  shows "length fmt' \<le> length fmt"
proof -
  obtain flags0 fmt1 where 1: "parse_flags 0 fmt = (flags0, fmt1)" by fastforce
  obtain w flags fmt2 args1 where 2: "parse_width flags0 fmt1 args = Some (w, flags, fmt2, args1)"
    using assms 1 by (auto simp: convert_def split: option.splits)
  obtain p fmt3 args2 where 3: "parse_precision fmt2 args1 = Some (p, fmt3, args2)"
    using assms 1 2 by (auto simp: convert_def split: option.splits)
  obtain q fmt4 where 4: "parse_qualifier fmt3 = (q, fmt4)" by fastforce
  have "length fmt4 \<le> length fmt"
    using parse_flags_length [of 0 fmt] parse_width_length [OF 2] parse_precision_length [OF 3]
      parse_qualifier_length [of fmt3] 1 4 by simp
  moreover have "fmt' = tl fmt4 \<or> fmt' = []"
    by (rule conversion_rest) (use assms 1 2 3 4 in \<open>simp add: convert_def\<close>)
  ultimately show ?thesis by auto
qed

text \<open>
  The outer loop: the output so far, and for every \<open>%n\<close> the value \<open>str - buf\<close> it stores.
\<close>

function vsprintf_loop :: "(u8 list \<Rightarrow> va_arg list \<Rightarrow> u8 list option) \<Rightarrow> u8 list \<Rightarrow> va_arg list \<Rightarrow>
    u8 list \<Rightarrow> nat list \<Rightarrow> (u8 list \<times> nat list) option" where
  "vsprintf_loop spr [] args str ns = Some (str, ns)"
| "vsprintf_loop spr (c # fmt) args str ns =
     (if c \<noteq> 0x25 then vsprintf_loop spr fmt args (str @ [c]) ns
      else case convert spr fmt args of None \<Rightarrow> None
           | Some (s, fmt', args', counted) \<Rightarrow>
               vsprintf_loop spr fmt' args' (str @ s) (if counted then ns @ [length str] else ns))"
  by pat_completeness auto
termination
  by (relation "measure (\<lambda>(spr, fmt, args, str, ns). length fmt)")
    (auto dest: convert_length)

text \<open>The formats of the nested calls have no nested call of their own.\<close>

definition sprintf_inner :: "u8 list \<Rightarrow> va_arg list \<Rightarrow> u8 list option" where
  "sprintf_inner fmt args = map_option fst (vsprintf_loop (\<lambda>_ _. None) fmt args [] [])"

text \<open>The bytes stored, with the terminator, the values of the \<open>%n\<close>, and the length returned.\<close>

definition vsprintf :: "u8 list \<Rightarrow> va_arg list \<Rightarrow> (u8 list \<times> nat list \<times> nat) option" where
  "vsprintf fmt args =
     (case vsprintf_loop sprintf_inner fmt args [] [] of None \<Rightarrow> None
      | Some (str, ns) \<Rightarrow> Some (str @ [0], ns, length str))"

definition sprintf :: "u8 list \<Rightarrow> va_arg list \<Rightarrow> (u8 list \<times> nat list \<times> nat) option" where
  "sprintf fmt args = vsprintf fmt args"

section \<open>number against strtol\<close>

lemma digit_table:
  "list_all (\<lambda>k. isxdigit (digits True k) \<and> digit_value (digits True k) = of_nat k) [0..<16]"
  "list_all (\<lambda>k. isxdigit (digits False k) \<and> digit_value (digits False k) = of_nat k) [0..<16]"
  by code_simp+

lemma digit_facts:
  assumes "k < 16"
  shows "isxdigit (digits large k)" "digit_value (digits large k) = of_nat k"
  using digit_table assms by (cases large; simp add: list_all_iff del: upt_rec_numeral)+

lemma strtoul_loop_digit:
  "2 \<le> base \<Longrightarrow> base \<le> 16 \<Longrightarrow>
   strtoul_loop base r (digits large (unat (num mod base)) # cp)
   = strtoul_loop base (r * base + num mod base) cp"
proof -
  assume b: "2 \<le> base" "base \<le> 16"
  then have "num mod base < base"
    by (simp add: word_le_nat_alt word_less_nat_alt unat_mod mod_less_divisor)
  moreover from this b(2) have "unat (num mod base) < 16"
    by (simp add: word_less_nat_alt word_le_nat_alt)
  ultimately show ?thesis using digit_facts [of "unat (num mod base)" large] by simp
qed

lemma word_mod_div_equality: "(n div b) * b + n mod b = (n :: u32)"
  by (rule div_mult_mod_eq)

lemma strtoul_number_digits:
  "2 \<le> base \<Longrightarrow> base \<le> 16 \<Longrightarrow>
   strtoul_loop base 0 (rev (number_digits large base num) @ rest) = strtoul_loop base num rest"
proof (induction large base num arbitrary: rest rule: number_digits.induct)
  case (1 large base num)
  show ?case
  proof (cases "num = 0")
    case True
    then show ?thesis by (simp add: number_digits.simps)
  next
    case False
    moreover from "1.prems" have "\<not> base < 2" by simp
    ultimately show ?thesis
      using 1 by (subst number_digits.simps)
        (simp add: strtoul_loop_digit word_mod_div_equality del: strtoul_loop.simps)
  qed
qed

lemma strtoul_zeros:
  "2 \<le> base \<Longrightarrow> strtoul_loop base 0 (replicate k 0x30 @ cp) = strtoul_loop base 0 cp"
proof (induction k)
  case (Suc k)
  then have "(0 :: u32) < base" by (simp add: word_gt_0)  (auto simp: word_le_nat_alt)
  with Suc show ?case by (simp add: isxdigit_def digit_value_def isdigit_def)
qed simp

section \<open>The layout of a number\<close>

lemma has_bit:
  "has f ZEROPAD \<longleftrightarrow> bit f 0" "has f SIGN \<longleftrightarrow> bit f 1" "has f PLUS \<longleftrightarrow> bit f 2"
  "has f SPACE \<longleftrightarrow> bit f 3" "has f LEFT \<longleftrightarrow> bit f 4" "has f SPECIAL \<longleftrightarrow> bit f 5"
  "has f LARGE \<longleftrightarrow> bit f 6"
  using and_exp_eq_0_iff_not_bit [of f 0] and_exp_eq_0_iff_not_bit [of f 1]
    and_exp_eq_0_iff_not_bit [of f 2] and_exp_eq_0_iff_not_bit [of f 3]
    and_exp_eq_0_iff_not_bit [of f 4] and_exp_eq_0_iff_not_bit [of f 5]
    and_exp_eq_0_iff_not_bit [of f 6]
  by (simp_all add: has_def ZEROPAD_def SIGN_def PLUS_def SPACE_def LEFT_def SPECIAL_def LARGE_def)

lemma has_without_zeropad:
  "\<not> has (f AND NOT ZEROPAD) ZEROPAD"
  "has (f AND NOT ZEROPAD) SIGN = has f SIGN" "has (f AND NOT ZEROPAD) PLUS = has f PLUS"
  "has (f AND NOT ZEROPAD) SPACE = has f SPACE" "has (f AND NOT ZEROPAD) LEFT = has f LEFT"
  "has (f AND NOT ZEROPAD) SPECIAL = has f SPECIAL"
  unfolding has_bit by (simp_all add: bit_simps ZEROPAD_def bit_1_iff)

text \<open>What a conversion should print: the sign, the prefix and the digits, filled up.\<close>

definition number_sign :: "u32 \<Rightarrow> u32 \<Rightarrow> u8 list" where
  "number_sign flags num =
     (if \<not> has flags SIGN then [] else if num <s 0 then [0x2d]
      else if has flags PLUS then [0x2b] else if has flags SPACE then [0x20] else [])"

definition number_prefix :: "u32 \<Rightarrow> u32 \<Rightarrow> u8 list" where
  "number_prefix flags base =
     (if \<not> has flags SPECIAL then [] else if base = 16 then [0x30, if has flags LARGE then 0x58 else 0x78]
      else if base = 8 then [0x30] else [])"

definition number_magnitude :: "u32 \<Rightarrow> u32 \<Rightarrow> u32 \<Rightarrow> u8 list" where
  "number_magnitude flags base num =
     (let n = (if has flags SIGN \<and> num <s 0 then - num else num)
      in if n = 0 then [0x30] else rev (number_digits (has flags LARGE) base n))"

definition number_spec :: "u32 \<Rightarrow> u32 \<Rightarrow> int \<Rightarrow> int \<Rightarrow> u32 \<Rightarrow> u8 list" where
  "number_spec num base sz precision flags =
     (let ds = number_magnitude flags base num;
          body = fill (precision - int (length ds)) 0x30 @ ds;
          head = number_sign flags num @ number_prefix flags base;
          room = sz - int (length (head @ body))
      in if has flags LEFT then head @ body @ fill room 0x20
         else if has flags ZEROPAD then head @ fill room 0x30 @ body
         else fill room 0x20 @ head @ body)"

lemma fill_nonpos [simp]: "n \<le> 0 \<Longrightarrow> fill n c = []"
  by (simp add: fill_def)

lemma length_fill [simp]: "length (fill n c) = nat n"
  by (simp add: fill_def)

lemma number_fill_layout:
  "number_fill flags sig prefix tmp (sz - int (length sig) - int (length prefix)) precision =
     (let body = fill (precision - int (length tmp)) 0x30 @ rev tmp;
          room = sz - int (length ((sig @ prefix) @ body))
      in if has flags LEFT then (sig @ prefix) @ body @ fill room 0x20
         else if has flags ZEROPAD then (sig @ prefix) @ fill room 0x30 @ body
         else fill room 0x20 @ (sig @ prefix) @ body)"
proof -
  let ?prec = "if int (length tmp) > precision then int (length tmp) else precision"
  have room: "sz - int (length sig) - int (length prefix) - ?prec
      = sz - int (length ((sig @ prefix) @ fill (precision - int (length tmp)) 0x30 @ rev tmp))"
    by simp
  have body: "fill (?prec - int (length tmp)) 0x30 = fill (precision - int (length tmp)) 0x30"
    by simp
  show ?thesis
    unfolding number_fill_def Let_def room body by (simp add: min_def)
qed

text \<open>
  For every base of 2 to 36, the four loops of \<open>number\<close> on the one counter \<open>size\<close> print
  sign, prefix, precision zeros and digits in order, filled to the field width with blanks on
  the right (LEFT, also when ZEROPAD is set), zeros between prefix and digits, or blanks on
  the left; any other base gives NULL.\<close>

theorem number_layout:
  "number num base sz precision flags =
     (if 2 \<le> base \<and> base \<le> 36 then Some (number_spec num base sz precision flags) else None)"
proof (cases "2 \<le> base \<and> base \<le> 36")
  case False
  then show ?thesis by (auto simp: number_def Let_def not_le)
next
  case True
  then have b: "\<not> (base < 2 \<or> base > 36)" by auto
  define flags' where "flags' = (if has flags LEFT then flags AND NOT ZEROPAD else flags)"
  have f: "has flags' LEFT = has flags LEFT" "has flags' SIGN = has flags SIGN"
    "has flags' PLUS = has flags PLUS" "has flags' SPACE = has flags SPACE"
    "has flags' SPECIAL = has flags SPECIAL"
    "has flags' ZEROPAD \<longleftrightarrow> has flags ZEROPAD \<and> \<not> has flags LEFT"
    using has_without_zeropad [of flags] by (auto simp: flags'_def)
  have "number num base sz precision flags = Some (number_fill flags' (number_sign flags num)
      (number_prefix flags base) (rev (number_magnitude flags base num))
      (sz - int (length (number_sign flags num)) - int (length (number_prefix flags base))) precision)"
    unfolding number_def Let_def flags'_def [symmetric] f number_sign_def number_prefix_def
      number_magnitude_def
    using b by simp
  with True show ?thesis
    unfolding number_fill_layout f number_spec_def Let_def rev_rev_ident length_rev by auto
qed

section \<open>Reading back what was printed\<close>

lemma number_digits_xdigit:
  "2 \<le> base \<Longrightarrow> base \<le> 16 \<Longrightarrow> c \<in> set (number_digits large base num) \<Longrightarrow> isxdigit c"
proof (induction large base num rule: number_digits.induct)
  case (1 large base num)
  then have n: "\<not> (num = 0 \<or> base < 2)" by (auto simp: number_digits.simps [of large base num] split: if_splits)
  then have "unat (num mod base) < unat base" by (simp add: unat_mod word_less_nat_alt)
  moreover have "unat base \<le> 16" using "1.prems"(2) by (simp add: word_le_nat_alt)
  ultimately have "isxdigit (digits large (unat (num mod base)))" by (simp add: digit_facts)
  with 1 n show ?case by (auto simp: number_digits.simps [of large base num])
qed

lemma number_digits_nonempty: "num \<noteq> 0 \<Longrightarrow> 2 \<le> base \<Longrightarrow> number_digits large base num \<noteq> []"
  by (subst number_digits.simps) (auto simp: not_less)

lemma number_magnitude_xdigits:
  assumes "2 \<le> base" "base \<le> 16"
  shows "\<forall>c \<in> set (number_magnitude flags base num). isxdigit c" "number_magnitude flags base num \<noteq> []"
  using number_digits_xdigit [OF assms] number_digits_nonempty [OF _ assms(1)]
  by (auto simp: number_magnitude_def Let_def isxdigit_def)

lemma strtoul_magnitude:
  assumes "2 \<le> base" "base \<le> 16"
  shows "strtoul_loop base 0 (number_magnitude flags base num @ rest)
    = strtoul_loop base (if has flags SIGN \<and> num <s 0 then - num else num) rest"
proof -
  have "0 < base" using assms(1) by (simp add: word_less_nat_alt word_le_nat_alt)
  then have "strtoul_loop base 0 (0x30 # rest) = strtoul_loop base 0 rest"
    by (simp add: isxdigit_def digit_value_def isdigit_def)
  then show ?thesis
    using strtoul_number_digits [OF assms] by (simp add: number_magnitude_def Let_def)
qed

lemma strtoul_stops:
  "rest = [] \<or> \<not> (isxdigit (hd rest) \<and> digit_value (hd rest) < base) \<Longrightarrow> strtoul_loop base r rest = (r, rest)"
  by (cases rest) auto

lemma peek_append: "xs \<noteq> [] \<Longrightarrow> peek (xs @ ys) = hd xs"
  by (cases xs) (auto simp: peek_def)

text \<open>
  Whatever width, precision and filling \<open>number\<close> is asked for, without a plus sign, a
  blank for it or a prefix, \<open>simple_strtol\<close> reads the number back from what it printed,
  up to the first byte that is no digit: every 32-bit value, for the bases 2 to 16, signed or not.\<close>

theorem strtol_reads_number:
  assumes b: "2 \<le> base" "base \<le> 16" and f: "\<not> has flags PLUS" "\<not> has flags SPACE" "\<not> has flags SPECIAL"
    and rest: "rest = [] \<or> \<not> (isxdigit (hd rest) \<and> digit_value (hd rest) < base)"
  shows "\<exists>out. number num base sz precision flags = Some out
    \<and> fst (simple_strtol (dropWhile (\<lambda>c. c = 0x20) out @ rest) base) = num"
proof -
  let ?ds = "number_magnitude flags base num" and ?neg = "has flags SIGN \<and> num <s 0"
  let ?body = "fill (precision - int (length ?ds)) 0x30 @ ?ds" and ?sig = "if ?neg then [0x2d] else []"
  have "base \<le> 36" using b(2) by (simp add: word_le_nat_alt)
  then have out: "number num base sz precision flags = Some (number_spec num base sz precision flags)"
    using b by (simp add: number_layout)
  have "\<exists>j k l. number_spec num base sz precision flags
      = replicate j 0x20 @ ?sig @ replicate k 0x30 @ ?body @ replicate l 0x20"
  proof -
    have hd: "number_sign flags num = ?sig" "number_prefix flags base = []"
      using f by (auto simp: number_sign_def number_prefix_def)
    let ?room = "nat (sz - int (length (?sig @ ?body)))"
    consider "has flags LEFT" | "\<not> has flags LEFT" "has flags ZEROPAD"
      | "\<not> has flags LEFT" "\<not> has flags ZEROPAD" by blast
    then show ?thesis
    proof cases
      case 1
      then have "number_spec num base sz precision flags
          = replicate 0 0x20 @ ?sig @ replicate 0 0x30 @ ?body @ replicate ?room 0x20"
        unfolding number_spec_def Let_def hd by (simp add: fill_def)
      then show ?thesis by blast
    next
      case 2
      then have "number_spec num base sz precision flags
          = replicate 0 0x20 @ ?sig @ replicate ?room 0x30 @ ?body @ replicate 0 0x20"
        unfolding number_spec_def Let_def hd by (simp add: fill_def)
      then show ?thesis by blast
    next
      case 3
      then have "number_spec num base sz precision flags
          = replicate ?room 0x20 @ ?sig @ replicate 0 0x30 @ ?body @ replicate 0 0x20"
        unfolding number_spec_def Let_def hd by (simp add: fill_def)
      then show ?thesis by blast
    qed
  qed
  then obtain j k l where spec: "number_spec num base sz precision flags
      = replicate j 0x20 @ ?sig @ replicate k 0x30 @ ?body @ replicate l 0x20" by blast
  let ?X = "?sig @ replicate k 0x30 @ ?body @ replicate l 0x20"
  have body: "replicate k 0x30 @ ?body \<noteq> []" "\<forall>c \<in> set (replicate k 0x30 @ ?body). isxdigit c"
    using number_magnitude_xdigits [OF b, of flags num] by (auto simp: fill_def isxdigit_def)
  then have hdb: "isxdigit (hd (replicate k 0x30 @ ?body))" using hd_in_set by blast
  have hdX: "hd ?X = (if ?neg then 0x2d else hd (replicate k 0x30 @ ?body))" "?X \<noteq> []"
    using body(1) by (auto simp: hd_append)
  then have "hd ?X \<noteq> 0x20" using hdb by (auto simp: isxdigit_def)
  then have drop: "dropWhile (\<lambda>c. c = 0x20) (number_spec num base sz precision flags) = ?X"
    unfolding spec by (subst dropWhile_append2) (use hdX(2) in \<open>auto simp: dropWhile_eq_self_iff\<close>)
  have "2 \<le> base \<Longrightarrow> base \<noteq> 0" by (auto simp: word_le_nat_alt)
  then have ul: "simple_strtoul cp base = strtoul_loop base 0 cp" for cp
    using b by (simp add: simple_strtoul_def)
  have "strtoul_loop base 0 (replicate k 0x30 @ ?body @ replicate l 0x20 @ rest)
      = strtoul_loop base (if ?neg then - num else num) (replicate l 0x20 @ rest)"
    using strtoul_zeros [OF b(1)] strtoul_magnitude [OF b] by (simp add: fill_def)
  also have "\<dots> = (if ?neg then - num else num, replicate l 0x20 @ rest)"
    by (rule strtoul_stops) (use rest in \<open>cases l; auto simp: isxdigit_def\<close>)
  finally have val: "strtoul_loop base 0 (replicate k 0x30 @ ?body @ replicate l 0x20 @ rest)
      = (if ?neg then - num else num, replicate l 0x20 @ rest)" .
  have "fst (simple_strtol (?X @ rest) base) = num"
  proof (cases ?neg)
    case True
    then show ?thesis using val by (simp add: simple_strtol_def peek_def ul)
  next
    case False
    let ?L = "replicate k 0x30 @ ?body @ replicate l 0x20 @ rest"
    have "?L = (replicate k 0x30 @ ?body) @ replicate l 0x20 @ rest" by simp
    then have "peek ?L \<noteq> 0x2d" using peek_append [OF body(1)] hdb by (auto simp: isxdigit_def)
    then have "fst (simple_strtol ?L base) = num" using val False by (simp only: simple_strtol_def ul) simp
    moreover have "?X @ rest = ?L" using False by (simp only: if_False append.simps append_assoc)
    ultimately show ?thesis by (simp only:)
  qed
  with out drop show ?thesis by simp
qed

lemma flag_SIGN:
  "has SIGN SIGN" "\<not> has SIGN PLUS" "\<not> has SIGN SPACE" "\<not> has SIGN LEFT" "\<not> has SIGN ZEROPAD"
  "\<not> has SIGN SPECIAL" "\<not> has SIGN LARGE"
  by (simp_all only: has_def SIGN_def PLUS_def SPACE_def LEFT_def ZEROPAD_def SPECIAL_def LARGE_def) simp_all

lemma strtol_reads_number_witness:
  "\<exists>out. number 0xfffffffb 10 8 4 SIGN = Some out
    \<and> fst (simple_strtol (dropWhile (\<lambda>c. c = 0x20) out @ [0x2c, 0x31]) 10) = 0xfffffffb"
  by (rule strtol_reads_number) (simp_all add: flag_SIGN isxdigit_def)

text \<open>The decimal digits of a byte.\<close>

definition decimal :: "u8 \<Rightarrow> u8 list" where
  "decimal b = number_magnitude SIGN 10 (ucast b)"

lemma byte_not_negative: "\<not> (ucast (b :: u8) :: u32) <s 0"
proof -
  have "\<not> bit (ucast b :: u32) 31" by (simp add: bit_simps bit_u8_beyond)
  then show ?thesis using bit_last_iff [of "ucast b :: u32"] by (simp add: word_sless_alt)
qed

lemma convert_byte:
  "convert spr [0x64, 0x2e] [IntArg (ucast b)] = Some (decimal b, [0x2e], [], False)"
proof -
  have "number (ucast b) 10 (-1) (-1) SIGN = Some (decimal b)"
    by (simp add: number_layout number_spec_def Let_def number_sign_def number_prefix_def decimal_def
        byte_not_negative flag_SIGN)
  then show ?thesis
    by (simp add: convert_def parse_width_def parse_precision_def parse_qualifier_def peek_def isdigit_def
        conversion_def convert_number_def int_arg_def finish_def)
qed

lemma inner_byte: "sprintf_inner [0x25, 0x64, 0x2e] [IntArg (ucast b)] = Some (decimal b @ [0x2e])"
  by (simp add: sprintf_inner_def convert_byte)

lemma decimal_reads_back: "simple_strtoul (decimal b) 10 = (ucast b, [])"
  using strtoul_magnitude [of 10 SIGN "ucast b" "[]"]
  by (simp add: simple_strtoul_def decimal_def byte_not_negative)

lemma decimal_digits: "\<forall>c \<in> set (decimal b). isxdigit c"
  unfolding decimal_def by (rule number_magnitude_xdigits) simp_all

text \<open>
  \<open>%@\<close> prints a 32-bit word as a dotted quad: four decimal numbers, lowest byte first,
  each reading back as the byte, with a dot between them and none after the last.\<close>

theorem sprintf_ip_address:
  "\<exists>d0 d1 d2 d3.
     sprintf [0x25, 0x40] [IntArg w]
       = Some (d0 @ [0x2e] @ d1 @ [0x2e] @ d2 @ [0x2e] @ d3 @ [0], [],
               length d0 + length d1 + length d2 + length d3 + 3)
     \<and> map (\<lambda>d. simple_strtoul d 10) [d0, d1, d2, d3]
       = map (\<lambda>i. (ucast (byte_of32 w i), [])) [0, 1, 2, 3]
     \<and> list_all isxdigit (d0 @ d1 @ d2 @ d3)"
proof -
  have "convert sprintf_inner [0x40] [IntArg w] =
    Some (decimal (byte_of32 w 0) @ [0x2e] @ decimal (byte_of32 w 1) @ [0x2e]
      @ decimal (byte_of32 w 2) @ [0x2e] @ decimal (byte_of32 w 3), [], [], False)"
    by (simp add: convert_def parse_width_def parse_precision_def parse_qualifier_def peek_def isdigit_def
        conversion_def convert_ip_def finish_def inner_byte butlast_append)
  then have "sprintf [0x25, 0x40] [IntArg w] =
    Some (decimal (byte_of32 w 0) @ [0x2e] @ decimal (byte_of32 w 1) @ [0x2e]
      @ decimal (byte_of32 w 2) @ [0x2e] @ decimal (byte_of32 w 3) @ [0], [],
      length (decimal (byte_of32 w 0)) + length (decimal (byte_of32 w 1))
      + length (decimal (byte_of32 w 2)) + length (decimal (byte_of32 w 3)) + 3)"
    by (simp add: sprintf_def vsprintf_def)
  moreover have "map (\<lambda>d. simple_strtoul d 10) [decimal (byte_of32 w 0), decimal (byte_of32 w 1),
      decimal (byte_of32 w 2), decimal (byte_of32 w 3)]
    = map (\<lambda>i. (ucast (byte_of32 w i), [])) [0, 1, 2, 3]"
    by (simp add: decimal_reads_back)
  moreover have "list_all isxdigit (decimal (byte_of32 w 0) @ decimal (byte_of32 w 1)
      @ decimal (byte_of32 w 2) @ decimal (byte_of32 w 3))"
    using decimal_digits unfolding list_all_iff set_append by blast
  ultimately show ?thesis by blast
qed

end
