(* ===== verification/Md5.thy ===== *)
theory Md5
  imports CromwellBase
begin

text \<open>
  The MD5 of \<open>lib/crypt/md5.c\<close>, which the image builder \<open>lib/imagebld/imagebld.c\<close> writes into
  the BIOS image. \<open>MD5Transform\<close> is kept as the code has it, a sequence of 64 statements on the
  variables \<open>a\<close>, \<open>b\<close>, \<open>c\<close>, \<open>d\<close>; the lemmas show that it is the loop of RFC 1321, and that
  a message fed in pieces of any lengths is hashed as the padded whole.

  Positions in the input are natural numbers: the loop test \<open>i + 63 < inputLen\<close> wraps only
  for inputs of more than 2^32 - 64 bytes, and the machine has 64 MB.
\<close>

section \<open>The code\<close>

text \<open>The shift amounts.\<close>

definition S11 :: nat where "S11 = 7"
definition S12 :: nat where "S12 = 12"
definition S13 :: nat where "S13 = 17"
definition S14 :: nat where "S14 = 22"
definition S21 :: nat where "S21 = 5"
definition S22 :: nat where "S22 = 9"
definition S23 :: nat where "S23 = 14"
definition S24 :: nat where "S24 = 20"
definition S31 :: nat where "S31 = 4"
definition S32 :: nat where "S32 = 11"
definition S33 :: nat where "S33 = 16"
definition S34 :: nat where "S34 = 23"
definition S41 :: nat where "S41 = 6"
definition S42 :: nat where "S42 = 10"
definition S43 :: nat where "S43 = 15"
definition S44 :: nat where "S44 = 21"

lemmas md5_shifts = S11_def S12_def S13_def S14_def S21_def S22_def S23_def S24_def
  S31_def S32_def S33_def S34_def S41_def S42_def S43_def S44_def

record MD5_CTX =
  md5_state :: "u32 list"
  md5_count :: "u32 \<times> u32"
  md5_buffer :: "u8 list"

definition F :: "u32 \<Rightarrow> u32 \<Rightarrow> u32 \<Rightarrow> u32" where
  "F x y z = (x AND y) OR (NOT x AND z)"

definition G :: "u32 \<Rightarrow> u32 \<Rightarrow> u32 \<Rightarrow> u32" where
  "G x y z = (x AND z) OR (y AND NOT z)"

definition H :: "u32 \<Rightarrow> u32 \<Rightarrow> u32 \<Rightarrow> u32" where
  "H x y z = x XOR y XOR z"

definition I :: "u32 \<Rightarrow> u32 \<Rightarrow> u32 \<Rightarrow> u32" where
  "I x y z = y XOR (x OR NOT z)"

definition ROTATE_LEFT :: "u32 \<Rightarrow> nat \<Rightarrow> u32" where
  "ROTATE_LEFT x n = push_bit n x OR drop_bit (32 - n) x"

text \<open>
  The macros \<open>FF\<close> to \<open>II\<close>, the variables they are applied to, and a statement: macro,
  variables, index into \<open>x\<close>, shift and constant.
\<close>

datatype md5_macro = FF | GG | HH | II
datatype md5_var = Ra | Rb | Rc | Rd

type_synonym md5_stmt =
  "md5_macro \<times> (md5_var \<times> md5_var \<times> md5_var \<times> md5_var) \<times> nat \<times> nat \<times> u32"
type_synonym md5_regs = "u32 \<times> u32 \<times> u32 \<times> u32"

fun get_var :: "md5_var \<Rightarrow> md5_regs \<Rightarrow> u32" where
  "get_var Ra (a, b, c, d) = a"
| "get_var Rb (a, b, c, d) = b"
| "get_var Rc (a, b, c, d) = c"
| "get_var Rd (a, b, c, d) = d"

fun set_var :: "md5_var \<Rightarrow> u32 \<Rightarrow> md5_regs \<Rightarrow> md5_regs" where
  "set_var Ra v (a, b, c, d) = (v, b, c, d)"
| "set_var Rb v (a, b, c, d) = (a, v, c, d)"
| "set_var Rc v (a, b, c, d) = (a, b, v, d)"
| "set_var Rd v (a, b, c, d) = (a, b, c, v)"

fun md5_fun :: "md5_macro \<Rightarrow> u32 \<Rightarrow> u32 \<Rightarrow> u32 \<Rightarrow> u32" where
  "md5_fun FF = F" | "md5_fun GG = G" | "md5_fun HH = H" | "md5_fun II = I"

definition md5_exec :: "u32 list \<Rightarrow> md5_stmt \<Rightarrow> md5_regs \<Rightarrow> md5_regs" where
  "md5_exec x stmt r =
     (case stmt of (macro, (va, vb, vc, vd), k, s, ac) \<Rightarrow>
        let r1 = set_var va (get_var va r + (md5_fun macro (get_var vb r) (get_var vc r) (get_var vd r)
                   + x ! k + ac)) r;
            r2 = set_var va (ROTATE_LEFT (get_var va r1) s) r1
        in set_var va (get_var va r2 + get_var vb r2) r2)"

definition md5_program :: "md5_stmt list" where
  "md5_program =
  [(FF, (Ra, Rb, Rc, Rd), 0, S11, 0xd76aa478), (FF, (Rd, Ra, Rb, Rc), 1, S12, 0xe8c7b756),
   (FF, (Rc, Rd, Ra, Rb), 2, S13, 0x242070db), (FF, (Rb, Rc, Rd, Ra), 3, S14, 0xc1bdceee),
   (FF, (Ra, Rb, Rc, Rd), 4, S11, 0xf57c0faf), (FF, (Rd, Ra, Rb, Rc), 5, S12, 0x4787c62a),
   (FF, (Rc, Rd, Ra, Rb), 6, S13, 0xa8304613), (FF, (Rb, Rc, Rd, Ra), 7, S14, 0xfd469501),
   (FF, (Ra, Rb, Rc, Rd), 8, S11, 0x698098d8), (FF, (Rd, Ra, Rb, Rc), 9, S12, 0x8b44f7af),
   (FF, (Rc, Rd, Ra, Rb), 10, S13, 0xffff5bb1), (FF, (Rb, Rc, Rd, Ra), 11, S14, 0x895cd7be),
   (FF, (Ra, Rb, Rc, Rd), 12, S11, 0x6b901122), (FF, (Rd, Ra, Rb, Rc), 13, S12, 0xfd987193),
   (FF, (Rc, Rd, Ra, Rb), 14, S13, 0xa679438e), (FF, (Rb, Rc, Rd, Ra), 15, S14, 0x49b40821),
   (GG, (Ra, Rb, Rc, Rd), 1, S21, 0xf61e2562), (GG, (Rd, Ra, Rb, Rc), 6, S22, 0xc040b340),
   (GG, (Rc, Rd, Ra, Rb), 11, S23, 0x265e5a51), (GG, (Rb, Rc, Rd, Ra), 0, S24, 0xe9b6c7aa),
   (GG, (Ra, Rb, Rc, Rd), 5, S21, 0xd62f105d), (GG, (Rd, Ra, Rb, Rc), 10, S22, 0x2441453),
   (GG, (Rc, Rd, Ra, Rb), 15, S23, 0xd8a1e681), (GG, (Rb, Rc, Rd, Ra), 4, S24, 0xe7d3fbc8),
   (GG, (Ra, Rb, Rc, Rd), 9, S21, 0x21e1cde6), (GG, (Rd, Ra, Rb, Rc), 14, S22, 0xc33707d6),
   (GG, (Rc, Rd, Ra, Rb), 3, S23, 0xf4d50d87), (GG, (Rb, Rc, Rd, Ra), 8, S24, 0x455a14ed),
   (GG, (Ra, Rb, Rc, Rd), 13, S21, 0xa9e3e905), (GG, (Rd, Ra, Rb, Rc), 2, S22, 0xfcefa3f8),
   (GG, (Rc, Rd, Ra, Rb), 7, S23, 0x676f02d9), (GG, (Rb, Rc, Rd, Ra), 12, S24, 0x8d2a4c8a),
   (HH, (Ra, Rb, Rc, Rd), 5, S31, 0xfffa3942), (HH, (Rd, Ra, Rb, Rc), 8, S32, 0x8771f681),
   (HH, (Rc, Rd, Ra, Rb), 11, S33, 0x6d9d6122), (HH, (Rb, Rc, Rd, Ra), 14, S34, 0xfde5380c),
   (HH, (Ra, Rb, Rc, Rd), 1, S31, 0xa4beea44), (HH, (Rd, Ra, Rb, Rc), 4, S32, 0x4bdecfa9),
   (HH, (Rc, Rd, Ra, Rb), 7, S33, 0xf6bb4b60), (HH, (Rb, Rc, Rd, Ra), 10, S34, 0xbebfbc70),
   (HH, (Ra, Rb, Rc, Rd), 13, S31, 0x289b7ec6), (HH, (Rd, Ra, Rb, Rc), 0, S32, 0xeaa127fa),
   (HH, (Rc, Rd, Ra, Rb), 3, S33, 0xd4ef3085), (HH, (Rb, Rc, Rd, Ra), 6, S34, 0x4881d05),
   (HH, (Ra, Rb, Rc, Rd), 9, S31, 0xd9d4d039), (HH, (Rd, Ra, Rb, Rc), 12, S32, 0xe6db99e5),
   (HH, (Rc, Rd, Ra, Rb), 15, S33, 0x1fa27cf8), (HH, (Rb, Rc, Rd, Ra), 2, S34, 0xc4ac5665),
   (II, (Ra, Rb, Rc, Rd), 0, S41, 0xf4292244), (II, (Rd, Ra, Rb, Rc), 7, S42, 0x432aff97),
   (II, (Rc, Rd, Ra, Rb), 14, S43, 0xab9423a7), (II, (Rb, Rc, Rd, Ra), 5, S44, 0xfc93a039),
   (II, (Ra, Rb, Rc, Rd), 12, S41, 0x655b59c3), (II, (Rd, Ra, Rb, Rc), 3, S42, 0x8f0ccc92),
   (II, (Rc, Rd, Ra, Rb), 10, S43, 0xffeff47d), (II, (Rb, Rc, Rd, Ra), 1, S44, 0x85845dd1),
   (II, (Ra, Rb, Rc, Rd), 8, S41, 0x6fa87e4f), (II, (Rd, Ra, Rb, Rc), 15, S42, 0xfe2ce6e0),
   (II, (Rc, Rd, Ra, Rb), 6, S43, 0xa3014314), (II, (Rb, Rc, Rd, Ra), 13, S44, 0x4e0811a1),
   (II, (Ra, Rb, Rc, Rd), 4, S41, 0xf7537e82), (II, (Rd, Ra, Rb, Rc), 11, S42, 0xbd3af235),
   (II, (Rc, Rd, Ra, Rb), 2, S43, 0x2ad7d2bb), (II, (Rb, Rc, Rd, Ra), 9, S44, 0xeb86d391)]"

text \<open>\<open>Decode\<close> and \<open>Encode\<close>: the loops run over \<open>i = j / 4\<close>.\<close>

definition Decode :: "u8 list \<Rightarrow> nat \<Rightarrow> u32 list" where
  "Decode input len =
     map (\<lambda>i. ucast (input ! (4 * i)) OR push_bit 8 (ucast (input ! (4 * i + 1)))
        OR push_bit 16 (ucast (input ! (4 * i + 2))) OR push_bit 24 (ucast (input ! (4 * i + 3))))
       [0..<len div 4]"

definition Encode :: "u32 list \<Rightarrow> nat \<Rightarrow> u8 list" where
  "Encode input len =
     concat (map (\<lambda>i. [ucast (input ! i AND 0xff), ucast (drop_bit 8 (input ! i) AND 0xff),
        ucast (drop_bit 16 (input ! i) AND 0xff), ucast (drop_bit 24 (input ! i) AND 0xff)])
       [0..<len div 4])"

definition MD5Transform :: "u32 list \<Rightarrow> u8 list \<Rightarrow> u32 list" where
  "MD5Transform state block =
     (let x = Decode block 64
      in case fold (md5_exec x) md5_program (state ! 0, state ! 1, state ! 2, state ! 3) of
           (a, b, c, d) \<Rightarrow> [state ! 0 + a, state ! 1 + b, state ! 2 + c, state ! 3 + d])"

definition MD5Init :: "MD5_CTX \<Rightarrow> MD5_CTX" where
  "MD5Init ctx = ctx\<lparr>md5_count := (0, 0),
     md5_state := [0x67452301, 0xefcdab89, 0x98badcfe, 0x10325476]\<rparr>"

text \<open>\<open>MD5_memcpy(&buffer[index], input, len)\<close>, and the loop over whole blocks from \<open>input[i]\<close>.\<close>

definition MD5_memcpy :: "u8 list \<Rightarrow> nat \<Rightarrow> u8 list \<Rightarrow> u8 list" where
  "MD5_memcpy buffer index input =
     fold (\<lambda>k buf. buf[index + k := input ! k]) [0..<length input] buffer"

function md5_whole_blocks :: "u8 list \<Rightarrow> nat \<Rightarrow> u32 list \<Rightarrow> nat \<times> u32 list" where
  "md5_whole_blocks input i state =
     (if i + 63 < length input
      then md5_whole_blocks input (i + 64) (MD5Transform state (take 64 (drop i input)))
      else (i, state))"
  by pat_completeness auto
termination
  by (relation "measure (\<lambda>(input, i, state). length input - i)") auto

declare md5_whole_blocks.simps [simp del]

definition md5_index :: "MD5_CTX \<Rightarrow> nat" where
  "md5_index ctx = unat (drop_bit 3 (fst (md5_count ctx)) AND 0x3F)"

definition md5_add_count :: "u32 \<Rightarrow> u32 \<times> u32 \<Rightarrow> u32 \<times> u32" where
  "md5_add_count inputLen c =
     (let c0 = fst c + push_bit 3 inputLen;
          c1 = (if c0 < push_bit 3 inputLen then snd c + 1 else snd c)
      in (c0, c1 + drop_bit 29 inputLen))"

definition MD5Update :: "u8 list \<Rightarrow> MD5_CTX \<Rightarrow> MD5_CTX" where
  "MD5Update input ctx =
     (let index = md5_index ctx;
          count = md5_add_count (of_nat (length input)) (md5_count ctx);
          partLen = 64 - index
      in if length input \<ge> partLen
         then let buf = MD5_memcpy (md5_buffer ctx) index (take partLen input);
                  st = MD5Transform (md5_state ctx) buf;
                  (i, st') = md5_whole_blocks input partLen st
              in \<lparr>md5_state = st', md5_count = count, md5_buffer = MD5_memcpy buf 0 (drop i input)\<rparr>
         else ctx\<lparr>md5_count := count, md5_buffer := MD5_memcpy (md5_buffer ctx) index input\<rparr>)"

definition PADDING :: "u8 list" where
  "PADDING = 0x80 # replicate 63 0"

text \<open>The digest, and the context with every byte zero.\<close>

definition MD5Final :: "MD5_CTX \<Rightarrow> u8 list \<times> MD5_CTX" where
  "MD5Final ctx =
     (let bits = Encode [fst (md5_count ctx), snd (md5_count ctx)] 8;
          index = md5_index ctx;
          padLen = (if index < 56 then 56 - index else 120 - index);
          ctx1 = MD5Update (take padLen PADDING) ctx;
          ctx2 = MD5Update bits ctx1
      in (Encode (md5_state ctx2) 16,
          \<lparr>md5_state = replicate 4 0, md5_count = (0, 0), md5_buffer = replicate 64 0\<rparr>))"

section \<open>RFC 1321\<close>

text \<open>The table of sines, the schedule and the step on the shifting variables.\<close>

definition rfc_T :: "u32 list" where
  "rfc_T =
  [0xd76aa478, 0xe8c7b756, 0x242070db, 0xc1bdceee, 0xf57c0faf, 0x4787c62a, 0xa8304613, 0xfd469501,
   0x698098d8, 0x8b44f7af, 0xffff5bb1, 0x895cd7be, 0x6b901122, 0xfd987193, 0xa679438e, 0x49b40821,
   0xf61e2562, 0xc040b340, 0x265e5a51, 0xe9b6c7aa, 0xd62f105d, 0x2441453, 0xd8a1e681, 0xe7d3fbc8,
   0x21e1cde6, 0xc33707d6, 0xf4d50d87, 0x455a14ed, 0xa9e3e905, 0xfcefa3f8, 0x676f02d9, 0x8d2a4c8a,
   0xfffa3942, 0x8771f681, 0x6d9d6122, 0xfde5380c, 0xa4beea44, 0x4bdecfa9, 0xf6bb4b60, 0xbebfbc70,
   0x289b7ec6, 0xeaa127fa, 0xd4ef3085, 0x4881d05, 0xd9d4d039, 0xe6db99e5, 0x1fa27cf8, 0xc4ac5665,
   0xf4292244, 0x432aff97, 0xab9423a7, 0xfc93a039, 0x655b59c3, 0x8f0ccc92, 0xffeff47d, 0x85845dd1,
   0x6fa87e4f, 0xfe2ce6e0, 0xa3014314, 0x4e0811a1, 0xf7537e82, 0xbd3af235, 0x2ad7d2bb, 0xeb86d391]"

definition rfc_k :: "nat \<Rightarrow> nat" where
  "rfc_k i = (if i < 16 then i else if i < 32 then (5 * i + 1) mod 16
     else if i < 48 then (3 * i + 5) mod 16 else 7 * i mod 16)"

definition rfc_s :: "nat \<Rightarrow> nat" where
  "rfc_s i = [7, 12, 17, 22, 5, 9, 14, 20, 4, 11, 16, 23, 6, 10, 15, 21] ! (i div 16 * 4 + i mod 4)"

definition rfc_f :: "nat \<Rightarrow> u32 \<Rightarrow> u32 \<Rightarrow> u32 \<Rightarrow> u32" where
  "rfc_f i b c d = (if i < 16 then (b AND c) OR (NOT b AND d)
     else if i < 32 then (d AND b) OR (NOT d AND c)
     else if i < 48 then b XOR c XOR d else c XOR (b OR NOT d))"

definition rfc_step :: "u32 list \<Rightarrow> nat \<Rightarrow> md5_regs \<Rightarrow> md5_regs" where
  "rfc_step x i r = (case r of (a, b, c, d) \<Rightarrow>
     (d, b + word_rotl (rfc_s i) (a + rfc_f i b c d + x ! rfc_k i + rfc_T ! i), b, c))"

definition rfc_block :: "u8 list \<Rightarrow> u32 list \<Rightarrow> u32 list" where
  "rfc_block block h =
     (let x = map (\<lambda>i. le32 (block ! (4 * i)) (block ! (4 * i + 1)) (block ! (4 * i + 2)) (block ! (4 * i + 3))) [0..<16]
      in case fold (rfc_step x) [0..<64] (h ! 0, h ! 1, h ! 2, h ! 3) of
           (a, b, c, d) \<Rightarrow> [h ! 0 + a, h ! 1 + b, h ! 2 + c, h ! 3 + d])"

section \<open>The transformation\<close>

definition rfc_vars :: "nat \<Rightarrow> md5_var \<times> md5_var \<times> md5_var \<times> md5_var" where
  "rfc_vars i = [(Ra, Rb, Rc, Rd), (Rd, Ra, Rb, Rc), (Rc, Rd, Ra, Rb), (Rb, Rc, Rd, Ra)] ! (i mod 4)"

definition rfc_stmt :: "nat \<Rightarrow> md5_stmt" where
  "rfc_stmt i = ([FF, GG, HH, II] ! (i div 16), rfc_vars i, rfc_k i, rfc_s i, rfc_T ! i)"

lemma md5_program_schedule: "md5_program = map rfc_stmt [0..<64]"
  by code_simp

lemma ROTATE_LEFT_rotl:
  assumes "0 < n" "n < 32"
  shows "ROTATE_LEFT w n = word_rotl n w"
  using assms by (simp add: ROTATE_LEFT_def shifts_are_rotl)

lemma rfc_s_bounds: "i < 64 \<Longrightarrow> 0 < rfc_s i \<and> rfc_s i < 32"
proof -
  have "list_all (\<lambda>i. 0 < rfc_s i \<and> rfc_s i < 32) [0..<64]" by code_simp
  then show "i < 64 \<Longrightarrow> 0 < rfc_s i \<and> rfc_s i < 32" by (simp add: list_all_iff del: upt_rec_numeral)
qed

lemma md5_fun_rfc: "i < 64 \<Longrightarrow> md5_fun ([FF, GG, HH, II] ! (i div 16)) b c d = rfc_f i b c d"
proof -
  assume "i < 64"
  then consider "i < 16" | "16 \<le> i" "i < 32" | "32 \<le> i" "i < 48" | "48 \<le> i" "i < 64" by linarith
  then show ?thesis
  proof cases
    case 1
    then have "i div 16 = 0" by simp
    with 1 show ?thesis by (simp add: rfc_f_def F_def)
  next
    case 2
    then have "i div 16 = 1" by simp
    with 2 show ?thesis by (simp add: rfc_f_def G_def and.commute)
  next
    case 3
    then have "i div 16 = 2" by simp
    with 3 show ?thesis by (simp add: rfc_f_def H_def)
  next
    case 4
    then have "i div 16 = 3" by simp
    with 4 show ?thesis by (simp add: rfc_f_def I_def)
  qed
qed

text \<open>The variables as the RFC's loop names them before step \<open>i\<close>.\<close>

definition md5_view :: "nat \<Rightarrow> md5_regs \<Rightarrow> md5_regs" where
  "md5_view i r = (case rfc_vars i of (va, vb, vc, vd) \<Rightarrow>
     (get_var va r, get_var vb r, get_var vc r, get_var vd r))"

lemma mod4_cases: "(i :: nat) mod 4 = 0 \<or> i mod 4 = 1 \<or> i mod 4 = 2 \<or> i mod 4 = 3"
  by linarith

lemma md5_exec_step:
  assumes "i < 64"
  shows "md5_view (Suc i) (md5_exec x (rfc_stmt i) r) = rfc_step x i (md5_view i r)"
proof -
  obtain a b c d where r: "r = (a, b, c, d)" by (cases r)
  note rot = ROTATE_LEFT_rotl [OF rfc_s_bounds [OF assms, THEN conjunct1] rfc_s_bounds [OF assms, THEN conjunct2]]
  note f = md5_fun_rfc [OF assms]
  show ?thesis
    using mod4_cases [of i]
    by (elim disjE)
      (simp_all add: r md5_view_def md5_exec_def rfc_stmt_def rfc_vars_def rfc_step_def mod_Suc rot f
        Let_def add_ac del: nth_Cons_numeral)
qed

lemma md5_exec_steps:
  "n \<le> 64 \<Longrightarrow> md5_view n (fold (md5_exec x) (map rfc_stmt [0..<n]) r) = fold (rfc_step x) [0..<n] r"
proof (induction n)
  case 0
  then show ?case by (cases r) (simp add: md5_view_def rfc_vars_def)
next
  case (Suc n)
  then show ?case by (simp add: md5_exec_step)
qed

lemma MD5Transform_rfc: "MD5Transform h block = rfc_block block h"
proof -
  have x: "Decode block 64 = map (\<lambda>i. le32 (block ! (4 * i)) (block ! (4 * i + 1)) (block ! (4 * i + 2))
      (block ! (4 * i + 3))) [0..<16]"
    by (simp add: Decode_def le32_def)
  have "md5_view 64 r = r" for r by (cases r) (simp add: md5_view_def rfc_vars_def)
  then show ?thesis
    using md5_exec_steps [of 64 "Decode block 64"]
    by (simp add: MD5Transform_def rfc_block_def Let_def md5_program_schedule x del: upt_rec_numeral)
qed

section \<open>Messages in pieces\<close>

text \<open>
  A message is cut into blocks of 64 bytes from the front; what is left is shorter than one.
\<close>

function absorb :: "u32 list \<Rightarrow> u8 list \<Rightarrow> u32 list \<times> u8 list" where
  "absorb h bs = (if length bs < 64 then (h, bs) else absorb (rfc_block (take 64 bs) h) (drop 64 bs))"
  by pat_completeness auto
termination
  by (relation "measure (\<lambda>(h, bs). length bs)") auto

declare absorb.simps [simp del]

lemma absorb_short: "length bs < 64 \<Longrightarrow> absorb h bs = (h, bs)"
  by (simp add: absorb.simps)

lemma absorb_append: "absorb h (xs @ ys) = (case absorb h xs of (h', r) \<Rightarrow> absorb h' (r @ ys))"
proof (induction h xs rule: absorb.induct)
  case (1 h bs)
  show ?case
  proof (cases "length bs < 64")
    case True
    then show ?thesis by (simp add: absorb_short)
  next
    case False
    then have "absorb h (bs @ ys) = absorb (rfc_block (take 64 bs) h) (drop 64 bs @ ys)"
      by (subst absorb.simps) simp
    with 1 False show ?thesis by (simp add: absorb.simps [of h bs])
  qed
qed

lemma absorb_block: "length b = 64 \<Longrightarrow> absorb h (b @ bs) = absorb (rfc_block b h) bs"
  by (subst absorb.simps) simp

lemma length_absorb: "length (snd (absorb h bs)) = length bs mod 64"
proof (induction h bs rule: absorb.induct)
  case (1 h bs)
  show ?case
  proof (cases "length bs < 64")
    case True
    then show ?thesis by (simp add: absorb_short)
  next
    case False
    with 1 show ?thesis by (subst absorb.simps) (simp add: le_mod_geq [symmetric])
  qed
qed

definition md5_H0 :: "u32 list" where
  "md5_H0 = [0x67452301, 0xefcdab89, 0x98badcfe, 0x10325476]"

definition le64 :: "nat \<Rightarrow> u8 list" where
  "le64 n = map (\<lambda>k. of_nat (n div 256 ^ k)) [0..<8]"

definition md5_pad :: "u8 list \<Rightarrow> u8 list" where
  "md5_pad msg = msg @ 0x80 # replicate ((119 - length msg mod 64) mod 64) 0 @ le64 (8 * length msg)"

definition md5_spec :: "u8 list \<Rightarrow> u8 list" where
  "md5_spec msg = concat (map (\<lambda>w. map (byte_of32 w) [0, 1, 2, 3]) (fst (absorb md5_H0 (md5_pad msg))))"

text \<open>The context after the bytes \<open>msg\<close> have gone in.\<close>

definition md5_holds :: "MD5_CTX \<Rightarrow> u8 list \<Rightarrow> bool" where
  "md5_holds ctx msg \<longleftrightarrow> length (md5_buffer ctx) = 64
     \<and> absorb md5_H0 msg = (md5_state ctx, take (length msg mod 64) (md5_buffer ctx))
     \<and> unat (fst (md5_count ctx)) + 2 ^ 32 * unat (snd (md5_count ctx)) = 8 * length msg mod 2 ^ 64"

lemma length_MD5_memcpy [simp]: "length (MD5_memcpy buf index input) = length buf"
proof -
  have "length (fold (\<lambda>k buf. buf[index + k := input ! k]) ks b) = length b" for ks b
    by (induction ks arbitrary: b) auto
  then show ?thesis by (simp add: MD5_memcpy_def)
qed

lemma MD5_memcpy_eq:
  assumes "index + length input \<le> length buf"
  shows "MD5_memcpy buf index input = take index buf @ input @ drop (index + length input) buf"
proof -
  have "fold (\<lambda>k buf. buf[index + k := input ! k]) [0..<n] buf
      = take index buf @ take n input @ drop (index + n) buf" if "n \<le> length input" for n
    using that
  proof (induction n)
    case (Suc n)
    then show ?case
      using assms by (simp add: list_update_append take_Suc_conv_app_nth Cons_nth_drop_Suc [symmetric])
  qed simp
  from this [of "length input"] show ?thesis by (simp add: MD5_memcpy_def)
qed

lemma md5_whole_blocks_absorb:
  "i \<le> length input \<Longrightarrow>
   (case md5_whole_blocks input i h of (i', h') \<Rightarrow> (h', drop i' input)) = absorb h (drop i input)"
proof (induction input i h rule: md5_whole_blocks.induct)
  case (1 input i h)
  show ?case
  proof (cases "i + 63 < length input")
    case True
    then have "\<not> length (drop i input) < 64" by simp
    then have "absorb h (drop i input) = absorb (rfc_block (take 64 (drop i input)) h) (drop (i + 64) input)"
      by (simp only: absorb.simps [of h "drop i input"] if_False drop_drop add.commute)
    with 1 True show ?thesis by (subst md5_whole_blocks.simps) (simp add: MD5Transform_rfc)
  next
    case False
    with 1 show ?thesis by (subst md5_whole_blocks.simps) (simp add: absorb_short)
  qed
qed

lemma mod_once: "x < 2 * n \<Longrightarrow> x = x mod n + n * (if n \<le> x then 1 else 0)" for x n :: nat
  by (auto simp: le_mod_geq)

lemma mod_once_less: "c + a < 2 * n \<Longrightarrow> c < n \<Longrightarrow> a < n \<Longrightarrow> (c + a) mod n < a \<longleftrightarrow> n \<le> c + a" for a c n :: nat
  by (cases "n \<le> c + a") (auto simp: le_mod_geq)

lemma carry_sum:
  fixes c0 c1 l a b r y :: nat
  assumes "c0 + a = r + 2 ^ 32 * y" "8 * l = a + 2 ^ 32 * b"
  shows "c0 + 2 ^ 32 * c1 + 8 * l = r + 2 ^ 32 * (c1 + y + b)"
  using assms by simp

lemma unat_add_count:
  "unat (fst (md5_add_count l c)) + 2 ^ 32 * unat (snd (md5_add_count l c))
     = (unat (fst c) + 2 ^ 32 * unat (snd c) + 8 * unat l) mod 2 ^ 64"
proof -
  let ?c0 = "unat (fst c)" and ?c1 = "unat (snd c)" and ?l = "unat l"
  let ?a = "8 * ?l mod 2 ^ 32" and ?b = "8 * ?l div 2 ^ 32"
  define y where "y = (if 2 ^ 32 \<le> ?c0 + ?a then 1 else 0 :: nat)"
  have b: "?c0 < 2 ^ 32" "?c1 < 2 ^ 32" "?l < 2 ^ 32"
    using unsigned_less [of "fst c"] unsigned_less [of "snd c"] unsigned_less [of l] by simp_all
  have a: "unat (push_bit 3 l) = ?a" by (simp add: push_bit_eq_mult unat_word_ariths mult.commute)
  have d: "unat (drop_bit 29 l) = ?b"
    by (simp add: drop_bit_eq_div unat_div)
  have s0: "unat (fst c + push_bit 3 l) = (?c0 + ?a) mod 2 ^ 32" by (simp add: unat_word_ariths a)
  have y: "?c0 + ?a = (?c0 + ?a) mod 2 ^ 32 + 2 ^ 32 * y"
    unfolding y_def by (rule mod_once) (use b in simp)
  have carry: "fst c + push_bit 3 l < push_bit 3 l \<longleftrightarrow> y = 1"
    using mod_once_less [of ?c0 ?a "2 ^ 32"] b by (simp add: word_less_nat_alt s0 a y_def)
  have f: "unat (fst (md5_add_count l c)) = (?c0 + ?a) mod 2 ^ 32"
    by (simp add: md5_add_count_def Let_def s0)
  have s1: "unat (snd (md5_add_count l c)) = (?c1 + y + ?b) mod 2 ^ 32"
    using carry by (auto simp: md5_add_count_def Let_def unat_word_ariths d y_def mod_simps)
  have "(?c0 + 2 ^ 32 * ?c1 + 8 * ?l) = (?c0 + ?a) mod 2 ^ 32 + 2 ^ 32 * (?c1 + y + ?b)"
    by (rule carry_sum [OF y]) (simp only: mod_mult_div_eq)
  moreover have "(r + 2 ^ 32 * q) mod 2 ^ 64 = r + 2 ^ 32 * (q mod 2 ^ 32)" if "r < 2 ^ 32" for r q :: nat
  proof -
    have "(2 :: nat) ^ 64 = 2 ^ 32 * 2 ^ 32" by simp
    then show ?thesis
      using that mod_mult2_eq [of "r + 2 ^ 32 * q" "2 ^ 32" "2 ^ 32"] by simp
  qed
  moreover have "(?c0 + ?a) mod 2 ^ 32 < 2 ^ 32" by simp
  ultimately show ?thesis unfolding f s1 by metis
qed

lemma md5_index_holds:
  assumes "md5_holds ctx msg"
  shows "md5_index ctx = length msg mod 64"
proof -
  let ?c0 = "unat (fst (md5_count ctx))" and ?c1 = "unat (snd (md5_count ctx))"
  have "?c0 < 2 ^ 32" using unsigned_less [of "fst (md5_count ctx)"] by simp
  then have "?c0 = (?c0 + 2 ^ 32 * ?c1) mod 2 ^ 32" by simp
  also have "\<dots> = 8 * length msg mod 2 ^ 64 mod 2 ^ 32" using assms by (simp add: md5_holds_def)
  also have "\<dots> = 8 * length msg mod 2 ^ 32" by (rule mod_mod_cancel) simp
  finally have "?c0 div 8 mod 64 = 8 * length msg mod 2 ^ 32 div 8 mod 64" by simp
  also have "\<dots> = length msg mod 64"
  proof -
    have "8 * n mod 2 ^ 32 = 8 * (n mod 2 ^ 29)" for n :: nat
      using mult_mod_right [of 8 n "2 ^ 29"] by simp
    moreover have "n mod 2 ^ 29 mod 64 = n mod 64" for n :: nat
      by (rule mod_mod_cancel) simp
    ultimately show ?thesis by simp
  qed
  finally have m: "?c0 div 8 mod 64 = length msg mod 64" .
  have "(0x3F :: u32) = mask 6" by (simp add: mask_eq_decr_exp)
  then have "md5_index ctx = unat (take_bit 6 (drop_bit 3 (fst (md5_count ctx))))"
    by (simp add: md5_index_def take_bit_eq_mask)
  also have "\<dots> = ?c0 div 8 mod 64"
    by (simp add: take_bit_eq_mod drop_bit_eq_div unat_mod unat_div)
  finally show ?thesis using m by simp
qed

lemma MD5Update_holds:
  assumes h: "md5_holds ctx msg" and len: "length input < 2 ^ 32"
  shows "md5_holds (MD5Update input ctx) (msg @ input)"
proof -
  define index where "index = length msg mod 64"
  have ix: "md5_index ctx = index" "index < 64" using md5_index_holds [OF h] by (simp_all add: index_def)
  have b: "length (md5_buffer ctx) = 64" using h by (simp add: md5_holds_def)
  have ab: "absorb md5_H0 msg = (md5_state ctx, take index (md5_buffer ctx))"
    using h by (simp add: md5_holds_def index_def)
  have "unat (of_nat (length input) :: u32) = length input"
    using len by (simp add: unat_of_nat take_bit_nat_eq_self)
  then have count: "unat (fst (md5_count (MD5Update input ctx)))
      + 2 ^ 32 * unat (snd (md5_count (MD5Update input ctx))) = 8 * length (msg @ input) mod 2 ^ 64"
    using unat_add_count [of "of_nat (length input)" "md5_count ctx"] h
    by (auto simp: MD5Update_def Let_def md5_holds_def mod_simps split: prod.split)
  have joined: "absorb md5_H0 (msg @ input) = absorb (md5_state ctx) (take index (md5_buffer ctx) @ input)"
    by (subst absorb_append) (simp add: ab)
  have "length (md5_buffer (MD5Update input ctx)) = 64 \<and>
     absorb md5_H0 (msg @ input) = (md5_state (MD5Update input ctx),
       take (length (msg @ input) mod 64) (md5_buffer (MD5Update input ctx)))"
  proof (cases "64 - index \<le> length input")
    case False
    then have "index + length input < 64" using ix(2) by linarith
    then have "(length msg + length input) mod 64 = index + length input"
      unfolding index_def by (metis mod_add_left_eq mod_less)
    with False joined ix b show ?thesis
      by (simp add: MD5Update_def absorb_short MD5_memcpy_eq)
  next
    case True
    let ?part = "64 - index"
    let ?blk = "take index (md5_buffer ctx) @ take ?part input"
    let ?buf = "MD5_memcpy (md5_buffer ctx) index (take ?part input)"
    have buf: "?buf = ?blk" using True ix b by (simp add: MD5_memcpy_eq)
    have lb: "length ?blk = 64" using True ix b by simp
    obtain i h' where w: "md5_whole_blocks input ?part (rfc_block ?blk (md5_state ctx)) = (i, h')" by fastforce
    have wb: "(h', drop i input) = absorb (rfc_block ?blk (md5_state ctx)) (drop ?part input)"
      using md5_whole_blocks_absorb [OF True, of "rfc_block ?blk (md5_state ctx)"] w by simp
    have "take index (md5_buffer ctx) @ input = ?blk @ drop ?part input" by simp
    then have "absorb md5_H0 (msg @ input) = absorb (md5_state ctx) (?blk @ drop ?part input)"
      using joined by simp
    also have "\<dots> = absorb (rfc_block ?blk (md5_state ctx)) (drop ?part input)"
      by (rule absorb_block [OF lb])
    finally have ab': "absorb md5_H0 (msg @ input) = (h', drop i input)" using wb by simp
    have l: "length (drop i input) = length (msg @ input) mod 64"
      using length_absorb [of md5_H0 "msg @ input"] ab' by simp
    have "length (drop i input) < 64" using l by simp
    then have mc: "MD5_memcpy ?buf 0 (drop i input) = drop i input @ drop (length (drop i input)) ?buf"
      using b by (subst MD5_memcpy_eq) auto
    have "MD5Update input ctx = \<lparr>md5_state = h', md5_count = md5_add_count (of_nat (length input)) (md5_count ctx),
        md5_buffer = MD5_memcpy ?buf 0 (drop i input)\<rparr>"
      using True w ix by (simp add: MD5Update_def Let_def MD5Transform_rfc buf)
    with ab' mc l b show ?thesis by simp
  qed
  with count show ?thesis by (simp add: md5_holds_def)
qed

subsection \<open>The length and the digest as bytes\<close>

lemma byte_of32_nat: "byte_of32 w k = of_nat (unat w div 256 ^ k)"
proof -
  have "byte_of32 w k = of_nat (unat (drop_bit (8 * k) w))" by (simp add: byte_of32_def)
  also have "unat (drop_bit (8 * k) w) = unat w div 256 ^ k"
    by (simp only: unat_drop_bit_eq) (simp add: drop_bit_eq_div power_mult)
  finally show ?thesis .
qed

lemma Encode_bytes:
  "Encode ws (4 * length ws) = concat (map (\<lambda>w. map (byte_of32 w) [0, 1, 2, 3]) ws)"
proof -
  have m: "(0xff :: u32) = mask 8" by (simp add: mask_eq_decr_exp)
  have b: "ucast (v AND 0xff :: u32) = (ucast v :: u8)" for v
    unfolding m by (rule bit_word_eqI) (auto simp: bit_simps)
  have "[ucast (w AND 0xff), ucast (drop_bit 8 w AND 0xff), ucast (drop_bit 16 w AND 0xff),
      ucast (drop_bit 24 w AND 0xff)] = map (byte_of32 w) [0, 1, 2, 3]" for w :: u32
    by (simp add: b byte_of32_def)
  then have "Encode ws (4 * length ws)
      = concat (map (\<lambda>i. map (byte_of32 (ws ! i)) [0, 1, 2, 3]) [0..<length ws])"
    by (simp only: Encode_def) simp
  also have "map (\<lambda>i. map (byte_of32 (ws ! i)) [0, 1, 2, 3]) [0..<length ws]
      = map (\<lambda>w. map (byte_of32 w) [0, 1, 2, 3]) ws"
    by (rule nth_equalityI) simp_all
  finally show ?thesis .
qed

lemma of_nat_u8_add_256: "(of_nat (a + 256 * b) :: u8) = of_nat a"
proof -
  have z: "(of_nat 256 :: u8) = 0" by simp
  have "(of_nat (a + 256 * b) :: u8) = of_nat a + of_nat 256 * of_nat b"
    by (simp only: of_nat_add of_nat_mult)
  then show ?thesis by (simp only: z mult_zero_left add_0_right)
qed

lemma low_bytes:
  assumes "k < 4"
  shows "(of_nat ((c + 2 ^ 32 * d) div 256 ^ k) :: u8) = of_nat (c div 256 ^ k)"
proof -
  have "(2 :: nat) ^ 32 = 256 ^ k * (256 * 256 ^ (3 - k))"
  proof -
    have "(256 :: nat) ^ k * (256 * 256 ^ (3 - k)) = 256 ^ (k + (1 + (3 - k)))" by (simp only: power_add power_one_right)
    also have "k + (1 + (3 - k)) = 4" using assms by simp
    finally show ?thesis by simp
  qed
  then have "c + 2 ^ 32 * d = c + 256 ^ k * (256 * (256 ^ (3 - k) * d))" by (simp only: mult.assoc)
  moreover have "(c + 256 ^ k * m) div 256 ^ k = c div 256 ^ k + m" for m :: nat by simp
  ultimately have "(c + 2 ^ 32 * d) div 256 ^ k = c div 256 ^ k + 256 * (256 ^ (3 - k) * d)"
    by (simp only:)
  then show ?thesis by (simp only: of_nat_u8_add_256)
qed

lemma high_bytes:
  fixes c d :: nat
  assumes "c < 2 ^ 32"
  shows "(c + 2 ^ 32 * d) div 256 ^ (4 + j) = d div 256 ^ j"
proof -
  have "(256 :: nat) ^ (4 + j) = 2 ^ 32 * 256 ^ j" by (simp add: power_add)
  then have "(c + 2 ^ 32 * d) div 256 ^ (4 + j) = (c + 2 ^ 32 * d) div 2 ^ 32 div 256 ^ j"
    by (simp only: div_mult2_eq)
  then show ?thesis using assms by simp
qed

lemma le64_words:
  assumes "n = unat c0 + 2 ^ 32 * unat c1"
  shows "le64 n = Encode [c0, c1] 8"
proof -
  have c0: "unat c0 < 2 ^ 32" using unsigned_less [of c0] by simp
  have lo: "(of_nat (n div 256 ^ k) :: u8) = byte_of32 c0 k" if "k < 4" for k
    using low_bytes [OF that] assms by (simp add: byte_of32_nat)
  have hi: "(of_nat (n div 256 ^ (4 + k)) :: u8) = byte_of32 c1 k" for k
    using high_bytes [OF c0] assms by (simp add: byte_of32_nat)
  have "Encode [c0, c1] 8 = map (byte_of32 c0) [0, 1, 2, 3] @ map (byte_of32 c1) [0, 1, 2, 3]"
    using Encode_bytes [of "[c0, c1]"] by simp
  moreover have "[0..<8] = [0, 1, 2, 3, 4 + 0, 4 + 1, 4 + 2, 4 + 3 :: nat]" by (simp add: upt_rec)
  ultimately show ?thesis
    unfolding le64_def using lo [of 0] lo [of 1] lo [of 2] lo [of 3] hi [of 0] hi [of 1] hi [of 2] hi [of 3]
    by simp
qed

lemma length_absorb_state: "length h = 4 \<Longrightarrow> length (fst (absorb h bs)) = 4"
proof (induction h bs rule: absorb.induct)
  case (1 h bs)
  then show ?case
    by (subst absorb.simps) (auto simp: rfc_block_def Let_def split: prod.split)
qed

section \<open>Properties\<close>

lemma pad_amount: "r < 64 \<Longrightarrow> (119 - r) mod 64 = (if r < 56 then 56 - r else 120 - r) - 1" for r :: nat
  by (auto simp: le_mod_geq)

lemma MD5Init_holds: "length (md5_buffer ctx) = 64 \<Longrightarrow> md5_holds (MD5Init ctx) []"
  by (simp add: md5_holds_def MD5Init_def absorb_short md5_H0_def)

lemma MD5Update_pieces:
  "md5_holds ctx msg \<Longrightarrow> \<forall>p \<in> set pieces. length p < 2 ^ 32 \<Longrightarrow>
   md5_holds (fold MD5Update pieces ctx) (msg @ concat pieces)"
proof (induction pieces arbitrary: ctx msg)
  case (Cons p ps)
  then show ?case using Cons.IH [of "MD5Update p ctx" "msg @ p"] MD5Update_holds [of ctx msg p] by simp
qed simp

lemma md5_pieces_digest:
  assumes b: "length (md5_buffer ctx) = 64" and ps: "\<forall>p \<in> set pieces. length p < 2 ^ 32"
    and len: "8 * length (concat pieces) < 2 ^ 64"
  shows "MD5Final (fold MD5Update pieces (MD5Init ctx)) =
    (md5_spec (concat pieces),
     \<lparr>md5_state = replicate 4 0, md5_count = (0, 0), md5_buffer = replicate 64 0\<rparr>)"
proof -
  define msg where "msg = concat pieces"
  define c where "c = fold MD5Update pieces (MD5Init ctx)"
  have h: "md5_holds c msg"
    using MD5Update_pieces [OF MD5Init_holds [OF b] ps] by (simp add: c_def msg_def)
  define padLen where "padLen = (if md5_index c < 56 then 56 - md5_index c else 120 - md5_index c)"
  define bits where "bits = Encode [fst (md5_count c), snd (md5_count c)] 8"
  have ix: "md5_index c = length msg mod 64" "md5_index c < 64" using md5_index_holds [OF h] by simp_all
  have "8 * length msg = unat (fst (md5_count c)) + 2 ^ 32 * unat (snd (md5_count c))"
    using h len by (simp add: md5_holds_def msg_def)
  then have bits: "bits = le64 (8 * length msg)" unfolding bits_def by (rule le64_words [symmetric])
  have "padLen - 1 = (119 - length msg mod 64) mod 64" "1 \<le> padLen" "padLen \<le> 64"
    using ix pad_amount [of "length msg mod 64"] by (auto simp: padLen_def)
  then have pad: "take padLen PADDING = 0x80 # replicate ((119 - length msg mod 64) mod 64) 0"
    by (cases padLen) (simp_all add: PADDING_def min_def)
  have "md5_holds (MD5Update bits (MD5Update (take padLen PADDING) c)) ((msg @ take padLen PADDING) @ bits)"
    by (intro MD5Update_holds h) (auto simp: PADDING_def bits le64_def)
  moreover have "(msg @ take padLen PADDING) @ bits = md5_pad msg" by (simp add: md5_pad_def pad bits)
  ultimately have "md5_state (MD5Update bits (MD5Update (take padLen PADDING) c)) = fst (absorb md5_H0 (md5_pad msg))"
    by (simp add: md5_holds_def)
  moreover have "length (fst (absorb md5_H0 (md5_pad msg))) = 4"
    by (rule length_absorb_state) (simp add: md5_H0_def)
  then have "Encode (fst (absorb md5_H0 (md5_pad msg))) 16 = md5_spec msg"
    using Encode_bytes [of "fst (absorb md5_H0 (md5_pad msg))"] by (simp add: md5_spec_def)
  ultimately show ?thesis
    unfolding c_def [symmetric] msg_def [symmetric]
    by (simp add: MD5Final_def Let_def padLen_def [symmetric] bits_def [symmetric])
qed

text \<open>
  C20. A message of less than 2^61 bytes fed to \<open>MD5Update\<close> in pieces of any lengths gives the
  MD5 of RFC 1321 of the whole: the buffered blocks, the 64-bit bit count with its carry, the
  padding and the 64 unrolled statements of \<open>MD5Transform\<close> together; and the context is
  left zeroed.\<close>

theorem md5_streaming:
  assumes b: "length (md5_buffer ctx) = 64" and ps: "\<forall>p \<in> set pieces. length p < 2 ^ 32"
    and len: "8 * length (concat pieces) < 2 ^ 64"
  shows "MD5Final (fold MD5Update pieces (MD5Init ctx)) =
    (md5_spec (concat pieces),
     \<lparr>md5_state = replicate 4 0, md5_count = (0, 0), md5_buffer = replicate 64 0\<rparr>)"
  using assms by (rule md5_pieces_digest)

lemma md5_streaming_witness:
  "fst (MD5Final (fold MD5Update [[0x61], [0x62, 0x63]]
     (MD5Init \<lparr>md5_state = [], md5_count = (7, 7), md5_buffer = replicate 64 1\<rparr>)))
   = md5_spec [0x61, 0x62, 0x63]"
  by (subst md5_streaming) simp_all

end
