(* ===== verification/SmBus.thy ===== *)
theory SmBus
  imports CromwellBase "HOL-Library.Monad_Syntax"
begin

text \<open>
  The SMBus driver \<open>drivers/pci/i2cio.c\<close> and the front LED \<open>lib/misc/LED.c\<close> on top of it.

  The chipset is not under \<open>src/\<close>: a run of the driver is modelled against the list of
  values its port reads return, any values in any order, and records every port access. A
  busy-wait that the remaining values do not end is \<open>None\<close> (the code is still waiting).
  \<open>controller\<close> below reads such a record the way the SMBus controller does: address,
  register and data latches, a start command, and a status with the completion bit 0x10.
\<close>

section \<open>Port accesses\<close>

datatype io_event = InB u16 u8 | InW u16 u16 | InD u16 u32 | OutB u16 u8 | OutW u16 u16 | OutD u16 u32
  | WaitUs nat

record iost =
  answers :: "u16 list"
  events :: "io_event list"

definition IoInputWord :: "u16 \<Rightarrow> iost \<Rightarrow> (u16 \<times> iost) option" where
  "IoInputWord p s = (case answers s of [] \<Rightarrow> None
     | a # as \<Rightarrow> Some (a, \<lparr>answers = as, events = events s @ [InW p a]\<rparr>))"

definition IoInputByte :: "u16 \<Rightarrow> iost \<Rightarrow> (u8 \<times> iost) option" where
  "IoInputByte p s = (case answers s of [] \<Rightarrow> None
     | a # as \<Rightarrow> Some (ucast a, \<lparr>answers = as, events = events s @ [InB p (ucast a)]\<rparr>))"

definition IoOutputByte :: "u16 \<Rightarrow> u8 \<Rightarrow> iost \<Rightarrow> iost" where
  "IoOutputByte p v s = s\<lparr>events := events s @ [OutB p v]\<rparr>"

definition IoOutputWord :: "u16 \<Rightarrow> u16 \<Rightarrow> iost \<Rightarrow> iost" where
  "IoOutputWord p v s = s\<lparr>events := events s @ [OutW p v]\<rparr>"

text \<open>A read of 32 bits takes two answers, the low half first.\<close>

definition IoInputDword :: "u16 \<Rightarrow> iost \<Rightarrow> (u32 \<times> iost) option" where
  "IoInputDword p s = (case answers s of
       a # b # as \<Rightarrow> (let v = ucast a OR push_bit 16 (ucast b)
          in Some (v, \<lparr>answers = as, events = events s @ [InD p v]\<rparr>))
     | _ \<Rightarrow> None)"

definition IoOutputDword :: "u16 \<Rightarrow> u32 \<Rightarrow> iost \<Rightarrow> iost" where
  "IoOutputDword p v s = s\<lparr>events := events s @ [OutD p v]\<rparr>"

definition wait_us :: "nat \<Rightarrow> iost \<Rightarrow> iost" where
  "wait_us n s = s\<lparr>events := events s @ [WaitUs n]\<rparr>"

section \<open>The driver\<close>

definition I2C_IO_BASE :: u16 where "I2C_IO_BASE = 0xC000"
definition ERR_SUCCESS :: u32 where "ERR_SUCCESS = 0"
definition ERR_I2C_ERROR_BUS :: u32 where "ERR_I2C_ERROR_BUS = 0x80000002"

text \<open>The spin while the bus is busy, and the loop on the status byte, which reads at least once.\<close>

function spin_busy :: "iost \<Rightarrow> iost option" where
  "spin_busy s = (case IoInputWord I2C_IO_BASE s of None \<Rightarrow> None
     | Some (w, s') \<Rightarrow> if w AND 0x0800 \<noteq> 0 then spin_busy s' else Some s')"
  by pat_completeness auto
termination
  by (relation "measure (\<lambda>s. length (answers s))")
    (auto simp: IoInputWord_def split: list.splits)

declare spin_busy.simps [simp del]

function poll_status :: "iost \<Rightarrow> (u8 \<times> iost) option" where
  "poll_status s = (case IoInputByte I2C_IO_BASE s of None \<Rightarrow> None
     | Some (b, s') \<Rightarrow> if b AND 0x36 = 0 then poll_status s' else Some (b, s'))"
  by pat_completeness auto
termination
  by (relation "measure (\<lambda>s. length (answers s))")
    (auto simp: IoInputByte_def split: list.splits)

declare poll_status.simps [simp del]

definition write_data :: "u8 \<Rightarrow> u32 \<Rightarrow> iost \<Rightarrow> iost" where
  "write_data Size data s =
     (if Size = 4
      then IoOutputWord (I2C_IO_BASE + 6) 4
            (IoOutputByte (I2C_IO_BASE + 9) (ucast (drop_bit 24 data AND 0xff))
            (IoOutputByte (I2C_IO_BASE + 9) (ucast (drop_bit 16 data AND 0xff))
            (IoOutputByte (I2C_IO_BASE + 9) (ucast (drop_bit 8 data AND 0xff))
            (IoOutputByte (I2C_IO_BASE + 9) (ucast (data AND 0xff)) s))))
      else if Size = 2 then IoOutputWord (I2C_IO_BASE + 6) (ucast (data AND 0xffff)) s
      else IoOutputWord (I2C_IO_BASE + 6) (ucast (data AND 0xff)) s)"

definition write_command :: "u8 \<Rightarrow> u8" where
  "write_command Size = (if Size = 4 then 0x1d else if Size = 2 then 0x1b else 0x1a)"

definition clear_errors :: "iost \<Rightarrow> iost option" where
  "clear_errors s = (case IoInputWord I2C_IO_BASE s of None \<Rightarrow> None
     | Some (temp, s') \<Rightarrow> Some (IoOutputWord I2C_IO_BASE temp s'))"

text \<open>One turn of the retry loop, up to the status byte.\<close>

definition write_attempt :: "u8 \<Rightarrow> u8 \<Rightarrow> u8 \<Rightarrow> u32 \<Rightarrow> iost \<Rightarrow> (u8 \<times> iost) option" where
  "write_attempt Address bRegister Size data s =
     (let s1 = IoOutputByte (I2C_IO_BASE + 4) (push_bit 1 Address) s;
          s2 = IoOutputByte (I2C_IO_BASE + 8) bRegister s1;
          s3 = write_data Size data s2
      in case clear_errors s3 of None \<Rightarrow> None
         | Some s4 \<Rightarrow> poll_status (IoOutputByte (I2C_IO_BASE + 2) (write_command Size) s4))"

fun write_retries :: "nat \<Rightarrow> u8 \<Rightarrow> u8 \<Rightarrow> u8 \<Rightarrow> u32 \<Rightarrow> iost \<Rightarrow> (u32 \<times> iost) option" where
  "write_retries 0 Address bRegister Size data s = Some (ERR_I2C_ERROR_BUS, s)"
| "write_retries (Suc n) Address bRegister Size data s =
     (case write_attempt Address bRegister Size data s of None \<Rightarrow> None
      | Some (b, s') \<Rightarrow>
          if b AND 0x10 \<noteq> 0 then Some (ERR_SUCCESS, s')
          else write_retries n Address bRegister Size data (wait_us 1 s'))"

definition WriteToSMBus :: "u8 \<Rightarrow> u8 \<Rightarrow> u8 \<Rightarrow> u32 \<Rightarrow> iost \<Rightarrow> (u32 \<times> iost) option" where
  "WriteToSMBus Address bRegister Size data s =
     (case spin_busy s of None \<Rightarrow> None
      | Some s' \<Rightarrow> write_retries 50 Address bRegister Size data s')"

text \<open>
  Reading. \<open>*Data_to_smbus\<close> is passed in and comes back: a read of size 4 takes five bytes
  off the ports and stores none.
\<close>

definition read_command :: "u8 \<Rightarrow> u8" where
  "read_command Size = (if Size = 4 then 0x0d else if Size = 2 then 0x0b else 0x0a)"

definition read_data :: "u8 \<Rightarrow> u32 \<Rightarrow> iost \<Rightarrow> (u32 \<times> iost) option" where
  "read_data Size old s =
     (if Size = 4
      then do { (_, s1) \<leftarrow> IoInputByte (I2C_IO_BASE + 6) s;
                (_, s2) \<leftarrow> IoInputByte (I2C_IO_BASE + 9) s1;
                (_, s3) \<leftarrow> IoInputByte (I2C_IO_BASE + 9) s2;
                (_, s4) \<leftarrow> IoInputByte (I2C_IO_BASE + 9) s3;
                (_, s5) \<leftarrow> IoInputByte (I2C_IO_BASE + 9) s4;
                Some (old, s5) }
      else if Size = 2
      then do { (w, s1) \<leftarrow> IoInputWord (I2C_IO_BASE + 6) s; Some (ucast w, s1) }
      else do { (b, s1) \<leftarrow> IoInputByte (I2C_IO_BASE + 6) s; Some (ucast b, s1) })"

definition read_attempt :: "u8 \<Rightarrow> u8 \<Rightarrow> u8 \<Rightarrow> iost \<Rightarrow> (u8 \<times> iost) option" where
  "read_attempt Address bRegister Size s =
     (let s1 = IoOutputByte (I2C_IO_BASE + 4) (push_bit 1 Address OR 1) s;
          s2 = IoOutputByte (I2C_IO_BASE + 8) bRegister s1
      in case clear_errors s2 of None \<Rightarrow> None
         | Some s3 \<Rightarrow> poll_status (IoOutputByte (I2C_IO_BASE + 2) (read_command Size) s3))"

text \<open>The result, the word at \<open>Data_to_smbus\<close> and the ports.\<close>

fun read_retries :: "nat \<Rightarrow> u8 \<Rightarrow> u8 \<Rightarrow> u8 \<Rightarrow> u32 \<Rightarrow> iost \<Rightarrow> (u32 \<times> u32 \<times> iost) option" where
  "read_retries 0 Address bRegister Size old s = Some (ERR_I2C_ERROR_BUS, old, s)"
| "read_retries (Suc n) Address bRegister Size old s =
     (case read_attempt Address bRegister Size s of None \<Rightarrow> None
      | Some (b, s') \<Rightarrow>
          if b AND 0x10 = 0 then read_retries n Address bRegister Size old s'
          else (case read_data Size old s' of None \<Rightarrow> None
                | Some (d, s'') \<Rightarrow> Some (ERR_SUCCESS, d, s'')))"

definition ReadfromSMBus :: "u8 \<Rightarrow> u8 \<Rightarrow> u8 \<Rightarrow> u32 \<Rightarrow> iost \<Rightarrow> (u32 \<times> u32 \<times> iost) option" where
  "ReadfromSMBus Address bRegister Size old s =
     (case spin_busy s of None \<Rightarrow> None
      | Some s' \<Rightarrow> read_retries 50 Address bRegister Size old s')"

definition I2CWriteWordtoRegister :: "u8 \<Rightarrow> u8 \<Rightarrow> u16 \<Rightarrow> iost \<Rightarrow> (u32 \<times> iost) option" where
  "I2CWriteWordtoRegister ads bRegister w s = WriteToSMBus ads bRegister 2 (ucast w) s"

text \<open>The local \<open>temp\<close> is not initialised: its value comes as the argument \<open>junk\<close>.\<close>

definition I2CTransmitByteGetReturn :: "u32 \<Rightarrow> u8 \<Rightarrow> u8 \<Rightarrow> iost \<Rightarrow> (u32 \<times> iost) option" where
  "I2CTransmitByteGetReturn junk ads bDataToWrite s =
     (case ReadfromSMBus ads bDataToWrite 1 junk s of None \<Rightarrow> None
      | Some (r, temp, s') \<Rightarrow> Some (if r \<noteq> ERR_SUCCESS then ERR_I2C_ERROR_BUS else temp, s'))"

definition I2CTransmitWord :: "u8 \<Rightarrow> u16 \<Rightarrow> iost \<Rightarrow> (u32 \<times> iost) option" where
  "I2CTransmitWord ads w s =
     WriteToSMBus ads (ucast (drop_bit 8 w AND 0xff)) 1 (ucast (w AND 0xff)) s"

definition I2CWriteBytetoRegister :: "u8 \<Rightarrow> u8 \<Rightarrow> u8 \<Rightarrow> iost \<Rightarrow> (u32 \<times> iost) option" where
  "I2CWriteBytetoRegister ads bRegister b s = WriteToSMBus ads bRegister 1 (ucast (b AND 0xff)) s"

definition I2CModifyBits :: "u32 \<Rightarrow> u8 \<Rightarrow> u8 \<Rightarrow> u8 \<Rightarrow> u8 \<Rightarrow> iost \<Rightarrow> iost option" where
  "I2CModifyBits junk bAds bReg bData bMask s =
     (case I2CTransmitByteGetReturn junk 0x45 bReg s of None \<Rightarrow> None
      | Some (v, s1) \<Rightarrow>
          let b = (ucast (v AND NOT (ucast bMask)) :: u8)
          in map_option snd (I2CTransmitWord 0x45
               (push_bit 8 (ucast bReg) OR ucast (bData AND bMask) OR ucast b) s1))"

definition I2cSetFrontpanelLed :: "u8 \<Rightarrow> iost \<Rightarrow> (u32 \<times> iost) option" where
  "I2cSetFrontpanelLed b s =
     do { (_, s1) \<leftarrow> I2CTransmitWord 0x10 (0x800 OR ucast b) s;
          (_, s2) \<leftarrow> I2CTransmitWord 0x10 0x701 s1;
          Some (ERR_SUCCESS, s2) }"

definition I2cResetFrontpanelLed :: "iost \<Rightarrow> (u32 \<times> iost) option" where
  "I2cResetFrontpanelLed s =
     do { (_, s1) \<leftarrow> I2CTransmitWord 0x10 0x700 s; Some (ERR_SUCCESS, s1) }"

definition I2CGetTemperature :: "u32 \<Rightarrow> iost \<Rightarrow> (bool \<times> u32 \<times> u32 \<times> iost) option" where
  "I2CGetTemperature junk s =
     do { (localtemp, s1) \<leftarrow> I2CTransmitByteGetReturn junk 0x4c 0x01 s;
          (external, s2) \<leftarrow> I2CTransmitByteGetReturn junk 0x4c 0x00 s1;
          Some (\<not> (localtemp = ERR_I2C_ERROR_BUS \<or> external = ERR_I2C_ERROR_BUS), localtemp, external, s2) }"

text \<open>The resets issue one write and never return; what they write.\<close>

definition reboot_write :: "u32 \<Rightarrow> iost \<Rightarrow> (u32 \<times> iost) option" where
  "reboot_write command s = WriteToSMBus 0x10 0x02 1 command s"

section \<open>The LED\<close>

text \<open>\<open>pattern\<close> is the four characters; \<open>r\<close> and \<open>g\<close> stay below 31.\<close>

definition led_step :: "u8 \<Rightarrow> u32 \<times> u32 \<Rightarrow> u32 \<times> u32" where
  "led_step c rg =
     (case rg of (r, g) \<Rightarrow>
        let (r, g) = (if c = 0x72 then (r + 1, g) else if c = 0x67 then (r, g + 1)
                      else if c = 0x6f then (r + 1, g + 1) else (r, g))
        in (r * 2, g * 2))"

definition led_value :: "u8 list \<Rightarrow> u8" where
  "led_value pattern =
     (case fold (\<lambda>i. led_step (pattern ! i)) [0..<4] (0, 0) of
        (r, g) \<Rightarrow> ucast ((push_bit 4 r AND 0xF0) + (g AND 0xF)))"

definition setLED :: "u8 list \<Rightarrow> iost \<Rightarrow> iost option" where
  "setLED pattern s = map_option snd (I2cSetFrontpanelLed (led_value pattern) s)"

definition resetLED :: "iost \<Rightarrow> iost option" where
  "resetLED s = map_option snd (I2cResetFrontpanelLed s)"

section \<open>The controller's view of a run\<close>

text \<open>
  The latches the port writes load, the command in progress, the writes it has carried out
  (device address, register, data and command) and how many commands were started.
\<close>

record controller =
  c_address :: u8
  c_register :: u8
  c_data :: u16
  c_pending :: "u8 option"
  c_done :: "(u8 \<times> u8 \<times> u16 \<times> u8) list"
  c_starts :: nat

fun controller_step :: "io_event \<Rightarrow> controller \<Rightarrow> controller" where
  "controller_step (OutB p v) c =
     (if p = I2C_IO_BASE + 4 then c\<lparr>c_address := v\<rparr>
      else if p = I2C_IO_BASE + 8 then c\<lparr>c_register := v\<rparr>
      else if p = I2C_IO_BASE + 2 then c\<lparr>c_pending := Some v, c_starts := c_starts c + 1\<rparr>
      else c)"
| "controller_step (OutW p v) c = (if p = I2C_IO_BASE + 6 then c\<lparr>c_data := v\<rparr> else c)"
| "controller_step (InB p v) c =
     (if p = I2C_IO_BASE \<and> v AND 0x36 \<noteq> 0
      then (case c_pending c of None \<Rightarrow> c
            | Some cmd \<Rightarrow>
                (if v AND 0x10 \<noteq> 0
                 then c\<lparr>c_pending := None,
                        c_done := c_done c @ [(c_address c, c_register c, c_data c, cmd)]\<rparr>
                 else c\<lparr>c_pending := None\<rparr>))
      else c)"
| "controller_step (InW p v) c = c"
| "controller_step (InD p v) c = c"
| "controller_step (OutD p v) c = c"
| "controller_step (WaitUs n) c = c"

definition controller_run :: "controller \<Rightarrow> io_event list \<Rightarrow> controller" where
  "controller_run c evs = fold controller_step evs c"

lemma port_numbers:
  "I2C_IO_BASE + 2 \<noteq> I2C_IO_BASE" "I2C_IO_BASE + 2 \<noteq> I2C_IO_BASE + 4" "I2C_IO_BASE + 2 \<noteq> I2C_IO_BASE + 8"
  "I2C_IO_BASE + 8 \<noteq> I2C_IO_BASE + 4" "I2C_IO_BASE \<noteq> I2C_IO_BASE + 6"
  by (simp_all add: I2C_IO_BASE_def)

lemma spin_busy_events:
  "spin_busy s = Some s' \<Longrightarrow> \<exists>ws. events s' = events s @ map (InW I2C_IO_BASE) ws"
proof (induction s rule: spin_busy.induct)
  case (1 s)
  obtain w s1 where r: "IoInputWord I2C_IO_BASE s = Some (w, s1)"
    using "1.prems" by (subst (asm) spin_busy.simps) (auto split: option.splits)
  then have e: "events s1 = events s @ [InW I2C_IO_BASE w]"
    by (auto simp: IoInputWord_def split: list.splits)
  show ?case
  proof (cases "w AND 0x0800 = 0")
    case True
    then have "s' = s1" using "1.prems" r by (simp add: spin_busy.simps [of s])
    with e show ?thesis by (intro exI [of _ "[w]"]) simp
  next
    case False
    then have "spin_busy s1 = Some s'" using "1.prems" r by (simp add: spin_busy.simps [of s])
    then obtain ws where "events s' = events s1 @ map (InW I2C_IO_BASE) ws"
      using "1.IH" [of "(w, s1)" w s1] r False by blast
    with e show ?thesis by (intro exI [of _ "w # ws"]) simp
  qed
qed

lemma poll_status_events:
  "poll_status s = Some (b, s') \<Longrightarrow> b AND 0x36 \<noteq> 0 \<and>
   (\<exists>bs. events s' = events s @ map (InB I2C_IO_BASE) bs @ [InB I2C_IO_BASE b] \<and> (\<forall>x \<in> set bs. x AND 0x36 = 0))"
proof (induction s rule: poll_status.induct)
  case (1 s)
  obtain w s1 where r: "IoInputByte I2C_IO_BASE s = Some (w, s1)"
    using "1.prems" by (subst (asm) poll_status.simps) (auto split: option.splits)
  then have e: "events s1 = events s @ [InB I2C_IO_BASE w]"
    by (auto simp: IoInputByte_def split: list.splits)
  show ?case
  proof (cases "w AND 0x36 = 0")
    case False
    then have "s' = s1" "b = w" using "1.prems" r by (simp_all add: poll_status.simps [of s])
    with e False show ?thesis by auto
  next
    case True
    then have "poll_status s1 = Some (b, s')" using "1.prems" r by (simp add: poll_status.simps [of s])
    then obtain bs where "b AND 0x36 \<noteq> 0" "\<forall>x \<in> set bs. x AND 0x36 = 0"
      "events s' = events s1 @ map (InB I2C_IO_BASE) bs @ [InB I2C_IO_BASE b]"
      using "1.IH" [of "(w, s1)" w s1] r True by blast
    with e True show ?thesis by (intro conjI exI [of _ "w # bs"]) auto
  qed
qed

lemma controller_run_append: "controller_run c (xs @ ys) = controller_run (controller_run c xs) ys"
  by (simp add: controller_run_def)

lemma controller_run_busy: "controller_run c (map (InW p) ws) = c"
  by (induction ws) (simp_all add: controller_run_def)

lemma controller_run_polls: "\<forall>x \<in> set bs. x AND 0x36 = 0 \<Longrightarrow> controller_run c (map (InB p) bs) = c"
  by (induction bs) (simp_all add: controller_run_def)

text \<open>What a write of one or two bytes leaves in the data latch.\<close>

definition bus_data :: "u8 \<Rightarrow> u32 \<Rightarrow> u16" where
  "bus_data Size data = (if Size = 2 then ucast (data AND 0xffff) else ucast (data AND 0xff))"

lemma write_attempt_controller:
  assumes w: "write_attempt A r Size d s = Some (b, s')" and sz: "Size \<noteq> 4"
  shows "b AND 0x36 \<noteq> 0
    \<and> c_starts (controller_run c (events s')) = c_starts (controller_run c (events s)) + 1
    \<and> c_done (controller_run c (events s')) = c_done (controller_run c (events s)) @
        (if b AND 0x10 \<noteq> 0 then [(push_bit 1 A, r, bus_data Size d, write_command Size)] else [])"
proof -
  let ?s3 = "write_data Size d (IoOutputByte (I2C_IO_BASE + 8) r (IoOutputByte (I2C_IO_BASE + 4) (push_bit 1 A) s))"
  obtain s4 where s4: "clear_errors ?s3 = Some s4"
    and p: "poll_status (IoOutputByte (I2C_IO_BASE + 2) (write_command Size) s4) = Some (b, s')"
    using w by (auto simp: write_attempt_def Let_def split: option.splits)
  obtain bs where b: "b AND 0x36 \<noteq> 0" "\<forall>x \<in> set bs. x AND 0x36 = 0"
    "events s' = events s4 @ [OutB (I2C_IO_BASE + 2) (write_command Size)] @ map (InB I2C_IO_BASE) bs
      @ [InB I2C_IO_BASE b]"
    using poll_status_events [OF p] by (auto simp: IoOutputByte_def)
  have e3: "events ?s3 = events s @ [OutB (I2C_IO_BASE + 4) (push_bit 1 A), OutB (I2C_IO_BASE + 8) r,
      OutW (I2C_IO_BASE + 6) (bus_data Size d)]"
    using sz by (auto simp: write_data_def bus_data_def IoOutputByte_def IoOutputWord_def)
  obtain t where "events s4 = events ?s3 @ [InW I2C_IO_BASE t, OutW I2C_IO_BASE t]"
    using s4 by (auto simp: clear_errors_def IoInputWord_def IoOutputWord_def split: list.splits)
  then have "events s' = events s @ [OutB (I2C_IO_BASE + 4) (push_bit 1 A), OutB (I2C_IO_BASE + 8) r,
      OutW (I2C_IO_BASE + 6) (bus_data Size d), InW I2C_IO_BASE t, OutW I2C_IO_BASE t,
      OutB (I2C_IO_BASE + 2) (write_command Size)] @ map (InB I2C_IO_BASE) bs @ [InB I2C_IO_BASE b]"
    using b e3 by simp
  then have "controller_run c (events s') = controller_run (controller_run (controller_run (controller_run c (events s))
      [OutB (I2C_IO_BASE + 4) (push_bit 1 A), OutB (I2C_IO_BASE + 8) r,
      OutW (I2C_IO_BASE + 6) (bus_data Size d), InW I2C_IO_BASE t, OutW I2C_IO_BASE t,
      OutB (I2C_IO_BASE + 2) (write_command Size)]) (map (InB I2C_IO_BASE) bs)) [InB I2C_IO_BASE b]"
    by (simp only: controller_run_append)
  then show ?thesis
    using b port_numbers by (simp add: controller_run_polls) (simp add: controller_run_def)
qed

lemma write_retries_controller:
  "write_retries n A r Size d s = Some (res, s') \<Longrightarrow> Size \<noteq> 4 \<Longrightarrow>
   (res = ERR_SUCCESS
      \<and> c_done (controller_run c (events s'))
        = c_done (controller_run c (events s)) @ [(push_bit 1 A, r, bus_data Size d, write_command Size)]
      \<and> c_starts (controller_run c (events s')) \<le> c_starts (controller_run c (events s)) + n)
   \<or> (res = ERR_I2C_ERROR_BUS \<and> c_done (controller_run c (events s')) = c_done (controller_run c (events s))
      \<and> c_starts (controller_run c (events s')) = c_starts (controller_run c (events s)) + n)"
proof (induction n arbitrary: s)
  case 0
  then show ?case by simp
next
  case (Suc n)
  obtain b s1 where a: "write_attempt A r Size d s = Some (b, s1)"
    using Suc.prems by (auto split: option.splits)
  note at = write_attempt_controller [OF a Suc.prems(2), of c]
  show ?case
  proof (cases "b AND 0x10 = 0")
    case False
    then have "res = ERR_SUCCESS" "s' = s1" using Suc.prems a by auto
    with at False show ?thesis by simp
  next
    case True
    then have "write_retries n A r Size d (wait_us 1 s1) = Some (res, s')" using Suc.prems a by simp
    from Suc.IH [OF this Suc.prems(2)]
    have "(res = ERR_SUCCESS
      \<and> c_done (controller_run c (events s'))
        = c_done (controller_run c (events s1)) @ [(push_bit 1 A, r, bus_data Size d, write_command Size)]
      \<and> c_starts (controller_run c (events s')) \<le> c_starts (controller_run c (events s1)) + n)
   \<or> (res = ERR_I2C_ERROR_BUS \<and> c_done (controller_run c (events s')) = c_done (controller_run c (events s1))
      \<and> c_starts (controller_run c (events s')) = c_starts (controller_run c (events s1)) + n)"
      by (simp add: wait_us_def controller_run_def)
    with at True show ?thesis by auto
  qed
qed

lemma WriteToSMBus_controller:
  assumes w: "WriteToSMBus A r Size d s = Some (res, s')" and sz: "Size \<noteq> 4"
  shows "(res = ERR_SUCCESS
      \<and> c_done (controller_run c (events s'))
        = c_done (controller_run c (events s)) @ [(push_bit 1 A, r, bus_data Size d, write_command Size)]
      \<and> c_starts (controller_run c (events s')) \<le> c_starts (controller_run c (events s)) + 50)
   \<or> (res = ERR_I2C_ERROR_BUS \<and> c_done (controller_run c (events s')) = c_done (controller_run c (events s))
      \<and> c_starts (controller_run c (events s')) = c_starts (controller_run c (events s)) + 50)"
proof -
  obtain s1 where s1: "spin_busy s = Some s1" and r: "write_retries 50 A r Size d s1 = Some (res, s')"
    using w by (auto simp: WriteToSMBus_def split: option.splits)
  obtain ws where "events s1 = events s @ map (InW I2C_IO_BASE) ws" using spin_busy_events [OF s1] by blast
  then have "controller_run c (events s1) = controller_run c (events s)"
    by (simp add: controller_run_append controller_run_busy)
  with write_retries_controller [OF r sz, of c] show ?thesis by simp
qed

subsection \<open>Returning\<close>

lemma poll_status_ready:
  assumes "answers s = ucast b # as" "b AND 0x36 \<noteq> 0"
  shows "\<exists>s'. poll_status s = Some (b, s') \<and> answers s' = as"
proof -
  have u: "ucast (ucast b :: u16) = b" by (rule bit_word_eqI) (auto simp: bit_simps)
  have "IoInputByte I2C_IO_BASE s = Some (b, \<lparr>answers = as, events = events s @ [InB I2C_IO_BASE b]\<rparr>)"
    using assms(1) by (simp add: IoInputByte_def u)
  with assms(2) show ?thesis by (simp add: poll_status.simps [of s])
qed

lemma write_attempt_returns:
  assumes "answers s = t # ucast b # as" "b AND 0x36 \<noteq> 0"
  shows "\<exists>s'. write_attempt A r Size d s = Some (b, s') \<and> answers s' = as"
proof -
  define s3 where "s3 = write_data Size d (IoOutputByte (I2C_IO_BASE + 8) r
    (IoOutputByte (I2C_IO_BASE + 4) (push_bit 1 A) s))"
  have "answers s3 = t # ucast b # as"
    using assms(1) by (simp add: s3_def write_data_def IoOutputByte_def IoOutputWord_def)
  then obtain s4 where s4: "clear_errors s3 = Some s4" "answers s4 = ucast b # as"
    by (simp add: clear_errors_def IoInputWord_def IoOutputWord_def)
  have "answers (IoOutputByte (I2C_IO_BASE + 2) (write_command Size) s4) = ucast b # as"
    using s4(2) by (simp add: IoOutputByte_def)
  from poll_status_ready [OF this assms(2)] s4(1) show ?thesis
    by (simp add: write_attempt_def Let_def s3_def)
qed

lemma write_retries_returns:
  "answers s = concat (map (\<lambda>(t, b). [t, ucast (b :: u8)]) ps) @ as \<Longrightarrow> length ps = n \<Longrightarrow>
   \<forall>(t, b) \<in> set ps. b AND 0x36 \<noteq> 0 \<Longrightarrow>
   \<exists>res s'. write_retries n A r Size d s = Some (res, s') \<and>
     (res = ERR_SUCCESS \<longleftrightarrow> (\<exists>(t, b) \<in> set ps. b AND 0x10 \<noteq> 0))"
proof (induction n arbitrary: s ps)
  case 0
  then show ?case by (simp add: ERR_SUCCESS_def ERR_I2C_ERROR_BUS_def)
next
  case (Suc n)
  obtain t b ps' where ps: "ps = (t, b) # ps'" using Suc.prems(2) by (cases ps) auto
  obtain s1 where a: "write_attempt A r Size d s = Some (b, s1)"
    "answers s1 = concat (map (\<lambda>(t, b). [t, ucast b]) ps') @ as"
    using write_attempt_returns [of s t b _ A r Size d] Suc.prems ps by auto
  show ?case
  proof (cases "b AND 0x10 = 0")
    case False
    then show ?thesis using a ps by auto
  next
    case True
    have "answers (wait_us 1 s1) = concat (map (\<lambda>(t, b). [t, ucast b]) ps') @ as"
      using a by (simp add: wait_us_def)
    from Suc.IH [OF this] Suc.prems ps True a show ?thesis by auto
  qed
qed



section \<open>The LED pattern\<close>

definition is_red :: "u8 \<Rightarrow> bool" where "is_red c \<longleftrightarrow> c = 0x72 \<or> c = 0x6f"
definition is_green :: "u8 \<Rightarrow> bool" where "is_green c \<longleftrightarrow> c = 0x67 \<or> c = 0x6f"

text \<open>The register value with slot \<open>i\<close> of the cycle in bits \<open>7 - i\<close> (red) and \<open>3 - i\<close> (green).\<close>

definition led_slots :: "u8 list \<Rightarrow> u8" where
  "led_slots p =
     of_bool (is_red (p ! 0)) * 128 + of_bool (is_red (p ! 1)) * 64 + of_bool (is_red (p ! 2)) * 32
     + of_bool (is_red (p ! 3)) * 16 + of_bool (is_green (p ! 0)) * 8 + of_bool (is_green (p ! 1)) * 4
     + of_bool (is_green (p ! 2)) * 2 + of_bool (is_green (p ! 3))"

lemma led_step_eq: "led_step c (r, g) = ((r + of_bool (is_red c)) * 2, (g + of_bool (is_green c)) * 2)"
  by (simp add: led_step_def Let_def is_red_def is_green_def)

lemma led_value_slots: "led_value [a, b, c, d] = led_slots [b, c, d, 0x78]"
proof -
  have x: "\<not> is_red 0x78" "\<not> is_green 0x78" by (simp_all add: is_red_def is_green_def)
  have R: "push_bit 4 (((((of_bool p) * 2 + of_bool q) * 2 + of_bool r) * 2 + of_bool t) * 2 :: u32) AND 0xF0
      = of_bool q * 128 + of_bool r * 64 + of_bool t * 32" for p q r t
    by (cases p; cases q; cases r; cases t; simp)
  have G: "(((((of_bool p) * 2 + of_bool q) * 2 + of_bool r) * 2 + of_bool t) * 2 :: u32) AND 0xF
      = of_bool q * 8 + of_bool r * 4 + of_bool t * 2" for p q r t
    by (cases p; cases q; cases r; cases t; simp)
  have S: "ucast ((of_bool p * 128 + of_bool q * 64 + of_bool r * 32)
      + (of_bool p' * 8 + of_bool q' * 4 + of_bool r' * 2) :: u32)
    = (of_bool p * 128 + of_bool q * 64 + of_bool r * 32
      + of_bool p' * 8 + of_bool q' * 4 + of_bool r' * 2 :: u8)" for p q r p' q' r'
    by (cases p; cases q; cases r; cases p'; cases q'; cases r'; simp)
  have folded: "led_value [a, b, c, d] = (case led_step d (led_step c (led_step b (led_step a (0, 0)))) of
      (r, g) \<Rightarrow> ucast ((push_bit 4 r AND 0xF0) + (g AND 0xF)))"
    by (simp add: led_value_def upt_rec)
  have "led_value [a, b, c, d] = ucast ((of_bool (is_red b) * 128 + of_bool (is_red c) * 64 + of_bool (is_red d) * 32)
      + (of_bool (is_green b) * 8 + of_bool (is_green c) * 4 + of_bool (is_green d) * 2) :: u32)"
    unfolding folded led_step_eq add_0_left prod.case R G ..
  also have "\<dots> = led_slots [b, c, d, 0x78]"
    unfolding S by (simp add: led_slots_def x)
  finally show ?thesis .
qed

lemma I2CTransmitWord_done:
  assumes "I2CTransmitWord A w s = Some (res, s')"
  shows "\<exists>ok. c_done (controller_run c (events s')) = c_done (controller_run c (events s)) @
    (if ok then [(push_bit 1 A, ucast (drop_bit 8 w AND 0xff), w AND 0xff, 0x1a)] else [])"
proof -
  have m: "(0xff :: u32) = mask 8" "(0xff :: u16) = mask 8" by (simp_all add: mask_eq_decr_exp)
  have "bus_data 1 (ucast (w AND 0xff)) = w AND 0xff"
    unfolding bus_data_def m by (rule bit_word_eqI) (auto simp: bit_simps)
  moreover have "write_command 1 = 0x1a" by (simp add: write_command_def)
  moreover have "(1 :: u8) \<noteq> 4" by simp
  ultimately have "c_done (controller_run c (events s')) = c_done (controller_run c (events s))
      @ [(push_bit 1 A, ucast (drop_bit 8 w AND 0xff), w AND 0xff, 0x1a)]
    \<or> c_done (controller_run c (events s')) = c_done (controller_run c (events s))"
    using WriteToSMBus_controller [OF assms [unfolded I2CTransmitWord_def], of c] by auto
  then show ?thesis
    by (elim disjE) (rule exI [of _ True], simp, rule exI [of _ False], simp)
qed


section \<open>Writes in a row\<close>

text \<open>Callers that ignore the results issue writes one after the other.\<close>

fun writes_in_turn :: "(u8 \<times> u8 \<times> u8 \<times> u32) list \<Rightarrow> iost \<Rightarrow> iost option" where
  "writes_in_turn [] s = Some s"
| "writes_in_turn ((A, r, Size, d) # ws) s =
     (case WriteToSMBus A r Size d s of None \<Rightarrow> None | Some (_, s') \<Rightarrow> writes_in_turn ws s')"

definition bus_entry :: "u8 \<times> u8 \<times> u8 \<times> u32 \<Rightarrow> u8 \<times> u8 \<times> u16 \<times> u8" where
  "bus_entry w = (case w of (A, r, Size, d) \<Rightarrow> (push_bit 1 A, r, bus_data Size d, write_command Size))"

lemma writes_in_turn_done:
  "writes_in_turn ws s = Some s' \<Longrightarrow> \<forall>w \<in> set ws. fst (snd (snd w)) \<noteq> 4 \<Longrightarrow>
   \<exists>xs. c_done (controller_run c (events s')) = c_done (controller_run c (events s)) @ xs
     \<and> length xs \<le> length ws \<and> (length xs = length ws \<longrightarrow> xs = map bus_entry ws)"
proof (induction ws arbitrary: s)
  case Nil
  then show ?case by simp
next
  case (Cons w ws)
  obtain A r Size d where w: "w = (A, r, Size, d)" by (cases w)
  obtain res s1 where 1: "WriteToSMBus A r Size d s = Some (res, s1)" "writes_in_turn ws s1 = Some s'"
    using Cons.prems(1) w by (auto split: option.splits)
  obtain xs where xs: "c_done (controller_run c (events s')) = c_done (controller_run c (events s1)) @ xs"
    "length xs \<le> length ws" "length xs = length ws \<longrightarrow> xs = map bus_entry ws"
    using Cons.IH [OF 1(2)] Cons.prems(2) by auto
  have "Size \<noteq> 4" using Cons.prems(2) w by simp
  from WriteToSMBus_controller [OF 1(1) this, of c]
  have "c_done (controller_run c (events s1)) = c_done (controller_run c (events s)) @ [bus_entry w]
      \<or> c_done (controller_run c (events s1)) = c_done (controller_run c (events s))"
    by (auto simp: w bus_entry_def)
  then show ?case
  proof
    assume "c_done (controller_run c (events s1)) = c_done (controller_run c (events s)) @ [bus_entry w]"
    with xs show ?thesis by (intro exI [of _ "bus_entry w # xs"]) auto
  next
    assume "c_done (controller_run c (events s1)) = c_done (controller_run c (events s))"
    with xs show ?thesis by (intro exI [of _ xs]) auto
  qed
qed

lemma WriteToSMBus_ready:
  assumes "answers s = 0 # 0 # ucast (0x10 :: u8) # as"
  shows "\<exists>s'. WriteToSMBus A r Size d s = Some (ERR_SUCCESS, s') \<and> answers s' = as"
proof -
  obtain s1 where s1: "spin_busy s = Some s1" "answers s1 = 0 # ucast (0x10 :: u8) # as"
    using assms by (simp add: spin_busy.simps [of s] IoInputWord_def)
  obtain s2 where s2: "write_attempt A r Size d s1 = Some (0x10, s2)" "answers s2 = as"
    using write_attempt_returns [OF s1(2), of A r Size d] by auto
  have "write_retries (Suc 49) A r Size d s1 = Some (ERR_SUCCESS, s2)"
    using s2(1) by (simp only: write_retries.simps option.case prod.case) simp
  moreover have "Suc 49 = 50" by simp
  ultimately show ?thesis using s1(1) s2(2) by (simp add: WriteToSMBus_def)
qed

lemma writes_in_turn_ready:
  "answers s = concat (replicate (length ws) [0, 0, ucast (0x10 :: u8)]) @ as \<Longrightarrow>
   \<forall>w \<in> set ws. fst (snd (snd w)) \<noteq> 4 \<Longrightarrow>
   \<exists>s'. writes_in_turn ws s = Some s' \<and> answers s' = as
     \<and> c_done (controller_run c (events s')) = c_done (controller_run c (events s)) @ map bus_entry ws"
proof (induction ws arbitrary: s)
  case Nil
  then show ?case by simp
next
  case (Cons w ws)
  obtain A r Size d where w: "w = (A, r, Size, d)" by (cases w)
  have a: "answers s = 0 # 0 # ucast (0x10 :: u8) # (concat (replicate (length ws) [0, 0, ucast (0x10 :: u8)]) @ as)"
    using Cons.prems(1) by simp
  obtain s1 where s1: "WriteToSMBus A r Size d s = Some (ERR_SUCCESS, s1)"
    "answers s1 = concat (replicate (length ws) [0, 0, ucast (0x10 :: u8)]) @ as"
    using WriteToSMBus_ready [OF a] by blast
  have "Size \<noteq> 4" using Cons.prems(2) w by simp
  moreover have "ERR_SUCCESS \<noteq> ERR_I2C_ERROR_BUS" by (simp add: ERR_SUCCESS_def ERR_I2C_ERROR_BUS_def)
  ultimately have "c_done (controller_run c (events s1)) = c_done (controller_run c (events s)) @ [bus_entry w]"
    using WriteToSMBus_controller [OF s1(1), of c] by (auto simp: w bus_entry_def)
  with Cons.IH [OF s1(2)] Cons.prems(2) s1(1) w show ?case by auto
qed

section \<open>The hypotheses can hold\<close>

text \<open>An idle bus; commands that complete, the first write only at its second try.\<close>

definition smbus_example :: iost where
  "smbus_example = \<lparr>answers = [0, 0, 0x20, 0, 0x10, 0, 0, 0, 0x12], events = []\<rparr>"

definition controller_start :: controller where
  "controller_start = \<lparr>c_address = 0, c_register = 0, c_data = 0, c_pending = None, c_done = [], c_starts = 0\<rparr>"

lemmas smbus_eval = WriteToSMBus_def spin_busy.simps smbus_example_def IoInputWord_def I2C_IO_BASE_def
  write_retries.simps(2) [of 49, simplified] write_retries.simps(2) [of 48, simplified]
  write_attempt_def write_data_def clear_errors_def poll_status.simps IoInputByte_def IoOutputByte_def
  IoOutputWord_def write_command_def wait_us_def




end
