(* ===== verification/Eeprom.thy ===== *)
theory Eeprom
  imports SmBus
begin

text \<open>
  The EEPROM settings of \<open>lib/eeprom/BootEEPROM.c\<close>: the 256-byte image in RAM (the packed
  struct \<open>EEPROMDATA\<close>, a list of bytes with the field offsets of the struct), the checksum, and
  the two settings that are changed over the SMBus with the checksum of their section.
\<close>

section \<open>The code\<close>

text \<open>Offsets of the fields the code touches, and of the sections the checksums cover.\<close>

definition Checksum2 :: nat where "Checksum2 = 0x30"
definition SerialNumber :: nat where "SerialNumber = 0x34"
definition VideoStandard :: nat where "VideoStandard = 0x58"
definition Checksum3 :: nat where "Checksum3 = 0x60"
definition TimeZoneBias :: nat where "TimeZoneBias = 0x64"
definition VideoFlags :: nat where "VideoFlags = 0x94"

lemmas eeprom_offsets = Checksum2_def SerialNumber_def VideoStandard_def Checksum3_def TimeZoneBias_def
  VideoFlags_def

text \<open>The first \<open>len\<close> bytes from a field on.\<close>

definition bytes_from :: "nat \<Rightarrow> nat \<Rightarrow> u8 list \<Rightarrow> u8 list" where
  "bytes_from off len e = take len (drop off e)"

text \<open>The rotated copy with its zero bytes behind it, and the four sums of words.\<close>

definition crc_data :: "u8 list \<Rightarrow> u8 list" where
  "crc_data dat = [last dat] @ butlast dat @ replicate 4 0"

fun crc_loop :: "u8 list \<Rightarrow> nat list \<Rightarrow> u16 \<Rightarrow> u16" where
  "crc_loop D [] v = v"
| "crc_loop D (l # ls) v = crc_loop D ls (v - le16 (D ! l) (D ! (l + 1)))"

definition crc_byte :: "u8 list \<Rightarrow> nat \<Rightarrow> u8" where
  "crc_byte dat pos =
     ucast (drop_bit 8 (crc_loop (crc_data dat) (filter (\<lambda>l. l mod 4 = pos mod 4) [pos..<length dat]) 0xFFFF
       AND 0xFF00))"

definition EepromCRC :: "u8 list \<Rightarrow> u8 list" where
  "EepromCRC dat = map (crc_byte dat) [0..<4]"

text \<open>Reading all of it: the failing code of a byte is stored like data.\<close>

fun read_bytes :: "u32 \<Rightarrow> nat list \<Rightarrow> iost \<Rightarrow> (u8 list \<times> iost) option" where
  "read_bytes junk [] s = Some ([], s)"
| "read_bytes junk (i # is) s =
     (case I2CTransmitByteGetReturn junk 0x54 (of_nat i) s of None \<Rightarrow> None
      | Some (v, s') \<Rightarrow> map_option (\<lambda>(bs, s''). (ucast v # bs, s'')) (read_bytes junk is s'))"

definition BootEepromReadEntireEEPROM :: "u32 \<Rightarrow> iost \<Rightarrow> (u8 list \<times> iost) option" where
  "BootEepromReadEntireEEPROM junk s = read_bytes junk [0..<256] s"

definition EepromSetWidescreen :: "bool \<Rightarrow> u8 list \<times> iost \<Rightarrow> (u8 list \<times> iost) option" where
  "EepromSetWidescreen enable st =
     (case st of (e, s) \<Rightarrow>
        let (w, e') = (if enable then ((0x54, 0x96, 0, 1), e[VideoFlags + 2 := 0x01])
                       else ((0x54, 0x96, 0, 0), e[VideoFlags + 2 := 0x00]));
            crc = EepromCRC (bytes_from TimeZoneBias 0x5b e')
        in map_option (Pair e')
             (writes_in_turn
               [w, (0x54, 0x60, 1, ucast (crc ! 0)), (0x54, 0x61, 1, ucast (crc ! 1)),
                (0x54, 0x62, 1, ucast (crc ! 2)), (0x54, 0x63, 1, ucast (crc ! 3))] s))"

definition store_at :: "nat \<Rightarrow> u8 list \<Rightarrow> u8 list \<Rightarrow> u8 list" where
  "store_at off bs e = fold (\<lambda>i e. e[off + i := bs ! i]) [0..<length bs] e"

definition EepromSetVideoStandard :: "u32 \<Rightarrow> u8 list \<times> iost \<Rightarrow> (u8 list \<times> iost) option" where
  "EepromSetVideoStandard standard st =
     (case st of (e, s) \<Rightarrow>
      case writes_in_turn
             (map (\<lambda>i. (0x54, 0x58 + of_nat i, 1, ucast (ucast (drop_bit (8 * i) standard) AND 0xff :: u8)))
               [0..<4]) s of
        None \<Rightarrow> None
      | Some s1 \<Rightarrow>
          let e' = store_at VideoStandard (map (byte_of32 standard) [0..<4]) e;
              crc = EepromCRC (bytes_from SerialNumber 0x28 e')
          in map_option (Pair e')
               (writes_in_turn
                 [(0x54, 0x30, 0, ucast (crc ! 0)), (0x54, 0x31, 0, ucast (crc ! 1)),
                  (0x54, 0x32, 0, ucast (crc ! 2)), (0x54, 0x33, 0, ucast (crc ! 3))] s1))"

section \<open>The device\<close>

text \<open>The EEPROM at address 0x54 takes each byte write the controller carries out.\<close>

definition eeprom_write :: "u8 \<times> u8 \<times> u16 \<times> u8 \<Rightarrow> u8 list \<Rightarrow> u8 list" where
  "eeprom_write w dev = (case w of (a, r, d, cmd) \<Rightarrow>
     if a = 0xA8 \<and> cmd = 0x1a then dev[unat r := ucast d] else dev)"

lemma length_eeprom_write [simp]: "length (eeprom_write w dev) = length dev"
  by (auto simp: eeprom_write_def split: prod.splits)

lemma length_EepromCRC [simp]: "length (EepromCRC dat) = 4"
  by (simp add: EepromCRC_def)

lemma bus_entry_byte:
  "Size = 0 \<or> Size = 1 \<Longrightarrow> bus_entry (0x54, r, Size, ucast (b :: u8)) = (0xA8, r, ucast b, 0x1a)"
proof -
  have m: "(0xff :: u32) = mask 8" by (simp add: mask_eq_decr_exp)
  have "(ucast (ucast b AND 0xff :: u32) :: u16) = ucast b"
    unfolding m by (rule bit_word_eqI) (auto simp: bit_simps dest: bit_imp_le_length)
  then show "Size = 0 \<or> Size = 1 \<Longrightarrow> bus_entry (0x54, r, Size, ucast b) = (0xA8, r, ucast b, 0x1a)"
    by (auto simp: bus_entry_def bus_data_def write_command_def push_bit_eq_mult)
qed

lemma ucast_u16_u8 [simp]: "ucast (ucast (b :: u8) :: u16) = b"
  by (rule bit_word_eqI) (auto simp: bit_simps)

lemma eeprom_write_byte: "eeprom_write (0xA8, r, ucast b, 0x1a) dev = dev[unat r := b]"
  by (simp add: eeprom_write_def)

lemma length_bytes_from [simp]: "off + n \<le> length e \<Longrightarrow> length (bytes_from off n e) = n"
  by (simp add: bytes_from_def)

lemma nth_bytes_from [simp]: "off + n \<le> length e \<Longrightarrow> i < n \<Longrightarrow> bytes_from off n e ! i = e ! (off + i)"
  by (simp add: bytes_from_def)

lemma bytes_from_cong:
  "length d = length e \<Longrightarrow> off + n \<le> length e \<Longrightarrow> (\<And>i. off \<le> i \<Longrightarrow> i < off + n \<Longrightarrow> d ! i = e ! i) \<Longrightarrow>
   bytes_from off n d = bytes_from off n e"
  by (rule nth_equalityI) simp_all

lemma four_bytes:
  "length crc = 4 \<Longrightarrow> off + 4 \<le> length d \<Longrightarrow>
   d ! off = crc ! 0 \<Longrightarrow> d ! (off + 1) = crc ! 1 \<Longrightarrow> d ! (off + 2) = crc ! 2 \<Longrightarrow> d ! (off + 3) = crc ! 3 \<Longrightarrow>
   bytes_from off 4 d = crc"
proof (rule nth_equalityI)
  fix i assume a: "length crc = 4" "off + 4 \<le> length d" "d ! off = crc ! 0" "d ! (off + 1) = crc ! 1"
    "d ! (off + 2) = crc ! 2" "d ! (off + 3) = crc ! 3" "i < length (bytes_from off 4 d)"
  then have "i = 0 \<or> i = 1 \<or> i = 2 \<or> i = 3" by auto
  with a show "bytes_from off 4 d ! i = crc ! i" by auto
qed simp

text \<open>
  When the five bus writes of \<open>EepromSetWidescreen\<close> are carried out on a device that
  agrees with the RAM image on the section from 0x64 to 0xbe, the device afterwards has the
  flag set or cleared, the checksum at 0x60 is that of its own section, and no other byte
  of it has changed.\<close>

theorem widescreen_checksum_consistent:
  assumes r: "EepromSetWidescreen enable (e, s) = Some (e', s')" and len: "length e = 256" "length dev = 256"
    and d: "c_done (controller_run c (events s')) = c_done (controller_run c (events s)) @ ws" "length ws = 5"
    and agree: "\<forall>i. 0x64 \<le> i \<and> i < 0xbf \<longrightarrow> dev ! i = e ! i"
    and dev': "dev' = fold eeprom_write ws dev"
  shows "dev' ! 0x96 = (if enable then 1 else 0)
    \<and> bytes_from Checksum3 4 dev' = EepromCRC (bytes_from TimeZoneBias 0x5b dev')
    \<and> bytes_from TimeZoneBias 0x5b dev' = bytes_from TimeZoneBias 0x5b e'
    \<and> (\<forall>i < 256. i \<noteq> 0x96 \<and> \<not> (0x60 \<le> i \<and> i < 0x64) \<longrightarrow> dev' ! i = dev ! i)"
proof -
  define b :: u8 where "b = (if enable then 1 else 0)"
  define crc where "crc = EepromCRC (bytes_from TimeZoneBias 0x5b e')"
  define reqs where "reqs = [(0x54, 0x96, 0, ucast b), (0x54, 0x60, 1, ucast (crc ! 0)), (0x54, 0x61, 1, ucast (crc ! 1)),
    (0x54, 0x62, 1, ucast (crc ! 2)), (0x54, 0x63, 1, ucast (crc ! 3)) :: u8 \<times> u8 \<times> u8 \<times> u32]"
  have e': "e' = e[0x96 := b]"
    using r by (auto simp: EepromSetWidescreen_def Let_def VideoFlags_def b_def simp del: writes_in_turn.simps)
  have wr: "writes_in_turn reqs s = Some s'"
    using r unfolding reqs_def crc_def e'
    by (auto simp: EepromSetWidescreen_def Let_def VideoFlags_def b_def simp del: writes_in_turn.simps)
  have "\<forall>w \<in> set reqs. fst (snd (snd w)) \<noteq> 4" by (simp add: reqs_def)
  from writes_in_turn_done [OF wr this, of c] d have "ws = map bus_entry reqs"
    by (auto simp: reqs_def)
  then have dv: "dev' = dev[0x96 := b, 0x60 := crc ! 0, 0x61 := crc ! 1, 0x62 := crc ! 2, 0x63 := crc ! 3]"
    using dev' by (simp add: reqs_def bus_entry_byte eeprom_write_byte)
  have sec: "bytes_from TimeZoneBias 0x5b dev' = bytes_from TimeZoneBias 0x5b e'"
    by (rule bytes_from_cong) (use dv e' len agree in \<open>auto simp: TimeZoneBias_def nth_list_update\<close>)
  have "bytes_from Checksum3 4 dev' = crc"
    by (rule four_bytes) (use dv len in \<open>simp_all add: Checksum3_def crc_def\<close>)
  with sec dv len show ?thesis by (auto simp: crc_def b_def)
qed

text \<open>
  When the eight bus writes of \<open>EepromSetVideoStandard\<close> are carried out on a device that
  agrees with the RAM image on the section from 0x34 to 0x5b, the device afterwards has the
  standard in its four bytes, the checksum at 0x30 is that of its own section, and no other
  byte of it has changed.\<close>

theorem video_standard_checksum_consistent:
  assumes r: "EepromSetVideoStandard standard (e, s) = Some (e', s')" and len: "length e = 256" "length dev = 256"
    and d: "c_done (controller_run c (events s')) = c_done (controller_run c (events s)) @ ws" "length ws = 8"
    and agree: "\<forall>i. 0x34 \<le> i \<and> i < 0x5c \<longrightarrow> dev ! i = e ! i"
    and dev': "dev' = fold eeprom_write ws dev"
  shows "bytes_from VideoStandard 4 dev' = map (byte_of32 standard) [0..<4]
    \<and> bytes_from Checksum2 4 dev' = EepromCRC (bytes_from SerialNumber 0x28 dev')
    \<and> bytes_from SerialNumber 0x28 dev' = bytes_from SerialNumber 0x28 e'
    \<and> (\<forall>i < 256. \<not> (0x58 \<le> i \<and> i < 0x5c) \<and> \<not> (0x30 \<le> i \<and> i < 0x34) \<longrightarrow> dev' ! i = dev ! i)"
proof -
  let ?b = "byte_of32 standard"
  define crc where "crc = EepromCRC (bytes_from SerialNumber 0x28 e')"
  define reqs1 where "reqs1 = [(0x54, 0x58, 1, ucast (?b 0)), (0x54, 0x59, 1, ucast (?b 1)),
    (0x54, 0x5a, 1, ucast (?b 2)), (0x54, 0x5b, 1, ucast (?b 3)) :: u8 \<times> u8 \<times> u8 \<times> u32]"
  define reqs2 where "reqs2 = [(0x54, 0x30, 0, ucast (crc ! 0)), (0x54, 0x31, 0, ucast (crc ! 1)),
    (0x54, 0x32, 0, ucast (crc ! 2)), (0x54, 0x33, 0, ucast (crc ! 3)) :: u8 \<times> u8 \<times> u8 \<times> u32]"
  have ff: "(v :: u8) AND 0xff = v" for v
  proof -
    have m: "(0xff :: u8) = mask 8" by (simp add: mask_eq_decr_exp)
    show ?thesis unfolding m by (rule bit_word_eqI) (simp add: bit_simps)
  qed
  have req1: "map (\<lambda>i. (0x54, 0x58 + of_nat i, 1, ucast (ucast (drop_bit (8 * i) standard) AND 0xff :: u8))) [0..<4] = reqs1"
    by (simp add: reqs1_def upt_rec ff byte_of32_def)
  obtain s1 where w1: "writes_in_turn reqs1 s = Some s1"
    and e': "e' = store_at VideoStandard (map ?b [0..<4]) e"
    using r unfolding EepromSetVideoStandard_def prod.case req1
    by (auto simp: Let_def split: option.splits simp del: writes_in_turn.simps upt_rec_numeral)
  have w2: "writes_in_turn reqs2 s1 = Some s'"
    using r w1 unfolding EepromSetVideoStandard_def prod.case req1 reqs2_def crc_def e'
    by (auto simp: Let_def simp del: writes_in_turn.simps upt_rec_numeral)
  have sz: "\<forall>w \<in> set reqs1. fst (snd (snd w)) \<noteq> 4" "\<forall>w \<in> set reqs2. fst (snd (snd w)) \<noteq> 4"
    by (simp_all add: reqs1_def reqs2_def)
  obtain xs where xs: "c_done (controller_run c (events s1)) = c_done (controller_run c (events s)) @ xs"
    "length xs \<le> 4" "length xs = 4 \<longrightarrow> xs = map bus_entry reqs1"
    using writes_in_turn_done [OF w1 sz(1), of c] by (auto simp: reqs1_def)
  obtain ys where ys: "c_done (controller_run c (events s')) = c_done (controller_run c (events s1)) @ ys"
    "length ys \<le> 4" "length ys = 4 \<longrightarrow> ys = map bus_entry reqs2"
    using writes_in_turn_done [OF w2 sz(2), of c] by (auto simp: reqs2_def)
  have "ws = xs @ ys" using d xs(1) ys(1) by simp
  with d(2) xs ys have "ws = map bus_entry reqs1 @ map bus_entry reqs2" by auto
  then have dv: "dev' = dev[0x58 := ?b 0, 0x59 := ?b 1, 0x5a := ?b 2, 0x5b := ?b 3,
      0x30 := crc ! 0, 0x31 := crc ! 1, 0x32 := crc ! 2, 0x33 := crc ! 3]"
    using dev' by (simp add: reqs1_def reqs2_def bus_entry_byte eeprom_write_byte)
  have ev: "e' = e[0x58 := ?b 0, 0x59 := ?b 1, 0x5a := ?b 2, 0x5b := ?b 3]"
    by (simp add: e' store_at_def VideoStandard_def upt_rec numeral_2_eq_2 [symmetric])
  have sec: "bytes_from SerialNumber 0x28 dev' = bytes_from SerialNumber 0x28 e'"
    by (rule bytes_from_cong) (use dv ev len agree in \<open>auto simp: SerialNumber_def nth_list_update\<close>)
  have "bytes_from Checksum2 4 dev' = crc"
    by (rule four_bytes) (use dv len in \<open>simp_all add: Checksum2_def crc_def\<close>)
  moreover have "bytes_from VideoStandard 4 dev' = map ?b [0..<4]"
    by (rule four_bytes) (use dv len in \<open>simp_all add: VideoStandard_def numeral_2_eq_2 [symmetric]\<close>)
  moreover have "\<forall>i < 256. \<not> (0x58 \<le> i \<and> i < 0x5c) \<and> \<not> (0x30 \<le> i \<and> i < 0x34) \<longrightarrow> dev' ! i = dev ! i"
    using dv by (auto simp: nth_list_update)
  ultimately show ?thesis using sec by (simp add: crc_def)
qed

section \<open>The hypotheses can hold\<close>

text \<open>A blank EEPROM on an idle bus that completes every command.\<close>

definition ready_bus :: "nat \<Rightarrow> iost" where
  "ready_bus n = \<lparr>answers = concat (replicate n [0, 0, ucast (0x10 :: u8)]), events = []\<rparr>"

definition blank_eeprom :: "u8 list" where
  "blank_eeprom = replicate 256 0"

lemma map_option_Pair_SomeD: "\<exists>s'. o1 = Some s' \<Longrightarrow> \<exists>s'. map_option (Pair e) o1 = Some (e, s')"
  by auto

lemma widescreen_checksum_consistent_witness:
  "\<exists>s' ws dev'. EepromSetWidescreen True (blank_eeprom, ready_bus 5) = Some (blank_eeprom[0x96 := 1], s')
    \<and> c_done (controller_run controller_start (events s')) = ws \<and> length ws = 5
    \<and> dev' = fold eeprom_write ws blank_eeprom
    \<and> bytes_from Checksum3 4 dev' = EepromCRC (bytes_from TimeZoneBias 0x5b dev')"
proof -
  define crc where "crc = EepromCRC (bytes_from TimeZoneBias 0x5b (blank_eeprom[0x96 := 1]))"
  define reqs where "reqs = [(0x54, 0x96, 0, 1), (0x54, 0x60, 1, ucast (crc ! 0)), (0x54, 0x61, 1, ucast (crc ! 1)),
    (0x54, 0x62, 1, ucast (crc ! 2)), (0x54, 0x63, 1, ucast (crc ! 3)) :: u8 \<times> u8 \<times> u8 \<times> u32]"
  have l: "length (map bus_entry reqs) = 5" and sz: "\<forall>w \<in> set reqs. fst (snd (snd w)) \<noteq> 4"
    by (simp_all add: reqs_def)
  have a5: "answers (ready_bus 5) = concat (replicate (length reqs) [0, 0, ucast (0x10 :: u8)]) @ []"
    using l by (simp add: ready_bus_def)
  obtain s' where w: "writes_in_turn reqs (ready_bus 5) = Some s'"
    and d: "c_done (controller_run controller_start (events s'))
      = c_done (controller_run controller_start (events (ready_bus 5))) @ map bus_entry reqs"
    using writes_in_turn_ready [OF a5 sz, of controller_start] by auto
  have z: "c_done (controller_run controller_start (events (ready_bus 5))) = []"
    by (simp add: ready_bus_def controller_run_def controller_start_def)
  have r: "EepromSetWidescreen True (blank_eeprom, ready_bus 5) = Some (blank_eeprom[0x96 := 1], s')"
    using w by (simp add: EepromSetWidescreen_def Let_def VideoFlags_def reqs_def crc_def
        del: writes_in_turn.simps)
  have "length blank_eeprom = 256" by (simp add: blank_eeprom_def)
  from widescreen_checksum_consistent [OF r this this d l _ refl] r d l z show ?thesis by auto
qed

lemma video_standard_checksum_consistent_witness:
  "\<exists>e' s' ws dev'. EepromSetVideoStandard 0x00400100 (blank_eeprom, ready_bus 8) = Some (e', s')
    \<and> c_done (controller_run controller_start (events s')) = ws \<and> length ws = 8
    \<and> dev' = fold eeprom_write ws blank_eeprom
    \<and> bytes_from Checksum2 4 dev' = EepromCRC (bytes_from SerialNumber 0x28 dev')"
proof -
  define reqs1 :: "(u8 \<times> u8 \<times> u8 \<times> u32) list" where "reqs1 = map (\<lambda>i. (0x54, 0x58 + of_nat i, 1,
     ucast (ucast (drop_bit (8 * i) (0x00400100 :: u32)) AND 0xff :: u8))) [0..<4]"
  define e' where "e' = store_at VideoStandard (map (byte_of32 0x00400100) [0..<4]) blank_eeprom"
  define crc where "crc = EepromCRC (bytes_from SerialNumber 0x28 e')"
  define reqs2 where "reqs2 = [(0x54, 0x30, 0, ucast (crc ! 0)), (0x54, 0x31, 0, ucast (crc ! 1)),
    (0x54, 0x32, 0, ucast (crc ! 2)), (0x54, 0x33, 0, ucast (crc ! 3)) :: u8 \<times> u8 \<times> u8 \<times> u32]"
  have l1: "length reqs1 = 4" and l2: "length reqs2 = 4" by (simp_all add: reqs1_def reqs2_def)
  have sz: "\<forall>w \<in> set reqs1. fst (snd (snd w)) \<noteq> 4" "\<forall>w \<in> set reqs2. fst (snd (snd w)) \<noteq> 4"
    by (simp_all add: reqs1_def reqs2_def)
  have a8: "answers (ready_bus 8) = concat (replicate (length reqs1) [0, 0, ucast (0x10 :: u8)])
      @ concat (replicate (length reqs2) [0, 0, ucast (0x10 :: u8)])"
    unfolding l1 l2 by (simp add: ready_bus_def numeral_eq_Suc)
  obtain s1 where w1: "writes_in_turn reqs1 (ready_bus 8) = Some s1"
    "answers s1 = concat (replicate (length reqs2) [0, 0, ucast (0x10 :: u8)]) @ []"
    "c_done (controller_run controller_start (events s1))
      = c_done (controller_run controller_start (events (ready_bus 8))) @ map bus_entry reqs1"
    using writes_in_turn_ready [OF a8 sz(1), of controller_start] by auto
  obtain s' where w2: "writes_in_turn reqs2 s1 = Some s'"
    "c_done (controller_run controller_start (events s'))
      = c_done (controller_run controller_start (events s1)) @ map bus_entry reqs2"
    using writes_in_turn_ready [OF w1(2) sz(2), of controller_start] by auto
  have r: "EepromSetVideoStandard 0x00400100 (blank_eeprom, ready_bus 8) = Some (e', s')"
    unfolding EepromSetVideoStandard_def prod.case reqs1_def [symmetric] w1(1) option.case Let_def
    using w2(1) unfolding reqs2_def crc_def e'_def by (simp del: writes_in_turn.simps)
  have d: "c_done (controller_run controller_start (events s'))
      = c_done (controller_run controller_start (events (ready_bus 8))) @ (map bus_entry reqs1 @ map bus_entry reqs2)"
    using w1(3) w2(2) by simp
  have z: "c_done (controller_run controller_start (events (ready_bus 8))) = []"
    by (simp add: ready_bus_def controller_run_def controller_start_def)
  have l: "length (map bus_entry reqs1 @ map bus_entry reqs2) = 8" using l1 l2 by simp
  have "length blank_eeprom = 256" by (simp add: blank_eeprom_def)
  from video_standard_checksum_consistent [OF r this this d l _ refl] r d l z show ?thesis by auto
qed

end
