(* ===== verification/Fatx.thy ===== *)
theory Fatx
  imports CromwellBase
begin

text \<open>
  The reader for FATX partitions, \<open>fs/fatx/BootFATX.c\<close>: raw reads, the cluster chain, loading a
  file and finding one by its path.

  The disk is the parameter \<open>disk\<close>: drive and sector to the 512 bytes \<open>BootIdeReadSector\<close>
  delivers, or \<open>None\<close> when it reports an error (\<open>drivers/ide/BootIde.c\<close> is behind it). Bytes that
  are read before anything is stored in them come as arguments: \<open>junk\<close> for the array of a raw read,
  \<open>cj\<close> for the cluster buffer, \<open>hj\<close> for fresh heap memory. A loop over a
  cluster chain is a partial function: \<open>None\<close> when it never ends, or when the code reads
  the chain table outside its bounds. Messages are left out. A name or path is the list of
  its bytes.
\<close>

section \<open>The code\<close>

type_synonym disk = "nat \<Rightarrow> u32 \<Rightarrow> u8 list option"

definition FATX_PARTITION_HEADERSIZE :: u32 where "FATX_PARTITION_HEADERSIZE = 0x1000"
definition FATX_PARTITION_MAGIC :: u32 where "FATX_PARTITION_MAGIC = 0x58544146"
definition FATX_CHAINTABLE_BLOCKSIZE :: u32 where "FATX_CHAINTABLE_BLOCKSIZE = 4096"
definition FATX_ROOT_FAT_CLUSTER :: u32 where "FATX_ROOT_FAT_CLUSTER = 1"
definition FATX_DIRECTORYENTRY_SIZE :: nat where "FATX_DIRECTORYENTRY_SIZE = 0x40"
definition FATX_FILEATTR_DIRECTORY :: u8 where "FATX_FILEATTR_DIRECTORY = 0x10"
definition FATX_FILENAME_MAX :: nat where "FATX_FILENAME_MAX = 42"

record FATXPartition =
  nDriveIndex :: nat
  partitionStart :: u64
  partitionSize :: u64
  clusterSize :: u32
  clusterCount :: u32
  chainMapEntrySize :: u32
  clusterChainMap :: "u8 list"
  cluster1Address :: u64

record FATXFILEINFO =
  filename :: "u8 list"
  clusterId :: u32
  fileSize :: u32
  fileRead :: u32
  buffer :: "u8 list"

subsection \<open>Raw reads\<close>

text \<open>
  The loop of \<open>FATXRawRead\<close>: whether all reads succeeded and what it stored from \<open>buf\<close> on.
  \<open>junk\<close> is the array \<open>ba\<close>, which the branch for an unaligned offset copies from without
  having read into it; an offset beyond the bytes of this turn is undefined.
\<close>

function raw_read :: "disk \<Rightarrow> u8 list \<Rightarrow> nat \<Rightarrow> u32 \<Rightarrow> nat \<Rightarrow> nat \<Rightarrow> (bool \<times> u8 list) option" where
  "raw_read disk junk drive sector byte_offset byte_len =
     (if byte_len = 0 then Some (True, [])
      else let nThisTime = (if byte_len < 512 then byte_len else 512)
      in if byte_offset \<noteq> 0
         then if nThisTime < byte_offset then None
              else (case disk drive sector of None \<Rightarrow> Some (False, [])
                    | Some _ \<Rightarrow>
                        map_option (\<lambda>(ok, bs). (ok, take (nThisTime - byte_offset) (drop byte_offset junk) @ bs))
                          (raw_read disk junk drive (sector + 1) 0 (byte_len - (nThisTime - byte_offset))))
         else (case disk drive sector of None \<Rightarrow> Some (False, [])
               | Some data \<Rightarrow>
                   map_option (\<lambda>(ok, bs). (ok, take nThisTime data @ bs))
                     (raw_read disk junk drive (sector + 1) 0 (byte_len - nThisTime))))"
  by pat_completeness auto
termination
  by (relation "measure (\<lambda>(disk, junk, drive, sector, byte_offset, byte_len).
        2 * byte_len + (if byte_offset = 0 then 0 else 1))") (auto split: if_splits)

declare raw_read.simps [simp del]

text \<open>The bytes read (0 on an error) and what is stored at \<open>buf\<close>.\<close>

definition FATXRawRead :: "disk \<Rightarrow> u8 list \<Rightarrow> nat \<Rightarrow> u32 \<Rightarrow> u64 \<Rightarrow> nat \<Rightarrow> (nat \<times> u8 list) option" where
  "FATXRawRead disk junk drive sector byte_offset byte_len =
     map_option (\<lambda>(ok, bs). (if ok then byte_len else 0, bs))
       (raw_read disk junk drive (sector + ucast (byte_offset div 512)) (unat (byte_offset mod 512)) byte_len)"

text \<open>Storing a prefix into a buffer.\<close>

definition overlay :: "u8 list \<Rightarrow> u8 list \<Rightarrow> u8 list" where
  "overlay bs old = bs @ drop (length bs) old"

definition LoadFATXCluster ::
  "disk \<Rightarrow> u8 list \<Rightarrow> FATXPartition \<Rightarrow> u32 \<Rightarrow> u8 list \<Rightarrow> u8 list option" where
  "LoadFATXCluster disk junk p cid clusterData =
     (let clusterAddress = cluster1Address p + scast (cid - 1) * ucast (clusterSize p)
      in map_option (\<lambda>(n, bs). overlay bs clusterData)
           (FATXRawRead disk junk (nDriveIndex p) (ucast (partitionStart p)) clusterAddress
             (unat (clusterSize p))))"

subsection \<open>The cluster chain\<close>

definition chain_word :: "u8 list \<Rightarrow> nat \<Rightarrow> u16 option" where
  "chain_word t i = (if 2 * i + 1 < length t then Some (le16 (t ! (2 * i)) (t ! (2 * i + 1))) else None)"

definition chain_dword :: "u8 list \<Rightarrow> nat \<Rightarrow> u32 option" where
  "chain_dword t i = (if 4 * i + 3 < length t
     then Some (le32 (t ! (4 * i)) (t ! (4 * i + 1)) (t ! (4 * i + 2)) (t ! (4 * i + 3))) else None)"

text \<open>\<open>None\<close> is a read outside the table; the checks of the value only print.\<close>

definition getNextClusterInChain :: "FATXPartition \<Rightarrow> u32 \<Rightarrow> u32 option" where
  "getNextClusterInChain p cid =
     (if chainMapEntrySize p = 2
      then map_option (\<lambda>w. if ucast w = (0xffff :: u32) \<or> ucast w = (0xfff8 :: u32) then - 1 else ucast w)
             (chain_word (clusterChainMap p) (unat cid))
      else if chainMapEntrySize p = 4
      then map_option (\<lambda>w. if w = 0xffffffff \<or> w = 0xfffffff8 then - 1 else w)
             (chain_dword (clusterChainMap p) (unat cid))
      else Some (- 1))"

subsection \<open>Loading a file\<close>

text \<open>
  The loop over the clusters: what is stored at \<open>ptr\<close>, and the bytes of \<open>fileSize\<close> left.
\<close>

partial_function (option) load_chain :: "disk \<Rightarrow> u8 list \<Rightarrow> FATXPartition \<Rightarrow> u32 \<Rightarrow> u8 list \<Rightarrow> u32 \<Rightarrow>
    u8 list \<Rightarrow> (u8 list \<times> u32) option" where
  "load_chain disk junk p cid clusterData left out =
     (if cid = - 1 then Some (out, left)
      else case LoadFATXCluster disk junk p cid clusterData of None \<Rightarrow> None
      | Some clusterData' \<Rightarrow>
          let written = (if left \<le> clusterSize p then left else clusterSize p)
          in case getNextClusterInChain p cid of None \<Rightarrow> None
             | Some next \<Rightarrow>
                 load_chain disk junk p next clusterData' (left - written)
                   (out @ take (unat written) clusterData'))"

definition FATXLoadFromDisk ::
  "disk \<Rightarrow> u8 list \<Rightarrow> u8 list \<Rightarrow> FATXPartition \<Rightarrow> FATXFILEINFO \<Rightarrow> (bool \<times> FATXFILEINFO) option" where
  "FATXLoadFromDisk disk junk cj p info =
     map_option (\<lambda>(out, left). (left = 0,
         info\<lparr>fileRead := fileSize info - left, buffer := overlay out (buffer info)\<rparr>))
       (load_chain disk junk p (clusterId info) cj (fileSize info) [])"

subsection \<open>Finding a file\<close>

definition checkForLastDirectoryEntry :: "u8 list \<Rightarrow> bool" where
  "checkForLastDirectoryEntry entry \<longleftrightarrow> entry ! 0 = 0xff \<or> entry ! 0 = 0"

definition entry_name :: "u8 list \<Rightarrow> u8 list" where
  "entry_name entry = takeWhile (\<lambda>c. c \<noteq> 0) (take (unat (entry ! 0)) (drop 2 entry))"

definition entry_flags :: "u8 list \<Rightarrow> u8" where
  "entry_flags entry = entry ! 1"

definition entry_cluster :: "u8 list \<Rightarrow> u32" where
  "entry_cluster entry = le32 (entry ! 0x2c) (entry ! 0x2d) (entry ! 0x2e) (entry ! 0x2f)"

definition entry_size :: "u8 list \<Rightarrow> u32" where
  "entry_size entry = le32 (entry ! 0x30) (entry ! 0x31) (entry ! 0x32) (entry ! 0x33)"

text \<open>What the inner loop over the entries of a cluster comes to.\<close>

datatype scan = EndOfDirectory | BadEntry | Matching "u8 list" | NextCluster

fun scan_entries :: "u8 list \<Rightarrow> u8 list list \<Rightarrow> scan" where
  "scan_entries seek [] = NextCluster"
| "scan_entries seek (entry # es) =
     (if checkForLastDirectoryEntry entry then EndOfDirectory
      else if entry ! 0 = 0xE5 then scan_entries seek es
      else if unat (entry ! 0) < 1 \<or> unat (entry ! 0) > FATX_FILENAME_MAX then BadEntry
      else if length seek = length (entry_name entry) \<and> take (length seek) (entry_name entry) = seek
      then Matching entry
      else scan_entries seek es)"

definition cluster_entries :: "FATXPartition \<Rightarrow> u8 list \<Rightarrow> u8 list list" where
  "cluster_entries p clusterData =
     map (\<lambda>i. take FATX_DIRECTORYENTRY_SIZE (drop (i * FATX_DIRECTORYENTRY_SIZE) clusterData))
       [0..<unat (clusterSize p) div FATX_DIRECTORYENTRY_SIZE]"

partial_function (option) scan_chain :: "disk \<Rightarrow> u8 list \<Rightarrow> FATXPartition \<Rightarrow> u8 list \<Rightarrow> u32 \<Rightarrow> u8 list \<Rightarrow>
    scan option" where
  "scan_chain disk junk p seek cid clusterData =
     (if cid = - 1 then Some EndOfDirectory
      else case LoadFATXCluster disk junk p cid clusterData of None \<Rightarrow> None
      | Some clusterData' \<Rightarrow>
          (case scan_entries seek (cluster_entries p clusterData') of
             NextCluster \<Rightarrow>
               (case getNextClusterInChain p cid of None \<Rightarrow> None
                | Some next \<Rightarrow> scan_chain disk junk p seek next clusterData')
           | r \<Rightarrow> Some r))"

text \<open>
  \<open>_FATXFindFile\<close>: \<open>strrchr0\<close> finds the first slash. A name that is too long fails at once.
\<close>

function find_file :: "disk \<Rightarrow> u8 list \<Rightarrow> u8 list \<Rightarrow> FATXPartition \<Rightarrow> u8 list \<Rightarrow> u32 \<Rightarrow> FATXFILEINFO \<Rightarrow>
    (bool \<times> FATXFILEINFO) option" where
  "find_file disk junk cj p name cid info =
     (let seek = takeWhile (\<lambda>c. c \<noteq> 0x2f) name;
          lookForDirectory = (seek \<noteq> name)
      in if length seek > FATX_FILENAME_MAX then Some (False, info)
         else case scan_chain disk junk p seek cid cj of
           None \<Rightarrow> None
         | Some (Matching entry) \<Rightarrow>
             if lookForDirectory
             then if entry_flags entry AND FATX_FILEATTR_DIRECTORY \<noteq> 0
                  then find_file disk junk cj p (drop (length seek + 1) name) (entry_cluster entry) info
                  else Some (False, info)
             else if entry_flags entry AND FATX_FILEATTR_DIRECTORY = 0
             then Some (True, info\<lparr>clusterId := entry_cluster entry, fileSize := entry_size entry,
                     filename := name\<rparr>)
             else Some (False, info)
         | Some _ \<Rightarrow> Some (False, info))"
  by pat_completeness auto
termination
  by (relation "measure (\<lambda>(disk, junk, cj, p, name, cid, info). length name)")
    (auto dest: length_pos_if_in_set)

declare find_file.simps [simp del]

text \<open>The path with backslashes turned, which the caller's string becomes, and the result.\<close>

definition turn_slashes :: "u8 list \<Rightarrow> u8 list" where
  "turn_slashes name = map (\<lambda>c. if c = 0x5c then 0x2f else c) name"

definition FATXFindFile :: "disk \<Rightarrow> u8 list \<Rightarrow> u8 list \<Rightarrow> FATXPartition \<Rightarrow> u8 list \<Rightarrow> u32 \<Rightarrow> FATXFILEINFO \<Rightarrow>
    (bool \<times> FATXFILEINFO) option" where
  "FATXFindFile disk junk cj p name cid info =
     find_file disk junk cj p (dropWhile (\<lambda>c. c = 0x2f) (turn_slashes name)) cid info"

subsection \<open>Whole files and partitions\<close>

text \<open>
  \<open>LoadFATXFile\<close> takes a zeroed buffer of the file's size; \<open>LoadFATXFilefixed\<close> loads to a given
  place after filling it with 0xff. \<open>None\<close> as the partition is the NULL pointer.
\<close>

definition load_file :: "u8 \<Rightarrow> disk \<Rightarrow> u8 list \<Rightarrow> u8 list \<Rightarrow> FATXPartition option \<Rightarrow> u8 list \<Rightarrow>
    FATXFILEINFO \<Rightarrow> (bool \<times> FATXFILEINFO) option" where
  "load_file blank disk junk cj part name info =
     (case part of None \<Rightarrow> Some (False, info)
      | Some p \<Rightarrow>
          (case FATXFindFile disk junk cj p name FATX_ROOT_FAT_CLUSTER info of None \<Rightarrow> None
           | Some (False, info') \<Rightarrow> Some (False, info')
           | Some (True, info') \<Rightarrow>
               FATXLoadFromDisk disk junk cj p
                 (info'\<lparr>buffer := replicate (unat (fileSize info')) blank\<rparr>)))"

definition LoadFATXFile where "LoadFATXFile = load_file 0"
definition LoadFATXFilefixed where "LoadFATXFilefixed = load_file 0xff"

definition FATXSignature :: "disk \<Rightarrow> nat \<Rightarrow> u32 \<Rightarrow> bool" where
  "FATXSignature disk drive block =
     (case disk 0 block of None \<Rightarrow> False | Some ba \<Rightarrow> take 4 ba = [0x46, 0x41, 0x54, 0x58])"

definition chain_table_size :: "u32 \<Rightarrow> u32 \<Rightarrow> u32" where
  "chain_table_size count entry =
     (let sz = count * entry
      in if sz mod FATX_CHAINTABLE_BLOCKSIZE \<noteq> 0
         then (sz div FATX_CHAINTABLE_BLOCKSIZE + 1) * FATX_CHAINTABLE_BLOCKSIZE else sz)"

text \<open>
  \<open>None\<close> inside is the NULL it returns. The header read is of 4096 bytes into an array;
  a short read of the table only prints.
\<close>

definition OpenFATXPartition ::
  "disk \<Rightarrow> u8 list \<Rightarrow> (nat \<Rightarrow> u8 list) \<Rightarrow> nat \<Rightarrow> u32 \<Rightarrow> u64 \<Rightarrow> FATXPartition option option" where
  "OpenFATXPartition disk junk hj drive partitionOffset size64 =
     (case FATXRawRead disk junk drive partitionOffset 0 (unat FATX_PARTITION_HEADERSIZE) of
        None \<Rightarrow> None
      | Some (n, hdr) \<Rightarrow>
          if n \<noteq> unat FATX_PARTITION_HEADERSIZE then Some None
          else if le32 (hdr ! 0) (hdr ! 1) (hdr ! 2) (hdr ! 3) \<noteq> FATX_PARTITION_MAGIC then Some None
          else let count = ucast (size64 div 0x4000);
                   entry = (if count \<ge> (0xfff4 :: u32) then 4 else 2);
                   table = chain_table_size count entry
               in map_option (\<lambda>(_, bs). Some
                    \<lparr>nDriveIndex = drive, partitionStart = ucast partitionOffset, partitionSize = size64,
                     clusterSize = 0x4000, clusterCount = count, chainMapEntrySize = entry,
                     clusterChainMap = overlay bs (hj (unat table)),
                     cluster1Address = ucast (FATX_PARTITION_HEADERSIZE + table)\<rparr>)
                    (FATXRawRead disk junk drive partitionOffset (ucast FATX_PARTITION_HEADERSIZE) (unat table)))"

section \<open>Reading whole sectors\<close>

text \<open>What the disk holds at a cluster: its 32 sectors, when all of them can be read.\<close>

definition cluster_sector :: "FATXPartition \<Rightarrow> u32 \<Rightarrow> u32" where
  "cluster_sector p cid = ucast (partitionStart p)
     + ucast ((cluster1Address p + scast (cid - 1) * ucast (clusterSize p)) div 512)"

definition cluster_holds :: "disk \<Rightarrow> FATXPartition \<Rightarrow> u32 \<Rightarrow> u8 list \<Rightarrow> bool" where
  "cluster_holds disk p cid data \<longleftrightarrow> (\<exists>f. data = concat (map f [0..<32])
     \<and> (\<forall>i < 32. disk (nDriveIndex p) (cluster_sector p cid + of_nat i) = Some (f i) \<and> length (f i) = 512))"

definition fatx_geometry :: "FATXPartition \<Rightarrow> bool" where
  "fatx_geometry p \<longleftrightarrow> clusterSize p = 0x4000 \<and> cluster1Address p mod 512 = 0"

lemma raw_read_sectors:
  "(\<And>i. i < n \<Longrightarrow> disk drive (sector + of_nat i) = Some (f i) \<and> length (f i) = 512) \<Longrightarrow>
   raw_read disk junk drive sector 0 (512 * n) = Some (True, concat (map f [0..<n]))"
proof (induction n arbitrary: sector f)
  case 0
  then show ?case by (simp add: raw_read.simps)
next
  case (Suc n)
  have d: "disk drive sector = Some (f 0)" "length (f 0) = 512" using Suc.prems [of 0] by simp_all
  have "raw_read disk junk drive (sector + 1) 0 (512 * n) = Some (True, concat (map (\<lambda>i. f (Suc i)) [0..<n]))"
  proof (rule Suc.IH)
    fix i assume "i < n"
    then show "disk drive (sector + 1 + of_nat i) = Some (f (Suc i)) \<and> length (f (Suc i)) = 512"
      using Suc.prems [of "Suc i"] by (simp add: add.assoc)
  qed
  moreover have "map f [0..<Suc n] = f 0 # map (\<lambda>i. f (Suc i)) [0..<n]"
    by (simp add: upt_conv_Cons map_Suc_upt [symmetric] del: upt_Suc)
  ultimately show ?case using d by (subst raw_read.simps) (simp add: Let_def)
qed

lemma raw_read_aligned_returns: "raw_read disk junk drive sector 0 n \<noteq> None"
proof (induction n arbitrary: sector rule: less_induct)
  case (less n)
  let ?k = "if n < 512 then n else 512"
  show ?case
  proof (cases "n = 0 \<or> disk drive sector = None")
    case True
    then show ?thesis by (subst raw_read.simps) (auto simp: Let_def)
  next
    case False
    then have "raw_read disk junk drive (sector + 1) 0 (n - ?k) \<noteq> None" by (intro less.IH) auto
    with False show ?thesis by (subst raw_read.simps) (auto simp: Let_def)
  qed
qed

lemma cluster_address_aligned:
  assumes "cluster1Address p mod 512 = 0"
  shows "(cluster1Address p + w * 0x4000) mod 512 = (0 :: u64)"
proof -
  have "unat (cluster1Address p) mod 512 = 0"
    using arg_cong [OF assms, of unat] by (simp add: unat_mod)
  moreover have "unat (cluster1Address p + w * 0x4000)
      = (unat (cluster1Address p) + unat w * 0x4000) mod 2 ^ 64"
    by (simp add: unat_word_ariths mod_simps)
  moreover have "x mod 2 ^ 64 mod 512 = x mod 512" for x :: nat by (rule mod_mod_cancel) simp
  moreover have "(a + b * 0x4000) mod 512 = 0" if "a mod 512 = 0" for a b :: nat
    using that by (simp add: mod_eq_0_iff_dvd)
  ultimately have "unat (cluster1Address p + w * 0x4000) mod 512 = 0" by simp
  then have "unat ((cluster1Address p + w * 0x4000) mod 512) = 0" by (simp add: unat_mod)
  then show ?thesis by (metis unat_eq_zero)
qed

lemma LoadFATXCluster_raw:
  assumes "fatx_geometry p"
  shows "LoadFATXCluster disk junk p cid cj =
    map_option (\<lambda>(ok, bs). overlay bs cj)
      (raw_read disk junk (nDriveIndex p) (cluster_sector p cid) 0 (512 * 32))"
proof -
  have c: "clusterSize p = 0x4000" using assms by (simp add: fatx_geometry_def)
  have "unat ((cluster1Address p + scast (cid - 1) * ucast (clusterSize p)) mod 512) = 0"
    using cluster_address_aligned [of p "scast (cid - 1)"] assms by (simp add: fatx_geometry_def)
  then show ?thesis
    by (simp add: LoadFATXCluster_def FATXRawRead_def Let_def cluster_sector_def c option.map_comp comp_def
        case_prod_unfold)
qed

lemma LoadFATXCluster_holds:
  assumes "fatx_geometry p" "cluster_holds disk p cid data"
  shows "LoadFATXCluster disk junk p cid cj = Some (overlay data cj)" "length data = 0x4000"
proof -
  obtain f where f: "data = concat (map f [0..<32])"
    "\<forall>i < 32. disk (nDriveIndex p) (cluster_sector p cid + of_nat i) = Some (f i) \<and> length (f i) = 512"
    using assms(2) by (auto simp: cluster_holds_def)
  show "LoadFATXCluster disk junk p cid cj = Some (overlay data cj)"
    using raw_read_sectors [of 32 disk "nDriveIndex p" "cluster_sector p cid" f junk] f
    by (simp add: LoadFATXCluster_raw [OF assms(1)] del: upt_rec_numeral)
  have "length data = sum_list (map (\<lambda>i. 512) [0..<32])"
    unfolding f(1) length_concat map_map comp_def
    by (rule arg_cong [of _ _ sum_list], rule map_cong) (use f(2) in auto)
  also have "\<dots> = 0x4000" by (simp add: sum_list_triv)
  finally show "length data = 0x4000" .
qed

lemma LoadFATXCluster_returns: "fatx_geometry p \<Longrightarrow> LoadFATXCluster disk junk p cid cj \<noteq> None"
  using raw_read_aligned_returns by (auto simp: LoadFATXCluster_raw)

section \<open>Chains\<close>

text \<open>\<open>fatx_chain p c cs\<close>: from cluster \<open>c\<close> the table leads through \<open>cs\<close> to an end mark.\<close>

inductive fatx_chain :: "FATXPartition \<Rightarrow> u32 \<Rightarrow> u32 list \<Rightarrow> bool" for p where
  end_of_chain: "fatx_chain p (- 1) []"
| link: "c \<noteq> - 1 \<Longrightarrow> getNextClusterInChain p c = Some d \<Longrightarrow> fatx_chain p d cs \<Longrightarrow> fatx_chain p c (c # cs)"

inductive_simps fatx_chain_end: "fatx_chain p (- 1) cs"

lemma fatx_chain_iff:
  "fatx_chain p c cs \<longleftrightarrow> (if c = - 1 then cs = []
     else \<exists>d cs'. cs = c # cs' \<and> getNextClusterInChain p c = Some d \<and> fatx_chain p d cs')"
  by (subst fatx_chain.simps) auto

lemma fatx_chain_unique: "fatx_chain p c cs \<Longrightarrow> fatx_chain p c cs' \<Longrightarrow> cs = cs'"
proof (induction arbitrary: cs' rule: fatx_chain.induct)
  case end_of_chain
  then show ?case by (simp add: fatx_chain_end)
next
  case (link c d cs)
  then obtain cs'' where "cs' = c # cs''" "fatx_chain p d cs''"
    using fatx_chain_iff [of p c cs'] by auto
  with link.IH show ?case by simp
qed

lemma load_chain_chain:
  assumes "load_chain disk junk p c cj left out = Some r"
  shows "\<exists>cs. fatx_chain p c cs"
proof (rule load_chain.raw_induct [where P = "\<lambda>disk junk p c cj left out r. \<exists>cs. fatx_chain p c cs", OF _ assms])
  fix rec disk junk p c cj left out r
  assume IH: "\<And>disk junk p c cj left out r. rec disk junk p c cj left out = Some r \<Longrightarrow> \<exists>cs. fatx_chain p c cs"
    and body: "(if c = - 1 then Some (out, left)
      else case LoadFATXCluster disk junk p c cj of None \<Rightarrow> None
           | Some clusterData' \<Rightarrow>
               let written = (if left \<le> clusterSize p then left else clusterSize p)
               in case getNextClusterInChain p c of None \<Rightarrow> None
                  | Some next \<Rightarrow> rec disk junk p next clusterData' (left - written)
                       (out @ take (unat written) clusterData')) = Some r"
  show "\<exists>cs. fatx_chain p c cs"
  proof (cases "c = - 1")
    case True
    then show ?thesis using fatx_chain.end_of_chain by blast
  next
    case False
    then obtain d cj' left' out' where "getNextClusterInChain p c = Some d"
      "rec disk junk p d cj' left' out' = Some r"
      using body by (auto simp: Let_def split: option.splits)
    with IH False fatx_chain.link show ?thesis by blast
  qed
qed

lemma load_chain_chain_defined:
  "fatx_chain p c cs \<Longrightarrow> fatx_geometry p \<Longrightarrow> \<exists>r. load_chain disk junk p c cj left out = Some r"
proof (induction arbitrary: cj left out rule: fatx_chain.induct)
  case end_of_chain
  then show ?case by (simp add: load_chain.simps)
next
  case (link c d cs)
  obtain cj' where "LoadFATXCluster disk junk p c cj = Some cj'"
    using LoadFATXCluster_returns [OF link.prems] by blast
  with link show ?case by (subst load_chain.simps) (simp add: Let_def)
qed

lemma min_step: "min L (k + n) = min L k + min (L - min L k) n" for L k n :: nat
proof (cases "L \<le> k")
  case False
  then obtain m where "L = k + m" by (metis le_Suc_ex nat_le_linear)
  then show ?thesis by simp
qed simp

text \<open>The data of a file: so many bytes of its clusters, one after the other.\<close>

lemma load_chain_data:
  "fatx_chain p c cs \<Longrightarrow> fatx_geometry p \<Longrightarrow> \<forall>k \<in> set cs. cluster_holds disk p k (d k) \<Longrightarrow> length cj = 0x4000 \<Longrightarrow>
   load_chain disk junk p c cj left out =
     Some (out @ take (unat left) (concat (map d cs)),
           left - of_nat (min (unat left) (0x4000 * length cs)))"
proof (induction arbitrary: cj left out rule: fatx_chain.induct)
  case end_of_chain
  then show ?case by (simp add: load_chain.simps)
next
  case (link c d' cs)
  have h: "cluster_holds disk p c (d c)" using link.prems(2) by simp
  note len = LoadFATXCluster_holds(2) [OF link.prems(1) h]
  have load: "LoadFATXCluster disk junk p c cj = Some (d c)"
    using LoadFATXCluster_holds(1) [OF link.prems(1) h, of junk cj] len link.prems(3) by (simp add: overlay_def)
  define written where "written = (if left \<le> clusterSize p then left else clusterSize p)"
  have w: "unat written = min (unat left) 0x4000"
    using link.prems(1) by (auto simp: written_def fatx_geometry_def word_le_nat_alt)
  have l: "unat (left - written) = unat left - min (unat left) 0x4000"
  proof -
    have "written \<le> left" by (auto simp: written_def not_le word_le_nat_alt)
    then show ?thesis by (simp add: unat_sub w)
  qed
  have step: "load_chain disk junk p c cj left out
      = load_chain disk junk p d' (d c) (left - written) (out @ take (unat written) (d c))"
    using link.hyps load by (subst load_chain.simps) (simp add: Let_def written_def)
  have "load_chain disk junk p d' (d c) (left - written) (out @ take (unat written) (d c))
      = Some ((out @ take (unat written) (d c)) @ take (unat (left - written)) (concat (map d cs)),
         left - written - of_nat (min (unat (left - written)) (0x4000 * length cs)))"
    by (rule link.IH) (use link.prems len in auto)
  moreover have "take (unat written) (d c) @ take (unat (left - written)) (concat (map d cs))
      = take (unat left) (concat (map d (c # cs)))"
    using len by (simp add: w l min_def)
  moreover have "left - written - of_nat (min (unat (left - written)) (0x4000 * length cs))
      = left - of_nat (min (unat left) (0x4000 * length (c # cs)))"
  proof -
    have wr: "written = of_nat (min (unat left) 0x4000)" by (simp add: w [symmetric])
    have "min (unat left) (0x4000 * length (c # cs))
        = min (unat left) 0x4000 + min (unat (left - written)) (0x4000 * length cs)"
      using min_step [of "unat left" "0x4000" "0x4000 * length cs"] by (simp add: l)
    then show ?thesis by (simp only: of_nat_add wr [symmetric]) (simp add: diff_diff_eq)
  qed
  ultimately show ?case using step by simp
qed

section \<open>Directories\<close>

lemma scan_entries_append:
  "scan_entries seek (xs @ ys) = (case scan_entries seek xs of NextCluster \<Rightarrow> scan_entries seek ys | r \<Rightarrow> r)"
  by (induction xs) auto

text \<open>The directory that starts at a cluster: its entries, through the whole chain.\<close>

definition holds_dir :: "disk \<Rightarrow> FATXPartition \<Rightarrow> u32 \<Rightarrow> u8 list list \<Rightarrow> bool" where
  "holds_dir disk p c es \<longleftrightarrow> (\<exists>cs d. fatx_chain p c cs \<and> (\<forall>k \<in> set cs. cluster_holds disk p k (d k))
     \<and> es = concat (map (\<lambda>k. cluster_entries p (d k)) cs))"

lemma scan_chain_entries:
  "fatx_chain p c cs \<Longrightarrow> fatx_geometry p \<Longrightarrow> \<forall>k \<in> set cs. cluster_holds disk p k (d k) \<Longrightarrow> length cj = 0x4000 \<Longrightarrow>
   scan_chain disk junk p seek c cj =
     Some (case scan_entries seek (concat (map (\<lambda>k. cluster_entries p (d k)) cs)) of
             NextCluster \<Rightarrow> EndOfDirectory | r \<Rightarrow> r)"
proof (induction arbitrary: cj rule: fatx_chain.induct)
  case end_of_chain
  then show ?case by (simp add: scan_chain.simps)
next
  case (link c d' cs)
  have h: "cluster_holds disk p c (d c)" using link.prems(2) by simp
  note len = LoadFATXCluster_holds(2) [OF link.prems(1) h]
  have load: "LoadFATXCluster disk junk p c cj = Some (d c)"
    using LoadFATXCluster_holds(1) [OF link.prems(1) h, of junk cj] len link.prems(3) by (simp add: overlay_def)
  have "scan_chain disk junk p seek d' (d c) = Some (case scan_entries seek
      (concat (map (\<lambda>k. cluster_entries p (d k)) cs)) of NextCluster \<Rightarrow> EndOfDirectory | r \<Rightarrow> r)"
    by (rule link.IH) (use link.prems len in auto)
  then show ?case
    using link.hyps load
    by (subst scan_chain.simps) (auto simp: scan_entries_append split: scan.splits)
qed

lemma scan_chain_dir:
  "holds_dir disk p c es \<Longrightarrow> fatx_geometry p \<Longrightarrow> length cj = 0x4000 \<Longrightarrow>
   scan_chain disk junk p seek c cj
   = Some (case scan_entries seek es of NextCluster \<Rightarrow> EndOfDirectory | r \<Rightarrow> r)"
  by (auto simp: holds_dir_def scan_chain_entries)

text \<open>
  A tree of directories and the lookup of a path in it, component by component: all but the
  last must be a directory, the last must not.
\<close>

definition is_dir :: "u8 list \<Rightarrow> bool" where
  "is_dir entry \<longleftrightarrow> entry_flags entry AND FATX_FILEATTR_DIRECTORY \<noteq> 0"

text \<open>
  The entry of a name: the first of this name among the entries before the end mark that are
  not deleted, as long as no entry with an impossible length of the name comes before it.
\<close>

definition live_entries :: "u8 list list \<Rightarrow> u8 list list" where
  "live_entries es = filter (\<lambda>e. e ! 0 \<noteq> 0xE5) (takeWhile (\<lambda>e. e ! 0 \<notin> {0, 0xff}) es)"

definition dir_lookup :: "u8 list \<Rightarrow> u8 list list \<Rightarrow> u8 list option" where
  "dir_lookup name es = find (\<lambda>e. entry_name e = name) (takeWhile (\<lambda>e. unat (e ! 0) \<le> 42) (live_entries es))"

fun path_lookup :: "(u32 \<Rightarrow> u8 list list) \<Rightarrow> u32 \<Rightarrow> u8 list list \<Rightarrow> u8 list option" where
  "path_lookup dirs c [] = None"
| "path_lookup dirs c [f] =
     (case dir_lookup f (dirs c) of Some e \<Rightarrow> if is_dir e then None else Some e | None \<Rightarrow> None)"
| "path_lookup dirs c (d # ds) =
     (case dir_lookup d (dirs c) of
        Some e \<Rightarrow> if is_dir e then path_lookup dirs (entry_cluster e) ds else None | None \<Rightarrow> None)"

lemma dir_lookup_scan:
  "dir_lookup name es = (case scan_entries name es of Matching e \<Rightarrow> Some e | _ \<Rightarrow> None)"
proof (induction es)
  case (Cons e es)
  have "unat (e ! 0) < 1 \<longleftrightarrow> e ! 0 = 0" by (simp add: unat_eq_zero)
  then show ?case using Cons
    by (auto simp: dir_lookup_def live_entries_def checkForLastDirectoryEntry_def FATX_FILENAME_MAX_def)
qed (simp add: dir_lookup_def live_entries_def)

fun join_path :: "u8 list list \<Rightarrow> u8 list" where
  "join_path [] = []"
| "join_path [f] = f"
| "join_path (d # ds) = d @ 0x2f # join_path ds"

definition good_component :: "u8 list \<Rightarrow> bool" where
  "good_component d \<longleftrightarrow> d \<noteq> [] \<and> length d \<le> FATX_FILENAME_MAX \<and> 0x2f \<notin> set d \<and> 0x5c \<notin> set d"

definition holds_tree :: "disk \<Rightarrow> FATXPartition \<Rightarrow> u32 set \<Rightarrow> (u32 \<Rightarrow> u8 list list) \<Rightarrow> bool" where
  "holds_tree disk p D dirs \<longleftrightarrow> (\<forall>c \<in> D. holds_dir disk p c (dirs c)
     \<and> (\<forall>e \<in> set (dirs c). is_dir e \<longrightarrow> entry_cluster e \<in> D))"

lemma scan_entries_in: "scan_entries seek es = Matching e \<Longrightarrow> e \<in> set es"
  by (induction es) (auto split: if_splits)

lemma takeWhile_slash: "0x2f \<notin> set d \<Longrightarrow> takeWhile (\<lambda>c. c \<noteq> (0x2f :: u8)) (d @ 0x2f # xs) = d"
  by (induction d) auto

definition found :: "FATXFILEINFO \<Rightarrow> u8 list \<Rightarrow> u8 list option \<Rightarrow> bool \<times> FATXFILEINFO" where
  "found info name r = (case r of None \<Rightarrow> (False, info)
     | Some e \<Rightarrow> (True, info\<lparr>clusterId := entry_cluster e, fileSize := entry_size e, filename := name\<rparr>))"

lemma find_file_lookup:
  "holds_tree disk p D dirs \<Longrightarrow> fatx_geometry p \<Longrightarrow> length cj = 0x4000 \<Longrightarrow> c \<in> D \<Longrightarrow> comps \<noteq> [] \<Longrightarrow>
   \<forall>d \<in> set comps. good_component d \<Longrightarrow>
   find_file disk junk cj p (join_path comps) c info = Some (found info (last comps) (path_lookup dirs c comps))"
proof (induction comps arbitrary: c rule: join_path.induct)
  case 1
  then show ?case by simp
next
  case (2 f)
  have h: "holds_dir disk p c (dirs c)" using 2 by (simp add: holds_tree_def)
  have f: "takeWhile (\<lambda>c. c \<noteq> 0x2f) f = f" "length f \<le> FATX_FILENAME_MAX"
    using 2 by (auto simp: good_component_def)
  show ?case
    unfolding join_path.simps
    by (subst find_file.simps, unfold Let_def f(1))
      (use scan_chain_dir [OF h, of cj junk f] 2 f(2) in
        \<open>auto simp: found_def is_dir_def dir_lookup_scan split: scan.splits\<close>)
next
  case (3 d d' ds)
  let ?rest = "join_path (d' # ds)"
  have h: "holds_dir disk p c (dirs c)" using 3 by (simp add: holds_tree_def)
  have d: "takeWhile (\<lambda>c. c \<noteq> 0x2f) (d @ 0x2f # ?rest) = d" "length d \<le> FATX_FILENAME_MAX"
    using 3 by (auto simp: good_component_def takeWhile_slash)
  note sc = scan_chain_dir [OF h "3.prems"(2,3), of junk d]
  show ?case
  proof (cases "\<exists>e. scan_entries d (dirs c) = Matching e \<and> is_dir e")
    case True
    then obtain e where e: "scan_entries d (dirs c) = Matching e" "is_dir e" by blast
    then have "entry_cluster e \<in> D"
      using scan_entries_in "3.prems"(1,4) by (fastforce simp: holds_tree_def)
    with 3 have "find_file disk junk cj p ?rest (entry_cluster e) info
        = Some (found info (last (d' # ds)) (path_lookup dirs (entry_cluster e) (d' # ds)))" by simp
    then show ?thesis
      unfolding join_path.simps
      by (subst find_file.simps, unfold Let_def d(1)) (use e d(2) sc in \<open>simp add: is_dir_def dir_lookup_scan\<close>)
  next
    case False
    then show ?thesis
      unfolding join_path.simps
      by (subst find_file.simps, unfold Let_def d(1))
        (use d(2) sc in \<open>auto simp: found_def is_dir_def dir_lookup_scan split: scan.splits\<close>)
  qed
qed

section \<open>The geometry of an opened partition\<close>

lemma chain_table_size_aligned: "unat (chain_table_size count entry) mod 512 = 0"
proof -
  define sz where "sz = count * entry"
  have m: "x mod 2 ^ 32 mod 512 = x mod 512" for x :: nat by (rule mod_mod_cancel) simp
  show ?thesis
  proof (cases "sz mod 4096 = 0")
    case True
    then have "unat (sz mod 4096) = 0" by simp
    then have "4096 dvd unat sz" by (simp add: unat_mod mod_eq_0_iff_dvd)
    then have "512 dvd unat sz" by (rule dvd_trans [rotated]) simp
    with True show ?thesis
      by (simp add: chain_table_size_def FATX_CHAINTABLE_BLOCKSIZE_def sz_def [symmetric])
  next
    case False
    have "unat (q * 4096) = unat q * 4096 mod 2 ^ 32" for q :: u32 by (simp add: unat_word_ariths)
    then have "unat ((sz div 4096 + 1) * 4096) = unat (sz div 4096 + 1) * 4096 mod 2 ^ 32" .
    then have "unat ((sz div 4096 + 1) * 4096) mod 512 = unat (sz div 4096 + 1) * 4096 mod 512"
      by (simp only: m)
    also have "\<dots> = 0" by (simp add: mod_eq_0_iff_dvd)
    finally show ?thesis using False
      by (simp add: chain_table_size_def FATX_CHAINTABLE_BLOCKSIZE_def sz_def [symmetric])
  qed
qed

text \<open>Every partition \<open>OpenFATXPartition\<close> returns has the geometry the theorems ask for.\<close>

lemma open_partition_geometry:
  assumes "OpenFATXPartition disk junk hj drive off size64 = Some (Some p)"
  shows "fatx_geometry p"
proof -
  define table where "table = chain_table_size (ucast (size64 div 0x4000))
    (if ucast (size64 div 0x4000) \<ge> (0xfff4 :: u32) then 4 else 2)"
  have t: "clusterSize p = 0x4000" "cluster1Address p = ucast (0x1000 + table)"
    using assms
    by (auto simp: OpenFATXPartition_def Let_def FATX_PARTITION_HEADERSIZE_def table_def
        split: option.splits prod.splits if_split_asm)
  have m: "x mod 2 ^ 32 mod 512 = x mod 512" for x :: nat by (rule mod_mod_cancel) simp
  have "unat (0x1000 + table) = (0x1000 + unat table) mod 2 ^ 32" by (simp add: unat_word_ariths)
  then have "unat (0x1000 + table) mod 512 = (0x1000 + unat table) mod 512" by (simp only: m)
  also have "\<dots> = 0"
    using chain_table_size_aligned [of "ucast (size64 div 0x4000)"] by (simp add: table_def mod_eq_0_iff_dvd)
  finally have "unat (0x1000 + table) mod 512 = 0" .
  moreover have "unat (ucast w :: u64) = unat w" for w :: u32
  proof -
    have "unat w < 2 ^ 32" using unsigned_less [of w] by simp
    then show ?thesis by (simp add: unsigned_ucast_eq take_bit_nat_eq_self)
  qed
  ultimately have "unat ((ucast (0x1000 + table) :: u64) mod 512) = 0"
    by (simp only: unat_mod) simp
  then have "(ucast (0x1000 + table) :: u64) mod 512 = 0" by (metis unat_eq_zero)
  with t show ?thesis by (simp add: fatx_geometry_def)
qed

section \<open>Properties\<close>

lemma load_from_disk_contents:
  assumes "fatx_geometry p" "fatx_chain p (clusterId info) cs" "\<forall>k \<in> set cs. cluster_holds disk p k (d k)"
    "length cj = 0x4000" "content = take (unat (fileSize info)) (concat (map d cs))"
  shows "FATXLoadFromDisk disk junk cj p info =
    Some (unat (fileSize info) \<le> 0x4000 * length cs,
          info\<lparr>fileRead := of_nat (length content), buffer := overlay content (buffer info)\<rparr>)"
proof -
  let ?n = "unat (fileSize info)" and ?L = "0x4000 * length cs"
  have "length (concat (map d cs)) = ?L"
    using assms(3) LoadFATXCluster_holds(2) [OF assms(1)]
    by (induction cs) (auto simp: algebra_simps)
  then have len: "length content = min ?n ?L" using assms(5) by simp
  have u: "unat (of_nat (min ?n ?L) :: u32) = min ?n ?L"
  proof -
    have "?n < 2 ^ 32" using unsigned_less [of "fileSize info"] by simp
    then have "min ?n ?L < 2 ^ 32" by linarith
    then show ?thesis by (simp add: unat_of_nat take_bit_nat_eq_self)
  qed
  have left: "fileSize info - of_nat (min ?n ?L) = 0 \<longleftrightarrow> ?n \<le> ?L"
  proof -
    have "fileSize info - of_nat (min ?n ?L) = 0 \<longleftrightarrow> fileSize info = of_nat (min ?n ?L)" by simp
    also have "\<dots> \<longleftrightarrow> unat (fileSize info) = unat (of_nat (min ?n ?L) :: u32)"
      by (simp only: word_unat_eq_iff)
    finally have "fileSize info - of_nat (min ?n ?L) = 0 \<longleftrightarrow> unat (fileSize info) = unat (of_nat (min ?n ?L) :: u32)" .
    then show ?thesis unfolding u by (metis min.absorb_iff1)
  qed
  show ?thesis
    unfolding FATXLoadFromDisk_def load_chain_data [OF assms(2,1,3,4)]
    using left len assms(5) by simp
qed

text \<open>
  C18. Loading a file whose chain is \<open>cs\<close>, all of it readable: the result is true exactly when
  the chain is long enough for the size, the buffer starts with the file's bytes in order
  (as many as there are) and keeps its old bytes behind them, and the count is right.\<close>

theorem fatx_load_contents:
  assumes "fatx_geometry p" "fatx_chain p (clusterId info) cs" "\<forall>k \<in> set cs. cluster_holds disk p k (d k)"
    "length cj = 0x4000" "content = take (unat (fileSize info)) (concat (map d cs))"
  shows "FATXLoadFromDisk disk junk cj p info =
    Some (unat (fileSize info) \<le> 0x4000 * length cs,
          info\<lparr>fileRead := of_nat (length content), buffer := overlay content (buffer info)\<rparr>)"
  using assms by (rule load_from_disk_contents)

text \<open>
  C29. Loading returns exactly when the chain in the table comes to an end; on a chain that
  runs into a cycle (or out of the table) it does not return.\<close>

theorem fatx_load_returns_iff_chain_ends:
  assumes "fatx_geometry p"
  shows "(\<exists>r. FATXLoadFromDisk disk junk cj p info = Some r) \<longleftrightarrow> (\<exists>cs. fatx_chain p (clusterId info) cs)"
proof
  assume "\<exists>r. FATXLoadFromDisk disk junk cj p info = Some r"
  then obtain r where "load_chain disk junk p (clusterId info) cj (fileSize info) [] = Some r"
    by (auto simp: FATXLoadFromDisk_def)
  then show "\<exists>cs. fatx_chain p (clusterId info) cs" by (rule load_chain_chain)
next
  assume "\<exists>cs. fatx_chain p (clusterId info) cs"
  then show "\<exists>r. FATXLoadFromDisk disk junk cj p info = Some r"
    using load_chain_chain_defined [OF _ assms] by (fastforce simp: FATXLoadFromDisk_def)
qed

lemma cyclic_chain_never_ends:
  assumes "getNextClusterInChain p c = Some c" "c \<noteq> - 1"
  shows "\<not> fatx_chain p c cs"
proof (induction cs)
  case (Cons x cs)
  then show ?case using assms fatx_chain_iff [of p c "x # cs"] by auto
qed (use assms fatx_chain_iff [of p c "[]"] in auto)

lemma find_path_resolves:
  assumes "holds_tree disk p D dirs" "fatx_geometry p" "length cj = 0x4000" "FATX_ROOT_FAT_CLUSTER \<in> D"
    "comps \<noteq> []" "\<forall>d \<in> set comps. good_component d" "turn_slashes path = 0x2f # join_path comps"
  shows "FATXFindFile disk junk cj p path FATX_ROOT_FAT_CLUSTER info
    = Some (found info (last comps) (path_lookup dirs FATX_ROOT_FAT_CLUSTER comps))"
proof -
  obtain c ds where comps: "comps = c # ds" using assms(5) by (cases comps) auto
  have c: "c \<noteq> []" "0x2f \<notin> set c" using assms(6) by (auto simp: comps good_component_def)
  then obtain x xs where "c = x # xs" "x \<noteq> 0x2f" by (cases c) auto
  then have "dropWhile (\<lambda>c. c = 0x2f) (join_path comps) = join_path comps"
    unfolding comps by (cases ds) simp_all
  then show ?thesis
    using find_file_lookup [OF assms(1,2,3,4,5,6), of junk info] assms(7) by (simp add: FATXFindFile_def)
qed

text \<open>
  C17. \<open>FATXFindFile\<close> resolves a path, with slashes or backslashes, as the lookup component by
  component in the tree of directories the partition holds: the first entry of that name
  before the end mark, a directory for all components but the last, a file for the last.\<close>

theorem fatx_find_file_resolves:
  assumes "holds_tree disk p D dirs" "fatx_geometry p" "length cj = 0x4000" "FATX_ROOT_FAT_CLUSTER \<in> D"
    "comps \<noteq> []" "\<forall>d \<in> set comps. good_component d" "turn_slashes path = 0x2f # join_path comps"
  shows "FATXFindFile disk junk cj p path FATX_ROOT_FAT_CLUSTER info
    = Some (found info (last comps) (path_lookup dirs FATX_ROOT_FAT_CLUSTER comps))"
  using assms by (rule find_path_resolves)


section \<open>The hypotheses can hold\<close>

text \<open>
  A partition with 16-bit entries whose root directory is cluster 1 and whose file is
  clusters 2 and 3; cluster 4 is its own successor. Every sector of the disk holds an entry for
  the file F in cluster 2 of 0x6000 bytes, in each of its slots.
\<close>

definition fatx_example :: FATXPartition where
  "fatx_example = \<lparr>nDriveIndex = 0, partitionStart = 0x400, partitionSize = 0x20000, clusterSize = 0x4000,
     clusterCount = 8, chainMapEntrySize = 2,
     clusterChainMap = [0xf8, 0xff, 0xff, 0xff, 3, 0, 0xff, 0xff, 4, 0],
     cluster1Address = 0x2000\<rparr>"

definition fatx_example_info :: "u32 \<Rightarrow> u32 \<Rightarrow> FATXFILEINFO" where
  "fatx_example_info c n = \<lparr>filename = [], clusterId = c, fileSize = n, fileRead = 0, buffer = []\<rparr>"

definition fatx_example_disk :: disk where
  "fatx_example_disk drive sector = Some (replicate 512 (ucast sector))"

lemma fatx_example_geometry: "fatx_geometry fatx_example"
  by (simp add: fatx_geometry_def fatx_example_def)

lemma fatx_example_next:
  "getNextClusterInChain fatx_example 1 = Some (- 1)" "getNextClusterInChain fatx_example 2 = Some 3"
  "getNextClusterInChain fatx_example 3 = Some (- 1)" "getNextClusterInChain fatx_example 4 = Some 4"
  by (simp_all add: fatx_example_def getNextClusterInChain_def chain_word_def le16_def)

lemma fatx_example_chain: "fatx_chain fatx_example 2 [2, 3]" "fatx_chain fatx_example 1 [1]"
  using fatx_chain.link [OF _ fatx_example_next(2) fatx_chain.link [OF _ fatx_example_next(3) fatx_chain.end_of_chain]]
    fatx_chain.link [OF _ fatx_example_next(1) fatx_chain.end_of_chain] by simp_all

definition fatx_example_cluster :: "u32 \<Rightarrow> u8 list" where
  "fatx_example_cluster c = concat (map (\<lambda>i. replicate 512 (ucast (cluster_sector fatx_example c + of_nat i))) [0..<32])"

lemma fatx_example_holds: "cluster_holds fatx_example_disk fatx_example c (fatx_example_cluster c)"
  unfolding cluster_holds_def fatx_example_cluster_def fatx_example_disk_def by fastforce

lemma fatx_load_contents_witness:
  "\<exists>info. FATXLoadFromDisk fatx_example_disk [] (replicate 0x4000 7) fatx_example (fatx_example_info 2 0x6000)
    = Some (True, info)"
proof -
  have "FATXLoadFromDisk fatx_example_disk [] (replicate 0x4000 7) fatx_example (fatx_example_info 2 0x6000)
    = Some (unat (fileSize (fatx_example_info 2 0x6000)) \<le> 0x4000 * length [2, 3 :: u32],
       (fatx_example_info 2 0x6000)\<lparr>fileRead := of_nat (length (take (unat (fileSize (fatx_example_info 2 0x6000)))
           (concat (map fatx_example_cluster [2, 3])))),
         buffer := overlay (take (unat (fileSize (fatx_example_info 2 0x6000)))
           (concat (map fatx_example_cluster [2, 3]))) (buffer (fatx_example_info 2 0x6000))\<rparr>)"
    by (rule fatx_load_contents [OF fatx_example_geometry _ _ _ refl])
      (use fatx_example_chain fatx_example_holds in \<open>auto simp: fatx_example_info_def\<close>)
  then show ?thesis by (simp add: fatx_example_info_def)
qed

lemma fatx_load_returns_iff_chain_ends_witness:
  "(\<exists>r. FATXLoadFromDisk fatx_example_disk [] [] fatx_example (fatx_example_info 2 0x6000) = Some r)
   \<and> FATXLoadFromDisk fatx_example_disk [] [] fatx_example (fatx_example_info 4 0x6000) = None"
proof -
  note iff = fatx_load_returns_iff_chain_ends [OF fatx_example_geometry, of fatx_example_disk "[]" "[]"]
  have "\<not> fatx_chain fatx_example 4 cs" for cs
    by (rule cyclic_chain_never_ends) (simp_all add: fatx_example_next)
  then have "\<not> (\<exists>r. FATXLoadFromDisk fatx_example_disk [] [] fatx_example (fatx_example_info 4 0x6000) = Some r)"
    using iff [of "fatx_example_info 4 0x6000"] by (simp add: fatx_example_info_def)
  moreover have "\<exists>r. FATXLoadFromDisk fatx_example_disk [] [] fatx_example (fatx_example_info 2 0x6000) = Some r"
    using iff [of "fatx_example_info 2 0x6000"] fatx_example_chain(1) by (auto simp: fatx_example_info_def)
  ultimately show ?thesis by (metis not_None_eq)
qed

text \<open>A disk with the same directory entry in every slot: a file F of 5 bytes in cluster 2.\<close>

definition fatx_example_entry :: "u8 list" where
  "fatx_example_entry = [1, 0, 0x46] @ replicate 41 0 @ [2, 0, 0, 0, 5, 0, 0, 0] @ replicate 12 0"

definition fatx_dir_disk :: disk where
  "fatx_dir_disk drive sector = Some (concat (replicate 8 fatx_example_entry))"

lemma nth_chunk: "i < n \<Longrightarrow> length E = k \<Longrightarrow> take k (drop (i * k) (concat (replicate n E))) = E"
proof (induction i arbitrary: n)
  case 0
  then show ?case by (cases n) auto
next
  case (Suc i)
  then obtain n' where "n = Suc n'" by (cases n) auto
  with Suc show ?case by simp
qed

lemma concat_blocks: "concat (map (\<lambda>i. concat (replicate k E)) [0..<n]) = concat (replicate (n * k) E)"
  by (induction n) (simp_all add: replicate_add add.commute [of k])

lemma fatx_dir_entries:
  "length E = 64 \<Longrightarrow> cluster_entries fatx_example (concat (map (\<lambda>i. concat (replicate 8 E)) [0..<32])) = replicate 256 E"
  unfolding concat_blocks
  by (rule nth_equalityI)
    (simp_all add: cluster_entries_def fatx_example_def FATX_DIRECTORYENTRY_SIZE_def nth_chunk del: upt_rec_numeral)

text \<open>A root directory that is full of one entry for a file.\<close>

lemma one_entry_tree:
  assumes "length E = 64" "\<not> is_dir E"
    and "\<forall>i < 32. disk 0 (cluster_sector fatx_example 1 + of_nat i) = Some (concat (replicate 8 E))"
  shows "holds_tree disk fatx_example {1} (\<lambda>c. replicate 256 E)"
proof -
  let ?data = "concat (map (\<lambda>i :: nat. concat (replicate 8 E)) [0..<32])"
  have "nDriveIndex fatx_example = 0" by (simp add: fatx_example_def)
  then have "cluster_holds disk fatx_example 1 ?data"
    unfolding cluster_holds_def using assms(1,3)
    by (intro exI [of _ "\<lambda>i. concat (replicate 8 E)"])
      (simp add: length_concat sum_list_replicate del: upt_rec_numeral)
  then have "holds_dir disk fatx_example 1 (replicate 256 E)"
    unfolding holds_dir_def
    by (intro exI [of _ "[1]"] exI [of _ "\<lambda>_. ?data"])
      (simp add: fatx_example_chain(2) fatx_dir_entries assms(1) del: upt_rec_numeral)
  then show ?thesis using assms(2) by (auto simp: holds_tree_def)
qed

lemma one_entry_lookup:
  assumes "E ! 0 = 1" "entry_name E = [0x46]" "\<not> is_dir E"
  shows "path_lookup (\<lambda>c. replicate 256 E) 1 [[0x46]] = Some E"
proof -
  have "replicate 256 E = E # replicate 255 E" using replicate_Suc [of 255 E] by simp
  then have "dir_lookup [0x46] (replicate 256 E) = Some E"
    using assms by (simp add: dir_lookup_def live_entries_def)
  then show ?thesis using assms by simp
qed

lemma fatx_dir_tree: "holds_tree fatx_dir_disk fatx_example {1} (\<lambda>c. replicate 256 fatx_example_entry)"
  by (rule one_entry_tree) (simp_all add: fatx_example_entry_def is_dir_def entry_flags_def fatx_dir_disk_def)

lemma fatx_find_file_resolves_witness:
  "\<exists>info. FATXFindFile fatx_dir_disk [] (replicate 0x4000 0) fatx_example [0x5c, 0x46] 1 (fatx_example_info 9 9)
    = Some (True, info) \<and> clusterId info = 2 \<and> fileSize info = 5"
proof -
  have e: "fatx_example_entry ! 0 = 1" "entry_name fatx_example_entry = [0x46]"
    "entry_cluster fatx_example_entry = 2" "entry_size fatx_example_entry = 5" "\<not> is_dir fatx_example_entry"
    by (simp_all add: fatx_example_entry_def entry_name_def entry_cluster_def entry_size_def le32_def is_dir_def
        entry_flags_def nth_append)
  note lk = one_entry_lookup [OF e(1,2,5)]
  have "FATXFindFile fatx_dir_disk [] (replicate 0x4000 0) fatx_example [0x5c, 0x46] FATX_ROOT_FAT_CLUSTER (fatx_example_info 9 9)
    = Some (found (fatx_example_info 9 9) (last [[0x46]])
        (path_lookup (\<lambda>c. replicate 256 fatx_example_entry) FATX_ROOT_FAT_CLUSTER [[0x46]]))"
    by (rule fatx_find_file_resolves [OF fatx_dir_tree fatx_example_geometry])
      (simp_all add: FATX_ROOT_FAT_CLUSTER_def good_component_def FATX_FILENAME_MAX_def turn_slashes_def)
  then show ?thesis using lk e by (simp add: FATX_ROOT_FAT_CLUSTER_def found_def)
qed

end
