(* ===== verification/Flash.thy ===== *)
theory Flash
  imports CromwellBase "HOL-Library.Monad_Syntax"
begin

text \<open>
  Reprogramming the flash chip, \<open>drivers/flash/BootFlash.c\<close>: identification, erasing the region
  to be written, programming and verifying.

  The chip is a parameter: a read and a write at an offset act on its state, which is of any
  type. The caller's callback is a function of the events it has been given so far, and the
  events are recorded. The busy loops on the chip are partial functions: \<open>None\<close> when the
  chip never gets ready. The texts for the user are left out, except for which one is set.
\<close>

section \<open>The code\<close>

record 'c chip =
  chip_read :: "u32 \<Rightarrow> 'c \<Rightarrow> u8 \<times> 'c"
  chip_write :: "u32 \<Rightarrow> u8 \<Rightarrow> 'c \<Rightarrow> 'c"

datatype flash_event = EE_ERASE_START | EE_ERASE_UPDATE | EE_ERASE_END | EE_ERASE_ERROR
  | EE_PROGRAM_START | EE_PROGRAM_UPDATE | EE_PROGRAM_END | EE_PROGRAM_ERROR
  | EE_VERIFY_START | EE_VERIFY_UPDATE | EE_VERIFY_END | EE_VERIFY_ERROR

datatype flash_error = NoError | EraseAborted | EraseFailed u32 u8 | NeedsVpp | EraseStatus u8
  | ProgramAborted | ProgramFailed u32 u8 u8 | ProgramStatus u8 | ProgramTimedOut u8

type_synonym event_log = "(flash_event \<times> u32 \<times> u32) list"

record OBJECT_FLASH =
  m_bManufacturerId :: u8
  m_bDeviceId :: u8
  m_dwLengthInBytes :: u32
  m_dwStartOffset :: u32
  m_dwLengthUsedArea :: u32
  m_pcallbackFlash :: "(event_log \<Rightarrow> bool) option"
  m_fDetectedUsing28xxxConventions :: bool
  m_fIsBelievedCapableOfWriteAndErase :: bool

record KNOWN_FLASH_TYPE =
  k_bManufacturerId :: u8
  k_bDeviceId :: u8
  k_dwLengthInBytes :: u32

record 'c flash_state =
  fchip :: 'c
  flog :: event_log
  ferror :: flash_error

definition read_at :: "'c chip \<Rightarrow> u32 \<Rightarrow> 'c flash_state \<Rightarrow> u8 \<times> 'c flash_state" where
  "read_at chip a s = (case chip_read chip a (fchip s) of (b, c) \<Rightarrow> (b, s\<lparr>fchip := c\<rparr>))"

definition write_at :: "'c chip \<Rightarrow> (u32 \<times> u8) list \<Rightarrow> 'c flash_state \<Rightarrow> 'c flash_state" where
  "write_at chip ws s = s\<lparr>fchip := fold (\<lambda>(a, b). chip_write chip a b) ws (fchip s)\<rparr>"

text \<open>A call of the callback: true when there is none.\<close>

definition callback ::
  "OBJECT_FLASH \<Rightarrow> flash_event \<Rightarrow> u32 \<Rightarrow> u32 \<Rightarrow> 'c flash_state \<Rightarrow> bool \<times> 'c flash_state" where
  "callback pof ee dwPos dwExtent s =
     (case m_pcallbackFlash pof of None \<Rightarrow> (True, s)
      | Some f \<Rightarrow> let l = flog s @ [(ee, dwPos, dwExtent)] in (f l, s\<lparr>flog := l\<rparr>))"

text \<open>The error event, whose extent is (partly) read from the chip, and the end event after it.\<close>

definition report_error ::
  "'c chip \<Rightarrow> OBJECT_FLASH \<Rightarrow> flash_event \<Rightarrow> flash_event \<Rightarrow> u32 \<Rightarrow> u32 \<Rightarrow> u32 \<Rightarrow> 'c flash_state \<Rightarrow> 'c flash_state" where
  "report_error chip pof err fin pos high dw s =
     (if m_pcallbackFlash pof = None then s
      else case read_at chip dw s of (b, s1) \<Rightarrow>
        snd (callback pof fin 0 0 (snd (callback pof err pos (high OR ucast b) s1))))"

subsection \<open>Identification\<close>

definition id_29xxx :: "'c chip \<Rightarrow> 'c flash_state \<Rightarrow> u8 \<times> u8 \<times> 'c flash_state" where
  "id_29xxx chip s =
     (let s1 = write_at chip [(0x5555, 0xf0), (0x5555, 0xaa), (0x2aaa, 0x55), (0x5555, 0xf0),
                 (0x5555, 0xaa), (0x2aaa, 0x55), (0x5555, 0x90)] s;
          (manf, s2) = read_at chip 0 s1;
          (dev, s3) = read_at chip 1 s2
      in (manf, dev, write_at chip [(0x5555, 0xf0)] s3))"

definition id_28xxx :: "'c chip \<Rightarrow> 'c flash_state \<Rightarrow> u8 \<times> u8 \<times> 'c flash_state" where
  "id_28xxx chip s =
     (let (manf, s1) = read_at chip 0 (write_at chip [(0x5555, 0xff), (0x5555, 0x90)] s);
          (dev, s2) = read_at chip 1 (write_at chip [(0x5555, 0x90)] s1)
      in (manf, dev, write_at chip [(0x5555, 0xff)] s2))"

text \<open>
  The loop over the two protocols, \<open>nTries\<close> after its increment: the first turn is the
  28xxx one. The short-circuit test reads offset 1 only when the manufacturer byte is that
  of the normal mode.
\<close>

fun id_tries :: "nat \<Rightarrow> 'c chip \<Rightarrow> u8 \<Rightarrow> u8 \<Rightarrow> nat \<Rightarrow> OBJECT_FLASH \<Rightarrow> 'c flash_state \<Rightarrow> OBJECT_FLASH \<times> 'c flash_state" where
  "id_tries 0 chip b0 b1 nTries pof s = (pof, s)"
| "id_tries (Suc n) chip b0 b1 nTries pof s =
     (let (manf, dev, s1) = (if nTries \<noteq> 1 then id_29xxx chip s else id_28xxx chip s);
          pof1 = pof\<lparr>m_bManufacturerId := manf, m_bDeviceId := dev,
                    m_fDetectedUsing28xxxConventions := (nTries = 1)\<rparr>;
          (changed, s2) = (if b0 \<noteq> manf then (True, s1)
                           else case read_at chip 1 s1 of (v, s2) \<Rightarrow> (b1 \<noteq> v, s2))
      in if changed then (pof1, s2) else id_tries n chip b0 b1 (nTries + 1) pof1 s2)"

text \<open>The lock bits of a 28xxx chip: the bytes read for the description and the master lock.\<close>

fun read_block_locks :: "'c chip \<Rightarrow> nat list \<Rightarrow> 'c flash_state \<Rightarrow> 'c flash_state" where
  "read_block_locks chip [] s = s"
| "read_block_locks chip (n # ns) s =
     read_block_locks chip ns (snd (read_at chip (of_nat n OR 2) (write_at chip [(0x5555, 0x90)] s)))"

definition read_locks :: "'c chip \<Rightarrow> OBJECT_FLASH \<Rightarrow> 'c flash_state \<Rightarrow> OBJECT_FLASH \<times> 'c flash_state" where
  "read_locks chip pof s =
     (let (v, s1) = read_at chip 3 (write_at chip [(0x5555, 0x90)] s);
          pof1 = (if v \<noteq> 0 then pof\<lparr>m_fIsBelievedCapableOfWriteAndErase := False\<rparr> else pof);
          s2 = read_block_locks chip (map (\<lambda>k. 0x10000 * k) [0..<(unat (m_dwLengthInBytes pof) + 0xffff) div 0x10000]) s1
      in (pof1, write_at chip [(0x5555, 0x50), (0x5555, 0xff)] s2))"

text \<open>The table of known types ends with an entry of manufacturer 0.\<close>

fun find_type :: "KNOWN_FLASH_TYPE list \<Rightarrow> u8 \<Rightarrow> u8 \<Rightarrow> KNOWN_FLASH_TYPE option" where
  "find_type [] manf dev = None"
| "find_type (k # ks) manf dev =
     (if k_bManufacturerId k = 0 then None
      else if k_bManufacturerId k = manf \<and> k_bDeviceId k = dev then Some k
      else find_type ks manf dev)"

definition BootFlashGetDescriptor :: "'c chip \<Rightarrow> KNOWN_FLASH_TYPE list \<Rightarrow> OBJECT_FLASH \<Rightarrow> 'c flash_state \<Rightarrow>
    bool \<times> OBJECT_FLASH \<times> 'c flash_state" where
  "BootFlashGetDescriptor chip pkft pof s =
     (let pof0 = pof\<lparr>m_fIsBelievedCapableOfWriteAndErase := True\<rparr>;
          (b0, s1) = read_at chip 0 (s\<lparr>ferror := NoError\<rparr>);
          (b1, s2) = read_at chip 1 s1;
          (pof1, s3) = id_tries 2 chip b0 b1 1 pof0 s2
      in case find_type pkft (m_bManufacturerId pof1) (m_bDeviceId pof1) of
           Some k \<Rightarrow>
             let pof2 = pof1\<lparr>m_dwLengthInBytes := k_dwLengthInBytes k\<rparr>;
                 (pof3, s4) = (if m_fDetectedUsing28xxxConventions pof2 then read_locks chip pof2 s3
                               else (pof2, s3))
             in (True, pof3, s4)
         | None \<Rightarrow> (False, pof1, if b0 = m_bManufacturerId pof1 then snd (read_at chip 1 s3) else s3))"

subsection \<open>Waiting for the chip\<close>

text \<open>
  Bit 6 of a 29xxx chip toggles on every read while it is busy: the comparisons are counted in
  \<open>dwCountTries\<close>. The bit 7 of a 28xxx chip is set when it is ready.
\<close>

partial_function (option) toggle_poll ::
  "('s \<Rightarrow> u8 \<times> 's) \<Rightarrow> u8 \<Rightarrow> u32 \<Rightarrow> 's \<Rightarrow> (u32 \<times> 's) option" where
  "toggle_poll readb b n s =
     (case readb s of (v, s1) \<Rightarrow>
        if v AND 0x40 \<noteq> b AND 0x40 then toggle_poll readb (b XOR 0x40) (n + 1) s1 else Some (n, s1))"

definition wait_toggle :: "('s \<Rightarrow> u8 \<times> 's) \<Rightarrow> 's \<Rightarrow> (u32 \<times> 's) option" where
  "wait_toggle readb s = (case readb s of (b, s1) \<Rightarrow> toggle_poll readb b 0 s1)"

partial_function (option) erase_spin ::
  "('s \<Rightarrow> u8 \<times> 's) \<Rightarrow> u8 \<Rightarrow> nat \<Rightarrow> 's \<Rightarrow> (u8 \<times> 's) option" where
  "erase_spin readb b nCountMinSpin s =
     (if b AND 0x80 = 0 \<or> nCountMinSpin \<noteq> 0
      then case readb s of (b1, s1) \<Rightarrow> erase_spin readb b1 (nCountMinSpin - 1) s1
      else Some (b, s))"

lemma unat_pred: "(w :: u32) \<noteq> 0 \<Longrightarrow> unat (w - 1) = unat w - 1"
  by (rule unat_minus_one)

lemma unat_pred_less: "(w :: u32) \<noteq> 1 \<Longrightarrow> unat (w - 2) < unat (w - 1)"
  using unat_pred [of "w - 1"] unat_gt_0 [of "w - 1"] by (simp add: diff_diff_eq del: unat_gt_0)

text \<open>The wait after programming counts \<open>dwTimeToLive\<close> down while bit 7 is clear, so it ends.\<close>

function program_spin ::
  "('s \<Rightarrow> u8 \<times> 's) \<Rightarrow> u8 \<Rightarrow> u32 \<Rightarrow> nat \<Rightarrow> 's \<Rightarrow> u8 \<times> u32 \<times> 's" where
  "program_spin readb b ttl nCountMinSpin s =
     (let ttl1 = (if b AND 0x80 = 0 then ttl - 1 else ttl)
      in if (b AND 0x80 = 0 \<and> ttl1 \<noteq> 0) \<or> nCountMinSpin \<noteq> 0
         then case readb s of (b1, s1) \<Rightarrow> program_spin readb b1 ttl1 (nCountMinSpin - 1) s1
         else (b, ttl1, s))"
  by pat_completeness auto

termination
  by (relation "measures [\<lambda>(readb, b, ttl, n, s). n, \<lambda>(readb, b, ttl, n, s). unat (ttl - 1)]")
    (auto simp: unat_pred_less split: if_splits)

declare program_spin.simps [simp del]

subsection \<open>Erasing\<close>

definition reset_29xxx :: "(u32 \<times> u8) list" where
  "reset_29xxx = [(0x5555, 0xaa), (0x2aaa, 0x55), (0x5555, 0xf0)]"

definition erase_command :: "u32 \<Rightarrow> u8 \<Rightarrow> (u32 \<times> u8) list" where
  "erase_command dw code =
     [(0x5555, 0xaa), (0x2aaa, 0x55), (0x5555, 0x80), (0x5555, 0xaa), (0x2aaa, 0x55), (dw, code)]"

text \<open>
  One 29xxx erase: command 0x50, then 0x30 when the chip did not get busy, then the whole
  chip when that did not work several times and the whole chip is to be written.
\<close>

definition erase_29xxx ::
  "'c chip \<Rightarrow> OBJECT_FLASH \<Rightarrow> u32 \<Rightarrow> nat \<Rightarrow> 'c flash_state \<Rightarrow> 'c flash_state option" where
  "erase_29xxx chip pof dw nCount s = do {
     (tries, s1) \<leftarrow> wait_toggle (read_at chip dw) (write_at chip (erase_command dw 0x50) s);
     (tries, s2) \<leftarrow> (if tries < 3
        then wait_toggle (read_at chip dw) (write_at chip (reset_29xxx @ erase_command dw 0x30) s1)
        else Some (tries, s1));
     (if tries < 3 \<and> nCount < 2 \<and> m_dwStartOffset pof = 0 \<and>
         m_dwLengthUsedArea pof = m_dwLengthInBytes pof
      then do {
        (tries, s3) \<leftarrow> wait_toggle (read_at chip dw)
           (write_at chip (reset_29xxx @ erase_command 0x5555 0x10) s2);
        Some s3 }
      else Some s2) }"

text \<open>One 28xxx erase; the status byte tells about errors.\<close>

definition erase_28xxx ::
  "'c chip \<Rightarrow> u32 \<Rightarrow> 'c flash_state \<Rightarrow> (u8 \<times> 'c flash_state) option" where
  "erase_28xxx chip dw s = do {
     (b, s1) \<leftarrow> erase_spin (read_at chip dw) 0 0x100
        (write_at chip [(0x5555, 0x50), (dw, 0x20), (dw, 0xd0)] s);
     Some (b, write_at chip [(0x5555, 0x50), (0x5555, 0xff)] s1) }"

text \<open>Giving up at an address: the events, and the text with a further read of the chip.\<close>

definition erase_failed ::
  "'c chip \<Rightarrow> OBJECT_FLASH \<Rightarrow> u32 \<Rightarrow> 'c flash_state \<Rightarrow> bool \<times> 'c flash_state" where
  "erase_failed chip pof dw s =
     (let s1 = report_error chip pof EE_ERASE_ERROR EE_ERASE_END (dw - m_dwStartOffset pof) 0 dw s;
          (v, s2) = read_at chip dw s1
      in (False, s2\<lparr>ferror := EraseFailed dw v\<rparr>))"

definition erase_bad_status ::
  "'c chip \<Rightarrow> OBJECT_FLASH \<Rightarrow> u32 \<Rightarrow> u8 \<Rightarrow> 'c flash_state \<Rightarrow> bool \<times> 'c flash_state" where
  "erase_bad_status chip pof dw b s =
     (let s1 = report_error chip pof EE_ERASE_ERROR EE_ERASE_END (dw - m_dwStartOffset pof) 0 dw s
      in (False, s1\<lparr>ferror := if b AND 8 \<noteq> 0 then NeedsVpp else EraseStatus b\<rparr>))"

definition same_4k :: "u32 \<Rightarrow> u32 \<Rightarrow> bool" where
  "same_4k a b \<longleftrightarrow> a AND 0xfffff000 = b AND 0xfffff000"

lemma same_4k_refl [simp]: "same_4k a a"
  by (simp add: same_4k_def)

text \<open>
  The loop over the region: \<open>dwLast\<close> is the last address erased for, \<open>nCount\<close> the tries
  left in its 4K block. Without an erase the address is passed and every 1K reported.
\<close>

function erase_loop ::
  "'c chip \<Rightarrow> OBJECT_FLASH \<Rightarrow> u32 \<Rightarrow> u32 \<Rightarrow> u32 \<Rightarrow> nat \<Rightarrow> 'c flash_state \<Rightarrow> (bool \<times> 'c flash_state) option" where
  "erase_loop chip pof dw dwLen dwLast nCount s =
     (if dwLen = 0 then Some (callback pof EE_ERASE_END 0 0 s)
      else case read_at chip dw s of (v, s1) \<Rightarrow>
        if v \<noteq> 0xff then
          let same = same_4k dwLast dw;
              n = (if same then nCount - 1 else 4);
              last = (if same then dwLast else dw)
          in if same \<and> n = 0 then Some (erase_failed chip pof dw s1)
             else if m_fDetectedUsing28xxxConventions pof
             then case erase_28xxx chip dw s1 of None \<Rightarrow> None
               | Some (b, s2) \<Rightarrow>
                   if b AND 0x7e \<noteq> 0 then Some (erase_bad_status chip pof dw b s2)
                   else erase_loop chip pof dw dwLen last n s2
             else case erase_29xxx chip pof dw n s1 of None \<Rightarrow> None
               | Some s2 \<Rightarrow> erase_loop chip pof dw dwLen last n s2
        else if dw AND 0x3ff = 0 then
          case callback pof EE_ERASE_UPDATE (dw - m_dwStartOffset pof) (m_dwLengthUsedArea pof) s1 of
            (go, s2) \<Rightarrow>
              if \<not> go then Some (False, s2\<lparr>ferror := EraseAborted\<rparr>)
              else erase_loop chip pof (dw + 1) (dwLen - 1) dwLast nCount s2
        else erase_loop chip pof (dw + 1) (dwLen - 1) dwLast nCount s1)"
  by pat_completeness auto

termination
  by (relation "measures [\<lambda>(chip, pof, dw, dwLen, l, n, s). unat dwLen,
       \<lambda>(chip, pof, dw, dwLen, l, n, s). if same_4k l dw then n else 5]")
    (auto simp: unat_pred unat_gt_0)

declare erase_loop.simps [simp del]

definition BootFlashEraseMinimalRegion ::
  "'c chip \<Rightarrow> OBJECT_FLASH \<Rightarrow> 'c flash_state \<Rightarrow> (bool \<times> 'c flash_state) option" where
  "BootFlashEraseMinimalRegion chip pof s =
     (case callback pof EE_ERASE_START 0 0 (s\<lparr>ferror := NoError\<rparr>) of (go, s1) \<Rightarrow>
        if \<not> go then Some (False, s1\<lparr>ferror := EraseAborted\<rparr>)
        else erase_loop chip pof (m_dwStartOffset pof) (m_dwLengthUsedArea pof) 0xffffffff 4 s1)"

subsection \<open>Programming and verifying\<close>

text \<open>
  One byte on a 28xxx chip: the status, the time left and the state after the two resets. A
  time left of 0 is a time-out; of two texts for the same failure the last one stays.
\<close>

definition program_28xxx :: "'c chip \<Rightarrow> u32 \<Rightarrow> u8 \<Rightarrow> 'c flash_state \<Rightarrow> u8 \<times> u32 \<times> 'c flash_state" where
  "program_28xxx chip dw data s =
     (case program_spin (read_at chip dw) 0 0xfffff 2 (write_at chip [(dw, 0x40), (dw, data)] s) of
        (b, ttl, s1) \<Rightarrow> (b, ttl, write_at chip [(dw, 0x50), (dw, 0xff)] s1))"

definition program_29xxx :: "'c chip \<Rightarrow> u32 \<Rightarrow> u8 \<Rightarrow> 'c flash_state \<Rightarrow> 'c flash_state option" where
  "program_29xxx chip dw data s =
     (case wait_toggle (read_at chip dw)
             (write_at chip [(0x5555, 0xaa), (0x2aaa, 0x55), (0x5555, 0xa0), (dw, data)] s)
      of None \<Rightarrow> None | Some (n, s1) \<Rightarrow> Some s1)"

text \<open>Giving up: the position reported is absolute after failed tries, relative after a bad status.\<close>

definition program_failed ::
  "'c chip \<Rightarrow> OBJECT_FLASH \<Rightarrow> u32 \<Rightarrow> u8 \<Rightarrow> 'c flash_state \<Rightarrow> bool \<times> 'c flash_state" where
  "program_failed chip pof dw data s =
     (let s1 = report_error chip pof EE_PROGRAM_ERROR EE_PROGRAM_END dw (push_bit 8 (ucast data)) dw s;
          (v, s2) = read_at chip dw s1
      in (False, s2\<lparr>ferror := ProgramFailed dw data v\<rparr>))"

definition program_bad_status ::
  "'c chip \<Rightarrow> OBJECT_FLASH \<Rightarrow> u32 \<Rightarrow> u8 \<Rightarrow> u8 \<Rightarrow> u32 \<Rightarrow> 'c flash_state \<Rightarrow> bool \<times> 'c flash_state" where
  "program_bad_status chip pof dw data b ttl s =
     (let s1 = report_error chip pof EE_PROGRAM_ERROR EE_PROGRAM_END (dw - m_dwStartOffset pof)
                 (push_bit 8 (ucast data)) dw s
      in (False, s1\<lparr>ferror := if b AND 8 \<noteq> 0 then NeedsVpp
                     else if ttl \<noteq> 0 then ProgramStatus b else ProgramTimedOut b\<rparr>))"

function program_loop ::
  "'c chip \<Rightarrow> OBJECT_FLASH \<Rightarrow> u8 list \<Rightarrow> u32 \<Rightarrow> u32 \<Rightarrow> u32 \<Rightarrow> u32 \<Rightarrow> nat \<Rightarrow> 'c flash_state \<Rightarrow> (bool \<times> 'c flash_state) option" where
  "program_loop chip pof pba dw dwLen dwSrc dwLast nCount s =
     (if dwLen = 0 then Some (True, s)
      else case read_at chip dw s of (v, s1) \<Rightarrow>
        let data = pba ! unat dwSrc in
        if v \<noteq> data then
          let n = (if dwLast = dw then nCount - 1 else 4)
          in if dwLast = dw \<and> n = 0 then Some (program_failed chip pof dw data s1)
             else if m_fDetectedUsing28xxxConventions pof
             then case program_28xxx chip dw data s1 of (b, ttl, s2) \<Rightarrow>
               if b AND 0x7e \<noteq> 0 \<or> ttl = 0 then Some (program_bad_status chip pof dw data b ttl s2)
               else program_loop chip pof pba dw dwLen dwSrc dw n s2
             else case program_29xxx chip dw data s1 of None \<Rightarrow> None
               | Some s2 \<Rightarrow> program_loop chip pof pba dw dwLen dwSrc dw n s2
        else if dw AND 0x3ff = 0 then
          case callback pof EE_PROGRAM_UPDATE dwSrc (m_dwLengthUsedArea pof) s1 of (go, s2) \<Rightarrow>
            if \<not> go then Some (False, s2\<lparr>ferror := ProgramAborted\<rparr>)
            else program_loop chip pof pba (dw + 1) (dwLen - 1) (dwSrc + 1) dwLast nCount s2
        else program_loop chip pof pba (dw + 1) (dwLen - 1) (dwSrc + 1) dwLast nCount s1)"
  by pat_completeness auto

termination
  by (relation "measures [\<lambda>(chip, pof, pba, dw, dwLen, dwSrc, l, n, s). unat dwLen,
       \<lambda>(chip, pof, pba, dw, dwLen, dwSrc, l, n, s). if l = dw then n else 5]")
    (auto simp: unat_pred unat_gt_0)

declare program_loop.simps [simp del]

text \<open>A difference is reported with its own position and, when the callback wants to go on, ended.\<close>

function verify_loop ::
  "'c chip \<Rightarrow> OBJECT_FLASH \<Rightarrow> u8 list \<Rightarrow> u32 \<Rightarrow> u32 \<Rightarrow> u32 \<Rightarrow> 'c flash_state \<Rightarrow> bool \<times> 'c flash_state" where
  "verify_loop chip pof pba dw dwLen dwSrc s =
     (if dwLen = 0 then callback pof EE_VERIFY_END 0 0 s
      else case read_at chip dw s of (v, s1) \<Rightarrow>
        let data = pba ! unat dwSrc in
        if v \<noteq> data then
          if m_pcallbackFlash pof = None then (False, s1)
          else case read_at chip dw s1 of (v2, s2) \<Rightarrow>
            case callback pof EE_VERIFY_ERROR dw (push_bit 8 (ucast data) OR ucast v2) s2 of (go, s3) \<Rightarrow>
              (False, if go then snd (callback pof EE_VERIFY_END 0 0 s3) else s3)
        else verify_loop chip pof pba (dw + 1) (dwLen - 1) (dwSrc + 1) s1)"
  by pat_completeness auto

termination
  by (relation "measure (\<lambda>(chip, pof, pba, dw, dwLen, dwSrc, s). unat dwLen)")
    (auto simp: unat_pred unat_gt_0)

declare verify_loop.simps [simp del]

definition BootFlashProgram ::
  "'c chip \<Rightarrow> OBJECT_FLASH \<Rightarrow> u8 list \<Rightarrow> 'c flash_state \<Rightarrow> (bool \<times> 'c flash_state) option" where
  "BootFlashProgram chip pof pba s =
     (case callback pof EE_PROGRAM_START 0 0 (s\<lparr>ferror := NoError\<rparr>) of (go, s1) \<Rightarrow>
        if \<not> go then Some (False, s1\<lparr>ferror := ProgramAborted\<rparr>)
        else case program_loop chip pof pba (m_dwStartOffset pof) (m_dwLengthUsedArea pof) 0 0xffffffff 4 s1
        of None \<Rightarrow> None
         | Some (ok, s2) \<Rightarrow>
             if \<not> ok then Some (False, s2)
             else case callback pof EE_PROGRAM_END 0 0 s2 of (go, s3) \<Rightarrow>
               if \<not> go then Some (False, s3)
               else case callback pof EE_VERIFY_START 0 0 s3 of (go, s4) \<Rightarrow>
                 if \<not> go then Some (False, s4)
                 else Some (verify_loop chip pof pba (m_dwStartOffset pof) (m_dwLengthUsedArea pof) 0 s4))"

subsection \<open>Reprogramming\<close>

text \<open>The table of known types, \<open>drivers/flash/BootFlashUi.c\<close>, up to its terminator.\<close>

definition known_flash :: "u8 \<Rightarrow> u8 \<Rightarrow> u32 \<Rightarrow> KNOWN_FLASH_TYPE" where
  "known_flash manf dev len =
     \<lparr>k_bManufacturerId = manf, k_bDeviceId = dev, k_dwLengthInBytes = len\<rparr>"

definition aknownflashtypesDefault :: "KNOWN_FLASH_TYPE list" where
  "aknownflashtypesDefault =
    [known_flash 0x01 0xa4 0x80000, known_flash 0x01 0xad 0x200000, known_flash 0x01 0xda 0x100000,
     known_flash 0x01 0xd5 0x100000, known_flash 0x04 0xd5 0x100000, known_flash 0x20 0xb0 0x40000,
     known_flash 0x20 0xf1 0x100000, known_flash 0x89 0xa6 0x100000, known_flash 0xad 0xb0 0x40000,
     known_flash 0xad 0xd5 0x100000, known_flash 0xbf 0x61 0x40000, known_flash 0xc2 0x36 0x40000,
     known_flash 0xda 0x0b 0x40000, known_flash 0xda 0x8c 0x40000, known_flash 0 0 0]"

text \<open>The callback of the loader draws a progress bar and always answers that it wants to go on.\<close>

definition BootFlashUserInterface :: "event_log \<Rightarrow> bool" where
  "BootFlashUserInterface l = True"

text \<open>Erasing and programming are repeated until both succeed.\<close>

partial_function (option) reflash_loop ::
  "'c chip \<Rightarrow> OBJECT_FLASH \<Rightarrow> u8 list \<Rightarrow> 'c flash_state \<Rightarrow> 'c flash_state option" where
  "reflash_loop chip pof pba s =
     (case BootFlashEraseMinimalRegion chip pof s of None \<Rightarrow> None
      | Some (erased, s1) \<Rightarrow>
          if erased
          then case BootFlashProgram chip pof pba s1 of None \<Rightarrow> None
            | Some (programmed, s2) \<Rightarrow>
                if programmed then Some s2 else reflash_loop chip pof pba s2
          else reflash_loop chip pof pba s1)"

text \<open>\<open>of0\<close> is the uninitialised object on the stack.\<close>

definition BootReflashAndReset ::
  "'c chip \<Rightarrow> OBJECT_FLASH \<Rightarrow> u8 list \<Rightarrow> u32 \<Rightarrow> u32 \<Rightarrow> 'c flash_state \<Rightarrow> (nat \<times> 'c flash_state) option" where
  "BootReflashAndReset chip of0 pbNewData dwStartOffset dwLength s =
     (let pof = of0\<lparr>m_dwStartOffset := dwStartOffset, m_dwLengthUsedArea := dwLength,
                 m_pcallbackFlash := Some BootFlashUserInterface\<rparr>
      in case BootFlashGetDescriptor chip aknownflashtypesDefault pof s of (found, pof1, s1) \<Rightarrow>
        if \<not> found then Some (1, s1)
        else if \<not> m_fIsBelievedCapableOfWriteAndErase pof1 then Some (2, s1)
        else if m_dwLengthInBytes pof1 < dwStartOffset + dwLength then Some (3, s1)
        else case reflash_loop chip pof1 pbNewData s1 of None \<Rightarrow> None | Some s2 \<Rightarrow> Some (0, s2))"

section \<open>The events of a run\<close>

datatype flash_phase = ErasePhase | ProgramPhase | VerifyPhase

fun starts :: "flash_event \<Rightarrow> flash_phase option" where
  "starts EE_ERASE_START = Some ErasePhase"
| "starts EE_PROGRAM_START = Some ProgramPhase"
| "starts EE_VERIFY_START = Some VerifyPhase"
| "starts e = None"

fun ends :: "flash_event \<Rightarrow> flash_phase option" where
  "ends EE_ERASE_END = Some ErasePhase"
| "ends EE_PROGRAM_END = Some ProgramPhase"
| "ends EE_VERIFY_END = Some VerifyPhase"
| "ends e = None"

text \<open>Every phase that is started is ended before the next one starts and before the list ends.\<close>

fun bracketed :: "flash_phase option \<Rightarrow> flash_event list \<Rightarrow> bool" where
  "bracketed ph [] = (ph = None)"
| "bracketed None (e # es) = (starts e \<noteq> None \<and> bracketed (starts e) es)"
| "bracketed (Some p) (e # es) =
     (starts e = None \<and> (if ends e = Some p then bracketed None es
                        else ends e = None \<and> bracketed (Some p) es))"

lemma read_at_keeps [simp]:
  "flog (snd (read_at chip a s)) = flog s" "ferror (snd (read_at chip a s)) = ferror s"
  by (simp_all add: read_at_def split: prod.splits)

lemma read_at_keeps_eq:
  assumes "read_at chip a s = (v, s')"
  shows "flog s' = flog s" "ferror s' = ferror s"
  using assms read_at_keeps [of chip a s] by simp_all

lemma write_at_keeps [simp]:
  "flog (write_at chip ws s) = flog s" "ferror (write_at chip ws s) = ferror s"
  by (simp_all add: write_at_def)

lemma toggle_poll_keeps:
  assumes readb: "\<And>s. g (snd (readb s)) = g s"
    and "toggle_poll readb b n s = Some (k, s')"
  shows "g s' = g s"
proof -
  have "(\<forall>s. g (snd (readb s)) = g s) \<longrightarrow> g (snd (k, s')) = g s"
  proof (rule toggle_poll.raw_induct [where P = "\<lambda>readb b n s r. (\<forall>s. g (snd (readb s)) = g s) \<longrightarrow> g (snd r) = g s",
      OF _ assms(2)])
  fix rec :: "('a \<Rightarrow> 8 word \<times> 'a) \<Rightarrow> 8 word \<Rightarrow> 32 word \<Rightarrow> 'a \<Rightarrow> (32 word \<times> 'a) option" and readb b n s r
  assume IH: "\<And>readb b n s r. rec readb b n s = Some r \<Longrightarrow> (\<forall>s. g (snd (readb s)) = g s) \<longrightarrow> g (snd r) = g s"
    and eq: "(case readb s of (v, s1) \<Rightarrow>
        if v AND 64 \<noteq> b AND 64 then rec readb (b XOR 64) (n + 1) s1 else Some (n, s1)) = Some r"
  show "(\<forall>s. g (snd (readb s)) = g s) \<longrightarrow> g (snd r) = g s"
  proof
    assume keep: "\<forall>s. g (snd (readb s)) = g s"
    obtain v s1 where rs: "readb s = (v, s1)" by fastforce
    then have "g s1 = g s" using keep by (metis snd_conv)
    then show "g (snd r) = g s"
      using eq rs keep IH [of readb "b XOR 64" "n + 1" s1 r] by (auto split: if_splits)
  qed
  qed
  then show ?thesis using readb by simp
qed

lemma erase_spin_keeps:
  assumes readb: "\<And>s. g (snd (readb s)) = g s"
    and "erase_spin readb b n s = Some (b', s')"
  shows "g s' = g s"
proof -
  have "(\<forall>s. g (snd (readb s)) = g s) \<longrightarrow> g (snd (b', s')) = g s"
  proof (rule erase_spin.raw_induct [where P = "\<lambda>readb b n s r. (\<forall>s. g (snd (readb s)) = g s) \<longrightarrow> g (snd r) = g s",
      OF _ assms(2)])
  fix rec :: "('a \<Rightarrow> 8 word \<times> 'a) \<Rightarrow> 8 word \<Rightarrow> nat \<Rightarrow> 'a \<Rightarrow> (8 word \<times> 'a) option" and readb b n s r
  assume IH: "\<And>readb b n s r. rec readb b n s = Some r \<Longrightarrow> (\<forall>s. g (snd (readb s)) = g s) \<longrightarrow> g (snd r) = g s"
    and eq: "(if b AND 128 = 0 \<or> n \<noteq> 0
        then case readb s of (b1, s1) \<Rightarrow> rec readb b1 (n - 1) s1 else Some (b, s)) = Some r"
  show "(\<forall>s. g (snd (readb s)) = g s) \<longrightarrow> g (snd r) = g s"
  proof
    assume keep: "\<forall>s. g (snd (readb s)) = g s"
    obtain v s1 where rs: "readb s = (v, s1)" by fastforce
    then have "g s1 = g s" using keep by (metis snd_conv)
    then show "g (snd r) = g s"
      using eq rs keep IH [of readb v "n - 1" s1 r] by (auto split: if_splits)
  qed
  qed
  then show ?thesis using readb by simp
qed

lemma program_spin_keeps:
  assumes "\<And>s. g (snd (readb s)) = g s"
  shows "program_spin readb b ttl n s = (b', ttl', s') \<Longrightarrow> g s' = g s"
  using assms
proof (induction readb b ttl n s rule: program_spin.induct)
  case (1 readb b ttl n s)
  obtain v s1 where rs: "readb s = (v, s1)" by fastforce
  then have "g s1 = g s" using "1.prems"(2) [of s] by simp
  then show ?case
    using "1.IH" [OF refl _ _ _ "1.prems"(2)] "1.prems"(1) rs
    unfolding program_spin.simps [of readb b ttl n s] by (auto simp: Let_def split: if_splits)
qed

lemma wait_toggle_keeps:
  assumes "wait_toggle (read_at chip a) s = Some (n, s')"
  shows "flog s' = flog s \<and> ferror s' = ferror s"
  using assms toggle_poll_keeps [of flog "read_at chip a"] toggle_poll_keeps [of ferror "read_at chip a"]
  by (auto simp: wait_toggle_def read_at_keeps_eq split: prod.splits)

lemma erase_29xxx_keeps:
  assumes "erase_29xxx chip pof dw n s = Some s'"
  shows "flog s' = flog s \<and> ferror s' = ferror s"
proof -
  obtain n1 s1 where 1: "wait_toggle (read_at chip dw) (write_at chip (erase_command dw 0x50) s) = Some (n1, s1)"
    using assms by (auto simp: erase_29xxx_def Option.bind_eq_Some_conv)
  obtain n2 s2 where 2: "(if n1 < 3 then wait_toggle (read_at chip dw)
      (write_at chip (reset_29xxx @ erase_command dw 0x30) s1) else Some (n1, s1)) = Some (n2, s2)"
    using assms 1 by (auto simp: erase_29xxx_def Option.bind_eq_Some_conv)
  have keep2: "flog s2 = flog s \<and> ferror s2 = ferror s"
    using wait_toggle_keeps [OF 1] 2 wait_toggle_keeps [of chip dw _ n2 s2] by (fastforce split: if_splits)
  show ?thesis
    using assms keep2 unfolding erase_29xxx_def 1 bind.simps prod.case 2
    by (fastforce simp: Option.bind_eq_Some_conv dest: wait_toggle_keeps split: if_splits)
qed

lemma erase_28xxx_keeps:
  assumes "erase_28xxx chip dw s = Some (b, s')"
  shows "flog s' = flog s \<and> ferror s' = ferror s"
  using assms erase_spin_keeps [of flog "read_at chip dw"] erase_spin_keeps [of ferror "read_at chip dw"]
  unfolding erase_28xxx_def by (auto simp: Option.bind_eq_Some_conv)

lemma callback_Some:
  assumes "m_pcallbackFlash pof = Some f" "callback pof e p x s = (go, s')"
  shows "flog s' = flog s @ [(e, p, x)]" "ferror s' = ferror s" "go = f (flog s')"
  using assms by (auto simp: callback_def Let_def)

lemma report_error_log:
  assumes "m_pcallbackFlash pof = Some f"
  shows "\<exists>x. flog (report_error chip pof err fin pos high dw s) = flog s @ [(err, pos, x), (fin, 0, 0)]"
    "ferror (report_error chip pof err fin pos high dw s) = ferror s"
  using assms by (auto simp: report_error_def callback_def Let_def read_at_keeps_eq split: prod.splits)

text \<open>The new events of the erase loop complete an open erase phase unless it is aborted.\<close>

definition completes :: "flash_phase \<Rightarrow> 'c flash_state \<Rightarrow> bool \<times> 'c flash_state \<Rightarrow> bool" where
  "completes ph s r \<longleftrightarrow> (\<exists>es. flog (snd r) = flog s @ es \<and>
     (bracketed (Some ph) (map fst es) \<longleftrightarrow> ferror (snd r) \<noteq> EraseAborted) \<and>
     (fst r \<longrightarrow> ferror (snd r) = NoError))"

lemma completed_by_error:
  assumes "m_pcallbackFlash pof = Some f"
  shows "completes ErasePhase s (erase_failed chip pof dw s)"
    "completes ErasePhase s (erase_bad_status chip pof dw b s)"
proof -
  let ?r = "report_error chip pof EE_ERASE_ERROR EE_ERASE_END (dw - m_dwStartOffset pof) 0 dw s"
  obtain x where x: "flog ?r = flog s @ [(EE_ERASE_ERROR, dw - m_dwStartOffset pof, x), (EE_ERASE_END, 0, 0)]"
    using report_error_log(1) [OF assms] by blast
  show "completes ErasePhase s (erase_failed chip pof dw s)"
    using x by (auto simp: erase_failed_def completes_def read_at_keeps_eq split: prod.splits)
  show "completes ErasePhase s (erase_bad_status chip pof dw b s)"
    using x by (simp add: erase_bad_status_def completes_def Let_def)
qed

lemma completes_cong: "flog s1 = flog s \<Longrightarrow> completes ph s1 r \<Longrightarrow> completes ph s r"
  by (simp add: completes_def)

lemma completes_after:
  assumes "flog s1 = flog s @ [(e, p, x)]" "starts e = None" "ends e = None" "completes ph s1 r"
  shows "completes ph s r"
proof -
  obtain es where "flog (snd r) = flog s @ (e, p, x) # es"
    "bracketed (Some ph) (map fst es) \<longleftrightarrow> ferror (snd r) \<noteq> EraseAborted" "fst r \<longrightarrow> ferror (snd r) = NoError"
    using assms(1,4) by (auto simp: completes_def)
  then show ?thesis
    unfolding completes_def using assms(2,3) by (intro exI [of _ "(e, p, x) # es"]) simp
qed

text \<open>One turn of the loop, with the names of its local variables.\<close>

lemma erase_loop_turn:
  assumes "read_at chip dw s = (v, s1)" "same = same_4k l dw"
    "n1 = (if same then n - 1 else 4)" "l1 = (if same then l else dw)"
  shows "erase_loop chip pof dw dwLen l n s =
    (if dwLen = 0 then Some (callback pof EE_ERASE_END 0 0 s)
     else if v \<noteq> 0xff then
       if same \<and> n1 = 0 then Some (erase_failed chip pof dw s1)
       else if m_fDetectedUsing28xxxConventions pof
       then case erase_28xxx chip dw s1 of None \<Rightarrow> None
         | Some (b, s2) \<Rightarrow> if b AND 0x7e \<noteq> 0 then Some (erase_bad_status chip pof dw b s2)
             else erase_loop chip pof dw dwLen l1 n1 s2
       else case erase_29xxx chip pof dw n1 s1 of None \<Rightarrow> None
         | Some s2 \<Rightarrow> erase_loop chip pof dw dwLen l1 n1 s2
     else if dw AND 0x3ff = 0 then
       case callback pof EE_ERASE_UPDATE (dw - m_dwStartOffset pof) (m_dwLengthUsedArea pof) s1 of
         (go, s2) \<Rightarrow> if \<not> go then Some (False, s2\<lparr>ferror := EraseAborted\<rparr>)
           else erase_loop chip pof (dw + 1) (dwLen - 1) l n s2
     else erase_loop chip pof (dw + 1) (dwLen - 1) l n s1)"
  unfolding erase_loop.simps [of chip pof dw dwLen l n s] assms(1) assms(2-4) Let_def prod.case by (rule refl)

lemma erase_loop_completes:
  "erase_loop chip pof dw dwLen l n s = Some r \<Longrightarrow> ferror s = NoError \<Longrightarrow>
    m_pcallbackFlash pof = Some f \<Longrightarrow> completes ErasePhase s r"
proof (induction chip pof dw dwLen l n s rule: erase_loop.induct)
  case (1 chip pof dw dwLen l n s)
  note f = "1.prems"(3) and ok = "1.prems"(2)
  obtain v s1 where rd1: "read_at chip dw s = (v, s1)" by fastforce
  note s1 = read_at_keeps_eq [OF rd1]
  define same n1 l1 where d: "same = same_4k l dw" "n1 = (if same then n - 1 else 4)"
    "l1 = (if same then l else dw)"
  note loop = "1.prems"(1) [unfolded erase_loop_turn [OF rd1 d]]
  consider (finished) "dwLen = 0" | (bad) "dwLen \<noteq> 0" "v \<noteq> 0xff" "same \<and> n1 = 0"
    | (sharp) "dwLen \<noteq> 0" "v \<noteq> 0xff" "\<not> (same \<and> n1 = 0)" "m_fDetectedUsing28xxxConventions pof"
    | (common) "dwLen \<noteq> 0" "v \<noteq> 0xff" "\<not> (same \<and> n1 = 0)" "\<not> m_fDetectedUsing28xxxConventions pof"
    | (pass) "dwLen \<noteq> 0" "v = 0xff" by blast
  then show ?case
  proof cases
    case finished
    then show ?thesis using loop f ok by (auto simp: callback_def Let_def completes_def)
  next
    case bad
    then have "r = erase_failed chip pof dw s1" using loop by simp
    then show ?thesis using completes_cong [OF s1(1)] completed_by_error(1) [OF f] by blast
  next
    case sharp
    then obtain b s2 where e: "erase_28xxx chip dw s1 = Some (b, s2)" using loop by (auto split: option.splits)
    note s2 = erase_28xxx_keeps [OF e]
    show ?thesis
    proof (cases "b AND 0x7e = 0")
      case True
      then have "erase_loop chip pof dw dwLen l1 n1 s2 = Some r" using loop sharp e by simp
      then have "completes ErasePhase s2 r"
        using "1.IH"(1) rd1 sharp d e True s1 s2 ok f by auto
      then show ?thesis using s1 s2 by (auto intro: completes_cong)
    next
      case False
      then have "r = erase_bad_status chip pof dw b s2" using loop sharp e by simp
      then have "completes ErasePhase s2 r" using completed_by_error(2) [OF f] by simp
      then show ?thesis using s1 s2 by (auto intro: completes_cong)
    qed
  next
    case common
    then obtain s2 where e: "erase_29xxx chip pof dw n1 s1 = Some s2" using loop by (auto split: option.splits)
    note s2 = erase_29xxx_keeps [OF e]
    have "erase_loop chip pof dw dwLen l1 n1 s2 = Some r" using loop common e by simp
    then have "completes ErasePhase s2 r" using "1.IH"(2) rd1 common d e s1 s2 ok f by auto
    then show ?thesis using s1 s2 by (auto intro: completes_cong)
  next
    case pass
    show ?thesis
    proof (cases "dw AND 0x3ff = 0")
      case True
      obtain go s2 where cb: "callback pof EE_ERASE_UPDATE (dw - m_dwStartOffset pof) (m_dwLengthUsedArea pof) s1
        = (go, s2)" by fastforce
      note s2 = callback_Some [OF f cb]
      have "completes ErasePhase s2 r"
      proof (cases go)
        case go: True
        then have "erase_loop chip pof (dw + 1) (dwLen - 1) l n s2 = Some r" using loop pass True cb by simp
        then show ?thesis using "1.IH"(3) rd1 pass True cb go s1 s2 ok f by auto
      next
        case False
        then have "r = (False, s2\<lparr>ferror := EraseAborted\<rparr>)" using loop pass True cb by simp
        then show ?thesis by (simp add: completes_def)
      qed
      then show ?thesis using s1 s2 by (auto intro: completes_after)
    next
      case False
      then have "erase_loop chip pof (dw + 1) (dwLen - 1) l n s1 = Some r" using loop pass by simp
      then have "completes ErasePhase s1 r" using "1.IH"(4) rd1 pass False s1 ok f by auto
      then show ?thesis using s1 by (auto intro: completes_cong)
    qed
  qed
qed

section \<open>The start and end events\<close>

text \<open>
  The events of an erase run, for any chip and any callback: the started phase is ended,
  also after an error, except exactly when the callback itself has aborted the run. The header
  promises the end event without that exception.
\<close>

theorem erase_events:
  assumes "m_pcallbackFlash pof = Some f"
    and "BootFlashEraseMinimalRegion chip pof s = Some (r, s')"
  shows "\<exists>es. flog s' = flog s @ es \<and> (bracketed None (map fst es) \<longleftrightarrow> ferror s' \<noteq> EraseAborted) \<and>
    (r \<longrightarrow> ferror s' = NoError)"
proof -
  obtain go s1 where cb: "callback pof EE_ERASE_START 0 0 (s\<lparr>ferror := NoError\<rparr>) = (go, s1)" by fastforce
  note s1 = callback_Some [OF assms(1) cb]
  show ?thesis
  proof (cases go)
    case False
    then have "r = False" "s' = s1\<lparr>ferror := EraseAborted\<rparr>"
      using assms(2) cb by (simp_all add: BootFlashEraseMinimalRegion_def)
    then show ?thesis using s1 by simp
  next
    case True
    then have "erase_loop chip pof (m_dwStartOffset pof) (m_dwLengthUsedArea pof) 0xffffffff 4 s1 = Some (r, s')"
      using assms(2) cb by (simp add: BootFlashEraseMinimalRegion_def)
    then have "completes ErasePhase s1 (r, s')" using erase_loop_completes s1(2) assms(1) by simp
    then obtain es where "flog s' = flog s @ (EE_ERASE_START, 0, 0) # es"
      "bracketed (Some ErasePhase) (map fst es) \<longleftrightarrow> ferror s' \<noteq> EraseAborted" "r \<longrightarrow> ferror s' = NoError"
      using s1(1) by (auto simp: completes_def)
    then show ?thesis by (intro exI [of _ "(EE_ERASE_START, 0, 0) # es"]) simp
  qed
qed

text \<open>A blank chip and a callback that stops at the second event.\<close>

definition blank_chip :: "unit chip" where
  "blank_chip = \<lparr>chip_read = \<lambda>a c. (0xff, c), chip_write = \<lambda>a b c. c\<rparr>"

definition example_flash :: "(event_log \<Rightarrow> bool) option \<Rightarrow> OBJECT_FLASH" where
  "example_flash f = \<lparr>m_bManufacturerId = 9, m_bDeviceId = 0x10, m_dwLengthInBytes = 0x40000,
     m_dwStartOffset = 0x400, m_dwLengthUsedArea = 2, m_pcallbackFlash = f,
     m_fDetectedUsing28xxxConventions = False, m_fIsBelievedCapableOfWriteAndErase = True\<rparr>"

definition example_state :: "'c \<Rightarrow> 'c flash_state" where
  "example_state c = \<lparr>fchip = c, flog = [], ferror = NoError\<rparr>"

lemma example_erase_aborted:
  "BootFlashEraseMinimalRegion blank_chip (example_flash (Some (\<lambda>l. length l < 2))) (example_state ()) =
     Some (False, \<lparr>fchip = (), flog = [(EE_ERASE_START, 0, 0), (EE_ERASE_UPDATE, 0, 2)], ferror = EraseAborted\<rparr>)"
  by (simp add: BootFlashEraseMinimalRegion_def callback_def example_flash_def example_state_def
      erase_loop.simps read_at_def blank_chip_def Let_def)

theorem erase_events_witness:
  "\<not> bracketed None (map fst [(EE_ERASE_START, 0 :: u32, 0 :: u32), (EE_ERASE_UPDATE, 0, 2)])"
  using erase_events [OF _ example_erase_aborted] by (simp add: example_flash_def example_state_def)

section \<open>Verified contents\<close>

text \<open>Reading a stretch of the chip byte by byte.\<close>

fun read_back :: "'c chip \<Rightarrow> u32 \<Rightarrow> nat \<Rightarrow> 'c \<Rightarrow> u8 list \<times> 'c" where
  "read_back chip a 0 c = ([], c)"
| "read_back chip a (Suc n) c =
     (let (v, c1) = chip_read chip a c; (vs, c2) = read_back chip (a + 1) n c1 in (v # vs, c2))"

lemma callback_fchip: "callback pof e p x s = (go, s') \<Longrightarrow> fchip s' = fchip s"
  by (auto simp: callback_def Let_def split: option.splits)

lemma verify_loop_reads:
  "verify_loop chip pof pba dw dwLen dwSrc s = (True, s') \<Longrightarrow> unat dwSrc + unat dwLen \<le> length pba \<Longrightarrow>
    unat dwSrc + unat dwLen < 2 ^ 32 \<Longrightarrow>
    read_back chip dw (unat dwLen) (fchip s) = (take (unat dwLen) (drop (unat dwSrc) pba), fchip s')"
proof (induction chip pof pba dw dwLen dwSrc s rule: verify_loop.induct)
  case (1 chip pof pba dw dwLen dwSrc s)
  show ?case
  proof (cases "dwLen = 0")
    case True
    then show ?thesis using "1.prems"(1) by (simp add: verify_loop.simps [of chip pof pba dw 0] callback_fchip)
  next
    case False
    obtain v c where r: "chip_read chip dw (fchip s) = (v, c)" by fastforce
    then have rd1: "read_at chip dw s = (v, s\<lparr>fchip := c\<rparr>)" by (simp add: read_at_def)
    have v: "v = pba ! unat dwSrc"
      and rest: "verify_loop chip pof pba (dw + 1) (dwLen - 1) (dwSrc + 1) (s\<lparr>fchip := c\<rparr>) = (True, s')"
      using "1.prems"(1) False
      by (simp_all add: verify_loop.simps [of chip pof pba dw dwLen] rd1 Let_def split: if_splits prod.splits)
    have len: "unat dwLen = Suc (unat (dwLen - 1))" using False by (simp add: unat_pred unat_gt_0)
    have src: "unat (dwSrc + 1) = Suc (unat dwSrc)"
      using "1.prems"(3) False unat_gt_0 [of dwLen] by (simp add: unat_word_ariths)
    have "read_back chip (dw + 1) (unat (dwLen - 1)) c =
        (take (unat (dwLen - 1)) (drop (Suc (unat dwSrc)) pba), fchip s')"
      using "1.IH" [OF False rd1 [symmetric] refl _ rest] v "1.prems"(2,3) len src by simp
    moreover have "drop (unat dwSrc) pba = v # drop (Suc (unat dwSrc)) pba"
      using v "1.prems"(2) len by (simp add: Cons_nth_drop_Suc)
    ultimately show ?thesis using len r by simp
  qed
qed

lemma read_back_pure:
  assumes "\<And>a c. snd (chip_read chip a c) = c"
  shows "read_back chip a n c = (map (\<lambda>i. fst (chip_read chip (a + of_nat i) c)) [0..<n], c)"
proof (induction n arbitrary: a)
  case (Suc n)
  have "chip_read chip a c = (fst (chip_read chip a c), c)" using assms [of a c] by (metis prod.collapse)
  then show ?case
    using Suc [of "a + 1"]
    by (auto simp: map_upt_Suc Let_def add_ac simp del: upt_Suc split: prod.splits)
qed simp

text \<open>After a successful run the area has been read back from the chip after the last write to it.\<close>

lemma program_success_reads_back:
  assumes "BootFlashProgram chip pof pba s = Some (True, s')"
    and "unat (m_dwLengthUsedArea pof) \<le> length pba"
  shows "(\<exists>c. read_back chip (m_dwStartOffset pof) (unat (m_dwLengthUsedArea pof)) c =
        (take (unat (m_dwLengthUsedArea pof)) pba, fchip s')) \<and>
    ((\<forall>a c. snd (chip_read chip a c) = c) \<longrightarrow>
      (\<forall>i < unat (m_dwLengthUsedArea pof).
        fst (chip_read chip (m_dwStartOffset pof + of_nat i) (fchip s')) = pba ! i))"
proof -
  let ?n = "unat (m_dwLengthUsedArea pof)" and ?a = "m_dwStartOffset pof"
  obtain s4 where "verify_loop chip pof pba ?a (m_dwLengthUsedArea pof) 0 s4 = (True, s')"
    using assms(1) by (auto simp: BootFlashProgram_def split: prod.splits if_splits option.splits)
  then have rb: "read_back chip ?a ?n (fchip s4) = (take ?n pba, fchip s')"
    using verify_loop_reads assms(2) unsigned_less [of "m_dwLengthUsedArea pof"] by fastforce
  have "fst (chip_read chip (?a + of_nat i) (fchip s')) = pba ! i"
    if pure: "\<forall>a c. snd (chip_read chip a c) = c" and i: "i < ?n" for i
  proof -
    have "(map (\<lambda>i. fst (chip_read chip (?a + of_nat i) (fchip s4))) [0..<?n], fchip s4) = (take ?n pba, fchip s')"
      using rb read_back_pure pure by metis
    then have "take ?n pba ! i = fst (chip_read chip (?a + of_nat i) (fchip s'))"
      using i nth_map_upt [of i ?n 0] by (metis (no_types, lifting) add_0 diff_zero prod.inject)
    then show ?thesis using i by simp
  qed
  then show ?thesis using rb by blast
qed

lemma BootFlashGetDescriptor_keeps:
  assumes "BootFlashGetDescriptor chip ks pof s = (found, pof1, s1)"
  shows "m_dwStartOffset pof1 = m_dwStartOffset pof \<and> m_dwLengthUsedArea pof1 = m_dwLengthUsedArea pof \<and>
    (found \<longrightarrow> (\<exists>k \<in> set ks. m_dwLengthInBytes pof1 = k_dwLengthInBytes k))"
proof -
  have tries: "id_tries n chip b0 b1 k p t = (p', t') \<Longrightarrow>
      m_dwStartOffset p' = m_dwStartOffset p \<and> m_dwLengthUsedArea p' = m_dwLengthUsedArea p" for n b0 b1 k p t p' t'
    by (induction n arbitrary: k p t) (auto simp: Let_def split: prod.splits if_splits)
  have found: "find_type ks m d = Some k \<Longrightarrow> k \<in> set ks" for m d k
    by (induction ks) (auto split: if_splits)
  have locks: "read_locks chip p t = (p', t') \<Longrightarrow>
      m_dwStartOffset p' = m_dwStartOffset p \<and> m_dwLengthUsedArea p' = m_dwLengthUsedArea p \<and>
      m_dwLengthInBytes p' = m_dwLengthInBytes p" for p t p' t'
    by (auto simp: read_locks_def Let_def split: prod.splits if_splits)
  show ?thesis
    using assms unfolding BootFlashGetDescriptor_def Let_def
    by (auto split: prod.splits option.splits if_splits dest!: tries locks dest: found)
qed

lemma reflash_loop_ends_programmed:
  assumes "reflash_loop chip pof pba s = Some s'"
  shows "\<exists>t. BootFlashProgram chip pof pba t = Some (True, s')"
proof (rule reflash_loop.raw_induct [where P = "\<lambda>chip pof pba s s'.
    \<exists>t. BootFlashProgram chip pof pba t = Some (True, s')", OF _ assms])
  fix rec :: "'a chip \<Rightarrow> OBJECT_FLASH \<Rightarrow> u8 list \<Rightarrow> 'a flash_state \<Rightarrow> 'a flash_state option"
    and chip pof pba s s'
  assume "\<And>chip pof pba s s'. rec chip pof pba s = Some s' \<Longrightarrow> \<exists>t. BootFlashProgram chip pof pba t = Some (True, s')"
    and "(case BootFlashEraseMinimalRegion chip pof s of None \<Rightarrow> None
      | Some (erased, s1) \<Rightarrow>
          if erased
          then case BootFlashProgram chip pof pba s1 of None \<Rightarrow> None
            | Some (programmed, s2) \<Rightarrow> if programmed then Some s2 else rec chip pof pba s2
          else rec chip pof pba s1) = Some s'"
  then show "\<exists>t. BootFlashProgram chip pof pba t = Some (True, s')"
    by (auto split: option.splits prod.splits if_splits)
qed


text \<open>A memory that takes every byte written to it, and two bytes for it.\<close>

definition ram_chip :: "mem chip" where
  "ram_chip = \<lparr>chip_read = \<lambda>a m. (m a, m), chip_write = \<lambda>a b m. m(a := b)\<rparr>"

definition example_ram :: mem where
  "example_ram = (\<lambda>a. 0xff)(0 := 0x01, 1 := 0xa4)"

definition example_ready :: "mem flash_state" where
  "example_ready = example_state (example_ram(0x5555 := 0xf0, 0x2aaa := 0x55))"

definition example_of :: OBJECT_FLASH where
  "example_of = (example_flash (Some BootFlashUserInterface))\<lparr>m_bManufacturerId := 1, m_bDeviceId := 0xa4,
     m_dwLengthInBytes := 0x80000\<rparr>"

lemmas example_defs = ram_chip_def example_of_def example_ready_def example_state_def example_ram_def
  example_flash_def Let_def read_at_def write_at_def callback_def BootFlashUserInterface_def

lemma example_reads:
  "read_at ram_chip 0 (example_state example_ram) = (1, example_state example_ram)"
  "read_at ram_chip 1 (example_state example_ram) = (0xa4, example_state example_ram)"
  "read_at ram_chip 1 (example_state (example_ram(0x5555 := 0xff))) = (0xa4, example_state (example_ram(0x5555 := 0xff)))"
  "read_at ram_chip 1 example_ready = (0xa4, example_ready)"
  by (simp_all add: example_defs)

lemma example_id_28xxx:
  "id_28xxx ram_chip (example_state example_ram) = (1, 0xa4, example_state (example_ram(0x5555 := 0xff)))"
  by (simp add: id_28xxx_def example_defs)

lemma example_id_29xxx:
  "id_29xxx ram_chip (example_state (example_ram(0x5555 := 0xff))) = (1, 0xa4, example_ready)"
  by (simp add: id_29xxx_def example_defs fun_eq_iff)

lemma example_tries:
  "id_tries 2 ram_chip 1 0xa4 1 p (example_state example_ram) =
     (p\<lparr>m_bManufacturerId := 1, m_bDeviceId := 0xa4, m_fDetectedUsing28xxxConventions := False\<rparr>, example_ready)"
  by (simp add: numeral_2_eq_2 example_id_28xxx example_id_29xxx example_reads)

lemma example_type:
  "find_type aknownflashtypesDefault 1 0xa4 = Some (known_flash 1 0xa4 0x80000)"
  by (simp add: aknownflashtypesDefault_def known_flash_def)

lemma example_described:
  "BootFlashGetDescriptor ram_chip aknownflashtypesDefault
     ((example_flash None)\<lparr>m_dwStartOffset := 0x400, m_dwLengthUsedArea := 2,
       m_pcallbackFlash := Some BootFlashUserInterface\<rparr>) (example_state example_ram) =
   (True, example_of, example_ready)"
proof -
  have "(example_state example_ram)\<lparr>ferror := NoError\<rparr> = example_state example_ram"
    by (simp add: example_state_def)
  then show ?thesis
    by (simp add: BootFlashGetDescriptor_def example_reads example_tries [simplified] example_type [simplified] known_flash_def)
      (simp add: example_of_def example_flash_def known_flash_def)
qed

lemma example_erased:
  "\<exists>t. BootFlashEraseMinimalRegion ram_chip example_of example_ready = Some (True, t) \<and> fchip t = fchip example_ready"
  by (simp add: BootFlashEraseMinimalRegion_def erase_loop.simps example_defs)

lemma example_programmed:
  "fchip t = fchip example_ready \<Longrightarrow> \<exists>s'. BootFlashProgram ram_chip example_of [0xff, 0x12] t = Some (True, s')"
  by (simp add: BootFlashProgram_def program_loop.simps verify_loop.simps example_defs program_29xxx_def
      wait_toggle_def toggle_poll.simps)

lemma example_reflashed:
  "\<exists>s'. BootReflashAndReset ram_chip (example_flash None) [0xff, 0x12] 0x400 2 (example_state example_ram) = Some (0, s')"
proof -
  obtain t s' where t: "BootFlashEraseMinimalRegion ram_chip example_of example_ready = Some (True, t)"
    and s': "BootFlashProgram ram_chip example_of [0xff, 0x12] t = Some (True, s')"
    using example_erased example_programmed by blast
  have "reflash_loop ram_chip example_of [0xff, 0x12] example_ready = Some s'"
    by (subst reflash_loop.simps) (simp add: t s')
  then show ?thesis by (simp add: BootReflashAndReset_def example_described) (simp add: example_of_def example_flash_def)
qed


section \<open>Chip erase\<close>

text \<open>Two chips that react alike to everything but the last write of a chip erase.\<close>

lemma write_at_update:
  assumes "\<And>a b c. (a, b) \<noteq> (0x5555, 0x10) \<Longrightarrow> w a b c = chip_write chip a b c"
    and "(0x5555, 0x10) \<notin> set ws"
  shows "write_at (chip\<lparr>chip_write := w\<rparr>) ws s = write_at chip ws s"
proof -
  have "fold (\<lambda>(a, b). w a b) ws c = fold (\<lambda>(a, b). chip_write chip a b) ws c" for c
    using assms(2)
  proof (induction ws arbitrary: c)
    case (Cons x ws)
    obtain a b where "x = (a, b)" by fastforce
    then show ?case using Cons assms(1) [of a b] by auto
  qed simp
  then show ?thesis by (simp add: write_at_def)
qed

lemma read_at_update [simp]: "read_at (chip\<lparr>chip_write := w\<rparr>) = read_at chip"
  by (simp add: read_at_def fun_eq_iff)

lemma erase_loop_update:
  assumes w: "\<And>a b c. (a, b) \<noteq> (0x5555, 0x10) \<Longrightarrow> w a b c = chip_write chip a b c"
  shows "m_dwStartOffset pof \<noteq> 0 \<or> m_dwLengthUsedArea pof \<noteq> m_dwLengthInBytes pof \<Longrightarrow>
    erase_loop (chip\<lparr>chip_write := w\<rparr>) pof dw dwLen l n s = erase_loop chip pof dw dwLen l n s"
  using w
proof (induction chip pof dw dwLen l n s rule: erase_loop.induct)
  case (1 chip pof dw dwLen l n s)
  let ?c = "chip\<lparr>chip_write := w\<rparr>"
  obtain v s1 where rd1: "read_at chip dw s = (v, s1)" by fastforce
  then have rd2: "read_at ?c dw s = (v, s1)" by simp
  have w: "(0x5555, 0x10) \<notin> set ws \<Longrightarrow> write_at ?c ws s = write_at chip ws s" for ws s
    by (rule write_at_update [OF "1.prems"(2)])
  define same n1 l1 where d: "same = same_4k l dw" "n1 = (if same then n - 1 else 4)"
    "l1 = (if same then l else dw)"
  have parts: "erase_28xxx ?c dw s1 = erase_28xxx chip dw s1" "erase_29xxx ?c pof dw n1 s1 = erase_29xxx chip pof dw n1 s1"
    "erase_failed ?c pof dw s = erase_failed chip pof dw s" "erase_bad_status ?c pof dw b s = erase_bad_status chip pof dw b s"
    for b s
    using "1.prems"(1)
    by (auto simp: erase_28xxx_def erase_29xxx_def erase_failed_def erase_bad_status_def report_error_def w
        erase_command_def reset_29xxx_def cong: if_cong)
  show ?case
    unfolding erase_loop_turn [OF rd1 d] erase_loop_turn [OF rd2 d] parts
    using "1.IH"(1) [OF _ rd1 [symmetric] _ d _ _ _ _ _ "1.prems"]
      "1.IH"(2) [OF _ rd1 [symmetric] _ d _ _ _ "1.prems"]
      "1.IH"(3) [OF _ rd1 [symmetric] _ _ _ _ "1.prems"] "1.IH"(4) [OF _ rd1 [symmetric] _ _ "1.prems"]
    by (auto split: option.splits prod.splits)
qed

text \<open>
  C39. The erase of a part of the chip never depends on what the chip would do on the last write
  of the chip erase command: replacing its reaction to 0x10 at 0x5555 by anything changes
  nothing, so the command is not sent unless the whole chip is to be written.
\<close>

theorem chip_erase_only_for_whole_chip:
  assumes "m_dwStartOffset pof \<noteq> 0 \<or> m_dwLengthUsedArea pof \<noteq> m_dwLengthInBytes pof"
    and "\<And>a b c. (a, b) \<noteq> (0x5555, 0x10) \<Longrightarrow> w a b c = chip_write chip a b c"
  shows "BootFlashEraseMinimalRegion (chip\<lparr>chip_write := w\<rparr>) pof s = BootFlashEraseMinimalRegion chip pof s"
proof -
  have "erase_loop (chip\<lparr>chip_write := w\<rparr>) pof dw n l k t = erase_loop chip pof dw n l k t" for dw n l k t
    by (rule erase_loop_update [OF assms(2,1)])
  then show ?thesis by (simp add: BootFlashEraseMinimalRegion_def cong: if_cong)
qed

text \<open>A memory that a chip erase would fill with 0xff, and the same without that reaction.\<close>

theorem chip_erase_only_for_whole_chip_witness:
  "BootFlashEraseMinimalRegion (ram_chip\<lparr>chip_write := \<lambda>a b m. if (a, b) = (0x5555, 0x10) then \<lambda>x. 0xff else m(a := b)\<rparr>)
     (example_flash None) (example_state (\<lambda>a. 0)) =
   BootFlashEraseMinimalRegion ram_chip (example_flash None) (example_state (\<lambda>a. 0))"
  by (rule chip_erase_only_for_whole_chip) (auto simp: example_flash_def ram_chip_def)

end
