(* ===== verification/ImageBld.thy ===== *)
theory ImageBld
  imports Sha1 Md5 "HOL-Library.Monad_Syntax"
begin

text \<open>
  The image builder \<open>lib/imagebld/imagebld.c\<close>: the flash images of 256 KB and 1 MB made from
  the boot loader and the compressed kernel image, the identification block at their end, the
  executable (.xbe) and the .vml image.

  A buffer of the tool is a list of bytes of the size it was allocated with. A copy that would
  leave its buffer is \<open>None\<close>. The files are arguments: \<open>None\<close> for one that cannot be opened.
  The messages printed on the way are left out.
\<close>

section \<open>Buffers\<close>

definition poke :: "nat \<Rightarrow> u8 list \<Rightarrow> u8 list \<Rightarrow> u8 list option" where
  "poke off bs a =
     (if off + length bs \<le> length a then Some (take off a @ bs @ drop (off + length bs) a) else None)"

definition peek :: "nat \<Rightarrow> nat \<Rightarrow> u8 list \<Rightarrow> u8 list option" where
  "peek off n a = (if off + n \<le> length a then Some (take n (drop off a)) else None)"

definition fill :: "nat \<Rightarrow> u8 \<Rightarrow> nat \<Rightarrow> u8 list \<Rightarrow> u8 list option" where
  "fill off b n a = poke off (replicate n b) a"

fun pokes :: "(nat \<times> u8 list) list \<Rightarrow> u8 list \<Rightarrow> u8 list option" where
  "pokes [] a = Some a"
| "pokes ((off, bs) # ws) a = do { a' \<leftarrow> poke off bs a; pokes ws a' }"

definition bytes32 :: "u32 \<Rightarrow> u8 list" where
  "bytes32 w = [byte_of32 w 0, byte_of32 w 1, byte_of32 w 2, byte_of32 w 3]"

definition word32 :: "u8 list \<Rightarrow> u32" where
  "word32 bs = le32 (bs ! 0) (bs ! 1) (bs ! 2) (bs ! 3)"

definition peek32 :: "nat \<Rightarrow> u8 list \<Rightarrow> u32 option" where
  "peek32 off a = map_option word32 (peek off 4 a)"

definition KB :: nat where "KB = 1024"

section \<open>The code\<close>

record Checksumstruct =
  Checksum :: "u8 list"
  Size_ramcopy :: u32
  compressed_image_start :: u32
  compressed_image_size :: u32
  Biossize_type :: u32

definition load_struct :: "u8 list \<Rightarrow> Checksumstruct" where
  "load_struct bs = \<lparr>Checksum = take 20 bs, Size_ramcopy = word32 (drop 20 bs),
     compressed_image_start = word32 (drop 24 bs), compressed_image_size = word32 (drop 28 bs),
     Biossize_type = word32 (drop 32 bs)\<rparr>"

definition store_struct :: "Checksumstruct \<Rightarrow> u8 list" where
  "store_struct c = Checksum c @ bytes32 (Size_ramcopy c) @ bytes32 (compressed_image_start c)
     @ bytes32 (compressed_image_size c) @ bytes32 (Biossize_type c)"

text \<open>The three SHA-1 calls on one buffer; \<open>ctx\<close> is what the local context held before.\<close>

definition sha1_sum :: "SHA1Context \<Rightarrow> u8 list \<Rightarrow> u8 list option" where
  "sha1_sum ctx bs = sha1_of_chunks ctx [bs]"

text \<open>\<open>shax\<close>: the length as four bytes, then the data.\<close>

definition shax :: "SHA1Context \<Rightarrow> u8 list \<Rightarrow> u32 \<Rightarrow> u8 list option" where
  "shax ctx bs len = sha1_of_chunks ctx [bytes32 len, bs]"

text \<open>The magic \<open>"AUTO"\<close>, and \<open>sprintf(Name, "Cromwell %s", CROMWELL_VERSION)\<close> with its final 0.\<close>

definition bios_magic :: "u8 list" where
  "bios_magic = [0x41, 0x55, 0x54, 0x4f]"

definition bios_name :: "u8 list" where
  "bios_name = map (\<lambda>c. of_nat (of_char c)) ''Cromwell 2.41-dev'' @ [0]"

text \<open>
  \<open>struct BiosIdentifier\<close> is 64 bytes: the magic at 0, the header version at 4, the console
  versions at 5, the video encoders at 6, the size at 12, the name at 16, the hash at 48. The
  bytes 7 to 11 and the rest of the name keep what the image had there.
\<close>

definition writeBiosIdentifier :: "MD5_CTX \<Rightarrow> u8 list \<Rightarrow> nat \<Rightarrow> u8 list option" where
  "writeBiosIdentifier md5ctx img biosSize =
     do { h1 \<leftarrow> pokes [(biosSize - 64, bios_magic), (biosSize - 60, [1]),
                (biosSize - 52, bytes32 (of_nat biosSize)), (biosSize - 48, bios_name),
                (biosSize - 59, [0x7f]), (biosSize - 58, [0x03])] img;
          m \<leftarrow> peek 0 (biosSize - 16) h1;
          poke (biosSize - 16) (fst (MD5Final (MD5Update m (MD5Init md5ctx)))) h1 }"

text \<open>The jump and the descriptor table at the top of the loader image.\<close>

definition top_rom :: "(nat \<times> u8 list) list" where
  "top_rom =
     [(0x3fe00, replicate 512 0x90), (0x3ffd0, replicate 32 0), (0x3ffcf, [0xfc]), (0x3ffd0, [0xea]),
      (0x3ffd2, [0x10]), (0x3ffd3, [0xfc]), (0x3ffd4, [0xff]), (0x3ffd5, [0x08]), (0x3ffd7, [0x90]),
      (0x3ffe0, [0xff]), (0x3ffe1, [0xff]), (0x3ffe5, [0x9b]), (0x3ffe6, [0xcf]), (0x3ffe8, [0xff]),
      (0x3ffe9, [0xff]), (0x3ffed, [0x93]), (0x3ffee, [0xcf]), (0x3fff4, [0x18]), (0x3fff5, [0x00]),
      (0x3fff6, [0xd8]), (0x3fff7, [0xff]), (0x3fff8, [0xff]), (0x3fff9, [0xff])]"

text \<open>\<open>fread\<close> of at most \<open>n\<close> bytes into a zeroed buffer of \<open>n\<close> bytes.\<close>

definition read_into :: "nat \<Rightarrow> u8 list \<Rightarrow> u8 list" where
  "read_into n f = take n f @ replicate (n - length f) 0"

text \<open>Where the kernel image starts: behind the loader, rounded to 16, and 0x100 bytes further.\<close>

definition image_start :: "u32 \<Rightarrow> u32 \<Rightarrow> u32" where
  "image_start bootloaderpos size_ramcopy =
     ((bootloaderpos + size_ramcopy) AND 0xfffffff0) + 0x10 + 0x100"

text \<open>The header of the loader in a flash image, with its checksum.\<close>

definition seal_loader :: "SHA1Context \<Rightarrow> nat \<Rightarrow> Checksumstruct \<Rightarrow> u8 list \<Rightarrow> u8 list option" where
  "seal_loader ctx pos bs flash =
     do { f1 \<leftarrow> poke pos (store_struct bs) flash;
          d \<leftarrow> peek (pos + 20) (unat (Size_ramcopy bs - 20)) f1;
          h \<leftarrow> sha1_sum ctx d;
          poke pos h f1 }"

text \<open>
  \<open>romcopy\<close>: the error code 1, or the two images it writes. \<open>romsize\<close> is an unsigned int, the
  buffer of the kernel image has 1 MB; the lengths given to \<open>memset\<close> are unsigned too.
\<close>

definition romcopy_images :: "SHA1Context \<Rightarrow> MD5_CTX \<Rightarrow> u8 list \<Rightarrow> u8 list \<Rightarrow> (u8 list \<times> u8 list) option" where
  "romcopy_images ctx md5ctx bl cromfile =
     do { let romsize = (of_nat (length cromfile) :: u32);
          crom \<leftarrow> poke 0 (take (unat romsize) cromfile) (replicate (1024 * KB) 0);
          l1 \<leftarrow> pokes top_rom (read_into (256 * KB) bl);
          bootloaderpos \<leftarrow> peek32 0x40 l1;
          loaderimage \<leftarrow> fill 0x40 0 4 l1;
          let pos = unat bootloaderpos;
          sb \<leftarrow> peek pos 36 loaderimage;
          let bs = load_struct sb;
          let start = image_start bootloaderpos (Size_ramcopy bs);
          let bs = bs\<lparr>compressed_image_start := start, compressed_image_size := romsize\<rparr>;
          let s = unat start;
          let n = unat romsize;
          flash256 \<leftarrow> seal_loader ctx pos (bs\<lparr>Biossize_type := 0\<rparr>) loaderimage;
          flash1024 \<leftarrow> seal_loader ctx pos (bs\<lparr>Biossize_type := 1\<rparr>) (loaderimage @ replicate (768 * KB) 0);
          flash1024 \<leftarrow> fill s 0xff (unat (0x40000 - start - 512)) flash1024;
          bank0 \<leftarrow> peek 0 (256 * KB) flash1024;
          flash1024 \<leftarrow> poke (3 * 256 * KB) bank0 flash1024;
          flash256 \<leftarrow> fill (s + 20 + n) 0xff (unat (0x40000 - (start + 20 + romsize) - 512)) flash256;
          image \<leftarrow> peek 0 n crom;
          flash256 \<leftarrow> poke (s + 20) image flash256;
          d \<leftarrow> peek (s + 20) n flash256;
          h \<leftarrow> sha1_sum ctx d;
          flash256 \<leftarrow> poke s h flash256;
          flash1024 \<leftarrow> fill (256 * KB) 0xff (512 * KB) flash1024;
          flash1024 \<leftarrow> pokes [(s + 256 * KB, h), (s + 20 + 256 * KB, image),
                            (s + 2 * 256 * KB, h), (s + 20 + 2 * 256 * KB, image)] flash1024;
          flash256 \<leftarrow> writeBiosIdentifier md5ctx flash256 (256 * KB);
          flash1024 \<leftarrow> writeBiosIdentifier md5ctx flash1024 (1024 * KB);
          Some (flash256, flash1024) }"

definition romcopy :: "SHA1Context \<Rightarrow> MD5_CTX \<Rightarrow> u8 list option \<Rightarrow> u8 list option \<Rightarrow>
    (nat + u8 list \<times> u8 list) option" where
  "romcopy ctx md5ctx blfile cromfile =
     (case blfile of None \<Rightarrow> Some (Inl 1)
      | Some bl \<Rightarrow> (case cromfile of None \<Rightarrow> Some (Inl 1)
          | Some crom \<Rightarrow> map_option Inr (romcopy_images ctx md5ctx bl crom)))"

text \<open>
  \<open>xberepair\<close>: \<open>junk\<close> is what the buffer of 1 MB and 0x3000 bytes held, of which only the four
  bytes of a pointer are cleared. The fields of the header and of the first section are at
  their offsets; a pointer into the image is an offset after the base address is subtracted.
\<close>

definition xberepair :: "SHA1Context \<Rightarrow> u8 list \<Rightarrow> u8 list option \<Rightarrow> u8 list option \<Rightarrow> (nat + u8 list) option" where
  "xberepair ctx junk xbefile cromfile =
     (case cromfile of None \<Rightarrow> Some (Inl 1)
      | Some crom \<Rightarrow>
          if length crom > 0x100000 then Some (Inl 1)
          else case xbefile of None \<Rightarrow> Some (Inl 1)
          | Some xbe0 \<Rightarrow>
              let romsize = (of_nat (length crom) :: u32);
                  romsize' = (romsize AND 0xfffffff0) + 32;
                  xbesize = 0x3000 + romsize'
              in do { xbe \<leftarrow> pokes [(0, replicate 4 0), (0, xbe0), (0x3000, crom), (0x1084, bytes32 romsize)] junk;
                      sections \<leftarrow> peek32 0x120 xbe;
                      base \<leftarrow> peek32 0x104 xbe;
                      let sechdr = unat (sections - base);
                      xbe \<leftarrow> pokes [(0x10c, bytes32 xbesize), (sechdr + 0x10, bytes32 (0x2000 + romsize')),
                                   (sechdr + 8, bytes32 (0x2000 + romsize'))] xbe;
                      addr \<leftarrow> peek32 (sechdr + 0xc) xbe;
                      fsize \<leftarrow> peek32 (sechdr + 0x10) xbe;
                      d \<leftarrow> peek (unat addr) (unat fsize) xbe;
                      h \<leftarrow> shax ctx d fsize;
                      xbe \<leftarrow> poke (sechdr + 0x24) h xbe;
                      out \<leftarrow> peek 0 (unat xbesize) xbe;
                      Some (Inr out) })"

definition vmlbuild :: "u8 list \<Rightarrow> u8 list option \<Rightarrow> u8 list option \<Rightarrow> (nat + u8 list) option" where
  "vmlbuild junk vmlfile cromfile =
     (case cromfile of None \<Rightarrow> Some (Inl 1)
      | Some crom \<Rightarrow>
          if length crom > 0x100000 then Some (Inl 1)
          else case vmlfile of None \<Rightarrow> Some (Inl 1)
          | Some vml0 \<Rightarrow>
              do { vml \<leftarrow> pokes [(0, vml0), (0x1700, crom), (0x1700 + length crom, replicate 100 0)] junk;
                   out \<leftarrow> peek 0 (length vml0 + length crom + 100) vml;
                   Some (Inr out) })"

section \<open>Slices of a buffer\<close>

definition slice :: "nat \<Rightarrow> nat \<Rightarrow> u8 list \<Rightarrow> u8 list" where
  "slice off n a = take n (drop off a)"

definition put :: "nat \<Rightarrow> u8 list \<Rightarrow> u8 list \<Rightarrow> u8 list" where
  "put off bs a = take off a @ bs @ drop (off + length bs) a"

named_theorems slice_simps "slices of written buffers"

lemma poke_put [slice_simps]: "off + length bs \<le> length a \<Longrightarrow> poke off bs a = Some (put off bs a)"
  by (simp add: poke_def put_def)

lemma fill_put [slice_simps]: "off + n \<le> length a \<Longrightarrow> fill off b n a = Some (put off (replicate n b) a)"
  by (simp add: fill_def poke_put)

lemma peek_slice [slice_simps]: "off + n \<le> length a \<Longrightarrow> peek off n a = Some (slice off n a)"
  by (simp add: peek_def slice_def)

lemma length_put [slice_simps]: "off + length bs \<le> length a \<Longrightarrow> length (put off bs a) = length a"
  by (simp add: put_def)

lemma length_slice [slice_simps]: "off + n \<le> length a \<Longrightarrow> length (slice off n a) = n"
  by (simp add: slice_def)

lemma slice_put_same [slice_simps]: "off + length bs \<le> length a \<Longrightarrow> slice off (length bs) (put off bs a) = bs"
  by (simp add: slice_def put_def)

lemma slice_slice: "o' + n \<le> m \<Longrightarrow> slice o' n (slice off m a) = slice (off + o') n a"
  by (simp add: slice_def drop_take min_absorb1 add.commute)

lemma slice_append_left: "o' + n \<le> length a \<Longrightarrow> slice o' n (a @ b) = slice o' n a"
  by (simp add: slice_def)

lemma slice_take: "o' + n \<le> m \<Longrightarrow> slice o' n (take m a) = slice o' n a"
  using slice_slice [of o' n m 0 a] by (simp add: slice_def)

lemma slice_put_whole [slice_simps]:
  "n = length bs \<Longrightarrow> off + length bs \<le> length a \<Longrightarrow> slice off n (put off bs a) = bs"
  by (simp add: slice_put_same)

lemma slice_put_below [slice_simps]:
  "o' + n \<le> off \<Longrightarrow> off + length bs \<le> length a \<Longrightarrow> slice o' n (put off bs a) = slice o' n a"
  by (simp add: put_def slice_append_left slice_take)

lemma slice_put_above [slice_simps]:
  "off + length bs \<le> o' \<Longrightarrow> off + length bs \<le> length a \<Longrightarrow> slice o' n (put off bs a) = slice o' n a"
  by (simp add: slice_def put_def)

text \<open>A part of what was written, and two pieces read as one.\<close>

lemma slice_put_inside:
  assumes "off \<le> o'" "o' + n \<le> off + length bs" "off + length bs \<le> length a"
  shows "slice o' n (put off bs a) = slice (o' - off) n bs"
  using slice_slice [of "o' - off" n "length bs" off "put off bs a"] assms slice_put_same [OF assms(3)] by simp

lemma slice_split: "slice off (m + n) a = slice off m a @ slice (off + m) n a"
  by (simp add: slice_def take_add add.commute)

section \<open>The flash images\<close>

lemma pokes_above:
  "\<forall>(off, bs) \<in> set ws. lo \<le> off \<and> off + length bs \<le> length a \<Longrightarrow>
   \<exists>a'. pokes ws a = Some a' \<and> length a' = length a \<and> (\<forall>o' n. o' + n \<le> lo \<longrightarrow> slice o' n a' = slice o' n a)"
proof (induction ws arbitrary: a)
  case (Cons w ws)
  obtain off bs where w: "w = (off, bs)" by fastforce
  then have fits: "lo \<le> off" "off + length bs \<le> length a" using Cons.prems by auto
  obtain a' where "pokes ws (put off bs a) = Some a'" "length a' = length a"
    "\<forall>o' n. o' + n \<le> lo \<longrightarrow> slice o' n a' = slice o' n (put off bs a)"
    using Cons.IH [of "put off bs a"] Cons.prems fits by (auto simp: length_put)
  then show ?case using w fits by (auto simp: poke_put slice_put_below)
qed simp

lemma top_rom_above: "\<forall>(off, bs) \<in> set top_rom. 0x3fe00 \<le> off \<and> off + length bs \<le> 0x40000"
  by (simp add: top_rom_def)

lemma length_bytes32 [simp]: "length (bytes32 w) = 4"
  by (simp add: bytes32_def)

lemma bios_texts [simp]: "length bios_magic = 4" "length bios_name = 18"
  by (simp_all add: bios_magic_def bios_name_def)

lemma length_le_bytes: "length (concat (map (\<lambda>w. map (byte_of32 w) [0, 1, 2, 3]) ws)) = 4 * length ws"
  by (induction ws) simp_all

lemma length_md5_spec [simp]: "length (md5_spec m) = 16"
  unfolding md5_spec_def length_le_bytes using length_absorb_state [of md5_H0] by (simp add: md5_H0_def)

lemma sha1_sum_spec:
  "length (Message_Block ctx) = 64 \<Longrightarrow> 8 * length m < 2 ^ 64 \<Longrightarrow> sha1_sum ctx m = Some (sha1_spec m)"
  using sha1_streaming_digest [of ctx "[m]"] by (simp add: sha1_sum_def)

lemma md5_of_buffer:
  "length (md5_buffer c) = 64 \<Longrightarrow> length m < 2 ^ 32 \<Longrightarrow> fst (MD5Final (MD5Update m (MD5Init c))) = md5_spec m"
  using md5_pieces_digest [of c "[m]"] by simp

lemma writeBiosIdentifier_result:
  assumes "length img = N" "64 \<le> N" "N < 2 ^ 32" "length (md5_buffer md5ctx) = 64"
  shows "\<exists>img'. writeBiosIdentifier md5ctx img N = Some img' \<and> length img' = N \<and>
    (\<forall>o' n. o' + n \<le> N - 64 \<longrightarrow> slice o' n img' = slice o' n img) \<and>
    slice (N - 16) 16 img' = md5_spec (slice 0 (N - 16) img')"
proof -
  define ws where "ws = [(N - 64, bios_magic), (N - 60, [1]), (N - 52, bytes32 (of_nat N)), (N - 48, bios_name),
      (N - 59, [0x7f]), (N - 58, [0x03])]"
  have "\<forall>(off, bs) \<in> set ws. N - 64 \<le> off \<and> off + length bs \<le> length img"
    using assms by (simp add: ws_def) linarith
  then obtain h1 where h1: "pokes [(N - 64, bios_magic), (N - 60, [1]), (N - 52, bytes32 (of_nat N)), (N - 48, bios_name),
      (N - 59, [0x7f]), (N - 58, [0x03])] img = Some h1"
    "length h1 = N" "\<forall>o' n. o' + n \<le> N - 64 \<longrightarrow> slice o' n h1 = slice o' n img"
    using pokes_above [of ws "N - 64" img] assms(1) unfolding ws_def by blast
  let ?m = "slice 0 (N - 16) h1" and ?i = "put (N - 16) (md5_spec (slice 0 (N - 16) h1)) h1"
  have len: "length ?m = N - 16" using h1 by (simp add: length_slice)
  have "writeBiosIdentifier md5ctx img N = Some ?i"
    using h1 assms len by (simp add: writeBiosIdentifier_def md5_of_buffer slice_simps del: pokes.simps)
  moreover have "slice 0 (N - 16) ?i = ?m" using h1 assms by (simp add: slice_simps)
  moreover have "slice (N - 16) 16 ?i = md5_spec ?m"
    using slice_put_same [of "N - 16" "md5_spec ?m" h1] h1 assms by simp
  ultimately show ?thesis using h1 assms by (simp add: slice_simps)
qed

text \<open>
  What the second boot loader checks: a header at \<open>pos\<close> with the digest of the loader behind
  it, and a kernel image at \<open>s\<close> behind its digest.
\<close>

definition sealed_loader :: "u8 list \<Rightarrow> nat \<Rightarrow> u32 \<Rightarrow> u32 \<Rightarrow> u32 \<Rightarrow> u32 \<Rightarrow> bool" where
  "sealed_loader bank pos sz start len ty \<longleftrightarrow>
     slice pos 20 bank = sha1_spec (slice (pos + 20) (unat sz - 20) bank) \<and>
     slice (pos + 20) 16 bank = bytes32 sz @ bytes32 start @ bytes32 len @ bytes32 ty"

definition sealed_kernel :: "u8 list \<Rightarrow> nat \<Rightarrow> u8 list \<Rightarrow> bool" where
  "sealed_kernel bank s crom \<longleftrightarrow>
     slice s 20 bank = sha1_spec crom \<and> slice (s + 20) (length crom) bank = crom"

definition md5_identified :: "u8 list \<Rightarrow> bool" where
  "md5_identified img \<longleftrightarrow> slice (length img - 16) 16 img = md5_spec (slice 0 (length img - 16) img)"

lemma sealed_loader_cong:
  assumes "\<And>o' n. lo \<le> o' \<Longrightarrow> o' + n \<le> hi \<Longrightarrow> slice o' n bank' = slice o' n bank"
    and "sealed_loader bank pos sz start len ty" "lo \<le> pos" "pos + 36 \<le> hi" "pos + unat sz \<le> hi"
    and "20 \<le> unat sz"
  shows "sealed_loader bank' pos sz start len ty"
  using assms unfolding sealed_loader_def by simp

lemma seal_loader_result:
  assumes "length flash = N" "unat (Size_ramcopy bs) = sz" "36 \<le> sz" "pos + sz \<le> N" "N < 2 ^ 32"
    and "length (Checksum bs) = 20" "length (Message_Block ctx) = 64"
  shows "\<exists>f. seal_loader ctx pos bs flash = Some f \<and> length f = N \<and>
    (\<forall>o' n. o' + n \<le> pos \<or> pos + 36 \<le> o' \<longrightarrow> slice o' n f = slice o' n flash) \<and>
    sealed_loader f pos (Size_ramcopy bs) (compressed_image_start bs) (compressed_image_size bs) (Biossize_type bs)"
proof -
  let ?f1 = "put pos (store_struct bs) flash"
  have len: "length (store_struct bs) = 36" using assms(6) by (simp add: store_struct_def)
  have l1: "length ?f1 = N" using assms len by (simp add: slice_simps)
  have size: "unat (Size_ramcopy bs - 20) = sz - 20"
    using assms(2,3) unat_sub [of 20 "Size_ramcopy bs"] by (simp add: word_le_nat_alt)
  let ?d = "slice (pos + 20) (sz - 20) ?f1"
  have ld: "length ?d = sz - 20" using assms l1 by (simp add: slice_simps)
  define f where "f = put pos (sha1_spec ?d) ?f1"
  have "8 * length ?d < 2 ^ 64" using ld assms by simp
  then have "seal_loader ctx pos bs flash = Some f"
    using assms len l1 size ld by (simp add: f_def seal_loader_def slice_simps sha1_sum_spec)
  moreover have "slice pos 20 f = sha1_spec ?d" unfolding f_def using slice_put_same [of pos "sha1_spec ?d" ?f1] l1 assms by simp
  moreover have "slice (pos + 20) (sz - 20) f = ?d" using l1 assms by (simp add: f_def slice_simps)
  moreover have "slice (pos + 20) 16 f = slice 20 16 (store_struct bs)"
    using l1 assms len by (simp add: f_def slice_simps slice_put_inside)
  moreover have "slice 20 16 (store_struct bs) = bytes32 (Size_ramcopy bs) @ bytes32 (compressed_image_start bs)
      @ bytes32 (compressed_image_size bs) @ bytes32 (Biossize_type bs)"
    using assms(6) by (simp add: store_struct_def slice_def bytes32_def)
  moreover have "slice o' n f = slice o' n flash" if "o' + n \<le> pos \<or> pos + 36 \<le> o'" for o' n
    using that l1 len assms by (auto simp: f_def slice_simps)
  moreover have "length f = N" using l1 assms by (simp add: f_def slice_simps)
  ultimately show ?thesis using assms(2) by (simp add: sealed_loader_def)
qed

lemma image_start_value:
  assumes "unat p + unat z + 0x110 < 2 ^ 32"
  shows "unat (image_start p z) = (unat p + unat z) div 16 * 16 + 0x110"
proof -
  have sum: "unat (p + z) = unat p + unat z" using assms by (simp add: unat_word_ariths)
  have "(p + z) AND 0xfffffff0 = push_bit 4 (drop_bit 4 (p + z))"
  proof (rule bit_word_eqI)
    fix i assume i: "i < LENGTH(32)"
    have eq: "(0xfffffff0 :: u32) = NOT (mask 4)" by (simp add: mask_eq_exp_minus_1)
    show "bit ((p + z) AND 0xfffffff0) i \<longleftrightarrow> bit (push_bit 4 (drop_bit 4 (p + z))) i"
      unfolding eq using i by (auto simp: bit_simps)
  qed
  moreover have "unat (push_bit 4 (drop_bit 4 (p + z))) = (unat p + unat z) div 16 * 16"
  proof -
    have "(unat p + unat z) div 16 * 16 < 2 ^ 32"
      using assms div_times_less_eq_dividend [of "unat p + unat z" 16] by linarith
    then show ?thesis
      by (simp add: push_bit_eq_mult drop_bit_eq_div unat_div sum unat_word_ariths)
  qed
  ultimately show ?thesis using assms unfolding image_start_def by (simp add: unat_word_ariths)
qed

text \<open>The conditions under which the builder's arithmetic and its buffers are enough.\<close>

definition loader_fits :: "u8 list \<Rightarrow> u8 list \<Rightarrow> u32 \<Rightarrow> u32 \<Rightarrow> bool" where
  "loader_fits bl crom p z \<longleftrightarrow>
     peek32 0x40 (read_into 0x40000 bl) = Some p \<and> peek32 (unat p + 20) (read_into 0x40000 bl) = Some z \<and>
     0x44 \<le> unat p \<and> 36 \<le> unat z \<and>
     unat p + unat z < 0x40000 \<and> unat (image_start p z) + 20 + length crom + 512 \<le> 0x40000"

lemma word32_bytes32 [simp]: "word32 (bytes32 w) = w"
  by (simp add: word32_def bytes32_def)

lemma slice_drop: "slice off n (drop k a) = slice (k + off) n a"
  by (simp add: slice_def add.commute)

lemma word32_drop: "k + 4 \<le> length a \<Longrightarrow> word32 (drop k a) = word32 (slice k 4 a)"
  by (simp add: word32_def slice_def)

lemma length_read_into: "length (read_into n f) = n"
  by (simp add: read_into_def)

lemma image_start_bounds:
  assumes "unat p + unat z < 0x40000"
  shows "unat p + unat z < unat (image_start p z)" "unat (image_start p z) \<le> unat p + unat z + 0x110"
  using assms div_times_less_eq_dividend [of "unat p + unat z" 16]
      dividend_less_div_times [of 16 "unat p + unat z"] by (simp_all add: image_start_value)

lemma loader_fits_zone:
  assumes "loader_fits bl crom p z"
  shows "unat p + unat z < unat (image_start p z)" "unat (image_start p z) + 20 + length crom + 512 \<le> 0x40000"
    "36 \<le> unat z" "0x44 \<le> unat p"
  using assms image_start_bounds [of p z] by (auto simp: loader_fits_def)

lemma romcopy_loaderimage:
  assumes fits: "loader_fits bl crom p z"
  shows "\<exists>l1. pokes top_rom (read_into 0x40000 bl) = Some l1 \<and> length l1 = 0x40000 \<and>
    peek32 0x40 l1 = Some p \<and>
    length (put 0x40 (replicate 4 0) l1) = 0x40000 \<and>
    Size_ramcopy (load_struct (slice (unat p) 36 (put 0x40 (replicate 4 0) l1))) = z \<and>
    length (Checksum (load_struct (slice (unat p) 36 (put 0x40 (replicate 4 0) l1)))) = 20"
proof -
  let ?b = "read_into 0x40000 bl"
  obtain l1 where l1: "pokes top_rom ?b = Some l1" "length l1 = 0x40000"
    "\<forall>o' n. o' + n \<le> 0x3fe00 \<longrightarrow> slice o' n l1 = slice o' n ?b"
    using pokes_above [of top_rom "0x3fe00" ?b] top_rom_above by (auto simp: length_read_into)
  have b: "peek32 0x40 ?b = Some p" "peek32 (unat p + 20) ?b = Some z" "0x44 \<le> unat p"
    "unat p + 36 \<le> 0x3fe00"
    using fits loader_fits_zone [OF fits] by (auto simp: loader_fits_def)
  let ?l = "put 0x40 (replicate 4 0) l1"
  have len: "length ?l = 0x40000" using l1 by (simp add: slice_simps)
  have "Size_ramcopy (load_struct (slice (unat p) 36 ?l)) = word32 (slice (unat p + 20) 4 ?l)"
    using len b by (simp add: load_struct_def word32_drop slice_simps slice_slice)
  also have "\<dots> = z" using b l1 len by (simp add: peek32_def slice_simps length_read_into)
  finally have "Size_ramcopy (load_struct (slice (unat p) 36 ?l)) = z" .
  moreover have "peek32 0x40 l1 = Some p" using b l1 by (simp add: peek32_def slice_simps length_read_into)
  moreover have "length (Checksum (load_struct (slice (unat p) 36 ?l))) = 20"
    using len b by (simp add: load_struct_def slice_simps)
  ultimately show ?thesis using l1 len by blast
qed

text \<open>What the two images hold before they are identified.\<close>

lemma flash256_contents:
  assumes "length f = 0x40000" "sealed_loader f pos z start len ty" "pos + unat z < s" "pos + 36 < s" "20 \<le> unat z"
    and "s + 20 + length crom + 512 \<le> 0x40000"
  defines "f3 \<equiv> put s (sha1_spec crom) (put (s + 20) crom
     (put (s + 20 + length crom) (replicate (0x40000 - (s + 20 + length crom) - 512) 0xff) f))"
  shows "length f3 = 0x40000" "sealed_loader f3 pos z start len ty" "sealed_kernel f3 s crom"
proof -
  let ?f1 = "put (s + 20 + length crom) (replicate (0x40000 - (s + 20 + length crom) - 512) 0xff) f"
  have l1: "length ?f1 = 0x40000" using assms by (simp add: slice_simps)
  show "length f3 = 0x40000" using assms l1 by (simp add: slice_simps)
  show "sealed_loader f3 pos z start len ty"
    by (rule sealed_loader_cong [of 0 s f3 f]) (use assms l1 in \<open>auto simp: slice_simps\<close>)
  have "slice (s + 20) (length crom) (put s (sha1_spec crom) (put (s + 20) crom ?f1)) = crom"
    using assms l1 by (simp add: slice_put_above slice_put_same length_put)
  moreover have "slice s (length (sha1_spec crom)) (put s (sha1_spec crom) (put (s + 20) crom ?f1)) = sha1_spec crom"
    using assms l1 by (intro slice_put_same) (simp add: length_put)
  ultimately show "sealed_kernel f3 s crom" by (simp add: sealed_kernel_def f3_def)
qed

lemma flash1024_contents:
  assumes "length g = 0x100000" "sealed_loader g pos z start len ty" "pos + unat z < s" "pos + 36 < s" "20 \<le> unat z"
    and "s + 20 + length crom + 512 \<le> 0x40000"
  defines "g1 \<equiv> put s (replicate (0x40000 - s - 512) 0xff) g"
  defines "g3 \<equiv> put 0x40000 (replicate 0x80000 0xff) (put 0xc0000 (slice 0 0x40000 g1) g1)"
  defines "g4 \<equiv> put (s + 20 + 0x80000) crom (put (s + 0x80000) (sha1_spec crom)
     (put (s + 20 + 0x40000) crom (put (s + 0x40000) (sha1_spec crom) g3)))"
  shows "length g3 = 0x100000" "length g4 = 0x100000" "sealed_loader (slice 0xc0000 0x40000 g4) pos z start len ty"
    "sealed_kernel (slice 0x40000 0x40000 g4) s crom" "sealed_kernel (slice 0x80000 0x40000 g4) s crom"
proof -
  have l1: "length g1 = 0x100000" using assms(1,6) by (simp add: g1_def slice_simps)
  have lb: "length (slice 0 0x40000 g1) = 0x40000" using l1 by (simp add: slice_simps)
  show l3: "length g3 = 0x100000" using l1 lb by (simp add: g3_def slice_simps)
  show l4: "length g4 = 0x100000" using l3 assms(6) by (simp add: g4_def slice_simps)
  have "slice 0xc0000 0x40000 g4 = slice 0xc0000 0x40000 g3" using l3 assms(6) by (simp add: g4_def slice_simps)
  also have "\<dots> = slice 0xc0000 0x40000 (put 0xc0000 (slice 0 0x40000 g1) g1)"
    using l1 lb by (simp add: g3_def slice_simps)
  also have "\<dots> = slice 0 0x40000 g1"
    using slice_put_same [of "0xc0000" "slice 0 0x40000 g1" g1] l1 lb by simp
  finally have bank3: "slice 0xc0000 0x40000 g4 = slice 0 0x40000 g1" .
  show "sealed_loader (slice 0xc0000 0x40000 g4) pos z start len ty"
    unfolding bank3
    by (rule sealed_loader_cong [of 0 s _ g]) (use assms in \<open>auto simp: slice_slice g1_def slice_simps\<close>)
  have "slice (s + 0x40000) (length (sha1_spec crom)) g4 = sha1_spec crom"
    using l3 assms(6) by (simp add: g4_def slice_put_below slice_put_whole length_put)
  moreover have "slice (s + 20 + 0x40000) (length crom) g4 = crom"
    using l3 assms(6) by (simp add: g4_def slice_put_below slice_put_whole length_put)
  ultimately show "sealed_kernel (slice 0x40000 0x40000 g4) s crom"
    using assms(6) by (simp add: sealed_kernel_def slice_slice add_ac)
  have "slice (s + 0x80000) (length (sha1_spec crom)) g4 = sha1_spec crom"
    using l3 assms(6) by (simp add: g4_def slice_put_below slice_put_whole length_put)
  moreover have "slice (s + 20 + 0x80000) (length crom) g4 = crom"
    using l3 assms(6) by (simp add: g4_def slice_put_same length_put)
  ultimately show "sealed_kernel (slice 0x80000 0x40000 g4) s crom"
    using assms(6) by (simp add: sealed_kernel_def slice_slice add_ac)
qed

lemma unat_gap:
  "unat w + 512 \<le> 0x40000 \<Longrightarrow> unat (0x40000 - w - 512 :: u32) = 0x40000 - unat w - 512"
  by (simp add: unat_sub_if')

lemma loader_fits_empty: "loader_fits bl crom p z \<Longrightarrow> loader_fits bl [] p z"
  by (simp add: loader_fits_def)

text \<open>The first half of \<open>romcopy\<close>: the loader is prepared and sealed for both images.\<close>

lemma romcopy_seals:
  assumes fits: "loader_fits bl [] p z" and ctx: "length (Message_Block ctx) = 64"
  defines "start \<equiv> image_start p z" and "pos \<equiv> unat p"
  shows "\<exists>l1 l f g. pokes top_rom (read_into (256 * KB) bl) = Some l1 \<and> peek32 0x40 l1 = Some p \<and>
     fill 0x40 0 4 l1 = Some l \<and> peek pos 36 l = Some (slice pos 36 l) \<and>
     Size_ramcopy (load_struct (slice pos 36 l)) = z \<and>
     seal_loader ctx pos ((load_struct (slice pos 36 l))\<lparr>compressed_image_start := start,
        compressed_image_size := len, Biossize_type := 0\<rparr>) l = Some f \<and>
     seal_loader ctx pos ((load_struct (slice pos 36 l))\<lparr>compressed_image_start := start,
        compressed_image_size := len, Biossize_type := 1\<rparr>) (l @ replicate (768 * KB) 0) = Some g \<and>
     length f = 0x40000 \<and> length g = 0x100000 \<and>
     sealed_loader f pos z start len 0 \<and> sealed_loader g pos z start len 1"
proof -
  note zone = loader_fits_zone [OF fits, folded start_def pos_def]
  obtain l1 where l1: "pokes top_rom (read_into 0x40000 bl) = Some l1" "length l1 = 0x40000" "peek32 0x40 l1 = Some p"
    and l: "length (put 0x40 (replicate 4 0) l1) = 0x40000"
    "Size_ramcopy (load_struct (slice pos 36 (put 0x40 (replicate 4 0) l1))) = z"
    "length (Checksum (load_struct (slice pos 36 (put 0x40 (replicate 4 0) l1)))) = 20"
    unfolding pos_def using romcopy_loaderimage [OF fits] by blast
  define l where "l = put 0x40 (replicate 4 0) l1"
  define bs where "bs = (load_struct (slice pos 36 l))\<lparr>compressed_image_start := start, compressed_image_size := len\<rparr>"
  note l = l [folded l_def]
  have bs: "Size_ramcopy bs = z" "length (Checksum bs) = 20" using l by (simp_all add: bs_def)
  obtain f where f: "seal_loader ctx pos (bs\<lparr>Biossize_type := 0\<rparr>) l = Some f" "length f = 0x40000"
    "sealed_loader f pos z start len 0"
    using seal_loader_result [of l "0x40000" "bs\<lparr>Biossize_type := 0\<rparr>" "unat z" pos ctx] l bs zone ctx
    by (auto simp: bs_def)
  obtain g where g: "seal_loader ctx pos (bs\<lparr>Biossize_type := 1\<rparr>) (l @ replicate 0xc0000 0) = Some g"
    "length g = 0x100000" "sealed_loader g pos z start len 1"
    using seal_loader_result [of "l @ replicate 0xc0000 0" "0x100000" "bs\<lparr>Biossize_type := 1\<rparr>" "unat z" pos ctx]
      l bs zone ctx by (auto simp: bs_def)
  have "pokes top_rom (read_into (256 * KB) bl) = Some l1" "fill 0x40 0 4 l1 = Some l"
    "peek pos 36 l = Some (slice pos 36 l)"
    using l1(1,2) l zone by (simp_all add: KB_def slice_simps l_def)
  then show ?thesis using f g l1(3) l(2) by (intro exI [of _ l1] exI [of _ l] exI [of _ f] exI [of _ g])
      (simp add: bs_def KB_def)
qed

lemma romcopy_images_result:
  assumes fits: "loader_fits bl crom p z"
    and ctx: "length (Message_Block ctx) = 64" "length (md5_buffer md5ctx) = 64"
  defines "s \<equiv> unat (image_start p z)"
  shows "\<exists>f256 f1024. romcopy_images ctx md5ctx bl crom = Some (f256, f1024) \<and>
     length f256 = 0x40000 \<and> length f1024 = 0x100000 \<and>
     sealed_loader f256 (unat p) z (image_start p z) (of_nat (length crom)) 0 \<and>
     sealed_kernel f256 s crom \<and>
     sealed_loader (slice 0xc0000 0x40000 f1024) (unat p) z (image_start p z) (of_nat (length crom)) 1 \<and>
     sealed_kernel (slice 0x40000 0x40000 f1024) s crom \<and>
     sealed_kernel (slice 0x80000 0x40000 f1024) s crom \<and>
     md5_identified f256 \<and> md5_identified f1024"
proof -
  let ?n = "length crom" and ?pos = "unat p" and ?start = "image_start p z" and ?len = "of_nat (length crom) :: u32"
  note zone = loader_fits_zone [OF fits, folded s_def]
  have s: "?pos + unat z < s" "s + 20 + ?n + 512 \<le> 0x40000" using zone by auto
  have n: "unat ?len = ?n" using zone by (simp add: unat_of_nat take_bit_nat_eq_self)
  have fill1: "unat (0x40000 - ?start - 512) = 0x40000 - s - 512"
    unfolding s_def using s(2) by (intro unat_gap) (simp add: s_def)
  have "unat (?start + 20 + ?len) = s + 20 + ?n"
    using s n by (simp add: s_def unat_word_ariths)
  then have fill2: "unat (0x40000 - (?start + 20 + ?len) - 512) = 0x40000 - (s + 20 + ?n) - 512"
    using unat_gap [of "?start + 20 + ?len"] s(2) by simp
  obtain l1 l f g where l_steps: "pokes top_rom (read_into (256 * KB) bl) = Some l1" "peek32 0x40 l1 = Some p"
    "fill 0x40 0 4 l1 = Some l" "peek ?pos 36 l = Some (slice ?pos 36 l)"
    "Size_ramcopy (load_struct (slice ?pos 36 l)) = z"
    and seals: "seal_loader ctx ?pos ((load_struct (slice ?pos 36 l))\<lparr>compressed_image_start := ?start,
        compressed_image_size := ?len, Biossize_type := 0\<rparr>) l = Some f"
    "seal_loader ctx ?pos ((load_struct (slice ?pos 36 l))\<lparr>compressed_image_start := ?start,
        compressed_image_size := ?len, Biossize_type := 1\<rparr>) (l @ replicate (768 * KB) 0) = Some g"
    and f: "length f = 0x40000" "sealed_loader f ?pos z ?start ?len 0"
    and g: "length g = 0x100000" "sealed_loader g ?pos z ?start ?len 1"
    using romcopy_seals [OF loader_fits_empty [OF fits] ctx(1), of ?len] by blast
  define f3 where "f3 = put s (sha1_spec crom) (put (s + 20) crom
     (put (s + 20 + ?n) (replicate (0x40000 - (s + 20 + ?n) - 512) 0xff) f))"
  define g1 where "g1 = put s (replicate (0x40000 - s - 512) 0xff) g"
  define g3 where "g3 = put 0x40000 (replicate 0x80000 0xff) (put 0xc0000 (slice 0 0x40000 g1) g1)"
  define g4 where "g4 = put (s + 20 + 0x80000) crom (put (s + 0x80000) (sha1_spec crom)
     (put (s + 20 + 0x40000) crom (put (s + 0x40000) (sha1_spec crom) g3)))"
  have c: "?pos + 36 < s" "20 \<le> unat z" using s zone by auto
  note f3 = flash256_contents [OF f s(1) c s(2), folded f3_def]
  note g4 = flash1024_contents [OF g s(1) c s(2), folded g1_def, folded g3_def, folded g4_def]
  obtain f4 where f4: "writeBiosIdentifier md5ctx f3 0x40000 = Some f4" "length f4 = 0x40000"
    "\<forall>o' n. o' + n \<le> 0x3ffc0 \<longrightarrow> slice o' n f4 = slice o' n f3" "md5_identified f4"
    using writeBiosIdentifier_result [OF f3(1) _ _ ctx(2)] by (auto simp: md5_identified_def)
  obtain g5 where g5: "writeBiosIdentifier md5ctx g4 0x100000 = Some g5" "length g5 = 0x100000"
    "\<forall>o' n. o' + n \<le> 0xfffc0 \<longrightarrow> slice o' n g5 = slice o' n g4" "md5_identified g5"
    using writeBiosIdentifier_result [OF g4(2) _ _ ctx(2)] by (auto simp: md5_identified_def)
  let ?crombuf = "put 0 crom (replicate 0x100000 0)"
  have crom: "poke 0 (take (unat ?len) crom) (replicate (1024 * KB) 0) = Some ?crombuf" "peek 0 (unat ?len) ?crombuf = Some crom"
    using zone n by (simp_all add: KB_def slice_simps)
  have sum: "sha1_sum ctx crom = Some (sha1_spec crom)" using zone ctx(1) by (intro sha1_sum_spec) simp_all
  let ?f1 = "put (s + 20 + ?n) (replicate (0x40000 - (s + 20 + ?n) - 512) 0xff) f"
  have len1: "length ?f1 = 0x40000" "length g1 = 0x100000" using f(1) g(1) s by (simp_all add: g1_def slice_simps)
  have f_steps: "fill (s + 20 + ?n) 0xff (unat (0x40000 - (?start + 20 + ?len) - 512)) f = Some ?f1"
    "poke (s + 20) crom ?f1 = Some (put (s + 20) crom ?f1)"
    "peek (s + 20) ?n (put (s + 20) crom ?f1) = Some crom"
    "poke s (sha1_spec crom) (put (s + 20) crom ?f1) = Some f3"
    using len1 f(1) s unfolding fill2 f3_def by (simp_all add: slice_simps)
  have g_steps: "fill s 0xff (unat (0x40000 - ?start - 512)) g = Some g1"
    "peek 0 (256 * KB) g1 = Some (slice 0 0x40000 g1)"
    "poke (3 * 256 * KB) (slice 0 0x40000 g1) g1 = Some (put 0xc0000 (slice 0 0x40000 g1) g1)"
    "fill (256 * KB) 0xff (512 * KB) (put 0xc0000 (slice 0 0x40000 g1) g1) = Some g3"
    using len1 g(1) s unfolding fill1 g1_def [symmetric] by (simp_all add: KB_def slice_simps g1_def g3_def)
  have g_last: "pokes [(s + 256 * KB, sha1_spec crom), (s + 20 + 256 * KB, crom),
      (s + 2 * 256 * KB, sha1_spec crom), (s + 20 + 2 * 256 * KB, crom)] g3 = Some g4"
    using g4(1) s by (simp add: KB_def slice_simps g4_def)
  have bios: "writeBiosIdentifier md5ctx f3 (256 * KB) = Some f4" "writeBiosIdentifier md5ctx g4 (1024 * KB) = Some g5"
    using f4(1) g5(1) by (simp_all add: KB_def)
  have "romcopy_images ctx md5ctx bl crom = Some (f4, g5)"
    unfolding romcopy_images_def Let_def
    by (simp only: crom l_steps seals g_steps s_def [symmetric] f_steps sum g_last bios n
        bind.simps
        crom [unfolded n])
  moreover have "sealed_loader f4 ?pos z ?start ?len 0"
    by (rule sealed_loader_cong [of 0 "0x3ffc0" f4 f3]) (use f4(3) f3(2) s zone in auto)
  moreover have "sealed_kernel f4 s crom"
    using f3(3) f4(3) s(2) by (simp add: sealed_kernel_def)
  moreover have "sealed_loader (slice 0xc0000 0x40000 g5) ?pos z ?start ?len 1"
    by (rule sealed_loader_cong [of 0 "0x3ffc0" _ "slice 0xc0000 0x40000 g4"])
      (use g5(3) g4(3) s zone in \<open>auto simp: slice_slice\<close>)
  moreover have "sealed_kernel (slice 0x40000 0x40000 g5) s crom"
    using g4(4) g5(3) by (simp add: sealed_kernel_def)
  moreover have "sealed_kernel (slice 0x80000 0x40000 g5) s crom"
    using g4(5) g5(3) by (simp add: sealed_kernel_def)
  ultimately show ?thesis using f4(2,4) g5(2,4) by blast
qed

text \<open>An image that does not fit makes the second fill run off its buffer: its length wraps.\<close>

lemma unat_gap_wrapped:
  assumes "0x40000 < unat w + 512" "unat w < 2 ^ 31"
  shows "0x40000 < unat w + unat (0x40000 - w - 512 :: u32)"
  using assms by (simp add: unat_sub_if')

lemma romcopy_images_too_large:
  assumes fits: "loader_fits bl [] p z" and ctx: "length (Message_Block ctx) = 64"
    and large: "0x40000 < unat (image_start p z) + 20 + length crom + 512" "length crom < 2 ^ 32"
  shows "romcopy_images ctx md5ctx bl crom = None"
proof (cases "length crom \<le> 0x100000")
  case False
  then have "poke 0 (take (unat (of_nat (length crom) :: u32)) crom) (replicate (1024 * KB) 0) = None"
    using large(2) by (simp add: poke_def KB_def unat_of_nat take_bit_nat_eq_self)
  then show ?thesis by (simp add: romcopy_images_def)
next
  case True
  let ?n = "length crom" and ?pos = "unat p" and ?start = "image_start p z" and ?len = "of_nat (length crom) :: u32"
  define s where "s = unat ?start"
  note zone = loader_fits_zone [OF fits, folded s_def]
  have n: "unat ?len = ?n" using True by (simp add: unat_of_nat take_bit_nat_eq_self)
  have fill1: "unat (0x40000 - ?start - 512) = 0x40000 - s - 512"
    unfolding s_def using zone(2) by (intro unat_gap) (simp add: s_def)
  have total: "unat (?start + 20 + ?len) = s + 20 + ?n"
    using zone n True by (simp add: s_def unat_word_ariths)
  obtain l1 l f g where l_steps: "pokes top_rom (read_into (256 * KB) bl) = Some l1" "peek32 0x40 l1 = Some p"
    "fill 0x40 0 4 l1 = Some l" "peek ?pos 36 l = Some (slice ?pos 36 l)"
    "Size_ramcopy (load_struct (slice ?pos 36 l)) = z"
    and seals: "seal_loader ctx ?pos ((load_struct (slice ?pos 36 l))\<lparr>compressed_image_start := ?start,
        compressed_image_size := ?len, Biossize_type := 0\<rparr>) l = Some f"
    "seal_loader ctx ?pos ((load_struct (slice ?pos 36 l))\<lparr>compressed_image_start := ?start,
        compressed_image_size := ?len, Biossize_type := 1\<rparr>) (l @ replicate (768 * KB) 0) = Some g"
    and f: "length f = 0x40000" "sealed_loader f ?pos z ?start ?len 0"
    and g: "length g = 0x100000" "sealed_loader g ?pos z ?start ?len 1"
    using romcopy_seals [OF fits ctx, of ?len] by blast
  have "poke 0 (take (unat ?len) crom) (replicate (1024 * KB) 0) = Some (put 0 crom (replicate (1024 * KB) 0))"
    using True n by (simp add: KB_def slice_simps)
  moreover define g1 where "g1 = put s (replicate (0x40000 - s - 512) 0xff) g"
  moreover have "length g1 = 0x100000" using g(1) zone by (simp add: g1_def slice_simps)
  then have "peek 0 (256 * KB) g1 = Some (slice 0 0x40000 g1)"
    "poke (3 * 256 * KB) (slice 0 0x40000 g1) g1 = Some (put 0xc0000 (slice 0 0x40000 g1) g1)"
    by (simp_all add: KB_def slice_simps)
  moreover have "fill s 0xff (unat (0x40000 - ?start - 512)) g = Some g1"
    using g(1) zone unfolding fill1 by (simp add: slice_simps g1_def)
  moreover have "fill (s + 20 + ?n) 0xff (unat (0x40000 - (?start + 20 + ?len) - 512)) f = None"
    using unat_gap_wrapped [of "?start + 20 + ?len"] total large(1) True zone f(1)
    by (simp add: fill_def poke_def s_def)
  ultimately show ?thesis
    unfolding romcopy_images_def Let_def by (simp add: l_steps seals s_def [symmetric] n)
qed

section \<open>Properties\<close>

text \<open>A loader of 36 bytes at 0x44, just its header.\<close>

definition example_loader :: "u8 list" where
  "example_loader = replicate 0x40 0 @ bytes32 0x44 @ replicate 20 0 @ bytes32 36 @ replicate 12 0"

lemma example_loader_fits: "loader_fits example_loader crom 0x44 36 \<longleftrightarrow> length crom + 0x384 \<le> 0x40000"
proof -
  have "peek32 0x40 (read_into 0x40000 example_loader) = Some 0x44"
    "peek32 0x58 (read_into 0x40000 example_loader) = Some 36"
    by (simp_all add: peek32_def peek_def read_into_def example_loader_def)
  moreover have "unat (image_start 0x44 36) = 0x170" by (simp add: image_start_value)
  ultimately show ?thesis by (auto simp: loader_fits_def)
qed

text \<open>
  C28. For a loader whose header is in place, the image builder makes both images, of exactly
  256 KB and 1 MB, when the kernel image fits: the loader is sealed with its own digest in the
  256 KB image and in bank 3 of the other, the kernel image behind its digest in the 256 KB
  image and in the banks 1 and 2, and both images end with the MD5 of the rest.
\<close>

theorem romcopy_builds_sealed_images:
  assumes "loader_fits bl crom p z" "length (Message_Block ctx) = 64" "length (md5_buffer md5ctx) = 64"
  shows "\<exists>f256 f1024. romcopy ctx md5ctx (Some bl) (Some crom) = Some (Inr (f256, f1024)) \<and>
     length f256 = 0x40000 \<and> length f1024 = 0x100000 \<and>
     sealed_loader f256 (unat p) z (image_start p z) (of_nat (length crom)) 0 \<and>
     sealed_kernel f256 (unat (image_start p z)) crom \<and>
     sealed_loader (slice 0xc0000 0x40000 f1024) (unat p) z (image_start p z) (of_nat (length crom)) 1 \<and>
     (\<forall>bank \<in> {1, 2}. sealed_kernel (slice (bank * 0x40000) 0x40000 f1024) (unat (image_start p z)) crom) \<and>
     md5_identified f256 \<and> md5_identified f1024"
  using romcopy_images_result [OF assms] by (auto simp: romcopy_def)

definition example_md5_context :: MD5_CTX where
  "example_md5_context = \<lparr>md5_state = [], md5_count = (1, 2), md5_buffer = replicate 64 0xee\<rparr>"

theorem romcopy_builds_sealed_images_witness:
  "\<exists>f256 f1024. romcopy sha1_example_context example_md5_context (Some example_loader) (Some [1, 2, 3]) =
     Some (Inr (f256, f1024)) \<and> length f256 = 0x40000 \<and> sealed_kernel f256 0x170 [1, 2, 3] \<and> md5_identified f256"
proof -
  have "unat (image_start 0x44 36) = 0x170" by (simp add: image_start_value)
  then show ?thesis
    using romcopy_builds_sealed_images [of example_loader "[1, 2, 3]" "0x44" 36 sha1_example_context example_md5_context]
    by (auto simp: example_loader_fits example_md5_context_def sha1_example_context_def)
qed

text \<open>
  C31. The image builder leaves its buffers exactly when the kernel image does not fit: there is
  no check of its size, and the length of the second fill is an unsigned difference.
\<close>

theorem romcopy_overruns_iff_too_large:
  assumes "loader_fits bl [] p z" "length (Message_Block ctx) = 64" "length (md5_buffer md5ctx) = 64"
    and "length crom < 2 ^ 32"
  shows "romcopy ctx md5ctx (Some bl) (Some crom) = None \<longleftrightarrow>
    0x40000 < unat (image_start p z) + 20 + length crom + 512"
proof (cases "0x40000 < unat (image_start p z) + 20 + length crom + 512")
  case True
  then show ?thesis using romcopy_images_too_large [OF assms(1,2)] assms(4) by (simp add: romcopy_def)
next
  case False
  then have "loader_fits bl crom p z" using assms(1) by (simp add: loader_fits_def)
  from romcopy_images_result [OF this assms(2,3)]
  obtain f256 f1024 where "romcopy_images ctx md5ctx bl crom = Some (f256, f1024)" by blast
  then show ?thesis using False by (simp add: romcopy_def)
qed

theorem romcopy_overruns_iff_too_large_witness:
  "romcopy sha1_example_context example_md5_context (Some example_loader) (Some (replicate 0x3fc7d 0)) = None \<and>
   romcopy sha1_example_context example_md5_context (Some example_loader) (Some (replicate 0x3fc7c 0)) \<noteq> None"
proof -
  have "unat (image_start 0x44 36) = 0x170" by (simp add: image_start_value)
  then show ?thesis
    using romcopy_overruns_iff_too_large [of example_loader "0x44" 36 sha1_example_context example_md5_context]
    by (simp add: example_loader_fits example_md5_context_def sha1_example_context_def)
qed

end
