(* ===== verification/BootRom.thy ===== *)
theory BootRom
  imports SmBus ImageBld
begin

text \<open>
  The second boot loader, which runs from the flash: the answer to the PIC's challenge
  (\<open>boot_rom/2bPicResponseAction.c\<close>) and the search for a valid kernel image
  (\<open>boot_rom/2bBootStartBios.c\<close>).

  Ports are those of the SMBus theory, memory is flat. The unpacking of the kernel image
  (\<open>lib/gzip/inflate.c\<close>) is the argument \<open>gunzip\<close>, which may change the memory in any way. The
  endless loops at the end of the loader are values of \<open>outcome\<close>.
\<close>

section \<open>The code\<close>

subsection \<open>SMBus transfers of the loader\<close>

fun byte_retries :: "nat \<Rightarrow> u8 \<Rightarrow> u8 \<Rightarrow> iost \<Rightarrow> (u32 \<times> iost) option" where
  "byte_retries 0 addr data s = Some (ERR_I2C_ERROR_BUS, s)"
| "byte_retries (Suc n) addr data s =
     (let s1 = IoOutputByte (I2C_IO_BASE + 4) (push_bit 1 addr OR 1) s;
          s2 = IoOutputByte (I2C_IO_BASE + 8) data s1;
          s3 = IoOutputWord I2C_IO_BASE 0xffff s2
      in case poll_status (IoOutputByte (I2C_IO_BASE + 2) 0x0a s3) of None \<Rightarrow> None
         | Some (b, s4) \<Rightarrow>
             if b AND 0x10 = 0 then byte_retries n addr data s4
             else map_option (\<lambda>(v, s5). (ucast v, s5)) (IoInputByte (I2C_IO_BASE + 6) s4))"

definition TransmitByteGetReturn_2bl :: "u8 \<Rightarrow> u8 \<Rightarrow> iost \<Rightarrow> (u32 \<times> iost) option" where
  "TransmitByteGetReturn_2bl addr data s =
     (case spin_busy s of None \<Rightarrow> None | Some s1 \<Rightarrow> byte_retries 400 addr data s1)"

fun word_retries :: "nat \<Rightarrow> u8 \<Rightarrow> u16 \<Rightarrow> iost \<Rightarrow> (u32 \<times> iost) option" where
  "word_retries 0 addr w s = Some (ERR_I2C_ERROR_BUS, s)"
| "word_retries (Suc n) addr w s =
     (let s1 = IoOutputByte (I2C_IO_BASE + 4) (push_bit 1 addr OR 0) s;
          s2 = IoOutputByte (I2C_IO_BASE + 8) (ucast (drop_bit 8 w)) s1;
          s3 = IoOutputByte (I2C_IO_BASE + 6) (ucast w) s2;
          s4 = IoOutputWord I2C_IO_BASE 0xffff s3
      in case poll_status (IoOutputByte (I2C_IO_BASE + 2) 0x1a s4) of None \<Rightarrow> None
         | Some (b, s5) \<Rightarrow>
             if b AND 0x10 = 0 then word_retries n addr w s5 else Some (ERR_SUCCESS, s5))"

definition TransmitWord_2bl :: "u8 \<Rightarrow> u16 \<Rightarrow> iost \<Rightarrow> (u32 \<times> iost) option" where
  "TransmitWord_2bl addr w s =
     (case spin_busy s of None \<Rightarrow> None | Some s1 \<Rightarrow> word_retries 400 addr w s1)"

subsection \<open>The PIC's challenge\<close>

text \<open>
  The operands of the shifts and sums are promoted to \<open>int\<close>, the results cut to a byte:
  the same as byte arithmetic, except that a shift to the right sees the whole byte.
\<close>

definition pic_round :: "u8 \<Rightarrow> u8 \<Rightarrow> u8 \<times> u8 \<Rightarrow> u8 \<times> u8" where
  "pic_round b3 b4 b12 =
     (case b12 of (b1, b2) \<Rightarrow>
        let b1 = b1 + (b2 XOR b3); b2 = b2 + (b1 XOR b4) in (b1, b2))"

definition BootPicManipulation :: "u8 \<Rightarrow> u8 \<Rightarrow> u8 \<Rightarrow> u8 \<Rightarrow> u16" where
  "BootPicManipulation bC bD bE bF =
     (let b3 = push_bit 2 bC XOR (bD + 0x39) XOR drop_bit 2 bE XOR (bF + 0x63);
          b4 = (bC + 0x0b) XOR drop_bit 2 bD XOR (bE + 0x1b);
          (b1, b2) = (pic_round b3 b4 ^^ 4) (0x33, 0xed)
      in push_bit 8 (ucast b2) OR ucast b1)"

text \<open>A result with bit 31 set is negative and ends the exchange.\<close>

fun read_challenge :: "u8 list \<Rightarrow> u8 list \<Rightarrow> iost \<Rightarrow> ((u32 + u8 list) \<times> iost) option" where
  "read_challenge [] bs s = Some (Inr bs, s)"
| "read_challenge (r # rs) bs s =
     (case TransmitByteGetReturn_2bl 0x10 r s of None \<Rightarrow> None
      | Some (n, s1) \<Rightarrow>
          if bit n 31 then Some (Inl n, s1) else read_challenge rs (bs @ [ucast n]) s1)"

definition BootPerformPicChallengeResponseAction :: "iost \<Rightarrow> (u32 \<times> iost) option" where
  "BootPerformPicChallengeResponseAction s =
     (case read_challenge [0x1c, 0x1d, 0x1e, 0x1f] [] s of None \<Rightarrow> None
      | Some (Inl n, s1) \<Rightarrow> Some (n, s1)
      | Some (Inr bs, s1) \<Rightarrow>
          (let w = BootPicManipulation (bs ! 0) (bs ! 1) (bs ! 2) (bs ! 3)
           in do { (_, s2) \<leftarrow> TransmitWord_2bl 0x10 (0x2000 OR (w AND 0xff)) s1;
                   (_, s3) \<leftarrow> TransmitWord_2bl 0x10 (0x2100 OR drop_bit 8 w) s2;
                   Some (ERR_SUCCESS, s3) }))"

definition SetFrontpanelLed_2bl :: "u8 \<Rightarrow> iost \<Rightarrow> (u32 \<times> iost) option" where
  "SetFrontpanelLed_2bl b s =
     do { (_, s1) \<leftarrow> TransmitWord_2bl 0x10 (0x800 OR ucast b) s;
          (_, s2) \<leftarrow> TransmitWord_2bl 0x10 0x701 s1;
          Some (ERR_SUCCESS, s2) }"

definition setLED_2bl :: "u8 list \<Rightarrow> iost \<Rightarrow> iost option" where
  "setLED_2bl pattern s = map_option snd (SetFrontpanelLed_2bl (led_value pattern) s)"

subsection \<open>PCI configuration\<close>

definition pci_address :: "u32 \<Rightarrow> u32 \<Rightarrow> u32 \<Rightarrow> u32 \<Rightarrow> u32" where
  "pci_address bus dev func reg =
     0x80000000 OR push_bit 16 (bus AND 0xff) OR push_bit 11 (dev AND 0x1f)
       OR push_bit 8 (func AND 0x07) OR (reg AND 0xff)"

definition PciWriteDword :: "u32 \<Rightarrow> u32 \<Rightarrow> u32 \<Rightarrow> u32 \<Rightarrow> u32 \<Rightarrow> iost \<Rightarrow> iost" where
  "PciWriteDword bus dev func reg dw s =
     IoOutputDword 0xcfc dw (IoOutputDword 0xcf8 (pci_address bus dev func reg) s)"

definition PciReadDword :: "u32 \<Rightarrow> u32 \<Rightarrow> u32 \<Rightarrow> u32 \<Rightarrow> iost \<Rightarrow> (u32 \<times> iost) option" where
  "PciReadDword bus dev func reg s =
     IoInputDword 0xcfc (IoOutputDword 0xcf8 (pci_address bus dev func reg) s)"

definition BootAGPBUSInitialization :: "iost \<Rightarrow> iost option" where
  "BootAGPBUSInitialization s =
     do { (v, s1) \<leftarrow> PciReadDword 0 1 0 0x54 s;
          (w, s2) \<leftarrow> PciReadDword 0 0 0 0x64 (PciWriteDword 0 1 0 0x54 (v OR 0x88000000) s1);
          (temp, s3) \<leftarrow> PciReadDword 0 0 0 0x6C (PciWriteDword 0 0 0 0x64 (w OR 0x88000000) s2);
          Some (PciWriteDword 0 0 0 0x80 0x100
            (IoOutputDword 0xcfc temp (IoOutputDword 0xcfc (temp AND 0xFFFFFFFE) s3))) }"

subsection \<open>Loading the kernel image\<close>

definition PROGRAMM_Memory_2bl :: u32 where "PROGRAMM_Memory_2bl = 0x00100000"
definition CROMWELL_Memory_pos :: u32 where "CROMWELL_Memory_pos = 0x03A00000"
definition CROMWELL_compress_temploc :: u32 where "CROMWELL_compress_temploc = 0x02000000"

definition Buildinflash_Flash :: "u32 list" where
  "Buildinflash_Flash = [0xfff00000, 0xfff40000, 0xfff80000, 0xfffc0000]"

text \<open>The bank for an attempt: that of the attempt before unless the code names another.\<close>

definition next_bank :: "u32 \<Rightarrow> nat \<Rightarrow> nat \<Rightarrow> nat" where
  "next_bank ty loadretry flashbank =
     (if ty = 0 then 3
      else if ty = 1
      then if loadretry = 0 then 1 else if loadretry = 25 then 2
           else if loadretry = 50 then 0 else if loadretry = 75 then 3 else flashbank
      else flashbank)"

text \<open>One attempt: the image is copied, padded with 20 KB of zeros and hashed.\<close>

definition copy_image :: "nat \<Rightarrow> u32 \<Rightarrow> u32 \<Rightarrow> mem \<Rightarrow> u8 list \<times> mem" where
  "copy_image bank start len m =
     (let flash = Buildinflash_Flash ! bank + start;
          checksum = rd m flash 20;
          m1 = wr CROMWELL_compress_temploc (rd m (flash + 20) (unat len)) m
      in (checksum, wr (CROMWELL_compress_temploc + len) (replicate (20 * 1024) 0) m1))"

definition image_valid :: "SHA1Context \<Rightarrow> u8 list \<Rightarrow> u32 \<Rightarrow> mem \<Rightarrow> bool" where
  "image_valid ctx checksum len m =
     (sha1_sum ctx (rd m CROMWELL_compress_temploc (unat len)) = Some checksum)"

datatype outcome = BadLoader | NoImage | Started nat

text \<open>The words that tell Cromwell how it was loaded, behind the unpacked image.\<close>

definition leave_marks :: "nat \<Rightarrow> u32 \<Rightarrow> mem \<Rightarrow> mem" where
  "leave_marks bank ty m =
     wr (CROMWELL_Memory_pos + 0x2C) (bytes32 ty)
      (wr (CROMWELL_Memory_pos + 0x28) (bytes32 (of_nat (bank + 1)))
        (wr (CROMWELL_Memory_pos + 0x24) (bytes32 1)
          (wr (CROMWELL_Memory_pos + 0x20) (bytes32 1) m)))"

text \<open>The loop: \<open>n\<close> attempts are left of 100; the context keeps what the last hash left in it.\<close>

fun load_attempts :: "nat \<Rightarrow> (mem \<Rightarrow> u32 \<Rightarrow> mem) \<Rightarrow> SHA1Context \<Rightarrow> u32 \<Rightarrow> u32 \<Rightarrow> u32 \<Rightarrow> nat \<Rightarrow> mem \<Rightarrow> iost
    \<Rightarrow> (outcome \<times> mem \<times> iost) option" where
  "load_attempts 0 gunzip ctx ty start len bank m s = Some (NoImage, m, s)"
| "load_attempts (Suc n) gunzip ctx ty start len bank m s =
     (let bank' = next_bank ty (100 - Suc n) bank;
          (checksum, m1) = copy_image bank' start len m
      in if image_valid ctx checksum len m1
         then do { s1 \<leftarrow> setLED_2bl [0x72, 0x72, 0x72, 0x72] s;
                   Some (Started bank', leave_marks bank' ty (gunzip m1 len), s1) }
         else load_attempts n gunzip ctx ty start len bank' m1 s)"

text \<open>
  The loader: its own checksum, the PIC, the graphics and bus registers, the attempts; the LED
  turns orange at the end in either case.
\<close>

definition BootStartBiosLoader :: "(mem \<Rightarrow> u32 \<Rightarrow> mem) \<Rightarrow> SHA1Context \<Rightarrow> mem \<Rightarrow> iost \<Rightarrow> (outcome \<times> mem \<times> iost) option" where
  "BootStartBiosLoader gunzip ctx m s =
     (let hdr = load_struct (rd m PROGRAMM_Memory_2bl 36);
          len = unat (Size_ramcopy hdr - 20)
      in if sha1_sum ctx (rd m (PROGRAMM_Memory_2bl + 20) len) \<noteq> Some (Checksum hdr)
         then Some (BadLoader, m, s)
         else do {
           (_, s1) \<leftarrow> BootPerformPicChallengeResponseAction s;
           let m1 = wr 0xFD600800 (bytes32 0xf3c00000) m;
           s2 \<leftarrow> BootAGPBUSInitialization s1;
           let m2 = wr 0xFD100204 (bytes32 0x11448000) (wr 0xFD100200 (bytes32 0x03070103) m1);
           let s3 = PciWriteDword 0 0 0 0x84 0x7FFFFFF s2;
           (out, m3, s4) \<leftarrow> load_attempts 100 gunzip ctx (Biossize_type hdr)
             (compressed_image_start hdr) (compressed_image_size hdr) 3 m2 s3;
           s5 \<leftarrow> setLED_2bl [0x6f, 0x6f, 0x6f, 0x6f] s4;
           Some (out, m3, s5) })"

section \<open>The attempts\<close>

text \<open>The bank of an attempt, and when the image in a bank is valid.\<close>

definition bank_at :: "u32 \<Rightarrow> nat \<Rightarrow> nat" where
  "bank_at ty i = (if ty \<noteq> 1 then 3 else if i < 25 then 1 else if i < 50 then 2 else if i < 75 then 0 else 3)"

definition bank_address :: "nat \<Rightarrow> u32 \<Rightarrow> u32" where
  "bank_address bank start = Buildinflash_Flash ! bank + start"

definition bank_valid :: "mem \<Rightarrow> u32 \<Rightarrow> u32 \<Rightarrow> nat \<Rightarrow> bool" where
  "bank_valid m start len bank \<longleftrightarrow>
     rd m (bank_address bank start) 20 = sha1_spec (rd m (bank_address bank start + 20) (unat len))"

definition same_flash :: "mem \<Rightarrow> mem \<Rightarrow> bool" where
  "same_flash m m' \<longleftrightarrow> (\<forall>a. 0xfff00000 \<le> a \<longrightarrow> m' a = m a)"

definition in_bank :: "u32 \<Rightarrow> u32 \<Rightarrow> bool" where
  "in_bank start len \<longleftrightarrow> unat start + 20 + unat len \<le> 0x40000"

lemma next_bank_at:
  "i < 100 \<Longrightarrow> bank = (if i = 0 then 3 else bank_at ty (i - 1)) \<Longrightarrow> next_bank ty i bank = bank_at ty i"
  by (auto simp: next_bank_def bank_at_def)

lemma bank_at_less: "bank_at ty i < 4"
  by (simp add: bank_at_def)

lemma same_flash_refl [simp]: "same_flash m m"
  by (simp add: same_flash_def)

lemma same_flash_trans: "same_flash m m1 \<Longrightarrow> same_flash m1 m2 \<Longrightarrow> same_flash m m2"
  by (simp add: same_flash_def)

lemma same_flash_wr: "unat p + length bs \<le> 0xfff00000 \<Longrightarrow> same_flash m (wr p bs m)"
  by (auto simp: same_flash_def region_unat word_le_nat_alt intro!: wr_outside)

lemma bank_region:
  assumes "in_bank start len" "bank < 4" "off + n \<le> 20 + unat len" "a \<in> region (bank_address bank start + of_nat off) n"
  shows "0xfff00000 \<le> a"
proof -
  have base: "0xfff00000 \<le> unat (Buildinflash_Flash ! bank)" "unat (Buildinflash_Flash ! bank) + 0x40000 \<le> 2 ^ 32"
  proof -
    have "bank = 0 \<or> bank = 1 \<or> bank = 2 \<or> bank = 3" using assms(2) by linarith
    then show "0xfff00000 \<le> unat (Buildinflash_Flash ! bank)" "unat (Buildinflash_Flash ! bank) + 0x40000 \<le> 2 ^ 32"
      by (auto simp: Buildinflash_Flash_def)
  qed
  have sum: "unat (bank_address bank start + of_nat off) = unat (Buildinflash_Flash ! bank) + unat start + off"
    if "n > 0" using assms(1,3) base that
    by (simp add: bank_address_def in_bank_def unat_word_ariths unat_of_nat take_bit_nat_eq_self)
  show ?thesis
  proof (cases "n = 0")
    case False
    then have "unat (bank_address bank start + of_nat off) + n \<le> 2 ^ 32"
      using sum base assms(1,3) by (simp add: in_bank_def)
    then show ?thesis using assms(4) sum base False by (simp add: region_unat word_le_nat_alt)
  qed (use assms(4) in simp)
qed

lemma rd_bank:
  assumes "same_flash m m'" "in_bank start len" "bank < 4" "off + n \<le> 20 + unat len"
  shows "rd m' (bank_address bank start + of_nat off) n = rd m (bank_address bank start + of_nat off) n"
  using assms bank_region [OF assms(2-4)] by (intro rd_cong) (auto simp: same_flash_def)

lemma copy_image_result:
  assumes "in_bank start len" "bank < 4" "same_flash m0 m"
  shows "fst (copy_image bank start len m) = rd m0 (bank_address bank start) 20"
    "rd (snd (copy_image bank start len m)) CROMWELL_compress_temploc (unat len) =
       rd m0 (bank_address bank start + 20) (unat len)"
    "same_flash m0 (snd (copy_image bank start len m))"
proof -
  let ?a = "bank_address bank start"
  have r: "rd m ?a 20 = rd m0 ?a 20" "rd m (?a + 20) (unat len) = rd m0 (?a + 20) (unat len)"
    using rd_bank [OF assms(3,1,2), of 0 20] rd_bank [OF assms(3,1,2), of 20 "unat len"] by simp_all
  show "fst (copy_image bank start len m) = rd m0 ?a 20"
    using r by (simp add: copy_image_def Let_def bank_address_def)
  have len: "unat len \<le> 0x40000" using assms(1) by (simp add: in_bank_def)
  define m1 where "m1 = wr CROMWELL_compress_temploc (rd m (?a + 20) (unat len)) m"
  have m1: "snd (copy_image bank start len m) = wr (CROMWELL_compress_temploc + len) (replicate (20 * 1024) 0) m1"
    by (simp add: copy_image_def Let_def bank_address_def m1_def add.assoc)
  have t: "unat (CROMWELL_compress_temploc + len) = 0x02000000 + unat len"
    using len by (simp add: CROMWELL_compress_temploc_def unat_word_ariths)
  have "region CROMWELL_compress_temploc (unat len) \<inter> region (CROMWELL_compress_temploc + len) (20 * 1024) = {}"
    using len t by (subst (1 2) region_unat) (auto simp: CROMWELL_compress_temploc_def)
  then show "rd (snd (copy_image bank start len m)) CROMWELL_compress_temploc (unat len) = rd m0 (?a + 20) (unat len)"
    unfolding m1 using rd_wr [of "rd m (?a + 20) (unat len)"] len r by (simp add: rd_wr_other m1_def)
  have "same_flash m m1" unfolding m1_def
    using len by (intro same_flash_wr) (simp add: CROMWELL_compress_temploc_def)
  moreover have "same_flash m1 (snd (copy_image bank start len m))"
    unfolding m1 using len t by (intro same_flash_wr) simp
  ultimately show "same_flash m0 (snd (copy_image bank start len m))"
    using assms(3) same_flash_trans by blast
qed

lemma image_valid_result:
  assumes "in_bank start len" "bank < 4" "same_flash m0 m" "length (Message_Block ctx) = 64"
  shows "image_valid ctx (fst (copy_image bank start len m)) len (snd (copy_image bank start len m)) \<longleftrightarrow>
    bank_valid m0 start len bank"
proof -
  have "unat len \<le> 0x40000" using assms(1) by (simp add: in_bank_def)
  then show ?thesis
    using assms(4) by (auto simp: image_valid_def copy_image_result [OF assms(1-3)] sha1_sum_spec bank_valid_def)
qed

text \<open>What the attempts come to when the image in \<open>found\<close> is the first valid one.\<close>

definition attempts_end :: "(mem \<Rightarrow> u32 \<Rightarrow> mem) \<Rightarrow> mem \<Rightarrow> u32 \<Rightarrow> u32 \<Rightarrow> u32 \<Rightarrow> iost \<Rightarrow> nat option
    \<Rightarrow> (outcome \<times> mem \<times> iost) option \<Rightarrow> bool" where
  "attempts_end gunzip m0 ty start len s found r \<longleftrightarrow>
     (case found of
        None \<Rightarrow> (\<exists>m'. same_flash m0 m' \<and> r = Some (NoImage, m', s))
      | Some bank \<Rightarrow> (\<exists>m'. rd m' CROMWELL_compress_temploc (unat len) = rd m0 (bank_address bank start + 20) (unat len) \<and>
          r = map_option (\<lambda>s1. (Started bank, leave_marks bank ty (gunzip m' len), s1))
                (setLED_2bl [0x72, 0x72, 0x72, 0x72] s)))"

lemma load_attempts_from:
  assumes "in_bank start len" "length (Message_Block ctx) = 64"
  shows "n \<le> 100 \<Longrightarrow> same_flash m0 m \<Longrightarrow>
    bank = (if n = 100 then 3 else bank_at ty (100 - n - 1)) \<Longrightarrow>
    attempts_end gunzip m0 ty start len s (find (bank_valid m0 start len) (map (bank_at ty) [100 - n..<100]))
      (load_attempts n gunzip ctx ty start len bank m s)"
proof (induction n arbitrary: m bank)
  case 0
  then show ?case by (auto simp: attempts_end_def)
next
  case (Suc n)
  let ?i = "100 - Suc n"
  let ?b = "bank_at ty ?i"
  have nb: "next_bank ty ?i bank = ?b" using Suc.prems by (intro next_bank_at) auto
  have upt: "[?i..<100] = ?i # [100 - n..<100]"
    using Suc.prems(1) upt_conv_Cons [of ?i 100] Suc_diff_Suc [of n 100] by simp
  obtain checksum m1 where c: "copy_image ?b start len m = (checksum, m1)" by fastforce
  note cr = copy_image_result [OF assms(1) bank_at_less [of ty ?i] Suc.prems(2), unfolded c, simplified]
  have v: "image_valid ctx checksum len m1 \<longleftrightarrow> bank_valid m0 start len ?b"
    using image_valid_result [OF assms(1) bank_at_less [of ty ?i] Suc.prems(2) assms(2)] c by simp
  show ?case
  proof (cases "bank_valid m0 start len ?b")
    case True
    then show ?thesis
      using nb c v cr upt by (auto simp: attempts_end_def Let_def option.map_comp bind_map_option split: option.splits bind_splits)
  next
    case False
    have "attempts_end gunzip m0 ty start len s (find (bank_valid m0 start len) (map (bank_at ty) [100 - n..<100]))
      (load_attempts n gunzip ctx ty start len ?b m1 s)"
      using Suc.prems(1) cr(3) by (intro Suc.IH) auto
    then show ?thesis using nb c v False upt by (simp add: Let_def)
  qed
qed

lemma find_replicate_append: "0 < n \<Longrightarrow> find P (replicate n x @ ys) = (if P x then Some x else find P ys)"
proof (induction n)
  case (Suc n)
  then show ?case by (cases n) auto
qed simp

lemma banks_tried:
  "find P (map (bank_at 1) [0..<100]) = find P [1, 2, 0, 3]"
  "ty \<noteq> 1 \<Longrightarrow> find P (map (bank_at ty) [0..<100]) = find P [3]"
proof -
  have "map (bank_at 1) [0..<100] = replicate 25 1 @ replicate 25 2 @ replicate 25 0 @ replicate 25 3 @ []"
    by code_simp
  then show "find P (map (bank_at 1) [0..<100]) = find P [1, 2, 0, 3]"
    by (simp only: find_replicate_append zero_less_numeral find.simps)
next
  assume "ty \<noteq> 1"
  then have "map (bank_at ty) [0..<100] = replicate 100 3 @ []"
    by (intro nth_equalityI) (simp_all add: bank_at_def)
  then show "find P (map (bank_at ty) [0..<100]) = find P [3]"
    by (simp only: find_replicate_append zero_less_numeral find.simps)
qed

text \<open>
  C6. The search for a kernel image, on a flash that holds still: of a 1 MB image the banks 1,
  2, 0 and 3 are taken in this order, of a 256 KB image only bank 3. The first bank whose
  image carries its own SHA-1 digest is unpacked and started, with the bytes hashed in the
  buffer unpacked from; no other image is ever started, and without one nothing is.
\<close>

theorem loader_starts_first_valid_bank:
  assumes "in_bank start len" "length (Message_Block ctx) = 64"
  shows "attempts_end gunzip m ty start len s
     (find (bank_valid m start len) (if ty = 1 then [1, 2, 0, 3] else [3]))
     (load_attempts 100 gunzip ctx ty start len 3 m s)"
  using load_attempts_from [OF assms, of 100 m m 3 ty gunzip s] banks_tried by auto

theorem loader_starts_first_valid_bank_witness:
  "attempts_end (\<lambda>m n. m) (\<lambda>a. 0) 1 0x170 3 \<lparr>answers = [], events = []\<rparr>
     (find (bank_valid (\<lambda>a. 0) 0x170 3) [1, 2, 0, 3])
     (load_attempts 100 (\<lambda>m n. m) sha1_example_context 1 0x170 3 3 (\<lambda>a. 0) \<lparr>answers = [], events = []\<rparr>)"
  using loader_starts_first_valid_bank [of "0x170" 3 sha1_example_context "\<lambda>m n. m" "\<lambda>a. 0" 1]
  by (simp add: in_bank_def sha1_example_context_def)

section \<open>From the image builder to the kernel\<close>

lemma rd_slice:
  "off + n \<le> N \<Longrightarrow> rd m (a + of_nat off) n = slice off n (rd m a N)"
  by (rule nth_equalityI) (auto simp: slice_def add_ac)

text \<open>The port accesses of a successful start, one after the other.\<close>

definition hardware_run :: "iost \<Rightarrow> iost option" where
  "hardware_run s =
     do { (_, s1) \<leftarrow> BootPerformPicChallengeResponseAction s;
          s2 \<leftarrow> BootAGPBUSInitialization s1;
          s3 \<leftarrow> setLED_2bl [0x72, 0x72, 0x72, 0x72] (PciWriteDword 0 0 0 0x84 0x7FFFFFF s2);
          setLED_2bl [0x6f, 0x6f, 0x6f, 0x6f] s3 }"

text \<open>The start of a kernel image: unpacked from its own bytes, with the marks of its bank.\<close>

definition boots :: "(mem \<Rightarrow> u32 \<Rightarrow> mem) \<Rightarrow> SHA1Context \<Rightarrow> mem \<Rightarrow> iost \<Rightarrow> iost \<Rightarrow> nat \<Rightarrow> u32 \<Rightarrow> u8 list \<Rightarrow> bool" where
  "boots gunzip ctx m s s' bank ty crom \<longleftrightarrow>
     (\<exists>m'. rd m' CROMWELL_compress_temploc (length crom) = crom \<and>
        BootStartBiosLoader gunzip ctx m s =
          Some (Started bank, leave_marks bank ty (gunzip m' (of_nat (length crom))), s'))"

text \<open>The startup code has copied the loader from the flash to the memory it runs in.\<close>

definition loader_copied :: "mem \<Rightarrow> u8 list \<Rightarrow> u32 \<Rightarrow> u32 \<Rightarrow> bool" where
  "loader_copied m flash_bank p z \<longleftrightarrow> rd m PROGRAMM_Memory_2bl (unat z) = slice (unat p) (unat z) flash_bank"

lemma load_struct_words:
  "length d = 20 \<Longrightarrow> load_struct (d @ bytes32 a @ bytes32 b @ bytes32 c @ bytes32 e) =
    \<lparr>Checksum = d, Size_ramcopy = a, compressed_image_start = b, compressed_image_size = c, Biossize_type = e\<rparr>"
  by (simp add: load_struct_def word32_def bytes32_def)

lemma header_in_memory:
  assumes sealed: "sealed_loader bank (unat p) z start len ty" and copied: "loader_copied m bank p z"
    and z: "36 \<le> unat z"
  shows "load_struct (rd m PROGRAMM_Memory_2bl 36) =
      \<lparr>Checksum = sha1_spec (rd m (PROGRAMM_Memory_2bl + 20) (unat (z - 20))), Size_ramcopy = z,
       compressed_image_start = start, compressed_image_size = len, Biossize_type = ty\<rparr>"
proof -
  have rds: "rd m (PROGRAMM_Memory_2bl + of_nat off) n = slice (unat p + off) n bank" if "off + n \<le> unat z" for off n
    using rd_slice [OF that, of m PROGRAMM_Memory_2bl] copied that by (simp add: loader_copied_def slice_slice)
  have size: "unat (z - 20) = unat z - 20" using z unat_sub [of 20 z] by (simp add: word_le_nat_alt)
  have "rd m PROGRAMM_Memory_2bl 36 = slice (unat p) 20 bank @ slice (unat p + 20) 16 bank"
    using rds [of 0 36] z slice_split [of "unat p" 20 16 bank] by simp
  also have "\<dots> = sha1_spec (rd m (PROGRAMM_Memory_2bl + 20) (unat (z - 20)))
      @ bytes32 z @ bytes32 start @ bytes32 len @ bytes32 ty"
    using sealed rds [of 20 "unat z - 20"] z size by (simp add: sealed_loader_def)
  finally show ?thesis by (simp add: load_struct_words)
qed

lemma sealed_bank_boots:
  assumes sealed: "sealed_loader bank (unat p) z start (of_nat (length crom)) ty" "loader_copied m bank p z" "36 \<le> unat z"
    and first: "find (bank_valid m start (of_nat (length crom))) (if ty = 1 then [1, 2, 0, 3] else [3]) = Some b"
    and image: "rd m (bank_address b start + 20) (length crom) = crom"
    and fits: "unat start + 20 + length crom \<le> 0x40000" and "b < 4"
    and ctx: "length (Message_Block ctx) = 64" and hw: "hardware_run s = Some s'"
  shows "boots gunzip ctx m s s' b ty crom"
proof -
  let ?len = "of_nat (length crom) :: u32"
  have len: "unat ?len = length crom" using fits by (simp add: unat_of_nat take_bit_nat_eq_self)
  have in_bank: "in_bank start ?len" using fits len by (simp add: in_bank_def)
  note hdr = header_in_memory [OF sealed]
  have "8 * length (rd m (PROGRAMM_Memory_2bl + 20) (unat (z - 20))) < 2 ^ 64"
    using unsigned_less [of "z - 20"] by (simp add: unsigned_less [THEN less_trans])
  note sum = sha1_sum_spec [OF ctx this]
  define m2 where "m2 = wr 0xFD100204 (bytes32 0x11448000) (wr 0xFD100200 (bytes32 0x03070103)
     (wr 0xFD600800 (bytes32 0xf3c00000) m))"
  have same: "same_flash m m2"
    unfolding m2_def by (intro same_flash_trans [OF _ same_flash_wr] same_flash_refl) simp_all
  obtain s1 s2 s3 n where s1: "BootPerformPicChallengeResponseAction s = Some (n, s1)"
    and s2: "BootAGPBUSInitialization s1 = Some s2"
    and s3: "setLED_2bl [0x72, 0x72, 0x72, 0x72] (PciWriteDword 0 0 0 0x84 0x7FFFFFF s2) = Some s3"
    and s4: "setLED_2bl [0x6f, 0x6f, 0x6f, 0x6f] s3 = Some s'"
    using hw by (auto simp: hardware_run_def Option.bind_eq_Some_conv)
  have "attempts_end gunzip m ty start ?len (PciWriteDword 0 0 0 0x84 0x7FFFFFF s2) (Some b)
      (load_attempts 100 gunzip ctx ty start ?len 3 m2 (PciWriteDword 0 0 0 0x84 0x7FFFFFF s2))"
    using load_attempts_from [OF in_bank ctx, of 100 m m2 3 ty] same banks_tried first by (auto split: if_splits)
  then obtain m' where m': "rd m' CROMWELL_compress_temploc (length crom) = crom"
    "load_attempts 100 gunzip ctx ty start ?len 3 m2 (PciWriteDword 0 0 0 0x84 0x7FFFFFF s2) =
      Some (Started b, leave_marks b ty (gunzip m' ?len), s3)"
    using s3 image len by (auto simp: attempts_end_def)
  have "BootStartBiosLoader gunzip ctx m s = Some (Started b, leave_marks b ty (gunzip m' ?len), s')"
    using s1 s2 s4 m'(2) sum by (simp add: BootStartBiosLoader_def hdr Let_def m2_def [symmetric])
  then show ?thesis using m'(1) by (auto simp: boots_def)
qed

lemma sealed_kernel_in_flash:
  assumes "sealed_kernel (slice (k * 0x40000) 0x40000 flash) (unat start) crom"
    and "rd m (Buildinflash_Flash ! b - of_nat (k * 0x40000)) N = flash" "k * 0x40000 + 0x40000 \<le> N"
    and fits: "unat start + 20 + length crom \<le> 0x40000"
  shows "bank_valid m start (of_nat (length crom)) b" "rd m (bank_address b start + 20) (length crom) = crom"
proof -
  let ?base = "Buildinflash_Flash ! b - of_nat (k * 0x40000)"
  have addr: "bank_address b start + of_nat i = ?base + of_nat (k * 0x40000 + (unat start + i))" for i
    by (simp add: bank_address_def)
  have rds: "rd m (bank_address b start + of_nat i) n = slice (unat start + i) n (slice (k * 0x40000) 0x40000 flash)"
    if "i + n \<le> 20 + length crom" for i n
    unfolding addr using that assms(2,3) fits
    by (subst rd_slice [of _ _ N]) (simp_all add: slice_slice)
  have len: "unat (of_nat (length crom) :: u32) = length crom"
    using fits by (simp add: unat_of_nat take_bit_nat_eq_self)
  show image: "rd m (bank_address b start + 20) (length crom) = crom"
    using rds [of 20 "length crom"] assms(1) by (simp add: sealed_kernel_def)
  show "bank_valid m start (of_nat (length crom)) b"
    using rds [of 0 20] assms(1) image len by (simp add: bank_valid_def sealed_kernel_def)
qed

text \<open>
  C5. From the image builder to the start of the kernel image. When loader and kernel image fit,
  the builder makes both images. With the 1 MB image in the flash, and the loader copied to
  memory from its bank 3, the second boot loader accepts its own checksum and starts exactly
  the kernel image given to the builder, from bank 1 at the first attempt; with the 256 KB image at
  the top of the address space it starts that image from bank 3. The ports may answer anything
  that lets the transfers end, the memory may hold anything else, and the SHA-1 contexts of the two
  programs need not agree.
\<close>

theorem built_image_boots:
  assumes "loader_fits bl crom p z" "length (Message_Block ctx) = 64" "length (md5_buffer md5ctx) = 64"
    and "length (Message_Block ctx2) = 64" "hardware_run s = Some s'"
  shows "\<exists>f256 f1024. romcopy ctx md5ctx (Some bl) (Some crom) = Some (Inr (f256, f1024)) \<and>
    length f256 = 0x40000 \<and> length f1024 = 0x100000 \<and>
    (\<forall>m. rd m 0xfff00000 0x100000 = f1024 \<and> loader_copied m (slice 0xc0000 0x40000 f1024) p z \<longrightarrow>
       boots gunzip ctx2 m s s' 1 1 crom) \<and>
    (\<forall>m. rd m 0xfffc0000 0x40000 = f256 \<and> loader_copied m f256 p z \<longrightarrow>
       boots gunzip ctx2 m s s' 3 0 crom)"
proof -
  note zone = loader_fits_zone [OF assms(1)]
  let ?start = "image_start p z" and ?len = "of_nat (length crom) :: u32"
  obtain f256 f1024 where rom: "romcopy_images ctx md5ctx bl crom = Some (f256, f1024)"
    "length f256 = 0x40000" and len: "length f1024 = 0x100000" and rom': "sealed_loader f256 (unat p) z ?start ?len 0" "sealed_kernel f256 (unat ?start) crom"
    "sealed_loader (slice 0xc0000 0x40000 f1024) (unat p) z ?start ?len 1"
    "sealed_kernel (slice 0x40000 0x40000 f1024) (unat ?start) crom"
    using romcopy_images_result [OF assms(1-3)] by blast
  have fits: "unat ?start + 20 + length crom \<le> 0x40000" using zone by simp
  have "boots gunzip ctx2 m s s' 1 1 crom"
    if m: "rd m 0xfff00000 0x100000 = f1024" "loader_copied m (slice 0xc0000 0x40000 f1024) p z" for m
  proof -
    have "bank_valid m ?start ?len 1" "rd m (bank_address 1 ?start + 20) (length crom) = crom"
      using sealed_kernel_in_flash [of 1 f1024 ?start crom m 1 "0x100000"] rom'(4) m(1) fits
      by (simp_all add: Buildinflash_Flash_def)
    then show ?thesis
      using sealed_bank_boots [OF rom'(3) m(2) zone(3) _ _ fits _ assms(4,5), of 1] by simp
  qed
  moreover have "boots gunzip ctx2 m s s' 3 0 crom"
    if m: "rd m 0xfffc0000 0x40000 = f256" "loader_copied m f256 p z" for m
  proof -
    have "slice 0 0x40000 f256 = f256" using rom(2) by (simp add: slice_def)
    then have "bank_valid m ?start ?len 3" "rd m (bank_address 3 ?start + 20) (length crom) = crom"
      using sealed_kernel_in_flash [of 0 f256 ?start crom m 3 "0x40000"] rom'(2) m(1) fits
      by (simp_all add: Buildinflash_Flash_def)
    then show ?thesis
      using sealed_bank_boots [OF rom'(1) m(2) zone(3) _ _ fits _ assms(4,5), of 3] by simp
  qed
  ultimately show ?thesis using rom(1,2) len by (simp add: romcopy_def)
qed

text \<open>Ports on which every transfer completes at once.\<close>

definition example_ports :: iost where
  "example_ports = \<lparr>answers = concat (replicate 4 [0, 0x10, 0x5a]) @ concat (replicate 2 [0, 0x10]) @
      replicate 6 0 @ concat (replicate 4 [0, 0x10]), events = []\<rparr>"

lemma example_ports_run: "hardware_run example_ports \<noteq> None"
  by code_simp

text \<open>A flash with a given image, and the loader in the memory it runs in.\<close>

definition example_memory :: "u8 list \<Rightarrow> u8 list \<Rightarrow> mem" where
  "example_memory flash loader = (\<lambda>a.
     if 0xfff00000 \<le> a then flash ! unat (a - 0xfff00000)
     else if 0x00100000 \<le> a then loader ! unat (a - 0x00100000) else 0)"

lemma example_memory_flash: "length flash = 0x100000 \<Longrightarrow> rd (example_memory flash loader) 0xfff00000 0x100000 = flash"
proof (rule nth_equalityI)
  fix i assume "i < length (rd (example_memory flash loader) 0xfff00000 0x100000)"
  then have "i < 0x100000" by simp
  moreover from this have "unat (0xfff00000 + of_nat i :: u32) = 0xfff00000 + i"
    by (simp add: unat_word_ariths unat_of_nat take_bit_nat_eq_self)
  ultimately show "rd (example_memory flash loader) 0xfff00000 0x100000 ! i = flash ! i"
    by (simp add: example_memory_def word_le_nat_alt unat_of_nat take_bit_nat_eq_self)
qed simp

lemma example_memory_loader:
  "length loader \<le> 0x100000 \<Longrightarrow> rd (example_memory flash loader) 0x00100000 (length loader) = loader"
proof (rule nth_equalityI)
  fix i assume "length loader \<le> 0x100000" "i < length (rd (example_memory flash loader) 0x00100000 (length loader))"
  then have "i < length loader" "i < 0x100000" by simp_all
  moreover from this have "unat (0x00100000 + of_nat i :: u32) = 0x00100000 + i"
    by (simp add: unat_word_ariths unat_of_nat take_bit_nat_eq_self)
  ultimately show "rd (example_memory flash loader) 0x00100000 (length loader) ! i = loader ! i"
    by (simp add: example_memory_def word_le_nat_alt unat_of_nat take_bit_nat_eq_self)
qed simp

theorem built_image_boots_witness:
  "\<exists>m. boots (\<lambda>m n. m) sha1_example_context m example_ports (the (hardware_run example_ports)) 1 1 [1, 2, 3]"
proof -
  obtain s' where s': "hardware_run example_ports = Some s'" using example_ports_run by blast
  obtain f256 f1024 where len: "length f1024 = 0x100000"
    and m: "\<forall>m. rd m 0xfff00000 0x100000 = f1024 \<and> loader_copied m (slice 0xc0000 0x40000 f1024) 0x44 36 \<longrightarrow>
       boots (\<lambda>m n. m) sha1_example_context m example_ports s' 1 1 [1, 2, 3]"
    using built_image_boots [of example_loader "[1, 2, 3]" "0x44" 36 sha1_example_context example_md5_context
        sha1_example_context example_ports s' "\<lambda>m n. m"] s'
    by (auto simp: example_loader_fits example_md5_context_def sha1_example_context_def)
  let ?l = "slice 0x44 36 (slice 0xc0000 0x40000 f1024)"
  let ?m = "example_memory f1024 ?l"
  have l: "length ?l = 36" using len by (simp add: slice_simps)
  have "loader_copied ?m (slice 0xc0000 0x40000 f1024) 0x44 36"
    using example_memory_loader [of ?l f1024] l by (simp add: loader_copied_def PROGRAMM_Memory_2bl_def)
  then show ?thesis using m example_memory_flash [OF len] s' by (metis option.sel)
qed

end
