(* ===== verification/KernelSetup.thy ===== *)
theory KernelSetup
  imports BootString
begin

text \<open>
  The parameter block for the Linux kernel, \<open>setup\<close> of \<open>lib/misc/setup.c\<close>, and the memory map of
  \<open>include/memory_layout.h\<close>. The block is a list of fields, each with its offset and the bytes
  stored; the structure of the code has no padding of its own, so the offsets are those in its
  comments.
\<close>

section \<open>The code\<close>

definition KERNEL_SETUP :: u32 where "KERNEL_SETUP = 0x90000"
definition CMD_LINE_LOC :: u32 where "CMD_LINE_LOC = KERNEL_SETUP + 0x0800"
definition KERNEL_PM_CODE :: u32 where "KERNEL_PM_CODE = 0x00100000"
definition RAMSIZE :: u32 where "RAMSIZE = 64 * 1024 * 1024"
definition FB_SIZE :: u32 where "FB_SIZE = 0x00400000"
definition RAMSIZE_USE :: u32 where "RAMSIZE_USE = RAMSIZE - FB_SIZE"

definition le_field :: "nat \<Rightarrow> u64 \<Rightarrow> u8 list" where
  "le_field n w = map (\<lambda>i. ucast (drop_bit (8 * i) w)) [0..<n]"

abbreviation f8 :: "nat \<Rightarrow> u64 \<Rightarrow> nat \<times> u8 list" where "f8 off w \<equiv> (off, le_field 1 w)"
abbreviation f16 :: "nat \<Rightarrow> u64 \<Rightarrow> nat \<times> u8 list" where "f16 off w \<equiv> (off, le_field 2 w)"
abbreviation f32 :: "nat \<Rightarrow> u64 \<Rightarrow> nat \<times> u8 list" where "f32 off w \<equiv> (off, le_field 4 w)"
abbreviation f64 :: "nat \<Rightarrow> u64 \<Rightarrow> nat \<times> u8 list" where "f64 off w \<equiv> (off, le_field 8 w)"

text \<open>The pads and the loader's parameters, with those of the RAM disk when there is one.\<close>

definition loader_fields :: "u32 \<Rightarrow> (nat \<times> u8 list) list" where
  "loader_fields xbox_ram =
     [(0x34, replicate 436 0), (0x1e9, replicate 8 0), (0x226, replicate 2 0), (0x230, replicate 160 0),
      f16 0x08 0, f16 0x0c 0, f8 0x210 0xff, f16 0x224 0xffff, f8 0x211 0x81, f32 0x214 (ucast KERNEL_PM_CODE),
      f16 0x02 (ucast (((xbox_ram - 1) * 1024 - FB_SIZE div 1024) AND 0xffff))]"

definition initrd_fields :: "u32 \<Rightarrow> u32 \<Rightarrow> (nat \<times> u8 list) list" where
  "initrd_fields PhysInitrdPos InitrdSize =
     (if InitrdSize \<noteq> 0
      then [f32 0x218 (ucast PhysInitrdPos), f32 0x21c (ucast InitrdSize), f32 0x22c (ucast (RAMSIZE_USE - 1))]
      else [])"

text \<open>The framebuffer. The standard mode is the VESA mode less 0x300.\<close>

definition video_fields :: "u32 \<Rightarrow> u32 \<Rightarrow> u32 \<Rightarrow> (nat \<times> u8 list) list" where
  "video_fields xbox_ram width height =
     (let vid_mode = (if width = 640 then 0x312 else 0x315)
      in [f8 0x0f 0x23, f8 0x00 0, f8 0x01 0, f16 0x1fa vid_mode, f8 0x06 (vid_mode - 0x300),
          f8 0x07 (ucast (width div 8)), f8 0x0e (ucast (height div 16)), f16 0x0a 0, f16 0x10 16, f16 0x16 32,
          f16 0x12 (ucast width), f16 0x14 (ucast height),
          f32 0x18 (ucast (0xf0000000 OR (xbox_ram * 0x100000 - FB_SIZE))), f32 0x1c (ucast (FB_SIZE div 0x10000)),
          f16 0x24 (ucast (width * 4)), f16 0x32 1, f16 0x2e 0, f16 0x30 0, f8 0x2a 8, f8 0x2b 0, f8 0x28 8,
          f8 0x29 8, f8 0x26 8, f8 0x27 16, f8 0x2c 8, f8 0x2d 24])"

definition boot_fields :: "(nat \<times> u8 list) list" where
  "boot_fields = [f16 0x1fc 0x0301, f32 0x208 0, f16 0x20c 0, f16 0x212 0, f16 0x220 0, f16 0x222 0, f16 0x1f2 0]"

definition e820_fields :: "u32 \<Rightarrow> (nat \<times> u8 list) list" where
  "e820_fields xbox_ram =
     [f8 0x1e8 4,
      f64 720 0, f64 728 0x9f000, f32 736 1,
      f64 740 0x9f000, f64 748 0x61000, f32 756 2,
      f64 760 0x100000, f64 768 (ucast ((xbox_ram - 1) * 1024 * 1024 - FB_SIZE)), f32 776 1,
      f64 780 (ucast (xbox_ram * 1024 * 1024 - FB_SIZE)), f64 788 (ucast FB_SIZE), f32 796 2]"

definition command_fields :: "(nat \<times> u8 list) list" where
  "command_fields = [f16 0x22 0, f16 0x20 0xA33F, f32 0x228 (ucast CMD_LINE_LOC)]"

definition setup_fields :: "u32 \<Rightarrow> u32 \<Rightarrow> u32 \<Rightarrow> u32 \<Rightarrow> u32 \<Rightarrow> (nat \<times> u8 list) list" where
  "setup_fields xbox_ram width height PhysInitrdPos InitrdSize =
     loader_fields xbox_ram @ initrd_fields PhysInitrdPos InitrdSize @ video_fields xbox_ram width height
     @ boot_fields @ e820_fields xbox_ram @ command_fields"

definition store_fields :: "u32 \<Rightarrow> (nat \<times> u8 list) list \<Rightarrow> mem \<Rightarrow> mem" where
  "store_fields base fs m = fold (\<lambda>(off, bs). wr (base + of_nat off) bs) fs m"

definition linux_setup :: "u32 \<Rightarrow> u32 \<Rightarrow> u32 \<Rightarrow> u32 \<Rightarrow> u32 \<Rightarrow> u32 \<Rightarrow> u32 \<Rightarrow> mem \<Rightarrow> mem" where
  "linux_setup xbox_ram width height KernelPos PhysInitrdPos InitrdSize kernel_cmdline m =
     (let m1 = store_fields KernelPos (setup_fields xbox_ram width height PhysInitrdPos InitrdSize) m;
          m2 = strncpy CMD_LINE_LOC kernel_cmdline 512 m1
      in m2(CMD_LINE_LOC + 511 := 0))"

section \<open>Storing fields apart from each other\<close>

definition apart :: "nat \<times> nat \<Rightarrow> nat \<times> nat \<Rightarrow> bool" where
  "apart x y \<longleftrightarrow> fst x + snd x \<le> fst y \<or> fst y + snd y \<le> fst x"

fun all_apart :: "(nat \<times> nat) list \<Rightarrow> bool" where
  "all_apart [] = True"
| "all_apart (x # xs) = (list_all (apart x) xs \<and> all_apart xs)"

definition extents :: "(nat \<times> u8 list) list \<Rightarrow> (nat \<times> nat) list" where
  "extents fs = map (\<lambda>(off, bs). (off, length bs)) fs"

lemma length_le_field [simp]: "length (le_field n w) = n"
  by (simp add: le_field_def)

text \<open>The layout of the block: offset and size of the fields, with and without a RAM disk.\<close>

definition setup_layout :: "bool \<Rightarrow> (nat \<times> nat) list" where
  "setup_layout initrd =
     [(52, 436), (489, 8), (550, 2), (560, 160), (8, 2), (12, 2), (528, 1), (548, 2), (529, 1), (532, 4), (2, 2)] @
     (if initrd then [(536, 4), (540, 4), (556, 4)] else []) @
     [(15, 1), (0, 1), (1, 1), (506, 2), (6, 1), (7, 1), (14, 1), (10, 2), (16, 2), (22, 2), (18, 2), (20, 2),
      (24, 4), (28, 4), (36, 2), (50, 2), (46, 2), (48, 2), (42, 1), (43, 1), (40, 1), (41, 1), (38, 1), (39, 1),
      (44, 1), (45, 1)] @
     [(508, 2), (520, 4), (524, 2), (530, 2), (544, 2), (546, 2), (498, 2)] @
     [(488, 1), (720, 8), (728, 8), (736, 4), (740, 8), (748, 8), (756, 4), (760, 8), (768, 8), (776, 4),
      (780, 8), (788, 8), (796, 4)] @ [(34, 2), (32, 2), (552, 4)]"

lemma extents_append: "extents (xs @ ys) = extents xs @ extents ys"
  by (simp add: extents_def)

lemma extents_parts:
  "extents (loader_fields r) =
     [(52, 436), (489, 8), (550, 2), (560, 160), (8, 2), (12, 2), (528, 1), (548, 2), (529, 1), (532, 4), (2, 2)]"
  "extents (initrd_fields p z) = (if z \<noteq> 0 then [(536, 4), (540, 4), (556, 4)] else [])"
  "extents (video_fields r w h) =
     [(15, 1), (0, 1), (1, 1), (506, 2), (6, 1), (7, 1), (14, 1), (10, 2), (16, 2), (22, 2), (18, 2), (20, 2),
      (24, 4), (28, 4), (36, 2), (50, 2), (46, 2), (48, 2), (42, 1), (43, 1), (40, 1), (41, 1), (38, 1), (39, 1),
      (44, 1), (45, 1)]"
  "extents boot_fields = [(508, 2), (520, 4), (524, 2), (530, 2), (544, 2), (546, 2), (498, 2)]"
  "extents (e820_fields r) = [(488, 1), (720, 8), (728, 8), (736, 4), (740, 8), (748, 8), (756, 4), (760, 8),
      (768, 8), (776, 4), (780, 8), (788, 8), (796, 4)]"
  "extents command_fields = [(34, 2), (32, 2), (552, 4)]"
  subgoal by (simp add: extents_def loader_fields_def)
  subgoal by (cases "z = 0") (simp_all add: extents_def initrd_fields_def)
  subgoal by (simp add: extents_def video_fields_def Let_def)
  subgoal by code_simp
  subgoal by (simp add: extents_def e820_fields_def)
  subgoal by code_simp
  done

lemma extents_setup_fields: "extents (setup_fields r w h p z) = setup_layout (z \<noteq> 0)"
  by (simp only: setup_fields_def extents_append extents_parts setup_layout_def)

lemma setup_layout_checked:
  "all_apart (setup_layout b) \<and> list_all (\<lambda>(off, n). off + n \<le> 800) (setup_layout b)"
  by (cases b) (simp_all add: setup_layout_def apart_def)

text \<open>A stored field is read back when the fields are apart, and nothing else changes.\<close>

lemma region_apart:
  assumes "apart (o1, n1) (o2, n2)" "o1 + n1 \<le> 0x1000" "o2 + n2 \<le> 0x1000"
  shows "region (base + of_nat o1) n1 \<inter> region (base + of_nat o2) n2 = {}"
proof (rule ccontr)
  assume "region (base + of_nat o1) n1 \<inter> region (base + of_nat o2) n2 \<noteq> {}"
  then obtain i j where ij: "i < n1" "j < n2" "(of_nat (o1 + i) :: u32) = of_nat (o2 + j)"
    by (auto simp: region_def add.assoc)
  then have "o1 + i = o2 + j" using assms(2,3) of_nat_u32_eq_iff [of "o1 + i" "o2 + j"] by auto
  then show False using assms(1) ij(1,2) by (auto simp: apart_def)
qed

lemma store_fields_frame:
  "\<forall>(off, bs) \<in> set fs. a \<notin> region (base + of_nat off) (length bs) \<Longrightarrow> store_fields base fs m a = m a"
proof (induction fs arbitrary: m)
  case (Cons f fs)
  obtain off bs where f: "f = (off, bs)" by fastforce
  have "store_fields base (f # fs) m a = store_fields base fs (wr (base + of_nat off) bs m) a"
    by (simp add: store_fields_def f)
  then show ?case using Cons f by (simp add: wr_outside)
qed (simp add: store_fields_def)

lemma store_fields_read:
  "all_apart (extents fs) \<Longrightarrow> list_all (\<lambda>(off, n). off + n \<le> 0x1000) (extents fs) \<Longrightarrow> (off, bs) \<in> set fs \<Longrightarrow>
   rd (store_fields base fs m) (base + of_nat off) (length bs) = bs"
proof (induction fs arbitrary: m)
  case (Cons f fs)
  obtain o1 b1 where f: "f = (o1, b1)" by fastforce
  have step: "store_fields base (f # fs) m = store_fields base fs (wr (base + of_nat o1) b1 m)"
    by (simp add: store_fields_def f)
  show ?case
  proof (cases "(off, bs) \<in> set fs")
    case True
    then show ?thesis unfolding step using Cons.prems by (intro Cons.IH) (auto simp: extents_def f)
  next
    case False
    then have eq: "off = o1" "bs = b1" using Cons.prems(3) f by auto
    have "rd (store_fields base fs (wr (base + of_nat o1) b1 m)) (base + of_nat o1) (length b1)
        = rd (wr (base + of_nat o1) b1 m) (base + of_nat o1) (length b1)"
    proof (intro rd_cong store_fields_frame ballI, clarify)
      fix a o2 b2
      assume a: "a \<in> region (base + of_nat o1) (length b1)" and in_fs: "(o2, b2) \<in> set fs"
        and a2: "a \<in> region (base + of_nat o2) (length b2)"
      have "apart (o1, length b1) (o2, length b2)" "o1 + length b1 \<le> 0x1000" "o2 + length b2 \<le> 0x1000"
        using Cons.prems(1,2) in_fs by (auto simp: extents_def f list_all_iff)
      then show False using region_apart a a2 by blast
    qed
    also have "\<dots> = b1" using Cons.prems(2) by (intro rd_wr) (simp add: extents_def f)
    finally show ?thesis unfolding step eq .
  qed
qed simp

lemma setup_field_read:
  assumes "(off, bs) \<in> set (setup_fields r w h p z)"
  shows "rd (store_fields base (setup_fields r w h p z) m) (base + of_nat off) (length bs) = bs"
  by (rule store_fields_read [OF _ _ assms])
    (use setup_layout_checked [of "z \<noteq> 0"] in \<open>auto simp: extents_setup_fields list_all_iff\<close>)

section \<open>The command line\<close>

lemma small_not_negative: "unat (w :: u32) < 2 ^ 31 \<Longrightarrow> \<not> bit w 31"
  using bit_unsigned_iff [where 'a = nat, of w 31] by (simp add: bit_iff_odd)

lemma memset_wr: "memset d b n m = wr d (replicate n b) m"
  by (induction n arbitrary: d m) simp_all

lemma strncpy_0: "strncpy dest src 0 m = m"
  using sign_of_pred_0 by (subst strncpy.simps) (simp add: Let_def)

lemma strncpy_Suc:
  assumes "unat count \<le> 2 ^ 31" "count \<noteq> 0"
  shows "strncpy dest src count m =
    (if m src \<noteq> 0 then strncpy (dest + 1) (src + 1) (count - 1) (m(dest := m src))
     else wr dest (replicate (unat count) 0) m)"
    "unat count = Suc (unat (count - 1))"
proof -
  show c: "unat count = Suc (unat (count - 1))"
    using assms(2) by (simp add: unat_minus_one unat_gt_0)
  have "\<not> bit (count - 1) 31" using assms(1) c by (intro small_not_negative) simp
  then show "strncpy dest src count m =
    (if m src \<noteq> 0 then strncpy (dest + 1) (src + 1) (count - 1) (m(dest := m src))
     else wr dest (replicate (unat count) 0) m)"
    by (subst strncpy.simps) (simp add: Let_def memset_wr c)
qed

lemma take_padded: "n \<le> k \<Longrightarrow> take n (s @ replicate k x) = take n (s @ replicate n x)"
  by (simp add: min_def) linarith

text \<open>The copy of a string that lies apart from the destination, padded to the count.\<close>

lemma strncpy_is_wr:
  "cstr m src s \<Longrightarrow> unat count \<le> 2 ^ 31 \<Longrightarrow>
   region src (Suc (length s)) \<inter> region dest (unat count) = {} \<Longrightarrow>
   strncpy dest src count m = wr dest (take (unat count) (s @ replicate (unat count) 0)) m"
proof (induction s arbitrary: src dest count m)
  case Nil
  then show ?case
  proof (cases "count = 0")
    case False
    then show ?thesis using Nil strncpy_Suc(1) [of count dest src m] by simp
  qed (simp add: strncpy_0)
next
  case (Cons c s)
  show ?case
  proof (cases "count = 0")
    case False
    note n = strncpy_Suc [OF Cons.prems(2) False]
    let ?m = "m(dest := c)"
    have c: "c \<noteq> 0" "m src = c" "cstr m (src + 1) s" using Cons.prems(1) by auto
    have ap: "region (src + 1) (Suc (length s)) \<inter> region (dest + 1) (unat (count - 1)) = {}"
      "dest \<notin> region (src + 1) (Suc (length s))"
      using Cons.prems(3) unfolding n(2) length_Cons region_Suc [of src] region_Suc [of dest] by auto
    have "strncpy dest src count m = strncpy (dest + 1) (src + 1) (count - 1) ?m" using n(1) c by simp
    also have "\<dots> = wr (dest + 1) (take (unat (count - 1)) (s @ replicate (unat (count - 1)) 0)) ?m"
      using Cons.prems(2) n(2) ap c by (intro Cons.IH cstr_upd_other) simp_all
    also have "\<dots> = wr dest (take (unat count) ((c # s) @ replicate (unat count) 0)) m"
      unfolding n(2) append_Cons take_Suc_Cons wr.simps
      by (subst take_padded [of _ "Suc _"]) simp_all
    finally show ?thesis .
  qed (simp add: strncpy_0)
qed

section \<open>The parameters as the kernel reads them\<close>

definition le64_value :: "u8 list \<Rightarrow> nat" where
  "le64_value bs = foldr (\<lambda>b v. unat b + 256 * v) bs 0"

text \<open>Start, length and type of an entry of the memory map.\<close>

definition e820_entry :: "mem \<Rightarrow> u32 \<Rightarrow> nat \<Rightarrow> nat \<times> nat \<times> nat" where
  "e820_entry m base i =
     (let p = base + of_nat (720 + 20 * i)
      in (le64_value (rd m p 8), le64_value (rd m (p + 8) 8), le64_value (rd m (p + 16) 4)))"

lemma le_field_Suc: "le_field (Suc n) w = ucast w # le_field n (drop_bit 8 w)"
  by (simp add: le_field_def map_upt_Suc drop_bit_drop_bit add.commute del: upt_Suc)

lemma le64_value_field: "unat w < 256 ^ n \<Longrightarrow> le64_value (le_field n w) = unat w"
proof (induction n arbitrary: w)
  case (Suc n)
  have d: "unat (drop_bit 8 w) = unat w div 256"
    by (simp add: drop_bit_eq_div unat_div)
  then have "unat (drop_bit 8 w) < 256 ^ n" using Suc.prems by (simp add: div_less_iff_less_mult)
  then have "le64_value (le_field n (drop_bit 8 w)) = unat w div 256" using Suc.IH d by simp
  moreover have "unat (ucast w :: u8) = unat w mod 256"
    by (simp add: unsigned_ucast_eq take_bit_eq_mod)
  ultimately show ?case by (simp add: le64_value_def le_field_Suc)
qed (simp add: le64_value_def le_field_def)

lemma field_value:
  assumes "(off, le_field n v) \<in> set (setup_fields r w h p z)" "unat v < 256 ^ n"
    and "rd m' (base + of_nat off) n = rd (store_fields base (setup_fields r w h p z) m) (base + of_nat off) n"
  shows "le64_value (rd m' (base + of_nat off) n) = unat v"
  using setup_field_read [OF assms(1), of base m] assms(2,3) le64_value_field by simp

lemma e820_in_setup: "set (e820_fields r) \<subseteq> set (setup_fields r w h p z)"
  by (auto simp: setup_fields_def)

lemma unat_megabytes: "unat (x :: u32) \<le> 2048 \<Longrightarrow> unat (x * 1024 * 1024) = unat x * 2 ^ 20"
  by (simp add: unat_word_ariths)

lemma unat_e820:
  assumes "5 \<le> unat ram" "unat ram \<le> 2048"
  shows "unat (ucast ((ram - 1) * 1024 * 1024 - FB_SIZE) :: u64) = unat ram * 2 ^ 20 - 0x500000"
    "unat (ucast (ram * 1024 * 1024 - FB_SIZE) :: u64) = unat ram * 2 ^ 20 - 0x400000"
proof -
  have less_fb: "unat (ucast (x * 1024 * 1024 - FB_SIZE) :: u64) = unat x * 2 ^ 20 - 0x400000"
    if "4 \<le> unat x" "unat x \<le> 2048" for x :: u32
  proof -
    have "unat (x * 1024 * 1024 - FB_SIZE) = unat (x * 1024 * 1024) - unat FB_SIZE"
      using that by (subst unat_sub_if') (simp only: unat_megabytes, simp add: FB_SIZE_def)
    then show ?thesis unfolding unat_megabytes [OF that(2)] using that(2) by (simp add: FB_SIZE_def unsigned_ucast_eq take_bit_nat_eq_self_iff)
  qed
  have one: "unat (ram - 1) = unat ram - 1" using assms(1) by (intro unat_minus_one) auto
  then show "unat (ucast ((ram - 1) * 1024 * 1024 - FB_SIZE) :: u64) = unat ram * 2 ^ 20 - 0x500000"
    using less_fb [of "ram - 1"] assms by (simp only: one) (simp add: diff_mult_distrib)
  show "unat (ucast (ram * 1024 * 1024 - FB_SIZE) :: u64) = unat ram * 2 ^ 20 - 0x400000"
    using less_fb [of ram] assms by simp
qed

text \<open>An entry of the memory map whose three fields are in the block.\<close>

lemma e820_entry_value:
  assumes "rd m (base + of_nat (720 + 20 * i)) 8 = le_field 8 a"
    "rd m (base + of_nat (728 + 20 * i)) 8 = le_field 8 n" "rd m (base + of_nat (736 + 20 * i)) 4 = le_field 4 t"
    and "unat t < 2 ^ 32"
  shows "e820_entry m base i = (unat a, unat n, unat t)"
proof -
  have "base + of_nat (720 + 20 * i) + 8 = base + of_nat (728 + 20 * i)"
    "base + of_nat (720 + 20 * i) + 16 = base + of_nat (736 + 20 * i)" by simp_all
  moreover have "unat (x :: u64) < 256 ^ 8" for x using unsigned_less [of x] by simp
  ultimately show ?thesis
    using assms by (simp only: e820_entry_def Let_def) (simp add: le64_value_field)
qed

lemma region_within:
  assumes "off + n \<le> k"
  shows "region (base + of_nat off) n \<subseteq> region base k"
proof
  fix a assume "a \<in> region (base + of_nat off) n"
  then obtain i where "i < n" "a = base + of_nat (off + i)" by (auto simp: region_def add.assoc)
  then show "a \<in> region base k" using assms by (auto simp: region_def intro: image_eqI [where x = "off + i"])
qed

lemma setup_fields_frame:
  assumes "a \<notin> region base 800"
  shows "store_fields base (setup_fields r w h p z) m a = m a"
proof (rule store_fields_frame, clarify)
  fix off bs assume f: "(off, bs) \<in> set (setup_fields r w h p z)" "a \<in> region (base + of_nat off) (length bs)"
  have "(off, length bs) \<in> set (setup_layout (z \<noteq> 0))"
    using f(1) unfolding extents_setup_fields [of r w h p z, symmetric] by (force simp: extents_def)
  then have "off + length bs \<le> 800" using setup_layout_checked [of "z \<noteq> 0"] by (auto simp: list_all_iff)
  then show False using region_within f(2) assms by blast
qed

lemma wr_upd_outside: "q \<notin> region p (length bs) \<Longrightarrow> (wr p bs m)(q := b) = wr p bs (m(q := b))"
  by (induction bs arbitrary: p m) (auto simp: region_Suc fun_upd_twist)

lemma wr_at: "i < length bs \<Longrightarrow> length bs \<le> 2 ^ 32 \<Longrightarrow> wr p bs m (p + of_nat i) = bs ! i"
  using arg_cong [OF rd_wr [of bs p m], of "\<lambda>l. l ! i"] by simp

lemma wr_upd: "i < length bs \<Longrightarrow> length bs \<le> 2 ^ 32 \<Longrightarrow> (wr p bs m)(p + of_nat i := b) = wr p (bs[i := b]) m"
proof (induction bs arbitrary: i p m)
  case (Cons c bs)
  show ?case
  proof (cases i)
    case 0
    have "p \<notin> region (p + 1) (length bs)" using Cons.prems by (intro start_not_in_tail) simp
    then show ?thesis using 0 wr_upd_outside [of p "p + 1" bs] by simp
  next
    case (Suc j)
    then show ?thesis using Cons.IH [of j "p + 1" "m(p := c)"] Cons.prems
      by (simp add: add_ac del: fun_upd_apply)
  qed
qed simp

lemma cstr_wr_prefix: "0 \<notin> set x \<Longrightarrow> length x + length r < 2 ^ 32 \<Longrightarrow> cstr (wr p (x @ 0 # r) m) p x"
  by (auto simp: cstr_iff wr_at nth_append intro!: nth_equalityI)

text \<open>The command line as it is stored: the first 511 characters, the end of the string and padding.\<close>

lemma stored_command_line:
  assumes "cstr m src s" "region src (Suc (length s)) \<inter> region dest 512 = {}"
  obtains r where "(strncpy dest src 512 m)(dest + 511 := 0) = wr dest (take 511 s @ 0 # r) m"
    "length (take 511 s @ 0 # r) = 512"
proof
  define bs where "bs = take 512 (s @ replicate 512 (0 :: u8))"
  define r where "r = replicate (511 - length s) (0 :: u8)"
  have bs: "bs[511 := 0] = take 511 s @ 0 # r"
    by (rule nth_equalityI) (auto simp: bs_def r_def nth_append nth_list_update nth_Cons' min_def)
  have "strncpy dest src 512 m = wr dest bs m"
    unfolding bs_def using strncpy_is_wr [OF assms(1), of 512 dest] assms(2) by simp
  then show "(strncpy dest src 512 m)(dest + 511 := 0) = wr dest (take 511 s @ 0 # r) m"
    using wr_upd [of 511 bs dest m 0] unfolding bs [symmetric] by (simp add: bs_def)
  show "length (take 511 s @ 0 # r) = 512" by (simp add: r_def)
qed

text \<open>What \<open>linux_setup\<close> does to the memory: fields, command line, and what it leaves alone.\<close>

lemma linux_setup_facts:
  fixes ram w h p z :: u32
  assumes "cstr m cmdline s"
    and "region cmdline (Suc (length s)) \<inter> (region KERNEL_SETUP 800 \<union> region CMD_LINE_LOC 512) = {}"
  defines "m' \<equiv> linux_setup ram w h KERNEL_SETUP p z cmdline m"
  shows "(off, le_field n v) \<in> set (setup_fields ram w h p z) \<Longrightarrow> off + n \<le> 800 \<Longrightarrow>
      rd m' (KERNEL_SETUP + of_nat off) n = le_field n v"
    and "cstr m' CMD_LINE_LOC (take 511 s)"
    and "a \<notin> region CMD_LINE_LOC 512 \<Longrightarrow>
      \<forall>(off, n) \<in> set (setup_layout (z \<noteq> 0)). a \<notin> region (KERNEL_SETUP + of_nat off) n \<Longrightarrow> m' a = m a"
    and "a \<notin> region KERNEL_SETUP 800 \<union> region CMD_LINE_LOC 512 \<Longrightarrow> m' a = m a"
proof -
  define m1 where "m1 = store_fields KERNEL_SETUP (setup_fields ram w h p z) m"
  have m1: "m1 a = m a" if "a \<notin> region KERNEL_SETUP 800" for a
    unfolding m1_def using that by (rule setup_fields_frame)
  have "cstr m1 cmdline s" using assms(2) m1 by (intro cstr_cong [OF assms(1)]) blast
  moreover have "region cmdline (Suc (length s)) \<inter> region CMD_LINE_LOC 512 = {}" using assms(2) by blast
  ultimately obtain r where "(strncpy CMD_LINE_LOC cmdline 512 m1)(CMD_LINE_LOC + 511 := 0)
      = wr CMD_LINE_LOC (take 511 s @ 0 # r) m1" and len: "length (take 511 s @ 0 # r) = 512"
    by (rule stored_command_line)
  then have eq: "m' = wr CMD_LINE_LOC (take 511 s @ 0 # r) m1" by (simp add: m'_def linux_setup_def m1_def)
  have frame: "m' a = m1 a" if "a \<notin> region CMD_LINE_LOC 512" for a
    unfolding eq using that by (intro wr_outside) (simp add: len del: length_append)
  have ap: "region KERNEL_SETUP 800 \<inter> region CMD_LINE_LOC 512 = {}"
    by (subst (1 2) region_unat) (auto simp: KERNEL_SETUP_def CMD_LINE_LOC_def)
  show "rd m' (KERNEL_SETUP + of_nat off) n = le_field n v"
    if "(off, le_field n v) \<in> set (setup_fields ram w h p z)" "off + n \<le> 800"
  proof -
    have "rd m' (KERNEL_SETUP + of_nat off) n = rd m1 (KERNEL_SETUP + of_nat off) n"
      using region_within [OF that(2)] ap frame by (intro rd_cong) blast
    then show ?thesis using setup_field_read [OF that(1), of KERNEL_SETUP m] by (simp add: m1_def)
  qed
  show "cstr m' CMD_LINE_LOC (take 511 s)"
    unfolding eq using len cstr_no_nul [OF assms(1)] by (intro cstr_wr_prefix) (auto dest: in_set_takeD)
  show "m' a = m a" if "a \<notin> region CMD_LINE_LOC 512"
    "\<forall>(off, n) \<in> set (setup_layout (z \<noteq> 0)). a \<notin> region (KERNEL_SETUP + of_nat off) n"
  proof -
    have "m1 a = m a" unfolding m1_def using that(2) unfolding extents_setup_fields [of ram w h p z, symmetric]
      by (intro store_fields_frame) (auto simp: extents_def)
    then show ?thesis using frame that(1) by simp
  qed
  show "m' a = m a" if "a \<notin> region KERNEL_SETUP 800 \<union> region CMD_LINE_LOC 512"
    using that frame m1 by simp
qed

text \<open>
  C22. What the parameter block tells the kernel, for an Xbox of 5 to 2048 MB: a memory map of
  four entries that lie end to end from 0 to the end of the memory, of types RAM, reserved,
  RAM, reserved, the last being the framebuffer of 4 MB; and a command line that is the
  first 511 characters of the given one. Nothing is written outside the block of 800 bytes and
  the 512 bytes of the command line.
\<close>

theorem setup_describes_memory:
  assumes "5 \<le> unat ram" "unat ram \<le> 2048" and "cstr m cmdline s"
    and "region cmdline (Suc (length s)) \<inter> (region KERNEL_SETUP 800 \<union> region CMD_LINE_LOC 512) = {}"
  shows "let m' = linux_setup ram w h KERNEL_SETUP p z cmdline m in m' (KERNEL_SETUP + 0x1e8) = 4 \<and>
    map (e820_entry m' KERNEL_SETUP) [0, 1, 2, 3] =
      [(0, 0x9f000, 1), (0x9f000, 0x61000, 2), (0x100000, unat ram * 2 ^ 20 - 0x500000, 1),
       (unat ram * 2 ^ 20 - 0x400000, 0x400000, 2)] \<and>
    rd m' (KERNEL_SETUP + 0x228) 4 = le_field 4 (ucast CMD_LINE_LOC) \<and>
    cstr m' CMD_LINE_LOC (take 511 s) \<and>
    (\<forall>a. a \<notin> region KERNEL_SETUP 800 \<union> region CMD_LINE_LOC 512 \<longrightarrow> m' a = m a)"
proof -
  let ?m' = "linux_setup ram w h KERNEL_SETUP p z cmdline m"
  note facts = linux_setup_facts [OF assms(3,4), where ram = ram and w = w and h = h and p = p and z = z]
  have entry: "e820_entry ?m' KERNEL_SETUP i = (unat a, unat n, unat t)"
    if "{f64 (720 + 20 * i) a, f64 (728 + 20 * i) n, f32 (736 + 20 * i) t} \<subseteq> set (e820_fields ram)" "i < 4" "unat t < 2 ^ 32"
    for i a n t
    using that e820_in_setup [of ram w h p z] by (intro e820_entry_value facts(1)) auto
  have "map (e820_entry ?m' KERNEL_SETUP) [0, 1, 2, 3] =
      [(0, 0x9f000, 1), (0x9f000, 0x61000, 2), (0x100000, unat ram * 2 ^ 20 - 0x500000, 1),
       (unat ram * 2 ^ 20 - 0x400000, 0x400000, 2)]"
    using entry [where i = 0 and a = 0 and n = "0x9f000" and t = 1] entry [where i = 1 and a = "0x9f000" and n = "0x61000" and t = 2]
      entry [where i = 2 and a = "0x100000" and t = 1]
      entry [where i = 3 and n = "ucast FB_SIZE" and t = 2] unat_e820 [OF assms(1,2)]
    by (simp add: e820_fields_def FB_SIZE_def)
  moreover have "?m' (KERNEL_SETUP + 0x1e8) = 4"
    using facts(1) [of "0x1e8" 1 4] by (simp add: setup_fields_def e820_fields_def le_field_def rd_def)
  moreover have "rd ?m' (KERNEL_SETUP + 0x228) 4 = le_field 4 (ucast CMD_LINE_LOC)"
    using facts(1) [of "0x228" 4] by (simp add: setup_fields_def command_fields_def)
  ultimately show ?thesis using facts(2,4) by (simp add: Let_def)
qed

text \<open>A console with 64 MB, a 640x480 picture and the command line \<open>init=/linuxrc\<close> at 0x200000.\<close>

definition example_cmdline :: "u8 list" where
  "example_cmdline = [0x69, 0x6e, 0x69, 0x74, 0x3d, 0x2f, 0x6c, 0x69, 0x6e, 0x75, 0x78, 0x72, 0x63]"

lemma setup_describes_memory_witness:
  "e820_entry (linux_setup 64 640 480 KERNEL_SETUP 0 0 0x200000 (wr 0x200000 (example_cmdline @ [0]) (\<lambda>_. 0)))
     KERNEL_SETUP 2 = (0x100000, 0x3b00000, 1)"
proof -
  have "cstr (wr 0x200000 (example_cmdline @ [0]) (\<lambda>_. 0)) 0x200000 example_cmdline"
    by (rule cstr_wr) (simp_all add: example_cmdline_def)
  moreover have "region 0x200000 (Suc (length example_cmdline)) \<inter>
      (region KERNEL_SETUP 800 \<union> region CMD_LINE_LOC 512) = {}"
    by (subst (1 2 3) region_unat) (auto simp: KERNEL_SETUP_def CMD_LINE_LOC_def example_cmdline_def)
  ultimately show ?thesis
    using setup_describes_memory [of 64 _ "0x200000" example_cmdline 640 480 0 0] by (simp add: Let_def)
qed

end
