(* ===== verification/ItemChain.thy ===== *)
theory ItemChain
  imports CromwellBase
begin

text \<open>
  Doubly linked lists of menu items, the data structure of the icon menu and of the text menus,
  and the page of items that is visible. The items live in a store from addresses to items; 0 is
  the null pointer, and following a pointer to no item is the value \<open>None\<close>.
\<close>

section \<open>Walking a list\<close>

text \<open>The loop of \<open>AddIcon\<close> and \<open>TextMenuAddItem\<close>: the last item from \<open>p\<close> on, \<open>cur\<close> when there is none.\<close>

partial_function (option) list_end :: "('i \<Rightarrow> u32) \<Rightarrow> (u32 \<Rightarrow> 'i option) \<Rightarrow> u32 \<Rightarrow> u32 \<Rightarrow> u32 option" where
  "list_end nxt s p cur =
     (if p = 0 then Some cur else case s p of None \<Rightarrow> None | Some i \<Rightarrow> list_end nxt s (nxt i) p)"

declare list_end.simps [code]

text \<open>The loop that looks for the last visible item: at most \<open>n\<close> steps forward.\<close>

primrec last_visible :: "('i \<Rightarrow> u32) \<Rightarrow> (u32 \<Rightarrow> 'i option) \<Rightarrow> nat \<Rightarrow> u32 \<Rightarrow> u32 option" where
  "last_visible nxt s 0 p = Some p"
| "last_visible nxt s (Suc n) p =
     (case s p of None \<Rightarrow> None | Some i \<Rightarrow> if nxt i = 0 then Some p else last_visible nxt s n (nxt i))"

text \<open>The items drawn: up to \<open>n\<close> from \<open>p\<close> on.\<close>

primrec drawn_from :: "('i \<Rightarrow> u32) \<Rightarrow> (u32 \<Rightarrow> 'i option) \<Rightarrow> nat \<Rightarrow> u32 \<Rightarrow> u32 list option" where
  "drawn_from nxt s 0 p = Some []"
| "drawn_from nxt s (Suc n) p =
     (if p = 0 then Some []
      else case s p of None \<Rightarrow> None | Some i \<Rightarrow> map_option ((#) p) (drawn_from nxt s n (nxt i)))"

section \<open>Lists of items in the store\<close>

fun chain :: "('i \<Rightarrow> u32) \<Rightarrow> ('i \<Rightarrow> u32) \<Rightarrow> (u32 \<Rightarrow> 'i option) \<Rightarrow> u32 \<Rightarrow> u32 \<Rightarrow> u32 list \<Rightarrow> bool" where
  "chain nxt prv s before p [] \<longleftrightarrow> p = 0"
| "chain nxt prv s before p (x # xs) \<longleftrightarrow> p = x \<and> x \<noteq> 0 \<and>
     (case s x of None \<Rightarrow> False | Some i \<Rightarrow> prv i = before \<and> chain nxt prv s x (nxt i) xs)"

definition holds_items :: "('i \<Rightarrow> u32) \<Rightarrow> ('i \<Rightarrow> u32) \<Rightarrow> (u32 \<Rightarrow> 'i option) \<Rightarrow> u32 \<Rightarrow> u32 list \<Rightarrow> bool" where
  "holds_items nxt prv s first xs \<longleftrightarrow> chain nxt prv s 0 first xs \<and> distinct xs"

lemma chain_frame: "x \<notin> set xs \<Longrightarrow> chain nxt prv (s(x := v)) b p xs = chain nxt prv s b p xs"
  by (induction nxt prv s b p xs rule: chain.induct) (auto split: option.splits)

lemma list_end_chain:
  "chain nxt prv s b p xs \<Longrightarrow> list_end nxt s p cur = Some (if xs = [] then cur else last xs)"
proof (induction nxt prv s b p xs arbitrary: cur rule: chain.induct)
  case (2 nxt prv s b p x xs)
  then show ?case by (subst list_end.simps) (auto split: option.splits)
qed (subst list_end.simps, simp)

lemma chain_nth:
  "chain nxt prv s b p xs \<Longrightarrow> k < length xs \<Longrightarrow>
   \<exists>i. s (xs ! k) = Some i \<and> xs ! k \<noteq> 0 \<and> nxt i = (if Suc k < length xs then xs ! Suc k else 0) \<and>
       prv i = (if k = 0 then b else xs ! (k - 1))"
proof (induction nxt prv s b p xs arbitrary: k rule: chain.induct)
  case (2 nxt prv s b p x xs)
  obtain i where i: "s x = Some i" "prv i = b" "chain nxt prv s x (nxt i) xs" "x \<noteq> 0"
    using 2(2) by (auto split: option.splits)
  show ?case
  proof (cases k)
    case 0
    then show ?thesis using i by (cases xs) (auto split: option.splits)
  next
    case (Suc j)
    then show ?thesis using 2(1) [OF i(1,3), of j] 2(3) by (auto simp: nth_Cons')
  qed
qed simp

lemma holds_items_first:
  "holds_items nxt prv s first xs \<Longrightarrow> first = (if xs = [] then 0 else xs ! 0)"
  by (cases xs) (auto simp: holds_items_def)

text \<open>Items are told apart by their addresses, none of which is null.\<close>

lemma item_at:
  assumes "holds_items nxt prv s first xs" "k < length xs"
  obtains i where "s (xs ! k) = Some i" "xs ! k \<noteq> 0"
    "nxt i = (if Suc k < length xs then xs ! Suc k else 0)" "prv i = (if k = 0 then 0 else xs ! (k - 1))"
  using assms chain_nth [of nxt prv s 0 first xs k] by (auto simp: holds_items_def)

lemma same_item:
  "holds_items nxt prv s first xs \<Longrightarrow> j < length xs \<Longrightarrow> k < length xs \<Longrightarrow> xs ! j = xs ! k \<longleftrightarrow> j = k"
  by (simp add: holds_items_def nth_eq_iff_index_eq)

lemma nonnull_item: "holds_items nxt prv s first xs \<Longrightarrow> k < length xs \<Longrightarrow> xs ! k \<noteq> 0"
  by (erule item_at)

lemma last_visible_items:
  assumes "holds_items nxt prv s first xs"
  shows "k < length xs \<Longrightarrow> last_visible nxt s n (xs ! k) = Some (xs ! min (k + n) (length xs - 1))"
proof (induction n arbitrary: k)
  case 0
  then have "min k (length xs - 1) = k" by simp
  then show ?case by simp
next
  case (Suc n)
  obtain i where i: "s (xs ! k) = Some i" "nxt i = (if Suc k < length xs then xs ! Suc k else 0)"
    using item_at [OF assms Suc.prems] by metis
  show ?case
  proof (cases "Suc k < length xs")
    case True
    then show ?thesis using i Suc.IH [of "Suc k"] nonnull_item [OF assms, of "Suc k"] by simp
  next
    case False
    then have "length xs - 1 = k" using Suc.prems by simp
    then show ?thesis using i False by simp
  qed
qed

lemma drawn_items:
  assumes "holds_items nxt prv s first xs"
  shows "k < length xs \<Longrightarrow> drawn_from nxt s n (xs ! k) = Some (take n (drop k xs))"
proof (induction n arbitrary: k)
  case (Suc n)
  obtain i where i: "s (xs ! k) = Some i" "xs ! k \<noteq> 0" "nxt i = (if Suc k < length xs then xs ! Suc k else 0)"
    using item_at [OF assms Suc.prems] by metis
  have "drawn_from nxt s n (nxt i) = Some (take n (drop (Suc k) xs))"
    using i Suc.IH [of "Suc k"] by (cases n) auto
  then show ?case using i Suc.prems by (simp add: Cons_nth_drop_Suc [symmetric])
qed simp

section \<open>Appending an item\<close>

text \<open>
  The contract of the operation that appends an item: \<open>add\<close> takes the store, the first pointer
  and the new item. A client builds a menu by appending items one after the other.
\<close>

locale item_list =
  fixes nxt prv :: "'i \<Rightarrow> u32"
    and add :: "u32 \<Rightarrow> (u32 \<Rightarrow> 'i option) \<times> u32 \<Rightarrow> ((u32 \<Rightarrow> 'i option) \<times> u32) option"
  assumes add_item: "holds_items nxt prv s first xs \<Longrightarrow> new \<notin> set xs \<Longrightarrow> new \<noteq> 0 \<Longrightarrow> s new = Some i \<Longrightarrow>
    \<exists>s' first'. add new (s, first) = Some (s', first') \<and> holds_items nxt prv s' first' (xs @ [new]) \<and> dom s' = dom s"
begin

lemma add_all:
  "holds_items nxt prv s first xs \<Longrightarrow> distinct (xs @ news) \<Longrightarrow> 0 \<notin> set news \<Longrightarrow> set news \<subseteq> dom s \<Longrightarrow>
   \<exists>s' first'. fold (\<lambda>new r. Option.bind r (add new)) news (Some (s, first)) = Some (s', first') \<and>
     holds_items nxt prv s' first' (xs @ news) \<and> dom s' = dom s"
proof (induction news arbitrary: s first xs)
  case (Cons new news)
  obtain i where "s new = Some i" using Cons.prems(4) by auto
  then obtain s1 f1 where one: "add new (s, first) = Some (s1, f1)"
    "holds_items nxt prv s1 f1 (xs @ [new])" "dom s1 = dom s"
    using add_item [OF Cons.prems(1), of new i] Cons.prems(2,3) by auto
  then show ?case using Cons.IH [OF one(2)] Cons.prems by auto
qed auto

end

text \<open>Linking in a new last item, for any fields that hold the two links.\<close>

lemma chain_snoc:
  assumes "chain nxt prv s b p xs" "distinct xs" "new \<notin> set xs" "new \<noteq> 0"
    and "\<And>q i. nxt (set_nxt q i) = q" "\<And>q i. prv (set_nxt q i) = prv i"
    and "s' new = Some j" "nxt j = 0" "prv j = (if xs = [] then b else last xs)"
    and "\<And>x. x \<in> set xs \<Longrightarrow> s' x = (if x = last xs then map_option (set_nxt new) (s x) else s x)"
  shows "chain nxt prv s' b (if xs = [] then new else p) (xs @ [new])"
  using assms
proof (induction xs arbitrary: b p)
  case (Cons x xs)
  obtain i where i: "s x = Some i" "prv i = b" "chain nxt prv s x (nxt i) xs" "x \<noteq> 0" "p = x"
    using Cons.prems(1) by (auto split: option.splits)
  show ?case
  proof (cases "xs = []")
    case True
    then show ?thesis using Cons.prems i by simp
  next
    case False
    have "s' x = s x" using Cons.prems(2,10) False by auto
    moreover have "chain nxt prv s' x (if xs = [] then new else nxt i) (xs @ [new])"
      using Cons.prems False i by (intro Cons.IH) auto
    ultimately show ?thesis using False i by simp
  qed
qed simp

text \<open>Appending as the two menus do it satisfies the contract, for any fields that hold the links.\<close>

definition append_item :: "('i \<Rightarrow> u32) \<Rightarrow> (u32 \<Rightarrow> 'i \<Rightarrow> 'i) \<Rightarrow> (u32 \<Rightarrow> 'i \<Rightarrow> 'i) \<Rightarrow> u32 \<Rightarrow> (u32 \<Rightarrow> 'i option) \<times> u32 \<Rightarrow>
    ((u32 \<Rightarrow> 'i option) \<times> u32) option" where
  "append_item nxt set_nxt set_prv new = (\<lambda>(s, first).
     case list_end nxt s first 0 of
       None \<Rightarrow> None
     | Some cur \<Rightarrow>
         (let s1 = (if cur = 0 then s else s(cur := map_option (set_nxt new) (s cur)))
          in case s1 new of
               None \<Rightarrow> None
             | Some i \<Rightarrow> Some (s1(new \<mapsto> set_prv cur (set_nxt 0 i)), if cur = 0 then new else first)))"

lemma append_item_list:
  assumes laws: "\<And>q i. nxt (set_nxt q i) = q" "\<And>q i. prv (set_nxt q i) = prv i"
    "\<And>q i. nxt (set_prv q i) = nxt i" "\<And>q i. prv (set_prv q i) = q"
  shows "item_list nxt prv (append_item nxt set_nxt set_prv)"
proof
  fix s first xs new i
  assume a: "holds_items nxt prv s first xs" "new \<notin> set xs" "new \<noteq> 0" "s new = Some i"
  define cur where "cur = (if xs = [] then 0 else last xs)"
  have cur: "list_end nxt s first 0 = Some cur" "xs \<noteq> [] \<Longrightarrow> cur \<noteq> 0" "cur \<noteq> new" "xs \<noteq> [] \<Longrightarrow> s cur \<noteq> None"
    using a list_end_chain [of nxt prv s 0 first xs] item_at [OF a(1), of "length xs - 1"]
    by (auto simp: cur_def holds_items_def last_conv_nth)
  define s1 where "s1 = (if cur = 0 then s else s(cur := map_option (set_nxt new) (s cur)))"
  define j where "j = set_prv cur (set_nxt 0 i)"
  have s1: "s1 new = Some i" "dom s1 = dom s" using a(4) cur(2-4) by (auto simp: s1_def cur_def)
  then have eq: "append_item nxt set_nxt set_prv new (s, first) = Some (s1(new \<mapsto> j), if cur = 0 then new else first)"
    by (simp add: append_item_def cur(1) s1_def [symmetric] j_def Let_def)
  have "chain nxt prv (s1(new \<mapsto> j)) 0 (if xs = [] then new else first) (xs @ [new])"
    using a laws by (intro chain_snoc [where set_nxt = set_nxt])
      (use cur(2) in \<open>auto simp: holds_items_def j_def cur_def s1_def\<close>)
  then have "holds_items nxt prv (s1(new \<mapsto> j)) (if cur = 0 then new else first) (xs @ [new])"
    using a cur(2) by (auto simp: holds_items_def cur_def)
  then show "\<exists>s' first'. append_item nxt set_nxt set_prv new (s, first) = Some (s', first') \<and>
      holds_items nxt prv s' first' (xs @ [new]) \<and> dom s' = dom s"
    using eq s1 a(4) by (auto simp: insert_absorb domI)
qed

section \<open>Pages\<close>

text \<open>
  The abstract menu: a number of entries, a page of \<open>k\<close> of them that starts at the entry
  \<open>fv\<close>, and the selected entry \<open>sel\<close>.
\<close>

definition page_right :: "nat \<Rightarrow> nat \<Rightarrow> nat \<times> nat \<Rightarrow> nat \<times> nat" where
  "page_right k n = (\<lambda>(fv, sel).
     if Suc sel < n then (if sel = min (fv + (k - 1)) (n - 1) then Suc fv else fv, Suc sel) else (fv, sel))"

definition page_left :: "nat \<times> nat \<Rightarrow> nat \<times> nat" where
  "page_left = (\<lambda>(fv, sel). if sel = 0 then (fv, sel) else (if sel = fv then sel - 1 else fv, sel - 1))"

definition on_page :: "nat \<Rightarrow> nat \<times> nat \<Rightarrow> bool" where
  "on_page k = (\<lambda>(fv, sel). fv \<le> sel \<and> sel < fv + k)"

lemma on_page_right: "0 < k \<Longrightarrow> snd p < n \<Longrightarrow> on_page k p \<Longrightarrow> on_page k (page_right k n p)"
  by (cases p) (auto simp: on_page_def page_right_def min_def)

lemma on_page_left: "0 < k \<Longrightarrow> on_page k p \<Longrightarrow> on_page k (page_left p)"
  by (cases p) (auto simp: on_page_def page_left_def)

lemma on_page_drawn: "on_page k (fv, sel) \<Longrightarrow> sel < length xs \<Longrightarrow> xs ! sel \<in> set (take k (drop fv xs))"
  by (auto simp: on_page_def in_set_conv_nth intro!: exI [of _ "sel - fv"])

end
