(* ===== verification/Input.thy ===== *)
theory Input
  imports CromwellBase
begin

text \<open>
  The input devices, \<open>drivers/usb/sys\<close>: the completion handlers of the game pad (\<open>xpad.c\<close>), the
  infrared remote control (\<open>xremote.c\<close>) and the keyboard (\<open>usbkey.c\<close>) store what the device
  sent; \<open>risefall_xpad_BUTTON\<close> (\<open>risefall.c\<close>), polled by the menus, turns it into key presses.
  The USB stack that calls the handlers is outside the model: a handler returns, besides the
  new state, whether it hands its request back to the stack.
\<close>

section \<open>State\<close>

record xpad_data =
  timestamp :: u32
  stick_left_x :: u16
  stick_left_y :: u16
  stick_right_x :: u16
  stick_right_y :: u16
  trig_left :: u16
  trig_right :: u16
  pad :: u8
  state :: u8
  keys :: "u8 list"

record input_state =
  XPAD_current :: "xpad_data list"
  XPAD_last :: "xpad_data list"
  xpad_button_history :: "u8 list"
  current_remote_key :: u16
  remotekeyIsRepeat :: u8
  current_keyboard_key :: u32

definition xpad_zero :: xpad_data where
  "xpad_zero = \<lparr>timestamp = 0, stick_left_x = 0, stick_left_y = 0, stick_right_x = 0, stick_right_y = 0,
     trig_left = 0, trig_right = 0, pad = 0, state = 0, keys = replicate 6 0\<rparr>"

definition XPADInit :: "input_state \<Rightarrow> input_state" where
  "XPADInit s = s\<lparr>XPAD_current := replicate 4 xpad_zero, XPAD_last := replicate 4 xpad_zero,
     xpad_button_history := replicate 7 0\<rparr>"

definition XRemoteInit :: "input_state \<Rightarrow> input_state" where
  "XRemoteInit s = s\<lparr>current_remote_key := 0\<rparr>"

abbreviation TRIGGER_XPAD_KEY_A :: u8 where "TRIGGER_XPAD_KEY_A \<equiv> 0"
abbreviation TRIGGER_XPAD_KEY_B :: u8 where "TRIGGER_XPAD_KEY_B \<equiv> 1"
abbreviation TRIGGER_XPAD_KEY_START :: u8 where "TRIGGER_XPAD_KEY_START \<equiv> 4"
abbreviation TRIGGER_XPAD_KEY_BACK :: u8 where "TRIGGER_XPAD_KEY_BACK \<equiv> 5"
abbreviation TRIGGER_XPAD_PAD_UP :: u8 where "TRIGGER_XPAD_PAD_UP \<equiv> 6"
abbreviation TRIGGER_XPAD_PAD_DOWN :: u8 where "TRIGGER_XPAD_PAD_DOWN \<equiv> 7"
abbreviation TRIGGER_XPAD_PAD_LEFT :: u8 where "TRIGGER_XPAD_PAD_LEFT \<equiv> 8"
abbreviation TRIGGER_XPAD_PAD_RIGHT :: u8 where "TRIGGER_XPAD_PAD_RIGHT \<equiv> 9"

section \<open>Completion handlers\<close>

text \<open>\<open>num\<close> is the number the pad got when it was connected, \<open>jiffies\<close> the time.\<close>

definition decode_report :: "u8 list \<Rightarrow> u32 \<Rightarrow> xpad_data" where
  "decode_report d jiffies = \<lparr>timestamp = jiffies,
     stick_left_x = le16 (d ! 12) (d ! 13), stick_left_y = le16 (d ! 14) (d ! 15),
     stick_right_x = le16 (d ! 16) (d ! 17), stick_right_y = le16 (d ! 18) (d ! 19),
     trig_left = ucast (d ! 10), trig_right = ucast (d ! 11),
     pad = d ! 2 AND 0xf, state = drop_bit 4 (d ! 2) AND 0xf,
     keys = [d ! 4, d ! 5, d ! 6, d ! 7, d ! 8, d ! 9]\<rparr>"

definition xpad_irq :: "int \<Rightarrow> u8 list \<Rightarrow> u32 \<Rightarrow> input_state \<Rightarrow> bool \<times> input_state" where
  "xpad_irq num d jiffies s =
     (if num < 0 \<or> num > 3 then (False, s)
      else (True, s\<lparr>XPAD_last := (XPAD_last s)[0 := XPAD_current s ! 0],
                    XPAD_current := (XPAD_current s)[0 := decode_report d jiffies]\<rparr>))"

definition xremote_irq :: "int \<Rightarrow> int \<Rightarrow> u8 list \<Rightarrow> input_state \<Rightarrow> bool \<times> input_state" where
  "xremote_irq status actual_length d s =
     (if status \<noteq> 0 \<or> actual_length < 6 then (False, s)
      else (True, s\<lparr>current_remote_key := le16 (d ! 3) (d ! 2),
                    remotekeyIsRepeat := (if unat (d ! 4) + unat (d ! 5) * 256 > 0x41 then 0 else 1)\<rparr>))"

definition usb_kbd_irq :: "int \<Rightarrow> u8 list \<Rightarrow> input_state \<Rightarrow> bool \<times> input_state" where
  "usb_kbd_irq status d s =
     (if status \<noteq> 0 then (False, s) else (True, s\<lparr>current_keyboard_key := ucast (d ! 2)\<rparr>))"

section \<open>Polling a button\<close>

definition keyboard_match :: "u8 \<Rightarrow> u32 \<Rightarrow> bool" where
  "keyboard_match b key \<longleftrightarrow> key \<noteq> 0 \<and>
     (b = TRIGGER_XPAD_KEY_A \<and> key = 0x28 \<or> b = TRIGGER_XPAD_KEY_B \<and> key = 0x29 \<or>
      b = TRIGGER_XPAD_PAD_UP \<and> key = 0x52 \<or> b = TRIGGER_XPAD_PAD_DOWN \<and> key = 0x51 \<or>
      b = TRIGGER_XPAD_PAD_LEFT \<and> key = 0x50 \<or> b = TRIGGER_XPAD_PAD_RIGHT \<and> key = 0x4f)"

definition remote_match :: "u8 \<Rightarrow> u16 \<Rightarrow> bool" where
  "remote_match b key \<longleftrightarrow>
     b = TRIGGER_XPAD_KEY_A \<and> key = 0x0b0a \<or> b = TRIGGER_XPAD_PAD_UP \<and> key = 0xa60a \<or>
     b = TRIGGER_XPAD_PAD_DOWN \<and> key = 0xa70a \<or> b = TRIGGER_XPAD_PAD_LEFT \<and> key = 0xa90a \<or>
     b = TRIGGER_XPAD_PAD_RIGHT \<and> key = 0xa80a \<or> b = TRIGGER_XPAD_KEY_BACK \<and> key = 0xd80a"

definition Buttonmask :: "u8 \<Rightarrow> u8" where
  "Buttonmask b =
     (if b = TRIGGER_XPAD_PAD_UP then 1 else if b = TRIGGER_XPAD_PAD_DOWN then 2
      else if b = TRIGGER_XPAD_PAD_LEFT then 4 else 8)"

text \<open>The edges of the analog buttons and of the direction pad, against the history kept for them.\<close>

definition key_edge :: "u8 \<Rightarrow> input_state \<Rightarrow> int \<times> input_state" where
  "key_edge b s =
     (let i = unat b; Button = keys (XPAD_current s ! 0) ! i; hist = xpad_button_history s
      in if Button > 0x30 \<and> hist ! i = 0 then (1, s\<lparr>xpad_button_history := hist[i := 1]\<rparr>)
         else if Button = 0 \<and> hist ! i = 1 then (-1, s\<lparr>xpad_button_history := hist[i := 0]\<rparr>)
         else (0, s))"

definition pad_edge :: "u8 \<Rightarrow> input_state \<Rightarrow> int \<times> input_state" where
  "pad_edge b s =
     (let mask = Buttonmask b; now = pad (XPAD_current s ! 0) AND mask; hist = xpad_button_history s;
          was = hist ! 6 AND mask; flipped = s\<lparr>xpad_button_history := hist[6 := hist ! 6 XOR mask]\<rparr>
      in if now \<noteq> 0 \<and> was = 0 then (1, flipped) else if now = 0 \<and> was \<noteq> 0 then (-1, flipped) else (0, s))"

definition risefall_xpad_BUTTON :: "u8 \<Rightarrow> input_state \<Rightarrow> int \<times> input_state" where
  "risefall_xpad_BUTTON b s =
     (if keyboard_match b (current_keyboard_key s) then (1, s\<lparr>current_keyboard_key := 0\<rparr>)
      else if remotekeyIsRepeat s = 0 \<and> remote_match b (current_remote_key s)
      then (1, s\<lparr>current_remote_key := 0, remotekeyIsRepeat := 0\<rparr>)
      else if b < 6 then key_edge b s
      else if b < 10 then pad_edge b s
      else (0, s))"

text \<open>What arrives from the devices, and how it is interleaved with polling.\<close>

datatype input_event =
    PadReport int "u8 list" u32
  | RemotePacket int int "u8 list"
  | KeyPacket int "u8 list"

fun deliver :: "input_event \<Rightarrow> input_state \<Rightarrow> input_state" where
  "deliver (PadReport num d jiffies) s = snd (xpad_irq num d jiffies s)"
| "deliver (RemotePacket status n d) s = snd (xremote_irq status n d s)"
| "deliver (KeyPacket status d) s = snd (usb_kbd_irq status d s)"

datatype input_action = Arrive input_event | Poll u8

text \<open>The answers of the polls, with the button polled.\<close>

fun run_input :: "input_action list \<Rightarrow> input_state \<Rightarrow> (u8 \<times> int) list" where
  "run_input [] s = []"
| "run_input (Arrive e # as) s = run_input as (deliver e s)"
| "run_input (Poll b # as) s =
     (b, fst (risefall_xpad_BUTTON b s)) # run_input as (snd (risefall_xpad_BUTTON b s))"

section \<open>Invariant\<close>

text \<open>The arrays have their sizes and the history of an analog button is 0 or 1.\<close>

definition input_ok :: "input_state \<Rightarrow> bool" where
  "input_ok s \<longleftrightarrow> length (XPAD_current s) = 4 \<and> length (XPAD_last s) = 4 \<and>
     length (xpad_button_history s) = 7 \<and> (\<forall>i < 6. xpad_button_history s ! i \<in> {0, 1})"

lemma unat_small [simp]: "(b :: u8) < 6 \<longleftrightarrow> unat b < 6" "b < 10 \<longleftrightarrow> unat b < 10"
  by (simp_all add: word_less_nat_alt)

lemma input_ok_deliver: "input_ok s \<Longrightarrow> input_ok (deliver e s)"
  by (cases e) (auto simp: input_ok_def xpad_irq_def xremote_irq_def usb_kbd_irq_def)

lemma input_ok_key_edge: "input_ok s \<Longrightarrow> unat b < 6 \<Longrightarrow> input_ok (snd (key_edge b s))"
  by (auto simp: input_ok_def key_edge_def Let_def nth_list_update)

lemma input_ok_pad_edge: "input_ok s \<Longrightarrow> input_ok (snd (pad_edge b s))"
  by (auto simp: input_ok_def pad_edge_def Let_def nth_list_update)

lemma input_ok_poll: "input_ok s \<Longrightarrow> input_ok (snd (risefall_xpad_BUTTON b s))"
  unfolding risefall_xpad_BUTTON_def
  by (auto simp: input_ok_key_edge input_ok_pad_edge) (simp_all add: input_ok_def)

lemma input_ok_init: "input_ok (XPADInit s)"
  by (auto simp: input_ok_def XPADInit_def)

section \<open>A press is reported once\<close>

definition held :: "u8 \<Rightarrow> input_state \<Rightarrow> bool" where
  "held b s \<longleftrightarrow> (if unat b < 6 then xpad_button_history s ! unat b = 1
                 else xpad_button_history s ! 6 AND Buttonmask b \<noteq> 0)"

fun alternates :: "bool \<Rightarrow> int list \<Rightarrow> bool" where
  "alternates down [] = True"
| "alternates down (r # rs) =
     (if r = 0 then alternates down rs else r = (if down then -1 else 1) \<and> alternates (\<not> down) rs)"

definition answers :: "u8 \<Rightarrow> (u8 \<times> int) list \<Rightarrow> int list" where
  "answers b rs = map snd (filter (\<lambda>(c, r). c = b) rs)"

definition quiet :: "input_state \<Rightarrow> bool" where
  "quiet s \<longleftrightarrow> current_keyboard_key s = 0 \<and> current_remote_key s = 0"

fun pad_action :: "input_action \<Rightarrow> bool" where
  "pad_action (Arrive (PadReport num d jiffies)) = True"
| "pad_action (Arrive _) = False"
| "pad_action (Poll b) = (unat b < 10)"

lemma quiet_poll:
  assumes "quiet s"
  shows "risefall_xpad_BUTTON b s = (if unat b < 6 then key_edge b s else if unat b < 10 then pad_edge b s else (0, s))"
  using assms by (simp add: risefall_xpad_BUTTON_def quiet_def keyboard_match_def remote_match_def)

text \<open>The mask of a direction is the bit of its number, so its history is a bit.\<close>

lemma Buttonmask_exp:
  assumes "\<not> unat b < 6" "unat b < 10"
  shows "Buttonmask b = 2 ^ (unat b - 6)"
proof -
  have "unat b = 6 \<or> unat b = 7 \<or> unat b = 8 \<or> unat b = 9" using assms by linarith
  then show ?thesis by (auto simp: Buttonmask_def word_unat_eq_iff)
qed

lemma held_bit:
  "\<not> unat b < 6 \<Longrightarrow> unat b < 10 \<Longrightarrow> held b s \<longleftrightarrow> bit (xpad_button_history s ! 6) (unat b - 6)"
  by (simp add: held_def Buttonmask_exp and_exp_eq_0_iff_not_bit)

lemma pad_edge_bit:
  assumes "\<not> unat b < 6" "unat b < 10" "input_ok s"
  shows "pad_edge b s =
    (let down = bit (pad (XPAD_current s ! 0)) (unat b - 6)
     in if down = held b s then (0, s)
        else (if down then 1 else -1,
          s\<lparr>xpad_button_history := (xpad_button_history s)[6 := flip_bit (unat b - 6) (xpad_button_history s ! 6)]\<rparr>))"
  using assms by (auto simp: pad_edge_def Let_def held_bit Buttonmask_exp and_exp_eq_0_iff_not_bit flip_bit_eq_xor)

text \<open>A poll answers according to what the button's history says, and changes this history only.\<close>

lemma poll_self:
  assumes "input_ok s" "quiet s" "unat b < 10" "risefall_xpad_BUTTON b s = (r, s')"
  shows "r = 0 \<and> held b s' = held b s \<or> r = (if held b s then -1 else 1) \<and> held b s' = (\<not> held b s)"
proof (cases "unat b < 6")
  case True
  then show ?thesis using assms
    by (auto simp: quiet_poll key_edge_def Let_def held_def input_ok_def split: if_splits)
next
  case False
  then show ?thesis using assms
    by (auto simp: quiet_poll pad_edge_bit Let_def held_bit input_ok_def bit_flip_bit_iff split: if_splits)
qed

lemma poll_other:
  assumes "input_ok s" "quiet s" "unat b < 10" "unat c < 10" "b \<noteq> c"
  shows "held b (snd (risefall_xpad_BUTTON c s)) = held b s"
proof -
  have ne: "unat b \<noteq> unat c" using assms(5) by (simp add: word_unat_eq_iff)
  have len: "length (xpad_button_history s) = 7" using assms(1) by (simp add: input_ok_def)
  show ?thesis
  proof (cases "unat c < 6")
    case True
    then show ?thesis using ne assms len by (auto simp: quiet_poll key_edge_def Let_def held_def)
  next
    case False
    then show ?thesis using ne assms len
      by (cases "unat b < 6") (auto simp: quiet_poll pad_edge_bit Let_def held_def,
          auto simp: held_bit [symmetric] Buttonmask_exp and_exp_eq_0_iff_not_bit bit_flip_bit_iff)
  qed
qed

lemma quiet_kept:
  assumes "quiet s" shows "quiet (snd (risefall_xpad_BUTTON c s))"
  using assms by (auto simp: quiet_poll key_edge_def pad_edge_def Let_def) (simp_all add: quiet_def)

lemma alternation:
  "input_ok s \<Longrightarrow> quiet s \<Longrightarrow> list_all pad_action as \<Longrightarrow> unat b < 10 \<Longrightarrow>
   alternates (held b s) (answers b (run_input as s))"
proof (induction as s rule: run_input.induct)
  case (2 e as s)
  then show ?case
    by (cases e) (auto simp: xpad_irq_def quiet_def held_def input_ok_def)
next
  case (3 c as s)
  obtain r s' where p: "risefall_xpad_BUTTON c s = (r, s')" by fastforce
  have IH: "alternates (held b s') (answers b (run_input as s'))"
    using 3 input_ok_poll [of s c] quiet_kept [of s c] by (simp add: p)
  show ?case
  proof (cases "c = b")
    case True
    then show ?thesis using poll_self [OF 3(2,3,5), of r s'] IH p by (auto simp: answers_def)
  next
    case False
    then show ?thesis using poll_other [OF 3(2,3,5), of c] 3(4) IH p by (simp add: answers_def)
  qed
qed (simp add: answers_def)

text \<open>
  C24. Whatever the pads report and in whatever order the ten buttons are polled in between, the
  answers for a button alternate: a press (1) is not reported again before the release (-1) has
  been, and a release only after a press. No keyboard or remote control is in use.
\<close>

theorem presses_alternate:
  "input_ok s \<Longrightarrow> quiet s \<Longrightarrow> list_all pad_action as \<Longrightarrow> unat b < 10 \<Longrightarrow>
   alternates (held b s) (answers b (run_input as s))"
  by (rule alternation)

section \<open>Start and Back\<close>

text \<open>Two reports that differ in the buttons Start, Back and the sticks' buttons, or in what is not used.\<close>

fun same_but_state :: "input_action \<Rightarrow> input_action \<Rightarrow> bool" where
  "same_but_state (Arrive (PadReport num d j)) (Arrive (PadReport num' d' j')) \<longleftrightarrow>
     num = num' \<and> d ! 2 AND 0xf = d' ! 2 AND 0xf \<and> (\<forall>i \<in> {4..9}. d ! i = d' ! i)"
| "same_but_state x y \<longleftrightarrow> x = y"

definition same_input :: "input_state \<Rightarrow> input_state \<Rightarrow> bool" where
  "same_input s s' \<longleftrightarrow> length (XPAD_current s) = 4 \<and> length (XPAD_current s') = 4 \<and>
     pad (XPAD_current s ! 0) = pad (XPAD_current s' ! 0) \<and> keys (XPAD_current s ! 0) = keys (XPAD_current s' ! 0) \<and>
     xpad_button_history s = xpad_button_history s' \<and> current_remote_key s = current_remote_key s' \<and>
     remotekeyIsRepeat s = remotekeyIsRepeat s' \<and> current_keyboard_key s = current_keyboard_key s'"

lemma same_input_poll:
  "same_input s s' \<Longrightarrow> fst (risefall_xpad_BUTTON b s) = fst (risefall_xpad_BUTTON b s') \<and>
     same_input (snd (risefall_xpad_BUTTON b s)) (snd (risefall_xpad_BUTTON b s'))"
  unfolding risefall_xpad_BUTTON_def key_edge_def pad_edge_def Let_def by (auto simp: same_input_def)

lemma same_input_deliver:
  "same_but_state (Arrive e) (Arrive e') \<Longrightarrow> same_input s s' \<Longrightarrow> same_input (deliver e s) (deliver e' s')"
  by (cases e; cases e')
    (auto simp: same_input_def xpad_irq_def decode_report_def xremote_irq_def usb_kbd_irq_def)

lemma same_input_run:
  "list_all2 same_but_state as as' \<Longrightarrow> same_input s s' \<Longrightarrow> run_input as s = run_input as' s'"
proof (induction arbitrary: s s' rule: list_all2_induct)
  case (Cons x xs y ys)
  show ?case
  proof (cases x)
    case (Arrive e)
    then obtain e' where "y = Arrive e'" using Cons(1) by (cases e; cases y) auto
    then show ?thesis using Cons same_input_deliver Arrive by simp
  next
    case (Poll b)
    then show ?thesis using Cons same_input_poll [OF Cons(4), of b] by (cases y) auto
  qed
qed simp

text \<open>
  C40. The Start and the Back button of a pad have no effect: when the reports of two runs differ
  only in them (and in the buttons of the sticks, the sticks and the triggers), every poll of any
  button has the same answer. \<open>TRIGGER_XPAD_KEY_START\<close> and \<open>TRIGGER_XPAD_KEY_BACK\<close>, with
  which the menus ask for them, read the keys 4 and 5, the Black and the White button.
\<close>

theorem start_and_back_ignored:
  "list_all2 same_but_state as as' \<Longrightarrow> length (XPAD_current s) = 4 \<Longrightarrow> run_input as s = run_input as' s"
  by (rule same_input_run) (simp_all add: same_input_def)

section \<open>Runs\<close>

definition idle_input :: input_state where
  "idle_input = \<lparr>XPAD_current = replicate 4 xpad_zero, XPAD_last = replicate 4 xpad_zero,
     xpad_button_history = replicate 7 0, current_remote_key = 0, remotekeyIsRepeat = 0, current_keyboard_key = 0\<rparr>"

text \<open>Button A is pressed, held over two polls and released; the pad's Down goes down in between.\<close>

definition press_a :: "input_action list" where
  "press_a = [Arrive (PadReport 0 ([0, 20, 0, 0, 0xff] @ replicate 27 0) 1), Poll 0, Poll 0,
     Arrive (PadReport 0 ([0, 20, 2, 0, 0x10] @ replicate 27 0) 2), Poll 0, Poll 7,
     Arrive (PadReport 0 ([0, 20, 2, 0, 0] @ replicate 27 0) 3), Poll 0, Poll 7]"

lemma presses_alternate_witness:
  "alternates False (answers 0 (run_input press_a idle_input)) \<and>
   run_input press_a idle_input = [(0, 1), (0, 0), (0, 0), (7, 1), (0, -1), (7, 0)]"
proof -
  have "input_ok idle_input" by (auto simp: input_ok_def idle_input_def less_Suc_eq numeral_eq_Suc)
  moreover have "quiet idle_input" "\<not> held 0 idle_input" "list_all pad_action press_a" by code_simp+
  moreover have "run_input press_a idle_input = [(0, 1), (0, 0), (0, 0), (7, 1), (0, -1), (7, 0)]" by code_simp
  ultimately show ?thesis using presses_alternate [of idle_input press_a 0] by simp
qed

text \<open>Start is pressed in the first run only.\<close>

lemma start_and_back_ignored_witness:
  "run_input [Arrive (PadReport 0 ([0, 20, 0x10] @ replicate 29 0) 1), Poll 4] idle_input =
   run_input [Arrive (PadReport 0 ([0, 20, 0x00] @ replicate 29 0) 1), Poll 4] idle_input"
  by (rule start_and_back_ignored) (simp_all add: idle_input_def numeral_eq_Suc atLeastAtMostSuc_conv)

end
