(* ===== verification/IconMenu.thy ===== *)
theory IconMenu
  imports ItemChain Input
begin

text \<open>
  The icon menu of the start screen, \<open>menu/iconmenu/IconMenu.c\<close>: the list of icons, the loop that
  moves the selection, slides the row of three visible icons and starts the selected one, and the
  timeout that starts it when nobody touches the pad. Drawing is left out, apart from which icons
  are drawn and what drawing sets.
\<close>

section \<open>The code\<close>

text \<open>The functions put into icons, and what their argument points to.\<close>

datatype icon_function = No_function | PrepareBootFromCD | DrawBootMenu | AdvancedMenu | BootFromEtherboot
datatype icon_data = Unset | Drive nat | Config u32 | Menu u32

record ICON =
  iconSlot :: u32
  szCaption :: string
  functionPtr :: icon_function
  functionDataPtr :: icon_data
  previousIcon :: u32
  nextIcon :: u32

type_synonym icons = "u32 \<Rightarrow> ICON option"

definition AddIcon :: "u32 \<Rightarrow> icons \<times> u32 \<Rightarrow> (icons \<times> u32) option" where
  "AddIcon newIcon = (\<lambda>(s, firstIcon).
     case list_end nextIcon s firstIcon 0 of
       None \<Rightarrow> None
     | Some currentIcon \<Rightarrow>
         (let s1 = (if currentIcon = 0 then s
                    else s(currentIcon := map_option (nextIcon_update (\<lambda>_. newIcon)) (s currentIcon)))
          in case s1 newIcon of
               None \<Rightarrow> None
             | Some icon \<Rightarrow> Some (s1(newIcon \<mapsto> icon\<lparr>nextIcon := 0, previousIcon := currentIcon\<rparr>),
                 if currentIcon = 0 then newIcon else firstIcon)))"

record icon_menu =
  icons :: icons
  firstIcon :: u32
  selectedIcon :: u32
  firstVisibleIcon :: u32
  lastVisibleIcon :: u32
  timedOut :: bool
  ticks :: u32
  COUNT_start :: u32

definition TIMER_FREQ :: u32 where "TIMER_FREQ = 0x369E99"
definition BOOT_TIMEWAIT :: u32 where "BOOT_TIMEWAIT = 15"

definition IconMenuDraw :: "icon_menu \<Rightarrow> icon_menu option" where
  "IconMenuDraw m =
     (let m1 = m\<lparr>firstVisibleIcon := (if firstVisibleIcon m = 0 then firstIcon m else firstVisibleIcon m),
                 selectedIcon := (if selectedIcon m = 0 then firstIcon m else selectedIcon m)\<rparr>
      in map_option (\<lambda>ps. if ps = [] then m1 else m1\<lparr>lastVisibleIcon := last ps\<rparr>)
           (drawn_from nextIcon (icons m) 3 (firstVisibleIcon m1)))"

text \<open>Moving right and left; the flag says whether the menu changed. A null selection is no item.\<close>

definition move_right :: "icon_menu \<Rightarrow> (bool \<times> icon_menu) option" where
  "move_right m =
     (case icons m (selectedIcon m) of
        None \<Rightarrow> None
      | Some sel \<Rightarrow>
          if nextIcon sel = 0 then Some (False, m)
          else (case last_visible nextIcon (icons m) 2 (firstVisibleIcon m) of
                  None \<Rightarrow> None
                | Some lv \<Rightarrow>
                    if selectedIcon m = lv
                    then (case (icons m lv, icons m (firstVisibleIcon m)) of
                            (Some l, Some f) \<Rightarrow>
                              Some (True, m\<lparr>lastVisibleIcon := lv, selectedIcon := nextIcon sel,
                                firstVisibleIcon := (if nextIcon l \<noteq> 0 then nextIcon f else firstVisibleIcon m)\<rparr>)
                          | _ \<Rightarrow> None)
                    else Some (True, m\<lparr>lastVisibleIcon := lv, selectedIcon := nextIcon sel\<rparr>)))"

definition move_left :: "icon_menu \<Rightarrow> (bool \<times> icon_menu) option" where
  "move_left m =
     (case icons m (selectedIcon m) of
        None \<Rightarrow> None
      | Some sel \<Rightarrow>
          if previousIcon sel = 0 then Some (False, m)
          else Some (True, m\<lparr>selectedIcon := previousIcon sel,
                 firstVisibleIcon := (if selectedIcon m = firstVisibleIcon m \<and> previousIcon sel \<noteq> 0
                   then previousIcon sel else firstVisibleIcon m)\<rparr>))"

text \<open>
  One turn of the loop after its wait: navigation, the timer, the activation of the selected
  icon. The turn ends with the redrawn menu and what was started: the icon, and whether by the
  timeout. What the icon's function does to the input devices is the argument \<open>call\<close>, of the
  icon and of \<open>timedOut\<close>; none of the functions put into an icon changes the menu.
\<close>

definition navigate :: "icon_menu \<times> input_state \<Rightarrow> (bool \<times> icon_menu \<times> input_state) option" where
  "navigate = (\<lambda>(m, inp).
     let (right, i1) = risefall_xpad_BUTTON TRIGGER_XPAD_PAD_RIGHT inp in
     if right = 1 then map_option (\<lambda>(ch, m'). (ch, m'\<lparr>ticks := 0\<rparr>, i1)) (move_right m)
     else let (left, i2) = risefall_xpad_BUTTON TRIGGER_XPAD_PAD_LEFT i1 in
       if left = 1 then map_option (\<lambda>(ch, m'). (ch, m'\<lparr>ticks := 0\<rparr>, i2)) (move_left m)
       else Some (False, m, i2))"

definition check_timer :: "u32 \<Rightarrow> icon_menu \<Rightarrow> icon_menu" where
  "check_timer now m =
     (if ticks m \<noteq> 0
      then let t = now - COUNT_start m
           in m\<lparr>ticks := t, timedOut := (if t > TIMER_FREQ * BOOT_TIMEWAIT then True else timedOut m)\<rparr>
      else m)"

definition icon_turn :: "(u32 \<Rightarrow> bool \<Rightarrow> input_state \<Rightarrow> input_state) \<Rightarrow> u32 \<Rightarrow> icon_menu \<times> input_state \<Rightarrow>
    ((u32 \<times> bool) option \<times> icon_menu \<times> input_state) option" where
  "icon_turn call now mi =
     (case navigate mi of
        None \<Rightarrow> None
      | Some (changed, m, inp) \<Rightarrow>
          let m1 = check_timer now m;
              (a, i1) = risefall_xpad_BUTTON TRIGGER_XPAD_KEY_A inp;
              (start, i2) = (if a = 1 then (0, i1) else risefall_xpad_BUTTON TRIGGER_XPAD_KEY_START i1)
          in if a = 1 \<or> start = 1 \<or> timedOut m1
             then (case icons m1 (selectedIcon m1) of
                     None \<Rightarrow> None
                   | Some icon \<Rightarrow>
                       map_option (\<lambda>m2. (Some (selectedIcon m1, timedOut m1), m2,
                           if functionPtr icon \<noteq> No_function then call (selectedIcon m1) (timedOut m1) i2 else i2))
                         (IconMenuDraw (m1\<lparr>ticks := 0, timedOut := False\<rparr>)))
             else if changed then map_option (\<lambda>m2. (None, m2, i2)) (IconMenuDraw m1)
             else Some (None, m1, i2))"

text \<open>The start of the loop at the time \<open>now\<close>, and what a run of the loop starts: in every turn input arrives during the wait.\<close>

definition IconMenu_start :: "u32 \<Rightarrow> icon_menu \<Rightarrow> icon_menu option" where
  "IconMenu_start now m = map_option (\<lambda>m1. m1\<lparr>ticks := 1, COUNT_start := now\<rparr>) (IconMenuDraw m)"

fun icon_loop :: "(u32 \<Rightarrow> bool \<Rightarrow> input_state \<Rightarrow> input_state) \<Rightarrow> (input_event list \<times> u32) list \<Rightarrow>
    icon_menu \<times> input_state \<Rightarrow> ((u32 \<times> bool) option list \<times> icon_menu \<times> input_state) option" where
  "icon_loop call [] mi = Some ([], mi)"
| "icon_loop call ((evs, now) # ts) (m, inp) =
     (case icon_turn call now (m, fold deliver evs inp) of
        None \<Rightarrow> None
      | Some (started, mi) \<Rightarrow> map_option (\<lambda>(rs, mi'). (started # rs, mi')) (icon_loop call ts mi))"

section \<open>Setting up the menu\<close>

record drive_info =
  m_fDriveExists :: bool
  m_fAtapi :: bool

definition new_icon :: "u32 \<Rightarrow> string \<Rightarrow> icon_function \<Rightarrow> icon_data \<Rightarrow> ICON" where
  "new_icon slot caption f d = \<lparr>iconSlot = slot, szCaption = caption, functionPtr = f, functionDataPtr = d,
     previousIcon = 0, nextIcon = 0\<rparr>"

definition drive_letter :: "nat \<Rightarrow> string" where
  "drive_letter i = (if i = 0 then ''a'' else ''b'')"

text \<open>The icons made, each with whether it becomes the selected one. \<open>sector i n\<close> is the buffer after reading sector n of drive i.\<close>

definition cd_icons :: "drive_info list \<Rightarrow> (ICON \<times> bool) list" where
  "cd_icons ds = [(new_icon (64 * 2) (''CD-ROM (hd'' @ drive_letter i @ '')'') PrepareBootFromCD (Drive i), False).
     i \<leftarrow> [0..<2], m_fAtapi (ds ! i)]"

definition InitFatXIcons :: "drive_info list \<Rightarrow> (nat \<Rightarrow> nat \<Rightarrow> u8 list) \<Rightarrow> u32 \<Rightarrow> (ICON \<times> bool) list" where
  "InitFatXIcons ds sector fatx_entry =
     (if m_fDriveExists (ds ! 0) \<and> \<not> m_fAtapi (ds ! 0) \<and> take 4 (sector 0 3) = [0x42, 0x52, 0x46, 0x52] \<and> fatx_entry \<noteq> 0
      then [(new_icon (64 * 4) ''FatX (E:)'' DrawBootMenu (Config fatx_entry), True)] else [])"

definition bootable :: "u8 list \<Rightarrow> nat list" where
  "bootable ba = (if ba ! 0x1fe = 0x55 \<and> ba ! 0x1ff = 0xaa
     then filter (\<lambda>n. ba ! (0x1be + 16 * n) AND 0x80 \<noteq> 0) [0..<4] else [])"

definition InitNativeIcons :: "drive_info list \<Rightarrow> (nat \<Rightarrow> nat \<Rightarrow> u8 list) \<Rightarrow> (nat \<Rightarrow> nat \<Rightarrow> u32) \<Rightarrow> (ICON \<times> bool) list" where
  "InitNativeIcons ds sector native_entry =
     [(new_icon (64 * 1) (''hd'' @ drive_letter i @ [char_of (49 + n)]) DrawBootMenu (Config (native_entry i n)), True).
        i \<leftarrow> [0..<2], m_fDriveExists (ds ! i) \<and> \<not> m_fAtapi (ds ! i),
        n \<leftarrow> bootable (sector i 0), native_entry i n \<noteq> 0]"

definition last_icons :: "bool \<Rightarrow> u32 \<Rightarrow> (ICON \<times> bool) list" where
  "last_icons etherboot textmenu =
     (if etherboot then [(new_icon (64 * 3) ''Etherboot'' BootFromEtherboot Unset, False)] else [])
     @ [(new_icon 0 ''Advanced'' AdvancedMenu (Menu textmenu), False)]"

text \<open>Every icon gets an address from malloc.\<close>

definition add_new :: "(ICON \<times> bool) \<times> u32 \<Rightarrow> icon_menu \<Rightarrow> icon_menu option" where
  "add_new = (\<lambda>((icon, preselect), p) m.
     map_option (\<lambda>(s, f). m\<lparr>icons := s, firstIcon := f, selectedIcon := (if preselect then p else selectedIcon m)\<rparr>)
       (AddIcon p ((icons m)(p \<mapsto> icon), firstIcon m)))"

definition icons_made :: "bool \<Rightarrow> drive_info list \<Rightarrow> (nat \<Rightarrow> nat \<Rightarrow> u8 list) \<Rightarrow> u32 \<Rightarrow> (nat \<Rightarrow> nat \<Rightarrow> u32) \<Rightarrow> u32 \<Rightarrow>
    (ICON \<times> bool) list" where
  "icons_made etherboot ds sector fatx_entry native_entry textmenu =
     cd_icons ds @ InitFatXIcons ds sector fatx_entry @ InitNativeIcons ds sector native_entry
     @ last_icons etherboot textmenu"

definition IconMenuInit :: "u32 list \<Rightarrow> (ICON \<times> bool) list \<Rightarrow> icon_menu \<Rightarrow> icon_menu option" where
  "IconMenuInit fresh new m = fold (\<lambda>i r. Option.bind r (add_new i)) (zip new fresh) (Some m)"

section \<open>The list of icons\<close>

lemma AddIcon_append: "AddIcon = append_item nextIcon (\<lambda>q. nextIcon_update (\<lambda>_. q)) (\<lambda>q. previousIcon_update (\<lambda>_. q))"
  by (intro ext) (simp add: AddIcon_def append_item_def split: prod.split)

interpretation icon_list: item_list nextIcon previousIcon AddIcon
  unfolding AddIcon_append by (rule append_item_list) simp_all


section \<open>The menu as a page of a list\<close>

definition shows_page :: "u32 list \<Rightarrow> icon_menu \<Rightarrow> nat \<times> nat \<Rightarrow> bool" where
  "shows_page xs m = (\<lambda>(fv, sel). holds_items nextIcon previousIcon (icons m) (firstIcon m) xs \<and>
     fv < length xs \<and> sel < length xs \<and> firstVisibleIcon m = xs ! fv \<and> selectedIcon m = xs ! sel)"

lemma draw_page:
  assumes "shows_page xs m p"
  obtains lv where "IconMenuDraw m = Some (m\<lparr>lastVisibleIcon := lv\<rparr>)"
proof -
  obtain fv sel where p: "p = (fv, sel)" by fastforce
  have nn: "xs ! fv \<noteq> 0" "xs ! sel \<noteq> 0"
    using assms nonnull_item [of nextIcon previousIcon "icons m" "firstIcon m" xs] by (auto simp: shows_page_def p)
  have "drawn_from nextIcon (icons m) 3 (firstVisibleIcon m) = Some (take 3 (drop fv xs))"
    using assms drawn_items [of nextIcon previousIcon "icons m" "firstIcon m" xs fv 3] by (simp add: shows_page_def p)
  then have "IconMenuDraw m = Some (m\<lparr>lastVisibleIcon := last (take 3 (drop fv xs))\<rparr>)"
    using assms nn by (auto simp: IconMenuDraw_def shows_page_def p Let_def)
  then show thesis by (rule that)
qed

lemma move_right_page:
  assumes "shows_page xs m (fv, sel)"
  obtains ch m' where "move_right m = Some (ch, m')" "shows_page xs m' (page_right 3 (length xs) (fv, sel))"
    "ticks m' = ticks m" "timedOut m' = timedOut m" "COUNT_start m' = COUNT_start m"
proof -
  have h: "holds_items nextIcon previousIcon (icons m) (firstIcon m) xs" "fv < length xs" "sel < length xs"
    "firstVisibleIcon m = xs ! fv" "selectedIcon m = xs ! sel" using assms by (auto simp: shows_page_def)
  obtain i where i: "icons m (xs ! sel) = Some i" "nextIcon i = (if Suc sel < length xs then xs ! Suc sel else 0)"
    using item_at [OF h(1,3)] by metis
  obtain f where f: "icons m (xs ! fv) = Some f" "nextIcon f = (if Suc fv < length xs then xs ! Suc fv else 0)"
    using item_at [OF h(1,2)] by metis
  define l where "l = min (fv + 2) (length xs - 1)"
  have l: "last_visible nextIcon (icons m) 2 (xs ! fv) = Some (xs ! l)" "xs ! sel = xs ! l \<longleftrightarrow> sel = l"
    using last_visible_items [OF h(1,2), of 2] same_item [OF h(1,3), of l] h by (auto simp: l_def)
  show thesis
  proof (cases "Suc sel < length xs")
    case False
    then show thesis using assms h i by (intro that) (auto simp: move_right_def page_right_def)
  next
    case True
    have "xs ! Suc sel \<noteq> 0" using nonnull_item [OF h(1) True] .
    then show thesis using True h i f l
      by (intro that [of True "m\<lparr>lastVisibleIcon := xs ! l, selectedIcon := xs ! Suc sel,
            firstVisibleIcon := (if sel = l then xs ! Suc fv else xs ! fv)\<rparr>"])
        (auto simp: move_right_def page_right_def shows_page_def l_def)
  qed
qed

lemma move_left_page:
  assumes "shows_page xs m (fv, sel)"
  obtains ch m' where "move_left m = Some (ch, m')" "shows_page xs m' (page_left (fv, sel))"
    "ticks m' = ticks m" "timedOut m' = timedOut m" "COUNT_start m' = COUNT_start m"
proof -
  have h: "holds_items nextIcon previousIcon (icons m) (firstIcon m) xs" "fv < length xs" "sel < length xs"
    "firstVisibleIcon m = xs ! fv" "selectedIcon m = xs ! sel" using assms by (auto simp: shows_page_def)
  obtain i where i: "icons m (xs ! sel) = Some i" "previousIcon i = (if sel = 0 then 0 else xs ! (sel - 1))"
    using item_at [OF h(1,3)] by metis
  have "sel \<noteq> 0 \<Longrightarrow> xs ! (sel - 1) \<noteq> 0" using nonnull_item [OF h(1), of "sel - 1"] h(3) by simp
  then show thesis using assms h i same_item [OF h(1,3,2)]
    by (intro that [of "sel \<noteq> 0" "if sel = 0 then m else m\<lparr>selectedIcon := xs ! (sel - 1),
          firstVisibleIcon := (if sel = fv then xs ! (sel - 1) else xs ! fv)\<rparr>"])
      (auto simp: move_left_def page_left_def shows_page_def)
qed

section \<open>Turns of the loop\<close>

text \<open>What the input makes of the page in a turn.\<close>

definition page_move :: "nat \<Rightarrow> input_state \<Rightarrow> nat \<times> nat \<Rightarrow> nat \<times> nat" where
  "page_move n inp p =
     (let (right, i1) = risefall_xpad_BUTTON TRIGGER_XPAD_PAD_RIGHT inp
      in if right = 1 then page_right 3 n p
         else if fst (risefall_xpad_BUTTON TRIGGER_XPAD_PAD_LEFT i1) = 1 then page_left p else p)"

definition navigated :: "input_state \<Rightarrow> bool" where
  "navigated inp =
     (let (right, i1) = risefall_xpad_BUTTON TRIGGER_XPAD_PAD_RIGHT inp
      in right = 1 \<or> fst (risefall_xpad_BUTTON TRIGGER_XPAD_PAD_LEFT i1) = 1)"

lemma navigate_page:
  assumes "shows_page xs m p"
  obtains ch m' inp' where "navigate (m, inp) = Some (ch, m', inp')" "shows_page xs m' (page_move (length xs) inp p)"
    "timedOut m' = timedOut m" "COUNT_start m' = COUNT_start m" "ticks m' = (if navigated inp then 0 else ticks m)"
proof -
  obtain right i1 where r: "risefall_xpad_BUTTON TRIGGER_XPAD_PAD_RIGHT inp = (right, i1)" by fastforce
  obtain left i2 where l: "risefall_xpad_BUTTON TRIGGER_XPAD_PAD_LEFT i1 = (left, i2)" by fastforce
  obtain fv sel where p: "p = (fv, sel)" by fastforce
  have t: "shows_page xs (m'\<lparr>ticks := 0\<rparr>) q = shows_page xs m' q" for m' q
    by (simp add: shows_page_def split: prod.splits)
  consider "right = 1" | "right \<noteq> 1" "left = 1" | "right \<noteq> 1" "left \<noteq> 1" by blast
  then show thesis
  proof cases
    case 1
    obtain ch m' where "move_right m = Some (ch, m')" "shows_page xs m' (page_right 3 (length xs) (fv, sel))"
      "timedOut m' = timedOut m" "COUNT_start m' = COUNT_start m"
      using assms unfolding p by (rule move_right_page)
    then show thesis using 1 r
      by (intro that [of ch "m'\<lparr>ticks := 0\<rparr>" i1]) (auto simp: navigate_def page_move_def navigated_def p t)
  next
    case 2
    obtain ch m' where "move_left m = Some (ch, m')" "shows_page xs m' (page_left (fv, sel))"
      "timedOut m' = timedOut m" "COUNT_start m' = COUNT_start m"
      using assms unfolding p by (rule move_left_page)
    then show thesis using 2 r l
      by (intro that [of ch "m'\<lparr>ticks := 0\<rparr>" i2]) (auto simp: navigate_def page_move_def navigated_def p t)
  next
    case 3
    then show thesis using assms r l
      by (intro that [of False m i2]) (auto simp: navigate_def page_move_def navigated_def)
  qed
qed

definition autostart_due :: "u32 \<Rightarrow> icon_menu \<Rightarrow> bool" where
  "autostart_due now m \<longleftrightarrow> ticks m \<noteq> 0 \<and> now - COUNT_start m > TIMER_FREQ * BOOT_TIMEWAIT"

lemma turn_page:
  assumes "shows_page xs m p" "\<not> timedOut m"
  obtains started m' inp' where "icon_turn call now (m, inp) = Some (started, m', inp')"
    "shows_page xs m' (page_move (length xs) inp p)" "\<not> timedOut m'" "COUNT_start m' = COUNT_start m"
    "ticks m = 0 \<or> navigated inp \<Longrightarrow> ticks m' = 0"
    "\<And>q auto. started = Some (q, auto) \<Longrightarrow>
       q = xs ! snd (page_move (length xs) inp p) \<and> ticks m' = 0 \<and> (auto \<longrightarrow> autostart_due now m \<and> \<not> navigated inp)"
proof -
  let ?p = "page_move (length xs) inp p"
  obtain ch m1 i1 where n: "navigate (m, inp) = Some (ch, m1, i1)" "shows_page xs m1 ?p"
    "timedOut m1 = timedOut m" "COUNT_start m1 = COUNT_start m" "ticks m1 = (if navigated inp then 0 else ticks m)"
    using assms(1) by (rule navigate_page)
  define m2 where "m2 = check_timer now m1"
  have m2: "shows_page xs m2 ?p" "COUNT_start m2 = COUNT_start m" "ticks m = 0 \<or> navigated inp \<Longrightarrow> ticks m2 = 0"
    "timedOut m2 \<Longrightarrow> autostart_due now m \<and> \<not> navigated inp"
    using n assms(2) by (auto simp: m2_def check_timer_def Let_def shows_page_def autostart_due_def split: prod.splits if_splits)
  obtain fv sel where q: "?p = (fv, sel)" by fastforce
  have sel: "selectedIcon m2 = xs ! sel" "sel < length xs"
    "holds_items nextIcon previousIcon (icons m2) (firstIcon m2) xs" using m2(1) by (auto simp: shows_page_def q)
  obtain icon where icon: "icons m2 (xs ! sel) = Some icon" using item_at [OF sel(3,2)] by metis
  have upd: "shows_page xs (m2\<lparr>ticks := 0, timedOut := False\<rparr>) ?p"
    using m2(1) by (simp add: shows_page_def q)
  obtain lv1 where d1: "IconMenuDraw (m2\<lparr>ticks := 0, timedOut := False\<rparr>)
      = Some (m2\<lparr>ticks := 0, timedOut := False\<rparr>\<lparr>lastVisibleIcon := lv1\<rparr>)"
    using upd by (rule draw_page)
  obtain lv2 where d2: "IconMenuDraw m2 = Some (m2\<lparr>lastVisibleIcon := lv2\<rparr>)" using m2(1) by (rule draw_page)
  obtain a i2 where a: "risefall_xpad_BUTTON TRIGGER_XPAD_KEY_A i1 = (a, i2)" by fastforce
  obtain st i3 where st: "(if a = 1 then (0, i2) else risefall_xpad_BUTTON TRIGGER_XPAD_KEY_START i2) = (st, i3)" by fastforce
  have turn: "icon_turn call now (m, inp) =
    (if a = 1 \<or> st = 1 \<or> timedOut m2
     then Some (Some (xs ! sel, timedOut m2), m2\<lparr>ticks := 0, timedOut := False\<rparr>\<lparr>lastVisibleIcon := lv1\<rparr>,
        if functionPtr icon \<noteq> No_function then call (xs ! sel) (timedOut m2) i3 else i3)
     else if ch then Some (None, m2\<lparr>lastVisibleIcon := lv2\<rparr>, i3) else Some (None, m2, i3))"
    using icon sel(1) d1 d2
    by (simp only: icon_turn_def n(1) option.case prod.case Let_def m2_def [symmetric] a st if_True split: if_split) auto
  have keep: "shows_page xs (m2\<lparr>lastVisibleIcon := lv\<rparr>) ?p"
    "shows_page xs (m2\<lparr>ticks := 0, timedOut := False\<rparr>\<lparr>lastVisibleIcon := lv\<rparr>) ?p" for lv
    using m2(1) by (simp_all add: shows_page_def q)
  show thesis
  proof (cases "a = 1 \<or> st = 1 \<or> timedOut m2")
    case True
    note eq = turn [unfolded if_P [OF True]]
    show thesis by (rule that [OF eq]) (use keep m2 in \<open>auto simp: q\<close>)
  next
    case False
    note eq = turn [unfolded if_not_P [OF False]]
    show thesis
    proof (cases ch)
      case True
      show thesis by (rule that [OF eq [unfolded if_P [OF True]]]) (use keep m2 False in \<open>auto simp: q\<close>)
    next
      case ch: False
      show thesis by (rule that [OF eq [unfolded if_not_P [OF ch]]]) (use m2 False in \<open>auto simp: q\<close>)
    qed
  qed
qed

text \<open>
  C26. A turn of the menu does on the list of icons in memory what the abstract menu does on the
  page: it follows no bad pointer, and the icon started, if any, is the one then selected. It is
  started by the timeout only when 15 seconds have passed and nobody navigated in this turn.
\<close>

theorem icon_turn_refines_page:
  assumes "shows_page xs m p" "\<not> timedOut m"
  shows "\<exists>started m' inp'. icon_turn call now (m, inp) = Some (started, m', inp') \<and>
    shows_page xs m' (page_move (length xs) inp p) \<and>
    (\<forall>q auto. started = Some (q, auto) \<longrightarrow>
       q = xs ! snd (page_move (length xs) inp p) \<and> (auto \<longrightarrow> autostart_due now m \<and> \<not> navigated inp))"
  using assms by (rule turn_page [of xs m p call now inp]) blast

section \<open>Runs of the loop\<close>

fun auto_once :: "bool \<Rightarrow> (u32 \<times> bool) option list \<Rightarrow> bool" where
  "auto_once armed [] = True"
| "auto_once armed (None # rs) = auto_once armed rs"
| "auto_once armed (Some (q, auto) # rs) = ((auto \<longrightarrow> armed) \<and> auto_once False rs)"

lemma auto_once_weaken: "auto_once False rs \<Longrightarrow> auto_once armed rs"
  by (induction armed rs rule: auto_once.induct) auto

lemma page_move_on_page: "snd p < n \<Longrightarrow> on_page 3 p \<Longrightarrow> on_page 3 (page_move n inp p)"
  by (simp add: page_move_def on_page_right on_page_left split: prod.split)

lemma icon_loop_runs:
  "shows_page xs m p \<Longrightarrow> \<not> timedOut m \<Longrightarrow>
   \<exists>rs m' inp' p'. icon_loop call ts (m, inp) = Some (rs, m', inp') \<and> shows_page xs m' p' \<and>
     (on_page 3 p \<longrightarrow> on_page 3 p') \<and> auto_once (ticks m \<noteq> 0) rs"
proof (induction ts arbitrary: m inp p)
  case (Cons t ts)
  obtain evs now where t: "t = (evs, now)" by fastforce
  define i0 where "i0 = fold deliver evs inp"
  define q where "q = page_move (length xs) i0 p"
  obtain st m1 i1 where turn: "icon_turn call now (m, i0) = Some (st, m1, i1)" "shows_page xs m1 q" "\<not> timedOut m1"
    "ticks m = 0 \<Longrightarrow> ticks m1 = 0"
    "\<And>q auto. st = Some (q, auto) \<Longrightarrow> ticks m1 = 0 \<and> (auto \<longrightarrow> autostart_due now m)"
    by (rule turn_page [OF Cons.prems, of call now i0]) (auto simp: q_def)
  obtain rs m' i' p' where rest: "icon_loop call ts (m1, i1) = Some (rs, m', i')" "shows_page xs m' p'"
    "on_page 3 q \<longrightarrow> on_page 3 p'" "auto_once (ticks m1 \<noteq> 0) rs"
    using Cons.IH [OF turn(2,3), of i1] by blast
  have "on_page 3 p \<longrightarrow> on_page 3 p'"
    using rest(3) page_move_on_page [of p "length xs" i0] Cons.prems(1) by (auto simp: q_def shows_page_def)
  moreover have "auto_once (ticks m \<noteq> 0) (st # rs)"
    using rest(4) turn(4) turn(5) auto_once_weaken [of rs]
    by (cases st; cases "ticks m1 = 0"; cases "ticks m = 0") (auto simp: autostart_due_def)
  moreover have "icon_loop call (t # ts) (m, inp) = Some (st # rs, m', i')"
    using turn(1) rest(1) by (simp add: t i0_def [symmetric])
  ultimately show ?case using rest(2) by blast
qed auto

text \<open>
  C32. Whatever the input, the times and the functions started, the loop goes on without following
  a bad pointer, and when the selected icon was among the three visible ones it always stays so.
\<close>

theorem icon_selection_stays_visible:
  assumes "shows_page xs m p" "\<not> timedOut m" "on_page 3 p"
  shows "\<exists>rs m' inp' ps. icon_loop call ts (m, inp) = Some (rs, m', inp') \<and>
    drawn_from nextIcon (icons m') 3 (firstVisibleIcon m') = Some ps \<and> selectedIcon m' \<in> set ps"
proof -
  obtain rs m' inp' fv sel where r: "icon_loop call ts (m, inp) = Some (rs, m', inp')"
    "shows_page xs m' (fv, sel)" "on_page 3 (fv, sel)"
    using icon_loop_runs [OF assms(1,2), of call ts inp] assms(3) by auto
  have "drawn_from nextIcon (icons m') 3 (firstVisibleIcon m') = Some (take 3 (drop fv xs))"
    using r(2) drawn_items [of nextIcon previousIcon "icons m'" "firstIcon m'" xs fv 3] by (simp add: shows_page_def)
  moreover have "xs ! sel \<in> set (take 3 (drop fv xs))"
    using r(2,3) by (simp add: shows_page_def on_page_drawn)
  ultimately show ?thesis using r(1,2) by (auto simp: shows_page_def)
qed

text \<open>
  C21. The timeout starts an icon at most once, only while the menu is armed, never after an icon
  was started by hand, and never from the first turn on in which somebody navigated.
\<close>

theorem autostart_at_most_once:
  assumes "shows_page xs m p" "\<not> timedOut m" "icon_loop call ((evs, now) # ts) (m, inp) = Some (rs, m', inp')"
  shows "auto_once (ticks m \<noteq> 0 \<and> \<not> navigated (fold deliver evs inp)) rs"
proof -
  define i0 where "i0 = fold deliver evs inp"
  obtain st m1 i1 where turn: "icon_turn call now (m, i0) = Some (st, m1, i1)"
    "shows_page xs m1 (page_move (length xs) i0 p)" "\<not> timedOut m1" "ticks m = 0 \<or> navigated i0 \<Longrightarrow> ticks m1 = 0"
    "\<And>q auto. st = Some (q, auto) \<Longrightarrow> ticks m1 = 0 \<and> (auto \<longrightarrow> autostart_due now m \<and> \<not> navigated i0)"
    by (rule turn_page [OF assms(1,2), of call now i0]) auto
  obtain rs1 where "icon_loop call ts (m1, i1) = Some (rs1, m', inp')" "rs = st # rs1"
    using assms(3) turn(1) by (auto simp: i0_def)
  then have "auto_once (ticks m1 \<noteq> 0) rs1" "rs = st # rs1"
    using icon_loop_runs [OF turn(2,3), of call ts i1] by auto
  then show ?thesis using turn(4,5) auto_once_weaken [of rs1] unfolding i0_def [symmetric]
    by (cases st; cases "ticks m1 = 0"; cases "ticks m = 0 \<or> navigated i0") (auto simp: autostart_due_def)
qed

section \<open>The menu as it is set up\<close>

lemma chain_cong: "(\<And>x. x \<in> set xs \<Longrightarrow> s x = s' x) \<Longrightarrow> chain nxt prv s b p xs = chain nxt prv s' b p xs"
  by (induction nxt prv s b p xs rule: chain.induct) (auto split: option.splits)

text \<open>The position of the icon preselected last.\<close>

definition preselected :: "(ICON \<times> bool) list \<Rightarrow> nat option" where
  "preselected new = (let ks = filter (\<lambda>k. snd (new ! k)) [0..<length new] in if ks = [] then None else Some (last ks))"

lemma preselected_snoc:
  "preselected (new @ [i]) = (if snd i then Some (length new) else preselected new)"
proof -
  have "filter (\<lambda>k. snd ((new @ [i]) ! k)) [0..<length new] = filter (\<lambda>k. snd (new ! k)) [0..<length new]"
    by (rule filter_cong) (auto simp: nth_append)
  then show ?thesis by (simp add: preselected_def Let_def)
qed

lemma IconMenuInit_items:
  assumes "icons m = (\<lambda>_. None)" "firstIcon m = 0" "selectedIcon m = 0"
  shows "distinct fresh \<Longrightarrow> 0 \<notin> set fresh \<Longrightarrow> length new \<le> length fresh \<Longrightarrow>
   \<exists>s f. IconMenuInit fresh new m = Some (m\<lparr>icons := s, firstIcon := f,
       selectedIcon := (case preselected new of None \<Rightarrow> 0 | Some k \<Rightarrow> fresh ! k)\<rparr>) \<and>
     holds_items nextIcon previousIcon s f (take (length new) fresh)"
proof (induction new rule: rev_induct)
  case Nil
  then show ?case using assms by (auto simp: IconMenuInit_def preselected_def holds_items_def intro!: exI [of _ "icons m"])
next
  case (snoc i new)
  let ?n = "length new"
  obtain s f where r: "IconMenuInit fresh new m = Some (m\<lparr>icons := s, firstIcon := f,
       selectedIcon := (case preselected new of None \<Rightarrow> 0 | Some k \<Rightarrow> fresh ! k)\<rparr>)"
     "holds_items nextIcon previousIcon s f (take ?n fresh)"
    using snoc by auto
  have n: "?n < length fresh" using snoc.prems(3) by simp
  have new: "fresh ! ?n \<notin> set (take ?n fresh)" "fresh ! ?n \<noteq> 0"
    using snoc.prems(1,2) n by (auto simp: in_set_conv_nth nth_eq_iff_index_eq)
  let ?s = "s(fresh ! ?n \<mapsto> fst i)"
  have "holds_items nextIcon previousIcon ?s f (take ?n fresh)"
    using r(2) new chain_frame unfolding holds_items_def by metis
  then obtain s' f' where add: "AddIcon (fresh ! ?n) (?s, f) = Some (s', f')"
    "holds_items nextIcon previousIcon s' f' (take ?n fresh @ [fresh ! ?n])"
    using icon_list.add_item [of ?s f "take ?n fresh" "fresh ! ?n" "fst i"] new by auto
  have z: "zip (new @ [i]) fresh = zip new fresh @ [(i, fresh ! ?n)]"
    using zip_append1 [of new "[]" fresh] n by (simp add: zip_append1 Cons_nth_drop_Suc [symmetric])
  have "IconMenuInit fresh (new @ [i]) m = Option.bind (IconMenuInit fresh new m) (add_new (i, fresh ! ?n))"
    by (simp add: IconMenuInit_def z)
  then show ?case
    using add n by (intro exI [of _ s'] exI [of _ f'])
      (auto simp: r(1) add_new_def preselected_snoc take_Suc_conv_app_nth split: prod.split)
qed

definition empty_menu :: icon_menu where
  "empty_menu = \<lparr>icons = (\<lambda>_. None), firstIcon = 0, selectedIcon = 0, firstVisibleIcon = 0, lastVisibleIcon = 0,
     timedOut = False, ticks = 0, COUNT_start = 0\<rparr>"

text \<open>
  C34. The icons set up at start are linked in the order in which they are made, the preselected
  one (the last that was found on a hard disk) is the selected one, and it is among the icons
  drawn exactly when at most two icons come before it: the first page shown always starts at the
  first icon.
\<close>

theorem preselected_icon_drawn_iff:
  assumes "distinct fresh" "0 \<notin> set fresh" "length new \<le> length fresh" "preselected new = Some k"
  shows "\<exists>m1 m2 ps. IconMenuInit fresh new empty_menu = Some m1 \<and> IconMenu_start now m1 = Some m2 \<and>
    shows_page (take (length new) fresh) m2 (0, k) \<and>
    drawn_from nextIcon (icons m2) 3 (firstVisibleIcon m2) = Some ps \<and> (selectedIcon m2 \<in> set ps \<longleftrightarrow> k < 3)"
proof -
  let ?xs = "take (length new) fresh"
  have k: "k < length new" using assms(4) last_in_set [of "filter (\<lambda>k. snd (new ! k)) [0..<length new]"]
    by (auto simp: preselected_def Let_def split: if_splits)
  obtain s f where init: "IconMenuInit fresh new empty_menu = Some (empty_menu\<lparr>icons := s, firstIcon := f, selectedIcon := fresh ! k\<rparr>)"
    and h: "holds_items nextIcon previousIcon s f ?xs"
    using IconMenuInit_items [of empty_menu, OF _ _ _ assms(1-3)] assms(4) by (auto simp: empty_menu_def)
  have f: "f = fresh ! 0" "?xs \<noteq> []" using holds_items_first [OF h] k assms(3) by auto
  have drawn: "drawn_from nextIcon s 3 f = Some (take 3 ?xs)" using drawn_items [OF h, of 0 3] f by simp
  have sel: "fresh ! k \<noteq> 0" using nonnull_item [OF h, of k] k assms(3) by simp
  obtain lv where start: "IconMenu_start now (empty_menu\<lparr>icons := s, firstIcon := f, selectedIcon := fresh ! k\<rparr>) =
      Some (empty_menu\<lparr>icons := s, firstIcon := f, selectedIcon := fresh ! k, firstVisibleIcon := f,
        lastVisibleIcon := lv, ticks := 1, COUNT_start := now\<rparr>)"
    using drawn sel f(2) k
    by (intro that [of "last (take 3 ?xs)"]) (auto simp: IconMenu_start_def IconMenuDraw_def empty_menu_def Let_def)
  have "fresh ! k \<in> set (take 3 ?xs) \<longleftrightarrow> k < 3"
    using assms(1,3) k by (auto simp: in_set_conv_nth nth_eq_iff_index_eq min_def) (metis linorder_not_le order.strict_trans1)
  then show ?thesis using init start h drawn f k assms(3)
    by (auto simp: shows_page_def empty_menu_def)
qed

section \<open>Runs\<close>

text \<open>Two icons, and the pad's Right pressed.\<close>

definition example_menu :: icon_menu where
  "example_menu = empty_menu\<lparr>icons := [
     0x100 \<mapsto> (new_icon 128 ''CD-ROM (hdb)'' PrepareBootFromCD (Drive 1))\<lparr>nextIcon := 0x200\<rparr>,
     0x200 \<mapsto> (new_icon 0 ''Advanced'' AdvancedMenu (Menu 0))\<lparr>previousIcon := 0x100\<rparr>],
     firstIcon := 0x100, firstVisibleIcon := 0x100, selectedIcon := 0x100, ticks := 1\<rparr>"

definition press_right :: input_event where
  "press_right = PadReport 0 ([0, 20, 8] @ replicate 29 0) 1"

lemma example_page: "shows_page [0x100, 0x200] example_menu (0, 0)" "\<not> timedOut example_menu"
  by (simp_all add: shows_page_def holds_items_def example_menu_def new_icon_def empty_menu_def)

lemma icon_turn_refines_page_witness:
  "\<exists>started m' inp'. icon_turn (\<lambda>_ _ i. i) 7 (example_menu, deliver press_right idle_input) = Some (started, m', inp') \<and>
     shows_page [0x100, 0x200] m' (0, 1)"
proof -
  have move: "page_move (length [0x100 :: u32, 0x200]) (deliver press_right idle_input) (0, 0) = (0, 1)" by code_simp
  show ?thesis
    using icon_turn_refines_page [OF example_page, of "\<lambda>_ _ i. i" 7 "deliver press_right idle_input"]
    unfolding move by blast
qed

lemma icon_selection_stays_visible_witness:
  "\<exists>rs m' inp' ps. icon_loop (\<lambda>_ _ i. i) [([press_right], 7), ([], 8)] (example_menu, idle_input) = Some (rs, m', inp') \<and>
    drawn_from nextIcon (icons m') 3 (firstVisibleIcon m') = Some ps \<and> selectedIcon m' \<in> set ps"
  using example_page by (rule icon_selection_stays_visible) (simp add: on_page_def)

text \<open>Nobody touches the pad: the first icon is started after 15 seconds, and not again later.\<close>

definition idle_turns :: "(input_event list \<times> u32) list" where
  "idle_turns = [([], 1000), ([], 60000000), ([], 120000000)]"

lemma autostart_at_most_once_witness:
  "\<exists>m' inp'. icon_loop (\<lambda>_ _ i. i) idle_turns (example_menu, idle_input) = Some ([None, Some (0x100, True), None], m', inp') \<and>
     auto_once True [None, Some (0x100, True), None]"
proof -
  have "map_option fst (icon_loop (\<lambda>_ _ i. i) idle_turns (example_menu, idle_input)) = Some [None, Some (0x100, True), None]"
    by code_simp
  then obtain m' inp' where r:
    "icon_loop (\<lambda>_ _ i. i) idle_turns (example_menu, idle_input) = Some ([None, Some (0x100, True), None], m', inp')"
    by auto
  moreover have "ticks example_menu \<noteq> 0" "\<not> navigated (fold deliver [] idle_input)" by code_simp+
  ultimately show ?thesis
    using autostart_at_most_once [OF example_page r [unfolded idle_turns_def]] by auto
qed

text \<open>
  A CD drive, a FATX disk with a configuration and two bootable partitions with one each: the
  second of them is preselected as the fourth icon, and is not drawn.
\<close>

definition two_natives :: "(ICON \<times> bool) list" where
  "two_natives = icons_made False [\<lparr>m_fDriveExists = True, m_fAtapi = False\<rparr>, \<lparr>m_fDriveExists = True, m_fAtapi = True\<rparr>]
     (\<lambda>i n. if n = 3 then [0x42, 0x52, 0x46, 0x52] @ replicate 508 0
        else (replicate 512 0)[0x1be := 0x80, 0x1ce := 0x80, 0x1fe := 0x55, 0x1ff := 0xaa])
     0x5000 (\<lambda>i n. 0x6000) 0x7000"

lemma preselected_icon_drawn_iff_witness:
  "map (szCaption \<circ> fst) two_natives = [''CD-ROM (hdb)'', ''FatX (E:)'', ''hda1'', ''hda2'', ''Advanced''] \<and>
   (\<exists>m1 m2 ps. IconMenuInit [0x100, 0x200, 0x300, 0x400, 0x500] two_natives empty_menu = Some m1 \<and>
      IconMenu_start 0 m1 = Some m2 \<and> drawn_from nextIcon (icons m2) 3 (firstVisibleIcon m2) = Some ps \<and> selectedIcon m2 \<notin> set ps)"
proof -
  have "map (szCaption \<circ> fst) two_natives = [''CD-ROM (hdb)'', ''FatX (E:)'', ''hda1'', ''hda2'', ''Advanced'']"
    by code_simp
  moreover have "preselected two_natives = Some 3" "length two_natives = 5" by code_simp+
  ultimately show ?thesis
    using preselected_icon_drawn_iff [of "[0x100, 0x200, 0x300, 0x400, 0x500]" two_natives 3 0] by auto
qed

end
