(* ===== verification/TextMenu.thy ===== *)
theory TextMenu
  imports ItemChain Input
begin

text \<open>
  The text menus, \<open>menu/textmenu/TextMenu.c\<close>: a list of items, a page of eight of them, and the loop
  that moves the selection and runs the selected item's function. \<open>Confirm\<close>
  (\<open>menu/misc/Confirm.c\<close>) asks yes or no with such a menu. What a function does to the input
  devices, to \<open>breakOutOfMenu\<close> and to the answer of \<open>Confirm\<close> is the argument \<open>call\<close>.
\<close>

section \<open>The code\<close>

record 'f TEXTMENUITEM =
  szCaption :: string
  functionPtr :: "'f option"
  functionDataPtr :: u32
  previousMenuItem :: u32
  nextMenuItem :: u32

type_synonym 'f items = "u32 \<Rightarrow> 'f TEXTMENUITEM option"

record menu_env =
  inputs :: input_state
  breakOutOfMenu :: bool
  Confirm_Result :: int

definition TextMenuAddItem :: "u32 \<Rightarrow> 'f items \<times> u32 \<Rightarrow> ('f items \<times> u32) option" where
  "TextMenuAddItem newMenuItem = (\<lambda>(s, firstMenuItem).
     case list_end nextMenuItem s firstMenuItem 0 of
       None \<Rightarrow> None
     | Some currentMenuItem \<Rightarrow>
         (let s1 = (if currentMenuItem = 0 then s
                    else s(currentMenuItem := map_option (nextMenuItem_update (\<lambda>_. newMenuItem)) (s currentMenuItem)))
          in case s1 newMenuItem of
               None \<Rightarrow> None
             | Some item \<Rightarrow> Some (s1(newMenuItem \<mapsto> item\<lparr>nextMenuItem := 0, previousMenuItem := currentMenuItem\<rparr>),
                 if currentMenuItem = 0 then newMenuItem else firstMenuItem)))"

record 'f text_menu =
  items :: "'f items"
  firstMenuItem :: u32
  selectedMenuItem :: u32
  firstVisibleMenuItem :: u32

definition move_up :: "'f text_menu \<Rightarrow> 'f text_menu option" where
  "move_up m =
     (case items m (selectedMenuItem m) of
        None \<Rightarrow> None
      | Some sel \<Rightarrow>
          if previousMenuItem sel = 0 then Some m
          else Some (m\<lparr>selectedMenuItem := previousMenuItem sel,
                 firstVisibleMenuItem := (if firstVisibleMenuItem m = selectedMenuItem m
                   then previousMenuItem sel else firstVisibleMenuItem m)\<rparr>))"

definition move_down :: "'f text_menu \<Rightarrow> 'f text_menu option" where
  "move_down m =
     (case items m (selectedMenuItem m) of
        None \<Rightarrow> None
      | Some sel \<Rightarrow>
          if nextMenuItem sel = 0 then Some m
          else (case last_visible nextMenuItem (items m) 7 (firstVisibleMenuItem m) of
                  None \<Rightarrow> None
                | Some lv \<Rightarrow>
                    if selectedMenuItem m = lv
                    then map_option (\<lambda>f. m\<lparr>firstVisibleMenuItem := nextMenuItem f, selectedMenuItem := nextMenuItem sel\<rparr>)
                           (items m (firstVisibleMenuItem m))
                    else Some (m\<lparr>selectedMenuItem := nextMenuItem sel\<rparr>)))"

text \<open>One of two buttons, the second polled only when the first does not answer.\<close>

definition either_button :: "u8 \<Rightarrow> u8 \<Rightarrow> input_state \<Rightarrow> bool \<times> input_state" where
  "either_button b c i =
     (let (r, i1) = risefall_xpad_BUTTON b i
      in if r = 1 then (True, i1)
         else let (r', i2) = risefall_xpad_BUTTON c i1 in (r' = 1, i2))"

text \<open>What a turn of the loop does: go on (after having run an item, if any), or return from the menu.\<close>

datatype turn_result = Again "u32 option" | Left_after u32 | Left_back

definition run_function :: "('f \<Rightarrow> u32 \<Rightarrow> menu_env \<Rightarrow> menu_env) \<Rightarrow> 'f TEXTMENUITEM \<Rightarrow> menu_env \<Rightarrow> menu_env" where
  "run_function call item env =
     (case functionPtr item of None \<Rightarrow> env | Some f \<Rightarrow> call f (functionDataPtr item) env)"

definition run_item :: "('f \<Rightarrow> u32 \<Rightarrow> menu_env \<Rightarrow> menu_env) \<Rightarrow> 'f text_menu \<Rightarrow> menu_env \<Rightarrow>
    (turn_result \<times> 'f text_menu \<times> menu_env) option" where
  "run_item call m env =
     (case items m (selectedMenuItem m) of
        None \<Rightarrow> None
      | Some item \<Rightarrow>
          let env1 = run_function call item env
          in Some (if breakOutOfMenu env1
                   then (Left_after (selectedMenuItem m), m, env1\<lparr>breakOutOfMenu := False\<rparr>)
                   else (Again (Some (selectedMenuItem m)), m, env1)))"

definition text_turn :: "('f \<Rightarrow> u32 \<Rightarrow> menu_env \<Rightarrow> menu_env) \<Rightarrow> 'f text_menu \<times> menu_env \<Rightarrow>
    (turn_result \<times> 'f text_menu \<times> menu_env) option" where
  "text_turn call = (\<lambda>(m, env).
     let (up, i1) = risefall_xpad_BUTTON TRIGGER_XPAD_PAD_UP (inputs env) in
     if up = 1 then map_option (\<lambda>m'. (Again None, m', env\<lparr>inputs := i1\<rparr>)) (move_up m)
     else let (down, i2) = risefall_xpad_BUTTON TRIGGER_XPAD_PAD_DOWN i1 in
     if down = 1 then map_option (\<lambda>m'. (Again None, m', env\<lparr>inputs := i2\<rparr>)) (move_down m)
     else let (a, i3) = either_button TRIGGER_XPAD_KEY_A TRIGGER_XPAD_KEY_START i2 in
     if a then run_item call m (env\<lparr>inputs := i3\<rparr>)
     else let (b, i4) = either_button TRIGGER_XPAD_KEY_B TRIGGER_XPAD_KEY_BACK i3 in
     Some (if b then Left_back else Again None, m, env\<lparr>inputs := i4\<rparr>))"

text \<open>
  The loop over the input that arrives in the wait of each turn: the items run, and whether the
  menu was left. With no more input the loop is still going on.
\<close>

fun text_loop :: "('f \<Rightarrow> u32 \<Rightarrow> menu_env \<Rightarrow> menu_env) \<Rightarrow> input_event list list \<Rightarrow> 'f text_menu \<times> menu_env \<Rightarrow>
    (u32 list \<times> bool \<times> 'f text_menu \<times> menu_env) option" where
  "text_loop call [] (m, env) = Some ([], False, m, env)"
| "text_loop call (evs # ts) (m, env) =
     (case text_turn call (m, env\<lparr>inputs := fold deliver evs (inputs env)\<rparr>) of
        None \<Rightarrow> None
      | Some (Again run, me) \<Rightarrow>
          map_option (\<lambda>(rs, r). ((case run of None \<Rightarrow> rs | Some p \<Rightarrow> p # rs), r)) (text_loop call ts me)
      | Some (Left_after p, m', env') \<Rightarrow> Some ([p], True, m', env')
      | Some (Left_back, m', env') \<Rightarrow> Some ([], True, m', env'))"

definition TextMenu :: "('f \<Rightarrow> u32 \<Rightarrow> menu_env \<Rightarrow> menu_env) \<Rightarrow> 'f items \<times> u32 \<Rightarrow> u32 \<Rightarrow> input_event list list \<Rightarrow> menu_env \<Rightarrow>
    (u32 list \<times> bool \<times> 'f text_menu \<times> menu_env) option" where
  "TextMenu call menu selectedItem ts env =
     text_loop call ts (\<lparr>items = fst menu, firstMenuItem = snd menu,
       selectedMenuItem = (if selectedItem \<noteq> 0 then selectedItem else snd menu), firstVisibleMenuItem = snd menu\<rparr>, env)"

section \<open>Asking for a confirmation\<close>

datatype confirm_function = Confirm_Yes | Confirm_No

fun confirm_call :: "confirm_function \<Rightarrow> u32 \<Rightarrow> menu_env \<Rightarrow> menu_env" where
  "confirm_call Confirm_Yes d env = env\<lparr>Confirm_Result := 1, breakOutOfMenu := True\<rparr>"
| "confirm_call Confirm_No d env = env\<lparr>Confirm_Result := 0, breakOutOfMenu := True\<rparr>"

definition confirm_item :: "string \<Rightarrow> confirm_function \<Rightarrow> confirm_function TEXTMENUITEM" where
  "confirm_item caption f = \<lparr>szCaption = caption, functionPtr = Some f, functionDataPtr = 0,
     previousMenuItem = 0, nextMenuItem = 0\<rparr>"

text \<open>\<open>YesItem\<close> and \<open>NoItem\<close> are the addresses of the two local items; the answer with the environment.\<close>

definition Confirm :: "u32 \<Rightarrow> u32 \<Rightarrow> string \<Rightarrow> string \<Rightarrow> bool \<Rightarrow> input_event list list \<Rightarrow> menu_env \<Rightarrow>
    (u32 list \<times> bool \<times> int \<times> menu_env) option" where
  "Confirm YesItem NoItem yesText noText defaultItem ts env =
     (case Option.bind
        (TextMenuAddItem YesItem ([YesItem \<mapsto> confirm_item yesText Confirm_Yes, NoItem \<mapsto> confirm_item noText Confirm_No], 0))
        (TextMenuAddItem NoItem) of
        None \<Rightarrow> None
      | Some menu \<Rightarrow>
          map_option (\<lambda>(run, left, m, env'). (run, left, Confirm_Result env', env'))
            (TextMenu confirm_call menu (if defaultItem then YesItem else NoItem) ts env))"

section \<open>The list of items\<close>

lemma TextMenuAddItem_append: "TextMenuAddItem = append_item nextMenuItem (\<lambda>q. nextMenuItem_update (\<lambda>_. q)) (\<lambda>q. previousMenuItem_update (\<lambda>_. q))"
  by (intro ext) (simp add: TextMenuAddItem_def append_item_def split: prod.split)

interpretation item_menu: item_list nextMenuItem previousMenuItem TextMenuAddItem
  unfolding TextMenuAddItem_append by (rule append_item_list) simp_all


section \<open>The menu as a page of a list\<close>

definition shows_text :: "u32 list \<Rightarrow> 'f text_menu \<Rightarrow> nat \<times> nat \<Rightarrow> bool" where
  "shows_text xs m = (\<lambda>(fv, sel). holds_items nextMenuItem previousMenuItem (items m) (firstMenuItem m) xs \<and>
     fv < length xs \<and> sel < length xs \<and> firstVisibleMenuItem m = xs ! fv \<and> selectedMenuItem m = xs ! sel)"

lemma shows_textD:
  assumes "shows_text xs m (fv, sel)"
  shows "holds_items nextMenuItem previousMenuItem (items m) (firstMenuItem m) xs" "fv < length xs" "sel < length xs"
    "firstVisibleMenuItem m = xs ! fv" "selectedMenuItem m = xs ! sel"
  using assms by (auto simp: shows_text_def)

lemma move_up_page:
  assumes "shows_text xs m (fv, sel)"
  obtains m' where "move_up m = Some m'" "shows_text xs m' (page_left (fv, sel))" "items m' = items m"
proof -
  note h = shows_textD [OF assms]
  obtain i where i: "items m (xs ! sel) = Some i" "previousMenuItem i = (if sel = 0 then 0 else xs ! (sel - 1))"
    using item_at [OF h(1,3)] by metis
  have "sel \<noteq> 0 \<Longrightarrow> xs ! (sel - 1) \<noteq> 0" using nonnull_item [OF h(1), of "sel - 1"] h(3) by simp
  then show thesis using assms h i same_item [OF h(1,3,2)] same_item [OF h(1,2,3)]
    by (intro that [of "if sel = 0 then m else m\<lparr>selectedMenuItem := xs ! (sel - 1),
          firstVisibleMenuItem := (if sel = fv then xs ! (sel - 1) else xs ! fv)\<rparr>"])
      (auto simp: move_up_def page_left_def shows_text_def)
qed

lemma move_down_page:
  assumes "shows_text xs m (fv, sel)"
  obtains m' where "move_down m = Some m'" "shows_text xs m' (page_right 8 (length xs) (fv, sel))" "items m' = items m"
proof -
  note h = shows_textD [OF assms]
  obtain i where i: "items m (xs ! sel) = Some i" "nextMenuItem i = (if Suc sel < length xs then xs ! Suc sel else 0)"
    using item_at [OF h(1,3)] by metis
  obtain f where f: "items m (xs ! fv) = Some f" "nextMenuItem f = (if Suc fv < length xs then xs ! Suc fv else 0)"
    using item_at [OF h(1,2)] by metis
  define l where "l = min (fv + 7) (length xs - 1)"
  have l: "last_visible nextMenuItem (items m) 7 (xs ! fv) = Some (xs ! l)" "xs ! sel = xs ! l \<longleftrightarrow> sel = l"
    using last_visible_items [OF h(1,2), of 7] same_item [OF h(1,3), of l] h by (auto simp: l_def)
  show thesis
  proof (cases "Suc sel < length xs")
    case False
    then show thesis using assms h i by (intro that) (auto simp: move_down_def page_right_def)
  next
    case True
    have "xs ! Suc sel \<noteq> 0" using nonnull_item [OF h(1) True] .
    then show thesis using True h i f l
      by (intro that [of "m\<lparr>selectedMenuItem := xs ! Suc sel,
            firstVisibleMenuItem := (if sel = l then xs ! Suc fv else xs ! fv)\<rparr>"])
        (auto simp: move_down_def page_right_def shows_text_def l_def)
  qed
qed

text \<open>What the input makes of the page in a turn.\<close>

definition text_move :: "nat \<Rightarrow> input_state \<Rightarrow> nat \<times> nat \<Rightarrow> nat \<times> nat" where
  "text_move n inp p =
     (let (up, i1) = risefall_xpad_BUTTON TRIGGER_XPAD_PAD_UP inp
      in if up = 1 then page_left p
         else if fst (risefall_xpad_BUTTON TRIGGER_XPAD_PAD_DOWN i1) = 1 then page_right 8 n p else p)"

lemma text_move_on_page: "snd p < n \<Longrightarrow> on_page 8 p \<Longrightarrow> on_page 8 (text_move n inp p)"
  by (simp add: text_move_def on_page_right on_page_left split: prod.split)

text \<open>A turn moves the page; an item is run, when it is, with the function and data it was given.\<close>

lemma text_turn_page:
  assumes "shows_text xs m p"
  obtains r m' env' where "text_turn call (m, env) = Some (r, m', env')"
    "shows_text xs m' (text_move (length xs) (inputs env) p)" "items m' = items m"
    "(r = Again None \<or> r = Left_back) \<and> (\<exists>i. env' = env\<lparr>inputs := i\<rparr>) \<or>
     (\<exists>i it. items m (xs ! snd p) = Some it \<and>
       r = (if breakOutOfMenu (run_function call it (env\<lparr>inputs := i\<rparr>)) then Left_after (xs ! snd p) else Again (Some (xs ! snd p))) \<and>
       env' = (run_function call it (env\<lparr>inputs := i\<rparr>))\<lparr>breakOutOfMenu := False\<rparr>)"
proof -
  obtain fv sel where p: "p = (fv, sel)" by fastforce
  note h = shows_textD [OF assms [unfolded p]]
  obtain it where it: "items m (xs ! sel) = Some it" using item_at [OF h(1,3)] by metis
  obtain up i1 where up: "risefall_xpad_BUTTON TRIGGER_XPAD_PAD_UP (inputs env) = (up, i1)" by fastforce
  obtain down i2 where down: "risefall_xpad_BUTTON TRIGGER_XPAD_PAD_DOWN i1 = (down, i2)" by fastforce
  obtain a i3 where a: "either_button TRIGGER_XPAD_KEY_A TRIGGER_XPAD_KEY_START i2 = (a, i3)" by fastforce
  obtain b i4 where b: "either_button TRIGGER_XPAD_KEY_B TRIGGER_XPAD_KEY_BACK i3 = (b, i4)" by fastforce
  note defs = text_turn_def text_move_def up down a b
  consider "up = 1" | "up \<noteq> 1" "down = 1" | "up \<noteq> 1" "down \<noteq> 1" "a" | "up \<noteq> 1" "down \<noteq> 1" "\<not> a" by blast
  then show thesis
  proof cases
    case 1
    obtain m' where "move_up m = Some m'" "shows_text xs m' (page_left (fv, sel))" "items m' = items m"
      using assms unfolding p by (rule move_up_page)
    then show thesis using 1 by (intro that [of "Again None" m' "env\<lparr>inputs := i1\<rparr>"]) (auto simp: defs p)
  next
    case 2
    obtain m' where "move_down m = Some m'" "shows_text xs m' (page_right 8 (length xs) (fv, sel))" "items m' = items m"
      using assms unfolding p by (rule move_down_page)
    then show thesis using 2 by (intro that [of "Again None" m' "env\<lparr>inputs := i2\<rparr>"]) (auto simp: defs p)
  next
    case 3
    have "text_turn call (m, env) = run_item call m (env\<lparr>inputs := i3\<rparr>)" using 3 by (simp add: defs)
    also have "\<dots> = Some (if breakOutOfMenu (run_function call it (env\<lparr>inputs := i3\<rparr>)) then Left_after (xs ! sel)
        else Again (Some (xs ! sel)), m, (run_function call it (env\<lparr>inputs := i3\<rparr>))\<lparr>breakOutOfMenu := False\<rparr>)"
      using it h(5) by (simp add: run_item_def)
    finally show thesis
      by (rule that) (use assms 3 it in \<open>auto simp: defs p intro!: exI [of _ i3]\<close>)
  next
    case 4
    then show thesis using assms
      by (intro that [of "if b then Left_back else Again None" m "env\<lparr>inputs := i4\<rparr>"]) (auto simp: defs)
  qed
qed

lemma text_loop_page:
  "shows_text xs m p \<Longrightarrow> on_page 8 p \<Longrightarrow>
   \<exists>rs left m' env' p'. text_loop call ts (m, env) = Some (rs, left, m', env') \<and> shows_text xs m' p' \<and> on_page 8 p'"
proof (induction ts arbitrary: m env p)
  case (Cons evs ts)
  define e0 where "e0 = env\<lparr>inputs := fold deliver evs (inputs env)\<rparr>"
  obtain r m1 e1 where turn: "text_turn call (m, e0) = Some (r, m1, e1)"
    "shows_text xs m1 (text_move (length xs) (inputs e0) p)"
    by (rule text_turn_page [OF Cons.prems(1), of call e0])
  have page: "on_page 8 (text_move (length xs) (inputs e0) p)"
    using Cons.prems by (intro text_move_on_page) (auto simp: shows_text_def)
  obtain rs left m' e' p' where rest: "text_loop call ts (m1, e1) = Some (rs, left, m', e')" "shows_text xs m' p'" "on_page 8 p'"
    using Cons.IH [OF turn(2) page] by blast
  show ?case
  proof (cases r)
    case (Again run)
    then have "text_loop call (evs # ts) (m, env) = Some (case run of None \<Rightarrow> rs | Some p \<Rightarrow> p # rs, left, m', e')"
      using turn(1) rest(1) by (simp add: e0_def [symmetric])
    then show ?thesis using rest(2,3) by blast
  next
    case (Left_after q)
    then have "text_loop call (evs # ts) (m, env) = Some ([q], True, m1, e1)" using turn(1) by (simp add: e0_def [symmetric])
    then show ?thesis using turn(2) page by blast
  next
    case Left_back
    then have "text_loop call (evs # ts) (m, env) = Some ([], True, m1, e1)" using turn(1) by (simp add: e0_def [symmetric])
    then show ?thesis using turn(2) page by blast
  qed
qed auto

text \<open>
  C33. Whatever the input and whatever the functions do, a text menu that is opened on one of its
  first eight items follows no bad pointer, and the selected item is always among the eight that
  are drawn. (An item further down, such as a default boot entry, is selected but not drawn.)
\<close>

theorem text_selection_stays_visible:
  assumes "holds_items nextMenuItem previousMenuItem s first xs" "k < length xs" "k < 8"
  shows "\<exists>rs left m' env' ps. TextMenu call (s, first) (xs ! k) ts env = Some (rs, left, m', env') \<and>
    drawn_from nextMenuItem (items m') 8 (firstVisibleMenuItem m') = Some ps \<and> selectedMenuItem m' \<in> set ps"
proof -
  let ?m = "\<lparr>items = s, firstMenuItem = first, selectedMenuItem = xs ! k, firstVisibleMenuItem = first\<rparr>"
  have "xs ! k \<noteq> 0" "first = xs ! 0"
    using nonnull_item [OF assms(1,2)] holds_items_first [OF assms(1)] assms(2) by auto
  then have start: "shows_text xs ?m (0, k)" "on_page 8 (0, k)"
    "TextMenu call (s, first) (xs ! k) ts env = text_loop call ts (?m, env)"
    using assms by (auto simp: shows_text_def TextMenu_def on_page_def)
  obtain rs left m' env' fv sel where r: "text_loop call ts (?m, env) = Some (rs, left, m', env')"
    "shows_text xs m' (fv, sel)" "on_page 8 (fv, sel)"
    using text_loop_page [OF start(1,2), of call ts env] by auto
  note h = shows_textD [OF r(2)]
  show ?thesis using start(3) r(1,3) h drawn_items [OF h(1,2), of 8] on_page_drawn [OF r(3) h(3)] by auto
qed

section \<open>The answer of a confirmation\<close>

definition asks :: "u32 \<Rightarrow> u32 \<Rightarrow> confirm_function text_menu \<Rightarrow> bool" where
  "asks y n m \<longleftrightarrow> map_option functionPtr (items m y) = Some (Some Confirm_Yes) \<and>
     map_option functionPtr (items m n) = Some (Some Confirm_No)"

definition confirmed :: "u32 \<Rightarrow> u32 \<Rightarrow> int \<Rightarrow> u32 list \<Rightarrow> int \<Rightarrow> bool" where
  "confirmed y n old run answer \<longleftrightarrow> run = [] \<and> answer = old \<or> run = [y] \<and> answer = 1 \<or> run = [n] \<and> answer = 0"

lemma confirm_loop:
  "shows_text [y, n] m p \<Longrightarrow> asks y n m \<Longrightarrow>
   \<exists>run left m' env'. text_loop confirm_call ts (m, env) = Some (run, left, m', env') \<and>
     confirmed y n (Confirm_Result env) run (Confirm_Result env')"
proof (induction ts arbitrary: m env p)
  case (Cons evs ts)
  define e0 where "e0 = env\<lparr>inputs := fold deliver evs (inputs env)\<rparr>"
  obtain r m1 e1 where turn: "text_turn confirm_call (m, e0) = Some (r, m1, e1)"
    "shows_text [y, n] m1 (text_move (length [y, n]) (inputs e0) p)" "items m1 = items m"
    "(r = Again None \<or> r = Left_back) \<and> (\<exists>i. e1 = e0\<lparr>inputs := i\<rparr>) \<or>
     (\<exists>i it. items m ([y, n] ! snd p) = Some it \<and>
       r = (if breakOutOfMenu (run_function confirm_call it (e0\<lparr>inputs := i\<rparr>)) then Left_after ([y, n] ! snd p)
            else Again (Some ([y, n] ! snd p))) \<and>
       e1 = (run_function confirm_call it (e0\<lparr>inputs := i\<rparr>))\<lparr>breakOutOfMenu := False\<rparr>)"
    by (rule text_turn_page [OF Cons.prems(1), of confirm_call e0])
  have old: "Confirm_Result e0 = Confirm_Result env" by (simp add: e0_def)
  from turn(4) consider "r = Again None" "Confirm_Result e1 = Confirm_Result env"
    | "r = Left_back" "Confirm_Result e1 = Confirm_Result env"
    | i it where "items m ([y, n] ! snd p) = Some it"
       "r = (if breakOutOfMenu (run_function confirm_call it (e0\<lparr>inputs := i\<rparr>)) then Left_after ([y, n] ! snd p)
            else Again (Some ([y, n] ! snd p)))"
       "e1 = (run_function confirm_call it (e0\<lparr>inputs := i\<rparr>))\<lparr>breakOutOfMenu := False\<rparr>"
    using old by auto
  then show ?case
  proof cases
    case 1
    have "asks y n m1" using Cons.prems(2) turn(3) by (simp add: asks_def)
    then show ?thesis using Cons.IH [OF turn(2), of e1] 1 turn(1) by (fastforce simp: e0_def [symmetric])
  next
    case 2
    then show ?thesis using turn(1) by (auto simp: e0_def [symmetric] confirmed_def)
  next
    case 3
    have "snd p = 0 \<or> snd p = 1" using Cons.prems(1) by (auto simp: shows_text_def split: prod.splits)
    then have "r = Left_after y \<and> Confirm_Result e1 = 1 \<or> r = Left_after n \<and> Confirm_Result e1 = 0"
      using 3 Cons.prems(2) by (auto simp: asks_def run_function_def)
    then show ?thesis using turn(1) by (auto simp: e0_def [symmetric] confirmed_def)
  qed
qed (auto simp: confirmed_def)

lemma confirm_menu:
  assumes "y \<noteq> 0" "n \<noteq> 0" "y \<noteq> n"
  shows "Option.bind (TextMenuAddItem y ([y \<mapsto> confirm_item yt Confirm_Yes, n \<mapsto> confirm_item nt Confirm_No], 0)) (TextMenuAddItem n)
    = Some ([y \<mapsto> (confirm_item yt Confirm_Yes)\<lparr>nextMenuItem := n\<rparr>, n \<mapsto> (confirm_item nt Confirm_No)\<lparr>previousMenuItem := y\<rparr>], y)"
proof -
  let ?s = "[y \<mapsto> confirm_item yt Confirm_Yes, n \<mapsto> confirm_item nt Confirm_No]"
  have one: "TextMenuAddItem y (?s, 0) = Some (?s, y)"
    using assms by (subst TextMenuAddItem_def, subst list_end.simps) (auto simp: confirm_item_def Let_def fun_eq_iff)
  have "list_end nextMenuItem ?s y 0 = Some y"
    using assms list_end_chain [of nextMenuItem previousMenuItem ?s 0 y "[y]" 0] by (simp add: confirm_item_def)
  then have "TextMenuAddItem n (?s, y) = Some ([y \<mapsto> (confirm_item yt Confirm_Yes)\<lparr>nextMenuItem := n\<rparr>,
      n \<mapsto> (confirm_item nt Confirm_No)\<lparr>previousMenuItem := y\<rparr>], y)"
    using assms by (auto simp: TextMenuAddItem_def Let_def confirm_item_def fun_eq_iff)
  then show ?thesis using one by simp
qed

lemma Confirm_answers:
  assumes "y \<noteq> 0" "n \<noteq> 0" "y \<noteq> n"
  shows "\<exists>run left answer env'. Confirm y n yt nt d ts env = Some (run, left, answer, env') \<and>
    confirmed y n (Confirm_Result env) run answer"
proof -
  let ?s = "[y \<mapsto> (confirm_item yt Confirm_Yes)\<lparr>nextMenuItem := n\<rparr>, n \<mapsto> (confirm_item nt Confirm_No)\<lparr>previousMenuItem := y\<rparr>]"
  let ?m = "\<lparr>items = ?s, firstMenuItem = y, selectedMenuItem = (if d then y else n), firstVisibleMenuItem = y\<rparr>"
  have "shows_text [y, n] ?m (0, if d then 0 else 1)" "asks y n ?m"
    using assms by (auto simp: shows_text_def holds_items_def asks_def confirm_item_def)
  from confirm_loop [OF this, of ts env] obtain run left m' env'
    where "text_loop confirm_call ts (?m, env) = Some (run, left, m', env')"
      "confirmed y n (Confirm_Result env) run (Confirm_Result env')" by blast
  then show ?thesis using assms by (auto simp: Confirm_def confirm_menu TextMenu_def)
qed

text \<open>
  C25. The answer of a confirmation that was left: 1 when the item Yes was run, 0 when No was, and
  the answer of the confirmation before when the menu was left with B or Back. So refusing with B
  after an earlier Yes confirms, and a drive is locked or the flash is written.
\<close>

theorem confirm_back_repeats_answer:
  assumes "YesItem \<noteq> 0" "NoItem \<noteq> 0" "YesItem \<noteq> NoItem"
  shows "\<exists>run left answer env'. Confirm YesItem NoItem yesText noText defaultItem ts env = Some (run, left, answer, env') \<and>
    (run = [] \<and> answer = Confirm_Result env \<or> run = [YesItem] \<and> answer = 1 \<or> run = [NoItem] \<and> answer = 0)"
  using Confirm_answers [OF assms] by (simp add: confirmed_def)

section \<open>Runs\<close>

definition pad_report :: "u8 \<Rightarrow> u8 \<Rightarrow> u8 \<Rightarrow> input_event" where
  "pad_report dirs key_a key_b = PadReport 0 ([0, 20, dirs, 0, key_a, key_b] @ replicate 26 0) 0"

definition said_yes :: menu_env where
  "said_yes = \<lparr>inputs = idle_input, breakOutOfMenu = False, Confirm_Result = 1\<rparr>"

text \<open>The user moves up to Yes and down to No again, and leaves with B: the answer is still 1.\<close>

lemma confirm_back_repeats_answer_witness:
  "\<exists>env'. Confirm 0x100 0x200 ''Yes'' ''No'' False
     [[pad_report 1 0 0], [pad_report 0 0 0], [pad_report 2 0 0], [pad_report 0 0 0xff]] said_yes = Some ([], True, 1, env')"
proof -
  let ?ts = "[[pad_report 1 0 0], [pad_report 0 0 0], [pad_report 2 0 0], [pad_report 0 0 0xff]]"
  have "map_option (\<lambda>(run, left, answer, env'). (run, left)) (Confirm 0x100 0x200 ''Yes'' ''No'' False ?ts said_yes)
      = Some ([], True)" by code_simp
  then show ?thesis
    using confirm_back_repeats_answer [of "0x100" "0x200" "''Yes''" "''No''" False ?ts said_yes] by (auto simp: said_yes_def)
qed

definition ten_items :: "unit items" where
  "ten_items = (\<lambda>p. if p \<in> {1..10}
     then Some \<lparr>szCaption = [], functionPtr = None, functionDataPtr = 0, previousMenuItem = p - 1,
            nextMenuItem = (if p = 10 then 0 else p + 1)\<rparr> else None)"

lemma text_selection_stays_visible_witness:
  "\<exists>rs left m' env' ps. TextMenu (\<lambda>_ _ e. e) (ten_items, 1) ([1, 2, 3, 4, 5, 6, 7, 8, 9, 10] ! 7) [[pad_report 2 0 0]] said_yes
       = Some (rs, left, m', env') \<and>
    drawn_from nextMenuItem (items m') 8 (firstVisibleMenuItem m') = Some ps \<and> selectedMenuItem m' \<in> set ps"
proof (rule text_selection_stays_visible)
  show "holds_items nextMenuItem previousMenuItem ten_items 1 [1, 2, 3, 4, 5, 6, 7, 8, 9, 10]"
    by (simp add: holds_items_def ten_items_def)
qed simp_all

end
