(* ===== verification/Iso9660.thy ===== *)
theory Iso9660
  imports BootString
begin

text \<open>
  The ISO 9660 file system, \<open>fs/cdrom/iso9660.c\<close>. \<open>BootIdeReadSector\<close> for the CD drive is an argument:
  the bytes it delivers for a sector of 2048 bytes, or its error. So are the answers of \<open>malloc\<close> and
  what a fresh block holds, which shows when a sector of a directory cannot be read. The blocks
  themselves do not lie in the modelled memory; the file is read into it.
\<close>

section \<open>The code\<close>

definition ISO_BLOCKSIZE :: nat where "ISO_BLOCKSIZE = 2048"
definition ISOFS_BLOCK_BITS :: nat where "ISOFS_BLOCK_BITS = 11"
definition IS_DIR :: u8 where "IS_DIR = 2"

record cdrom =
  cd_sector :: "u32 \<Rightarrow> u8 list option"
  heap_fits :: "u32 \<Rightarrow> bool"
  heap_junk :: "nat \<Rightarrow> nat \<Rightarrow> u8"

definition isupper :: "u32 \<Rightarrow> bool" where
  "isupper ch \<longleftrightarrow> ch - 0x41 < 26"

function strip_blank :: "u32 \<Rightarrow> u8 \<Rightarrow> mem \<Rightarrow> mem" where
  "strip_blank buf i m =
     (if i > 0 then if m (buf + ucast i) \<noteq> 0x20 then m else strip_blank buf (i - 1) (m(buf + ucast i := 0)) else m)"
  by pat_completeness auto
termination
  by (relation "measure (\<lambda>(buf, i, m). unat i)") (auto simp: word_greater_zero_iff unat_minus_one unat_gt_0)

text \<open>The name is an array of which the code may look at bytes behind its length.\<close>

function name_translate :: "(nat \<Rightarrow> u8) \<Rightarrow> nat \<Rightarrow> nat \<Rightarrow> u8 list" where
  "name_translate old len i =
     (if i < len \<and> old i \<noteq> 0
      then let c = (if isupper (ucast (old i)) then ucast (tolower (ucast (old i))) else old i) in
        if c = 0x2e \<and> i + 3 = len \<and> old (i + 1) = 0x3b \<and> old (i + 2) = 0x31 then []
        else if c = 0x3b \<and> i + 2 = len \<and> old (i + 1) = 0x31 then []
        else (if c = 0x3b then 0x2e else c) # name_translate old len (i + 1)
      else [])"
  by pat_completeness auto
termination
  by (relation "measure (\<lambda>(old, len, i). len - i)") auto

definition iso9660_name_translate :: "(nat \<Rightarrow> u8) \<Rightarrow> u8 \<Rightarrow> u8 list" where
  "iso9660_name_translate old len = name_translate old (unat len) 0"

text \<open>The fields of a directory record that the code uses, at an offset of a buffer.\<close>

record iso_directory_record =
  extent :: u32
  dir_size :: u32
  dir_flags :: u8
  name_len :: u8

definition field32 :: "(nat \<Rightarrow> u8) \<Rightarrow> nat \<Rightarrow> u32" where
  "field32 buf i = le32 (buf i) (buf (i + 1)) (buf (i + 2)) (buf (i + 3))"

definition record_at :: "(nat \<Rightarrow> u8) \<Rightarrow> nat \<Rightarrow> iso_directory_record" where
  "record_at buf off = \<lparr>extent = field32 buf (off + 2), dir_size = field32 buf (off + 10),
     dir_flags = buf (off + 25), name_len = buf (off + 32)\<rparr>"

definition name_at :: "(nat \<Rightarrow> u8) \<Rightarrow> nat \<Rightarrow> nat \<Rightarrow> u8" where
  "name_at buf off i = buf (off + 33 + i)"

text \<open>The buffer of a directory after its whole sectors have been read, errors ignored.\<close>

definition read_blocks :: "cdrom \<Rightarrow> nat \<Rightarrow> iso_directory_record \<Rightarrow> nat \<Rightarrow> u8" where
  "read_blocks cd level d k =
     (let i = k div ISO_BLOCKSIZE; j = k mod ISO_BLOCKSIZE in
      if i < unat (drop_bit ISOFS_BLOCK_BITS (dir_size d))
      then (case cd_sector cd (extent d + of_nat i) of
              Some data \<Rightarrow> if j < length data then data ! j else heap_junk cd level k
            | None \<Rightarrow> heap_junk cd level k)
      else heap_junk cd level k)"

text \<open>
  The loop over the records of a directory. \<open>newfilename\<close> keeps the name of the record before when a
  record is one of the two for the directory itself and its parent; it is compared with the path as
  far as the path goes, its NUL included. A directory on the way is read by a recursive call whose
  result is returned: the loop goes on there. \<open>None\<close> is a search that does not end, or one
  that writes behind the 1024 bytes of \<open>newfilename\<close>.
\<close>

partial_function (option) read_dir_loop :: "cdrom \<Rightarrow> u8 list \<Rightarrow> nat \<Rightarrow> u8 list \<Rightarrow> (nat \<Rightarrow> u8) \<Rightarrow> u32 \<Rightarrow> u32 \<Rightarrow>
    u8 list \<Rightarrow> iso_directory_record option option" where
  "read_dir_loop cd search level filename buf read_size offset newfilename =
     (if offset < read_size
      then let dir = record_at buf (unat offset); dir_length = buf (unat offset) in
        if dir_length = 0
        then read_dir_loop cd search level filename buf read_size ((offset + 2048) AND NOT (2048 - 1)) newfilename
        else let new = (if name_at buf (unat offset) 0 \<noteq> 0 \<and> name_at buf (unat offset) 0 \<noteq> 1
                        then filename @ [0x2f] @ iso9660_name_translate (name_at buf (unat offset)) (name_len dir)
                        else newfilename) in
          if 1024 \<le> length new then None
          else if length new \<le> length search \<and> new = search then Some (Some dir)
          else if dir_flags dir AND IS_DIR \<noteq> 0 \<and> 1 < name_len dir \<and> length new < length search
               \<and> take (length new) search = new \<and> search ! length new = 0x2f
          then if heap_fits cd (dir_size dir)
               then read_dir_loop cd search (Suc level) new (read_blocks cd (Suc level) dir) (dir_size dir) 0 []
               else Some None
          else read_dir_loop cd search level filename buf read_size (offset + ucast dir_length) new
      else Some None)"

definition read_dir :: "cdrom \<Rightarrow> iso_directory_record \<Rightarrow> u8 list \<Rightarrow> u8 list \<Rightarrow> iso_directory_record option option" where
  "read_dir cd d search filename =
     (if heap_fits cd (dir_size d)
      then read_dir_loop cd search 0 filename (read_blocks cd 0 d) (dir_size d) 0 [] else Some None)"

text \<open>
  Reading a file. When it is not smaller than the limit, the code dereferences the limit as a pointer.
  The test for a last block that is not whole compares with the rounded size and is never true.
\<close>

definition file_bytes :: "u32 \<Rightarrow> iso_directory_record \<Rightarrow> mem \<Rightarrow> u32" where
  "file_bytes max_bytes_to_read d m = (if max_bytes_to_read > dir_size d then dir_size d else get32 m max_bytes_to_read)"

definition rounded_size :: "u32 \<Rightarrow> u32" where
  "rounded_size n = (if n \<le> of_nat ISO_BLOCKSIZE then of_nat ISO_BLOCKSIZE
     else n + (of_nat ISO_BLOCKSIZE - n mod of_nat ISO_BLOCKSIZE))"

definition cd_block :: "cdrom \<Rightarrow> u32 \<Rightarrow> u8 list" where
  "cd_block cd sect =
     (case cd_sector cd sect of Some data \<Rightarrow> take ISO_BLOCKSIZE (data @ replicate ISO_BLOCKSIZE 0)
      | None \<Rightarrow> replicate ISO_BLOCKSIZE 0)"

fun copy_blocks :: "cdrom \<Rightarrow> u32 \<Rightarrow> u32 \<Rightarrow> nat \<Rightarrow> mem \<Rightarrow> mem" where
  "copy_blocks cd sect dest 0 m = m"
| "copy_blocks cd sect dest (Suc n) m =
     copy_blocks cd (sect + 1) (dest + of_nat ISO_BLOCKSIZE) n (wr dest (cd_block cd sect) m)"

definition read_file :: "cdrom \<Rightarrow> iso_directory_record \<Rightarrow> u32 \<Rightarrow> u32 \<Rightarrow> mem \<Rightarrow> u32 \<times> mem" where
  "read_file cd d buf max_bytes_to_read m =
     (let n = file_bytes max_bytes_to_read d m
      in (n, copy_blocks cd (extent d) buf (unat (drop_bit ISOFS_BLOCK_BITS (rounded_size n))) m))"

definition BootIso9660GetFile :: "cdrom \<Rightarrow> u8 list \<Rightarrow> u32 \<Rightarrow> u32 \<Rightarrow> mem \<Rightarrow> (u32 \<times> mem) option" where
  "BootIso9660GetFile cd szcPath pbaFile dwFileLengthMax m =
     (case cd_sector cd 16 of None \<Rightarrow> Some (- 1, m)
      | Some pvd \<Rightarrow>
          (case read_dir cd (record_at (\<lambda>k. if k < length pvd then pvd ! k else 0) 156) szcPath [] of
             None \<Rightarrow> None
           | Some None \<Rightarrow> Some (- 1, m)
           | Some (Some d) \<Rightarrow> if extent d > 0 then Some (read_file cd d pbaFile dwFileLengthMax m) else Some (- 1, m)))"

section \<open>Directories as lists\<close>

function record_offsets :: "(nat \<Rightarrow> u8) \<Rightarrow> nat \<Rightarrow> nat \<Rightarrow> nat list" where
  "record_offsets buf n off =
     (if off < n
      then if buf off = 0 then record_offsets buf n ((off div 2048 + 1) * 2048)
           else off # record_offsets buf n (off + unat (buf off))
      else [])"
  by pat_completeness auto
termination
proof (relation "measure (\<lambda>(buf, n, off). n - off)")
  fix buf :: "nat \<Rightarrow> u8" and n off :: nat
  assume "off < n"
  moreover have "off mod 2048 < 2048" by simp
  then have "off < (off div 2048 + 1) * 2048" using div_mult_mod_eq [of off 2048] by (simp add: add_mult_distrib)
  ultimately show "((buf, n, (off div 2048 + 1) * 2048), (buf, n, off)) \<in> measure (\<lambda>(buf, n, off). n - off)" by simp
next
  fix buf :: "nat \<Rightarrow> u8" and n off :: nat
  assume "off < n" "buf off \<noteq> 0"
  moreover have "0 < unat (buf off)" using \<open>buf off \<noteq> 0\<close> by (simp add: unat_gt_0)
  ultimately show "((buf, n, off + unat (buf off)), (buf, n, off)) \<in> measure (\<lambda>(buf, n, off). n - off)" by simp
qed simp

declare record_offsets.simps [simp del] name_translate.simps [simp del]

definition special :: "(nat \<Rightarrow> u8) \<Rightarrow> nat \<Rightarrow> bool" where
  "special buf off \<longleftrightarrow> name_at buf off 0 = 0 \<or> name_at buf off 0 = 1"

definition entry_at :: "(nat \<Rightarrow> u8) \<Rightarrow> nat \<Rightarrow> u8 list \<times> iso_directory_record" where
  "entry_at buf off = (iso9660_name_translate (name_at buf off) (name_len (record_at buf off)), record_at buf off)"

text \<open>The entries of a directory but for the two for itself and its parent, with their names.\<close>

definition dir_entries :: "(nat \<Rightarrow> u8) \<Rightarrow> nat \<Rightarrow> nat \<Rightarrow> (u8 list \<times> iso_directory_record) list" where
  "dir_entries buf n off = map (entry_at buf) (filter (\<lambda>o'. \<not> special buf o') (record_offsets buf n off))"

text \<open>A directory whose name has one character is never entered.\<close>

definition enterable :: "iso_directory_record \<Rightarrow> bool" where
  "enterable r \<longleftrightarrow> dir_flags r AND IS_DIR \<noteq> 0 \<and> 1 < name_len r"

definition record_ok :: "(nat \<Rightarrow> u8) \<Rightarrow> nat \<Rightarrow> nat \<Rightarrow> bool" where
  "record_ok buf n off \<longleftrightarrow> 1 \<le> name_len (record_at buf off) \<and> off + 33 + unat (name_len (record_at buf off)) \<le> n
     \<and> (if special buf off then name_len (record_at buf off) = 1 else 0x2f \<notin> set (fst (entry_at buf off)))"

lemma length_name: "length (iso9660_name_translate old len) \<le> unat len"
proof -
  have "length (name_translate old l i) \<le> l - i" for l i
    by (induction old l i rule: name_translate.induct) (subst name_translate.simps, auto simp: Let_def)
  from this [of "unat len" 0] show ?thesis by (simp add: iso9660_name_translate_def)
qed

text \<open>Only the bytes of the directory matter.\<close>

lemma record_offsets_cong:
  "(\<And>k. k < n \<Longrightarrow> buf k = buf' k) \<Longrightarrow> record_offsets buf n off = record_offsets buf' n off"
proof (induction buf n off rule: record_offsets.induct)
  case (1 buf n off)
  then show ?case by (subst (1 2) record_offsets.simps) auto
qed

lemma name_translate_cong:
  "(\<And>k. k < len \<Longrightarrow> old k = old' k) \<Longrightarrow> name_translate old len i = name_translate old' len i"
proof (induction old len i rule: name_translate.induct)
  case (1 old len i)
  show ?case
  proof (cases "i < len \<and> old i \<noteq> 0")
    case True
    then have "old i = old' i" "i + 3 = len \<Longrightarrow> old (i + 1) = old' (i + 1) \<and> old (i + 2) = old' (i + 2)"
      "i + 2 = len \<Longrightarrow> old (i + 1) = old' (i + 1)"
      using "1.prems" by simp_all
    with 1 True show ?thesis by (subst (1 2) name_translate.simps) (auto simp: Let_def)
  next
    case False
    then show ?thesis using "1.prems" [of i] by (subst (1 2) name_translate.simps) auto
  qed
qed

lemma record_cong:
  assumes "\<And>k. k < n \<Longrightarrow> buf k = buf' k" "record_ok buf n off"
  shows "record_at buf off = record_at buf' off" "entry_at buf off = entry_at buf' off" "special buf off \<longleftrightarrow> special buf' off"
proof -
  have l: "off + 33 + unat (name_len (record_at buf off)) \<le> n" "1 \<le> unat (name_len (record_at buf off))"
    using assms(2) by (auto simp: record_ok_def word_le_nat_alt)
  then show r: "record_at buf off = record_at buf' off" using assms(1) by (simp add: record_at_def field32_def)
  show "special buf off \<longleftrightarrow> special buf' off" using l assms(1) by (simp add: special_def name_at_def)
  have "iso9660_name_translate (name_at buf off) (name_len (record_at buf off))
      = iso9660_name_translate (name_at buf' off) (name_len (record_at buf off))"
    unfolding iso9660_name_translate_def by (rule name_translate_cong) (use l assms(1) in \<open>simp add: name_at_def\<close>)
  with r show "entry_at buf off = entry_at buf' off" by (simp add: entry_at_def)
qed


lemma path_continues:
  "length new < length search \<and> take (length new) search = new \<and> search ! length new = c
     \<longleftrightarrow> (\<exists>rest. search = new @ c # rest)"
proof
  assume a: "length new < length search \<and> take (length new) search = new \<and> search ! length new = c"
  then have "search = take (length new) search @ search ! length new # drop (Suc (length new)) search"
    by (intro id_take_nth_drop) simp
  with a show "\<exists>rest. search = new @ c # rest" by metis
qed auto

lemma next_sector:
  fixes off n :: u32
  assumes "off < n" "unat n \<le> 2 ^ 32 - 4096"
  shows "unat ((off + 2048) AND NOT (2048 - 1)) = (unat off div 2048 + 1) * 2048"
proof -
  have u: "unat (off + 2048) = unat off + 2048"
    using assms by (simp add: unat_word_ariths word_less_nat_alt)
  have "x AND NOT (mask 11) = push_bit 11 (drop_bit 11 x)" for x :: u32
    by (rule bit_word_eqI) (auto simp: bit_simps)
  moreover have "(2048 - 1 :: u32) = mask 11" by (simp add: mask_eq_decr_exp)
  ultimately have "(off + 2048) AND NOT (2048 - 1) = push_bit 11 (drop_bit 11 (off + 2048))" by metis
  then have "unat ((off + 2048) AND NOT (2048 - 1)) = unat (off + 2048) div 2048 * 2048"
    using unat_push_drop [of 11 "off + 2048"] by simp
  moreover have "(unat off + 2048) div 2048 = unat off div 2048 + 1" by simp
  ultimately show ?thesis using u by (simp only:)
qed

text \<open>What the search makes of the entries that are left.\<close>

definition leads :: "u8 list \<Rightarrow> u8 list \<Rightarrow> u8 list \<times> iso_directory_record \<Rightarrow> bool" where
  "leads F search e \<longleftrightarrow> enterable (snd e) \<and> (\<exists>rest. search = (F @ 0x2f # fst e) @ 0x2f # rest)"

definition scan_result :: "cdrom \<Rightarrow> u8 list \<Rightarrow> nat \<Rightarrow> u8 list \<Rightarrow> (u8 list \<times> iso_directory_record) list \<Rightarrow>
    iso_directory_record option option" where
  "scan_result cd search level F es =
     (case List.find (\<lambda>e. F @ 0x2f # fst e = search \<or> leads F search e) es of
        None \<Rightarrow> Some None
      | Some (nm, r) \<Rightarrow>
          if F @ 0x2f # nm = search then Some (Some r)
          else if heap_fits cd (dir_size r)
          then read_dir_loop cd search (Suc level) (F @ 0x2f # nm) (read_blocks cd (Suc level) r) (dir_size r) 0 []
          else Some None)"

lemma loop_scans:
  assumes "unat n \<le> 2 ^ 32 - 4096" "\<forall>o' \<in> set (record_offsets buf (unat n) (unat off)). record_ok buf (unat n) o'"
    and "w \<noteq> search" "length w < 1024" "length F + 257 < 1024"
  shows "read_dir_loop cd search level F buf n off w = scan_result cd search level F (dir_entries buf (unat n) (unat off))"
  using assms(2-4)
proof (induction buf "unat n" "unat off" arbitrary: off w rule: record_offsets.induct)
  case (1 buf)
  show ?case
  proof (cases "off < n")
    case False
    then have "record_offsets buf (unat n) (unat off) = []" by (subst record_offsets.simps) (simp add: word_less_nat_alt)
    with False show ?thesis by (subst read_dir_loop.simps) (simp add: scan_result_def dir_entries_def)
  next
    case True
    then have t: "unat off < unat n" by (simp add: word_less_nat_alt)
    let ?dir = "record_at buf (unat off)" and ?len = "buf (unat off)"
    show ?thesis
    proof (cases "?len = 0")
      case True
      have o: "record_offsets buf (unat n) (unat off) = record_offsets buf (unat n) ((unat off div 2048 + 1) * 2048)"
        using t True by (subst record_offsets.simps) simp
      have nx: "(unat off div 2048 + 1) * 2048 = unat ((off + 2048) AND NOT (2048 - 1))"
        by (rule next_sector [OF \<open>off < n\<close> assms(1), symmetric])
      have "read_dir_loop cd search level F buf n ((off + 2048) AND NOT (2048 - 1)) w
          = scan_result cd search level F (dir_entries buf (unat n) (unat ((off + 2048) AND NOT (2048 - 1))))"
        using "1.prems" by (intro "1.hyps"(1) [OF t True nx]) (simp_all only: o nx not_False_eq_True)
      moreover have "dir_entries buf (unat n) (unat off) = dir_entries buf (unat n) (unat ((off + 2048) AND NOT (2048 - 1)))"
        unfolding dir_entries_def o nx ..
      ultimately show ?thesis using \<open>off < n\<close> True by (subst read_dir_loop.simps) simp
    next
      case False
      have o: "record_offsets buf (unat n) (unat off) = unat off # record_offsets buf (unat n) (unat off + unat ?len)"
        using t False by (subst record_offsets.simps) simp
      have "unat ?len < 256" by (rule less_le_trans [OF unsigned_less]) simp
      then have nx: "unat off + unat ?len = unat (off + ucast ?len)"
        using t assms(1) by (simp add: unat_word_ariths unsigned_ucast_eq take_bit_nat_eq_self)
      have ok: "record_ok buf (unat n) (unat off)"
        "\<forall>o' \<in> set (record_offsets buf (unat n) (unat off + unat ?len)). record_ok buf (unat n) o'"
        using "1.prems"(1) o by simp_all
      have ih: "read_dir_loop cd search level F buf n (off + ucast ?len) w'
          = scan_result cd search level F (dir_entries buf (unat n) (unat (off + ucast ?len)))"
        if "w' \<noteq> search" "length w' < 1024" for w'
        using ok(2) that by (intro "1.hyps"(2) [OF t False nx]) (simp_all only: nx not_False_eq_True)
      show ?thesis
      proof (cases "special buf (unat off)")
        case True
        then have "name_len ?dir = 1" using ok(1) by (simp add: record_ok_def)
        moreover have "dir_entries buf (unat n) (unat off) = dir_entries buf (unat n) (unat (off + ucast ?len))"
          using True by (simp add: dir_entries_def o nx)
        ultimately show ?thesis
          using \<open>off < n\<close> False True ih [of w] "1.prems" by (subst read_dir_loop.simps) (auto simp: special_def)
      next
        case False
        let ?nm = "iso9660_name_translate (name_at buf (unat off)) (name_len ?dir)"
        let ?new = "F @ 0x2f # ?nm"
        have "unat (name_len ?dir) < 256" by (rule less_le_trans [OF unsigned_less]) simp
        then have l: "length ?new < 1024"
          using assms(5) length_name [of "name_at buf (unat off)" "name_len ?dir"] by simp
        have e: "dir_entries buf (unat n) (unat off) = (?nm, ?dir) # dir_entries buf (unat n) (unat (off + ucast ?len))"
          using False by (simp add: dir_entries_def o nx entry_at_def)
        have d: "dir_flags ?dir AND IS_DIR \<noteq> 0 \<and> 1 < name_len ?dir \<and> length ?new < length search
            \<and> take (length ?new) search = ?new \<and> search ! length ?new = 0x2f \<longleftrightarrow> leads F search (?nm, ?dir)"
          using path_continues [of ?new search "0x2f"] by (simp add: leads_def enterable_def conj_assoc)
        have step: "read_dir_loop cd search level F buf n off w =
            (if ?new = search then Some (Some ?dir)
             else if leads F search (?nm, ?dir)
             then if heap_fits cd (dir_size ?dir)
                  then read_dir_loop cd search (Suc level) ?new (read_blocks cd (Suc level) ?dir) (dir_size ?dir) 0 []
                  else Some None
             else read_dir_loop cd search level F buf n (off + ucast ?len) ?new)"
          using \<open>off < n\<close> \<open>?len \<noteq> 0\<close> False l unfolding d [symmetric]
          by (subst read_dir_loop.simps) (auto simp: special_def Let_def)
        show ?thesis
          using ih [OF _ l] unfolding step e by (auto simp: scan_result_def)
      qed
    qed
  qed
qed


section \<open>Directory trees\<close>

definition sectors :: "nat \<Rightarrow> nat" where
  "sectors n = (n + 2047) div 2048"

text \<open>The contents of a file or directory, and that all its sectors can be read.\<close>

definition iso_bytes :: "cdrom \<Rightarrow> iso_directory_record \<Rightarrow> u8 list" where
  "iso_bytes cd r = take (unat (dir_size r))
     (concat (map (\<lambda>i. the (cd_sector cd (extent r + of_nat i))) [0..<sectors (unat (dir_size r))]))"

definition readable :: "cdrom \<Rightarrow> iso_directory_record \<Rightarrow> bool" where
  "readable cd r \<longleftrightarrow> (\<forall>i < sectors (unat (dir_size r)). case cd_sector cd (extent r + of_nat i) of
     None \<Rightarrow> False | Some data \<Rightarrow> length data = 2048)"

definition as_buffer :: "u8 list \<Rightarrow> nat \<Rightarrow> u8" where
  "as_buffer bs k = (if k < length bs then bs ! k else 0)"

definition iso_list :: "cdrom \<Rightarrow> iso_directory_record \<Rightarrow> (u8 list \<times> iso_directory_record) list" where
  "iso_list cd r = dir_entries (as_buffer (iso_bytes cd r)) (unat (dir_size r)) 0"

definition dir_ok :: "cdrom \<Rightarrow> iso_directory_record \<Rightarrow> bool" where
  "dir_ok cd r \<longleftrightarrow> heap_fits cd (dir_size r) \<and> 2048 dvd unat (dir_size r) \<and> unat (dir_size r) \<le> 2 ^ 32 - 4096 \<and> readable cd r
     \<and> (\<forall>off \<in> set (record_offsets (as_buffer (iso_bytes cd r)) (unat (dir_size r)) 0).
          record_ok (as_buffer (iso_bytes cd r)) (unat (dir_size r)) off)"

definition iso_tree :: "cdrom \<Rightarrow> iso_directory_record set \<Rightarrow> bool" where
  "iso_tree cd D \<longleftrightarrow> (\<forall>d \<in> D. dir_ok cd d \<and> (\<forall>(nm, r) \<in> set (iso_list cd d). enterable r \<longrightarrow> r \<in> D))"

text \<open>The lookup of a path, component by component.\<close>

fun iso_lookup :: "cdrom \<Rightarrow> iso_directory_record \<Rightarrow> u8 list list \<Rightarrow> iso_directory_record option" where
  "iso_lookup cd d [] = None"
| "iso_lookup cd d [c] = map_option snd (List.find (\<lambda>(nm, r). nm = c) (iso_list cd d))"
| "iso_lookup cd d (c # cs) =
     (case List.find (\<lambda>(nm, r). nm = c \<and> enterable r) (iso_list cd d) of
        None \<Rightarrow> None | Some (nm, r) \<Rightarrow> iso_lookup cd r cs)"

definition iso_path :: "u8 list list \<Rightarrow> u8 list" where
  "iso_path cs = concat (map (\<lambda>c. 0x2f # c) cs)"

definition good_name :: "u8 list \<Rightarrow> bool" where
  "good_name c \<longleftrightarrow> c \<noteq> [] \<and> 0x2f \<notin> set c"

lemma sector_data: "readable cd r \<Longrightarrow> i < sectors (unat (dir_size r)) \<Longrightarrow>
    \<exists>data. cd_sector cd (extent r + of_nat i) = Some data \<and> length data = 2048"
  by (force simp: readable_def split: option.splits)

lemma iso_sectors:
  assumes "readable cd r"
  shows "\<forall>E \<in> set (map (\<lambda>i. the (cd_sector cd (extent r + of_nat i))) [0..<sectors (unat (dir_size r))]). length E = 2048"
proof (clarsimp)
  fix i assume "i < sectors (unat (dir_size r))"
  from sector_data [OF assms this] show "length (the (cd_sector cd (extent r + word_of_nat i))) = 2048" by auto
qed

lemma length_chunks: "\<forall>E \<in> set Es. length E = k \<Longrightarrow> length (concat Es) = length Es * k"
  by (induction Es) auto

lemma sectors_cover: "n \<le> sectors n * 2048"
proof -
  have "(n + 2047) mod 2048 < 2048" by simp
  moreover have "(n + 2047) div 2048 * 2048 + (n + 2047) mod 2048 = n + 2047" by (rule div_mult_mod_eq)
  ultimately show ?thesis unfolding sectors_def by linarith
qed

lemma length_iso_bytes: "readable cd r \<Longrightarrow> length (iso_bytes cd r) = unat (dir_size r)"
proof -
  assume "readable cd r"
  from length_chunks [OF iso_sectors [OF this]] have
    "length (concat (map (\<lambda>i. the (cd_sector cd (extent r + of_nat i))) [0..<sectors (unat (dir_size r))]))
      = sectors (unat (dir_size r)) * 2048" by simp
  moreover note sectors_cover [of "unat (dir_size r)"]
  ultimately show ?thesis unfolding iso_bytes_def by simp
qed

lemma read_blocks_as_buffer:
  assumes "dir_ok cd r" "k < unat (dir_size r)"
  shows "read_blocks cd level r k = as_buffer (iso_bytes cd r) k"
proof -
  have r: "readable cd r" using assms(1) by (simp add: dir_ok_def)
  obtain q where q: "unat (dir_size r) = 2048 * q" using assms(1) by (auto simp: dir_ok_def dvd_def)
  then have s: "sectors (unat (dir_size r)) = q" by (simp add: sectors_def)
  have n: "unat (drop_bit 11 (dir_size r)) = q" using q by (simp add: drop_bit_eq_div unat_div)
  have kq: "k div 2048 < q" using assms(2) q by (simp add: less_mult_imp_div_less mult.commute)
  obtain data where d: "cd_sector cd (extent r + of_nat (k div 2048)) = Some data" "length data = 2048"
    using sector_data [OF r, of "k div 2048"] s kq by auto
  have "iso_bytes cd r ! k = concat (map (\<lambda>i. the (cd_sector cd (extent r + of_nat i))) [0..<q]) ! k"
    using assms(2) by (simp add: iso_bytes_def s)
  also have "\<dots> = map (\<lambda>i. the (cd_sector cd (extent r + of_nat i))) [0..<q] ! (k div 2048) ! (k mod 2048)"
    using assms(2) q iso_sectors [OF r, unfolded s] by (intro nth_concat_chunks) simp_all
  finally have "iso_bytes cd r ! k = data ! (k mod 2048)" using kq d by simp
  then show ?thesis
    using d kq n assms(2) length_iso_bytes [OF r] by (simp add: read_blocks_def ISO_BLOCKSIZE_def ISOFS_BLOCK_BITS_def as_buffer_def Let_def)
qed

lemma dir_search:
  assumes "dir_ok cd d" "search \<noteq> []" "length F + 257 < 1024"
  shows "read_dir_loop cd search level F (read_blocks cd level d) (dir_size d) 0 [] = scan_result cd search level F (iso_list cd d)"
proof -
  let ?b = "as_buffer (iso_bytes cd d)" and ?b' = "read_blocks cd level d" and ?n = "unat (dir_size d)"
  have eq: "?b k = ?b' k" if "k < ?n" for k using read_blocks_as_buffer [OF assms(1) that] by simp
  have os: "record_offsets ?b ?n 0 = record_offsets ?b' ?n 0" by (rule record_offsets_cong) (rule eq)
  have ok: "record_ok ?b ?n off" if "off \<in> set (record_offsets ?b ?n 0)" for off using assms(1) that by (simp add: dir_ok_def)
  note c = record_cong [of ?n ?b ?b', OF eq ok]
  have "dir_entries ?b ?n 0 = dir_entries ?b' ?n 0"
    unfolding dir_entries_def os [symmetric] using c(2,3) by (auto intro!: map_cong filter_cong)
  moreover have "record_ok ?b' ?n off" if "off \<in> set (record_offsets ?b' ?n 0)" for off
    using ok [of off] c [of off] that unfolding os record_ok_def by (simp cong: if_cong)
  ultimately show ?thesis
    using loop_scans [of "dir_size d" ?b' 0 "[]" search F cd level] assms by (simp add: dir_ok_def iso_list_def)
qed


section \<open>Paths\<close>

lemma slash_ends_name:
  "0x2f \<notin> set a \<Longrightarrow> 0x2f \<notin> set b \<Longrightarrow> a @ (0x2f :: u8) # x = b @ 0x2f # y \<longleftrightarrow> a = b \<and> x = y"
proof (induction a arbitrary: b)
  case Nil
  then show ?case by (cases b) auto
next
  case (Cons c a)
  then show ?case by (cases b) auto
qed

lemma find_satisfies: "List.find P xs = Some x \<Longrightarrow> x \<in> set xs \<and> P x"
  by (auto simp: find_Some_iff)

lemma iso_list_names: "dir_ok cd d \<Longrightarrow> (nm, r) \<in> set (iso_list cd d) \<Longrightarrow> 0x2f \<notin> set nm"
  by (auto simp: iso_list_def dir_entries_def dir_ok_def record_ok_def entry_at_def)

lemma iso_path_Cons: "iso_path (c # cs) = 0x2f # c @ iso_path cs"
  by (simp add: iso_path_def)

lemma iso_path_starts: "cs \<noteq> [] \<Longrightarrow> \<exists>rest. iso_path cs = 0x2f # rest"
  by (cases cs) (auto simp: iso_path_Cons)

text \<open>One directory: the last component is found by its name alone, another one must be a directory to enter.\<close>

lemma scan_last:
  assumes "dir_ok cd d" "good_name c"
  shows "scan_result cd (F @ iso_path [c]) level F (iso_list cd d)
    = Some (map_option snd (List.find (\<lambda>(nm, r). nm = c) (iso_list cd d)))"
proof -
  have "(F @ 0x2f # fst e = F @ iso_path [c] \<or> leads F (F @ iso_path [c]) e) \<longleftrightarrow> fst e = c" for e
    using assms(2) by (auto simp: leads_def iso_path_def good_name_def)
  then have "List.find (\<lambda>e. F @ 0x2f # fst e = F @ iso_path [c] \<or> leads F (F @ iso_path [c]) e) (iso_list cd d)
      = List.find (\<lambda>(nm, r). nm = c) (iso_list cd d)"
    by (intro find_cong) (auto simp: split_def)
  then show ?thesis unfolding scan_result_def
    by (auto simp: iso_path_Cons iso_path_def [of "[]"] split: option.splits dest!: find_satisfies)
qed

lemma scan_inner:
  assumes "dir_ok cd d" "good_name c" "cs \<noteq> []"
  shows "scan_result cd (F @ iso_path (c # cs)) level F (iso_list cd d)
    = (case List.find (\<lambda>(nm, r). nm = c \<and> enterable r) (iso_list cd d) of
         None \<Rightarrow> Some None
       | Some (nm, r) \<Rightarrow>
           if heap_fits cd (dir_size r)
           then read_dir_loop cd ((F @ 0x2f # c) @ iso_path cs) (Suc level) (F @ 0x2f # c)
                  (read_blocks cd (Suc level) r) (dir_size r) 0 []
           else Some None)"
proof -
  obtain rest where cs: "iso_path cs = 0x2f # rest" using iso_path_starts [OF assms(3)] by blast
  have "(F @ 0x2f # fst e = F @ iso_path (c # cs) \<or> leads F (F @ iso_path (c # cs)) e) \<longleftrightarrow> fst e = c \<and> enterable (snd e)"
    if "e \<in> set (iso_list cd d)" for e
  proof -
    have nm: "0x2f \<notin> set (fst e)" using iso_list_names [OF assms(1), of "fst e" "snd e"] that by simp
    then have "F @ 0x2f # fst e \<noteq> F @ iso_path (c # cs)" by (auto simp: iso_path_Cons cs)
    moreover have "leads F (F @ iso_path (c # cs)) e \<longleftrightarrow> enterable (snd e) \<and> (\<exists>x. c @ 0x2f # rest = fst e @ 0x2f # x)"
      by (simp add: leads_def iso_path_Cons cs)
    ultimately show ?thesis using slash_ends_name [OF _ nm] assms(2) by (auto simp: good_name_def)
  qed
  then have f: "List.find (\<lambda>e. F @ 0x2f # fst e = F @ iso_path (c # cs) \<or> leads F (F @ iso_path (c # cs)) e) (iso_list cd d)
      = List.find (\<lambda>(nm, r). nm = c \<and> enterable r) (iso_list cd d)"
    by (intro find_cong) (auto simp: split_def)
  have n: "F @ 0x2f # c \<noteq> F @ iso_path (c # cs)" by (simp add: iso_path_Cons cs)
  have "nm = c" if "List.find (\<lambda>(nm, r). nm = c \<and> enterable r) (iso_list cd d) = Some (nm, r)" for nm r
    using find_satisfies [OF that] by simp
  then show ?thesis unfolding scan_result_def f
    using n by (auto simp: iso_path_Cons split: option.splits)
qed

lemma search_resolves:
  assumes "iso_tree cd D" "d \<in> D" "comps \<noteq> []" "\<forall>c \<in> set comps. good_name c" "length (F @ iso_path comps) \<le> 700"
  shows "read_dir_loop cd (F @ iso_path comps) level F (read_blocks cd level d) (dir_size d) 0 [] = Some (iso_lookup cd d comps)"
  using assms
proof (induction cd d comps arbitrary: F level rule: iso_lookup.induct)
  case (2 cd d c)
  have ok: "dir_ok cd d" using "2.prems"(1,2) by (simp add: iso_tree_def)
  show ?case using 2 by (subst dir_search [OF ok]) (use scan_last [OF ok, of c F level] in \<open>simp_all add: iso_path_def\<close>)
next
  case (3 cd d c c' cs)
  let ?cs = "c' # cs" and ?f = "List.find (\<lambda>(nm, r). nm = c \<and> enterable r) (iso_list cd d)"
  have ok: "dir_ok cd d" using "3.prems"(1,2) by (simp add: iso_tree_def)
  have "read_dir_loop cd (F @ iso_path (c # ?cs)) level F (read_blocks cd level d) (dir_size d) 0 []
      = scan_result cd (F @ iso_path (c # ?cs)) level F (iso_list cd d)"
    using 3 by (intro dir_search [OF ok]) (simp_all add: iso_path_Cons)
  also have "\<dots> = Some (iso_lookup cd d (c # ?cs))"
  proof (cases ?f)
    case None
    then show ?thesis using scan_inner [OF ok, of c ?cs F level] 3 by simp
  next
    case (Some e)
    obtain nm r where e: "e = (nm, r)" by fastforce
    have "(nm, r) \<in> set (iso_list cd d)" "enterable r" using find_satisfies [OF Some] by (auto simp: e)
    then have r: "r \<in> D" using "3.prems"(1,2) by (fastforce simp: iso_tree_def)
    then have "heap_fits cd (dir_size r)" using "3.prems"(1) by (simp add: iso_tree_def dir_ok_def)
    moreover have "read_dir_loop cd ((F @ 0x2f # c) @ iso_path ?cs) (Suc level) (F @ 0x2f # c)
        (read_blocks cd (Suc level) r) (dir_size r) 0 [] = Some (iso_lookup cd r ?cs)"
      using 3 r by (intro "3.IH" [OF Some e [symmetric]]) (simp_all add: iso_path_Cons)
    ultimately show ?thesis using scan_inner [OF ok, of c ?cs F level] 3 Some e by simp
  qed
  finally show ?case .
qed simp


section \<open>Files\<close>

text \<open>The bytes written for a file: whole sectors, and always one more than a multiple of 2048 needs.\<close>

definition file_span :: "nat \<Rightarrow> nat" where
  "file_span n = (if n \<le> 2048 then 2048 else (n div 2048 + 1) * 2048)"

lemma rounded_blocks:
  assumes "unat n \<le> 2 ^ 32 - 4096"
  shows "unat (drop_bit ISOFS_BLOCK_BITS (rounded_size n)) * 2048 = file_span (unat n)"
proof -
  have m: "unat n mod 2048 < 2048" "unat n div 2048 * 2048 + unat n mod 2048 = unat n" by (simp_all add: div_mult_mod_eq)
  have "unat (rounded_size n) = file_span (unat n)"
  proof (cases "unat n \<le> 2048")
    case False
    have "unat (2048 - n mod 2048) = 2048 - unat n mod 2048"
      using m(1) by (simp add: unat_sub word_le_nat_alt unat_mod less_imp_le)
    then have "unat (n + (2048 - n mod 2048)) = unat n + (2048 - unat n mod 2048)"
      using assms by (simp add: unat_word_ariths)
    also have "\<dots> = unat n div 2048 * 2048 + 2048" using m by linarith
    also have "\<dots> = (unat n div 2048 + 1) * 2048" by (simp add: add_mult_distrib)
    finally show ?thesis using False by (simp add: rounded_size_def file_span_def ISO_BLOCKSIZE_def word_le_nat_alt)
  qed (simp add: rounded_size_def file_span_def ISO_BLOCKSIZE_def word_le_nat_alt)
  then have "unat (drop_bit ISOFS_BLOCK_BITS (rounded_size n)) = file_span (unat n) div 2048"
    by (simp add: ISOFS_BLOCK_BITS_def drop_bit_eq_div unat_div)
  then show ?thesis by (simp add: file_span_def)
qed

lemma length_cd_block [simp]: "length (cd_block cd sect) = 2048"
  by (auto simp: cd_block_def ISO_BLOCKSIZE_def min_def split: option.splits)

lemma copy_blocks_wr:
  "copy_blocks cd sect dest n m = wr dest (concat (map (\<lambda>i. cd_block cd (sect + of_nat i)) [0..<n])) m"
proof (induction n arbitrary: sect dest m)
  case (Suc n)
  have "[0..<Suc n] = 0 # map Suc [0..<n]" by (simp add: upt_conv_Cons map_Suc_upt del: upt_Suc)
  then show ?case
    by (simp add: Suc wr_append comp_def ISO_BLOCKSIZE_def add_ac del: upt_Suc)
qed simp

lemma sectors_span: "sectors n * 2048 \<le> file_span n"
proof -
  have "(n + 2047) div 2048 \<le> n div 2048 + 1" by (simp add: div_le_mono flip: div_add_self2)
  moreover have "n \<le> 2048 \<Longrightarrow> (n + 2047) div 2048 \<le> 1" using div_le_mono [of "n + 2047" 4095 2048] by simp
  ultimately show ?thesis by (auto simp: sectors_def file_span_def)
qed

lemma read_file_contents:
  assumes "readable cd r" "dir_size r < limit" "unat (dir_size r) \<le> 2 ^ 32 - 4096"
  shows "\<exists>bs. length bs = file_span (unat (dir_size r)) \<and> take (unat (dir_size r)) bs = iso_bytes cd r
    \<and> read_file cd r buf limit m = (dir_size r, wr buf bs m)"
proof -
  let ?n = "unat (dir_size r)" and ?k = "unat (drop_bit ISOFS_BLOCK_BITS (rounded_size (dir_size r)))"
  define Es where "Es = map (\<lambda>i. cd_block cd (extent r + of_nat i)) [0..<?k]"
  have k: "?k * 2048 = file_span ?n" by (rule rounded_blocks [OF assms(3)])
  have "length (concat Es) = file_span ?n" using length_chunks [of Es 2048] by (auto simp: Es_def k)
  moreover have "take ?n (concat Es) = iso_bytes cd r"
  proof -
    have le: "sectors ?n \<le> ?k" using sectors_span [of ?n] k by simp
    then have "[0..<?k] = [0..<sectors ?n] @ [sectors ?n..<?k]" using upt_add_eq_append [of 0 "sectors ?n" "?k - sectors ?n"] by simp
    then have E: "concat Es = concat (map (\<lambda>i. cd_block cd (extent r + of_nat i)) [0..<sectors ?n])
        @ concat (map (\<lambda>i. cd_block cd (extent r + of_nat i)) [sectors ?n..<?k])" by (simp add: Es_def)
    have "map (\<lambda>i. cd_block cd (extent r + of_nat i)) [0..<sectors ?n]
        = map (\<lambda>i. the (cd_sector cd (extent r + of_nat i))) [0..<sectors ?n]"
      using sector_data [OF assms(1)] by (force simp: cd_block_def ISO_BLOCKSIZE_def)
    note blocks = this
    have "length (concat (map (\<lambda>i. cd_block cd (extent r + of_nat i)) [0..<sectors ?n])) = sectors ?n * 2048"
      using length_chunks [of "map (\<lambda>i. cd_block cd (extent r + of_nat i)) [0..<sectors ?n]" 2048] by simp
    then show ?thesis using sectors_cover [of ?n] unfolding E iso_bytes_def blocks [symmetric] by simp
  qed
  moreover have "read_file cd r buf limit m = (dir_size r, wr buf (concat Es) m)"
    using assms(2) by (simp add: read_file_def file_bytes_def copy_blocks_wr Es_def Let_def)
  ultimately show ?thesis by blast
qed

text \<open>A volume: its descriptor in sector 16, and a set of directories that is closed under entering.\<close>

definition iso_root :: "cdrom \<Rightarrow> iso_directory_record" where
  "iso_root cd = record_at (as_buffer (the (cd_sector cd 16))) 156"

definition iso_volume :: "cdrom \<Rightarrow> iso_directory_record set \<Rightarrow> bool" where
  "iso_volume cd D \<longleftrightarrow> cd_sector cd 16 \<noteq> None \<and> iso_root cd \<in> D \<and> iso_tree cd D"

lemma get_file_resolves:
  assumes "iso_volume cd D" "comps \<noteq> []" "\<forall>c \<in> set comps. good_name c" "length (iso_path comps) \<le> 700"
  shows "BootIso9660GetFile cd (iso_path comps) buf limit m
    = Some (case iso_lookup cd (iso_root cd) comps of
              Some r \<Rightarrow> if 0 < extent r then read_file cd r buf limit m else (- 1, m)
            | None \<Rightarrow> (- 1, m))"
proof -
  obtain pvd where pvd: "cd_sector cd 16 = Some pvd" using assms(1) by (auto simp: iso_volume_def)
  have root: "record_at (\<lambda>k. if k < length pvd then pvd ! k else 0) 156 = iso_root cd"
    by (simp add: iso_root_def pvd as_buffer_def [abs_def])
  have v: "iso_tree cd D" "iso_root cd \<in> D" using assms(1) by (simp_all add: iso_volume_def)
  then have "heap_fits cd (dir_size (iso_root cd))" by (simp add: iso_tree_def dir_ok_def)
  then have "read_dir cd (iso_root cd) (iso_path comps) [] = Some (iso_lookup cd (iso_root cd) comps)"
    using search_resolves [OF v assms(2,3), of "[]" 0] assms(4) by (simp add: read_dir_def)
  then show ?thesis unfolding BootIso9660GetFile_def pvd option.case root by (simp split: option.splits)
qed

text \<open>\<open>content\<close> is the file at \<open>path\<close> of the volume.\<close>

definition iso_file :: "cdrom \<Rightarrow> u8 list \<Rightarrow> u8 list \<Rightarrow> bool" where
  "iso_file cd path content \<longleftrightarrow> (\<exists>comps r. path = iso_path comps \<and> comps \<noteq> [] \<and> (\<forall>c \<in> set comps. good_name c)
     \<and> length path \<le> 700 \<and> iso_lookup cd (iso_root cd) comps = Some r \<and> 0 < extent r
     \<and> readable cd r \<and> unat (dir_size r) \<le> 2 ^ 32 - 4096 \<and> content = iso_bytes cd r)"

lemma iso_file_entry:
  assumes "iso_volume cd D" "iso_file cd path content"
  obtains r where "\<forall>buf limit m. BootIso9660GetFile cd path buf limit m = Some (read_file cd r buf limit m)"
    "readable cd r" "unat (dir_size r) \<le> 2 ^ 32 - 4096" "content = iso_bytes cd r" "dir_size r = of_nat (length content)"
proof -
  obtain comps r where r: "path = iso_path comps" "comps \<noteq> []" "\<forall>c \<in> set comps. good_name c" "length path \<le> 700"
    "iso_lookup cd (iso_root cd) comps = Some r" "0 < extent r" "readable cd r" "unat (dir_size r) \<le> 2 ^ 32 - 4096"
    "content = iso_bytes cd r" using assms(2) by (auto simp: iso_file_def)
  have "\<forall>buf limit m. BootIso9660GetFile cd path buf limit m = Some (read_file cd r buf limit m)"
    using get_file_resolves [OF assms(1) r(2,3)] r(1,4,5,6) by simp
  moreover have "dir_size r = of_nat (length content)" using length_iso_bytes [OF r(7)] r(9) by simp
  ultimately show thesis using that r(7-9) by blast
qed

lemma iso_file_contents:
  assumes "iso_volume cd D" "iso_file cd path content" "length content < unat limit"
  obtains bs where "length bs = file_span (length content)" "take (length content) bs = content"
    "BootIso9660GetFile cd path buf limit m = Some (of_nat (length content), wr buf bs m)"
proof -
  obtain r where r: "\<forall>buf limit m. BootIso9660GetFile cd path buf limit m = Some (read_file cd r buf limit m)"
    "readable cd r" "unat (dir_size r) \<le> 2 ^ 32 - 4096" "content = iso_bytes cd r" "dir_size r = of_nat (length content)"
    by (rule iso_file_entry [OF assms(1,2)])
  have l: "length content = unat (dir_size r)" using length_iso_bytes [OF r(2)] r(4) by simp
  then have "dir_size r < limit" using assms(3) by (simp add: word_less_nat_alt)
  from read_file_contents [OF r(2) this r(3), of buf m] show thesis
    using that r(1,4,5) l by auto
qed

lemma iso_file_too_long:
  assumes "iso_volume cd D" "iso_file cd path content" "unat limit \<le> length content" "unat (get32 m limit) \<le> 2 ^ 32 - 4096"
  obtains bs where "length bs = file_span (unat (get32 m limit))"
    "BootIso9660GetFile cd path buf limit m = Some (get32 m limit, wr buf bs m)"
proof -
  obtain r where r: "\<forall>buf limit m. BootIso9660GetFile cd path buf limit m = Some (read_file cd r buf limit m)"
    "readable cd r" "unat (dir_size r) \<le> 2 ^ 32 - 4096" "content = iso_bytes cd r" "dir_size r = of_nat (length content)"
    by (rule iso_file_entry [OF assms(1,2)])
  have "length content = unat (dir_size r)" using length_iso_bytes [OF r(2)] r(4) by simp
  then have n: "file_bytes limit r m = get32 m limit"
    using assms(3) by (simp add: file_bytes_def word_less_nat_alt)
  let ?n = "get32 m limit"
  define Es where "Es = map (\<lambda>i. cd_block cd (extent r + of_nat i)) [0..<unat (drop_bit ISOFS_BLOCK_BITS (rounded_size ?n))]"
  have "length (concat Es) = file_span (unat ?n)"
    using length_chunks [of Es 2048] rounded_blocks [OF assms(4)] by (auto simp: Es_def)
  moreover have "read_file cd r buf limit m = (?n, wr buf (concat Es) m)"
    by (simp add: read_file_def n copy_blocks_wr Es_def Let_def)
  ultimately show thesis using that r(1) by metis
qed

lemma file_span_bound: "n < 2048 * q \<Longrightarrow> file_span n \<le> 2048 * q"
proof -
  assume a: "n < 2048 * q"
  then have "n div 2048 < q" by (simp add: less_mult_imp_div_less mult.commute)
  then show ?thesis using a by (auto simp: file_span_def)
qed


section \<open>A volume\<close>

definition iso_record :: "u8 list \<Rightarrow> u8 \<Rightarrow> u8 \<Rightarrow> u8 list \<Rightarrow> u8 list" where
  "iso_record name flags ext sz = [of_nat (33 + length name), 0, ext, 0, 0, 0, 0, 0, 0, ext] @ sz @ [0, 0, 0, 0, 0, 0, 0, 0, 0, 0, 0, flags, 0, 0, 0, 0, 0, 0,
     of_nat (length name)] @ name"

definition sample_root :: "u8 list" where
  "sample_root = iso_record [0] 2 20 [0, 8, 0, 0] @ iso_record [1] 2 20 [0, 8, 0, 0] @ iso_record (bytes ''AB'') 2 21 [0, 8, 0, 0]
     @ iso_record (bytes ''K.;1'') 0 23 [0, 4, 0, 0] @ iso_record (bytes ''IMAGE.BIN;1'') 0 24 [0, 0, 4, 0]
     @ iso_record (bytes ''LINUXBOOT.CFG;1'') 0 25 [35, 0, 0, 0]"

definition sample_dir :: "u8 list" where
  "sample_dir = iso_record [0] 2 21 [0, 8, 0, 0] @ iso_record [1] 2 20 [0, 8, 0, 0] @ iso_record (bytes ''F.TXT;1'') 0 22 [5, 0, 0, 0]"

definition sample_config :: "u8 list" where
  "sample_config = bytes ''title A'' @ [0x0a] @ bytes ''kernel k'' @ [0x0a] @ bytes ''initrd k'' @ [0x0a] @ bytes ''append x'' @ [0x0a]"

definition sector_of :: "u8 list \<Rightarrow> u8 list" where
  "sector_of bs = bs @ replicate (2048 - length bs) 0"

definition sample_cd :: cdrom where
  "sample_cd = \<lparr>cd_sector = (\<lambda>s. Some (sector_of
       (if s = 16 then replicate 156 0 @ iso_record [0] 2 20 [0, 8, 0, 0] else if s = 20 then sample_root
        else if s = 21 then sample_dir else if s = 22 then bytes ''hello'' else if s = 25 then sample_config else []))),
     heap_fits = (\<lambda>n. n < 0x100000), heap_junk = (\<lambda>_ _. 0xCC)\<rparr>"

definition dir_record :: "u32 \<Rightarrow> iso_directory_record" where
  "dir_record ext = \<lparr>extent = ext, dir_size = 2048, dir_flags = 2, name_len = (if ext = 20 then 1 else 2)\<rparr>"

definition image_record :: iso_directory_record where
  "image_record = \<lparr>extent = 24, dir_size = 0x40000, dir_flags = 0, name_len = 11\<rparr>"

definition config_record :: iso_directory_record where
  "config_record = \<lparr>extent = 25, dir_size = 35, dir_flags = 0, name_len = 15\<rparr>"

lemma sample_readable: "readable sample_cd r"
  by (auto simp: readable_def sample_cd_def sector_of_def sample_root_def sample_dir_def sample_config_def iso_record_def)

lemma sample_dirs:
  "iso_bytes sample_cd (dir_record 20) = sector_of sample_root" "iso_bytes sample_cd (dir_record 21) = sector_of sample_dir"
  by (simp_all add: iso_bytes_def dir_record_def sectors_def sample_cd_def sector_of_def sample_root_def sample_dir_def iso_record_def)

lemma sample_root_record: "iso_root sample_cd = dir_record 20"
  by (simp add: iso_root_def sample_cd_def sector_of_def as_buffer_def [abs_def] record_at_def field32_def dir_record_def iso_record_def
      nth_append le32_def)


lemma sample_dir_ok: "dir_ok sample_cd (dir_record 20)" "dir_ok sample_cd (dir_record 21)"
  and sample_lists: "iso_list sample_cd (dir_record 20)
      = [(bytes ''ab'', dir_record 21), (bytes ''k'', \<lparr>extent = 23, dir_size = 1024, dir_flags = 0, name_len = 4\<rparr>),
         (bytes ''image.bin'', image_record), (bytes ''linuxboot.cfg'', config_record)]"
    "iso_list sample_cd (dir_record 21) = [(bytes ''f.txt'', \<lparr>extent = 22, dir_size = 5, dir_flags = 0, name_len = 7\<rparr>)]"
proof -
  note data = sector_of_def sample_root_def sample_dir_def iso_record_def as_buffer_def nth_append
  let ?b = "as_buffer (sector_of sample_root)" and ?c = "as_buffer (sector_of sample_dir)"
  have o: "record_offsets ?b 2048 0 = [0, 34, 68, 103, 140, 184]" "record_offsets ?c 2048 0 = [0, 34, 68]"
    by (simp_all add: record_offsets.simps data)
  have nt: "name_translate n l i = (if i < l \<and> n i \<noteq> 0
      then let c = (if isupper (ucast (n i)) then ucast (tolower (ucast (n i))) else n i) in
        if c = 0x2e \<and> i + 3 = l \<and> n (i + 1) = 0x3b \<and> n (i + 2) = 0x31 then []
        else if c = 0x3b \<and> i + 2 = l \<and> n (i + 1) = 0x31 then []
        else (if c = 0x3b then 0x2e else c) # name_translate n l (i + 1)
      else [])" for n l i by (rule name_translate.simps)
  have e: "entry_at ?b 68 = (bytes ''ab'', dir_record 21)"
    "entry_at ?b 103 = (bytes ''k'', \<lparr>extent = 23, dir_size = 1024, dir_flags = 0, name_len = 4\<rparr>)"
    "entry_at ?b 140 = (bytes ''image.bin'', image_record)" "entry_at ?b 184 = (bytes ''linuxboot.cfg'', config_record)"
    "entry_at ?c 68 = (bytes ''f.txt'', \<lparr>extent = 22, dir_size = 5, dir_flags = 0, name_len = 7\<rparr>)"
    by (simp_all add: entry_at_def record_at_def field32_def le32_def dir_record_def image_record_def config_record_def iso9660_name_translate_def
        nt name_at_def isupper_def tolower_def data)
  have sp: "special ?b 0" "special ?b 34" "\<not> special ?b 68" "\<not> special ?b 103" "\<not> special ?b 140" "\<not> special ?b 184"
    "special ?c 0" "special ?c 34" "\<not> special ?c 68"
    by (simp_all add: special_def name_at_def data)
  show "iso_list sample_cd (dir_record 20) = [(bytes ''ab'', dir_record 21),
      (bytes ''k'', \<lparr>extent = 23, dir_size = 1024, dir_flags = 0, name_len = 4\<rparr>), (bytes ''image.bin'', image_record),
      (bytes ''linuxboot.cfg'', config_record)]"
    "iso_list sample_cd (dir_record 21) = [(bytes ''f.txt'', \<lparr>extent = 22, dir_size = 5, dir_flags = 0, name_len = 7\<rparr>)]"
    unfolding iso_list_def sample_dirs dir_entries_def by (simp_all add: dir_record_def [of 20] dir_record_def [of 21] o sp e)
  have n: "record_at ?b 0 = dir_record 20" "record_at ?b 34 = dir_record 20" "record_at ?c 0 = dir_record 20\<lparr>extent := 21\<rparr>" "record_at ?c 34 = dir_record 20"
    by (simp_all add: record_at_def field32_def le32_def dir_record_def data)
  have r: "record_at b off = snd (entry_at b off)" for b off by (simp add: entry_at_def)
  show "dir_ok sample_cd (dir_record 20)" "dir_ok sample_cd (dir_record 21)"
    unfolding dir_ok_def sample_dirs
    by (simp_all add: sample_readable) (simp_all add: dir_record_def [of 20] dir_record_def [of 21] o record_ok_def sp n e r [of _ 68] r [of _ 103] r [of _ 140] r [of _ 184]
        image_record_def config_record_def sample_cd_def)
qed


lemma sample_volume: "iso_volume sample_cd {dir_record 20, dir_record 21}"
  using sample_dir_ok by (simp add: iso_volume_def iso_tree_def sample_root_record sample_lists enterable_def IS_DIR_def image_record_def config_record_def,
      simp add: sample_cd_def)

lemma sample_files:
  "iso_file sample_cd (bytes ''/k'') (replicate 1024 0)"
  "\<exists>img. iso_file sample_cd (bytes ''/image.bin'') img \<and> length img = 0x40000"
  "iso_file sample_cd (bytes ''/linuxboot.cfg'') sample_config"
proof -
  let ?k = "\<lparr>extent = 23, dir_size = 1024, dir_flags = 0, name_len = 4\<rparr>"
  have "iso_bytes sample_cd ?k = replicate 1024 0" by (simp add: iso_bytes_def sectors_def sample_cd_def sector_of_def)
  moreover have "iso_lookup sample_cd (dir_record 20) [bytes ''k''] = Some ?k" by (simp add: sample_lists)
  ultimately show "iso_file sample_cd (bytes ''/k'') (replicate 1024 0)"
    unfolding iso_file_def by (intro exI [of _ "[bytes ''k'']"] exI [of _ ?k])
      (simp add: iso_path_def good_name_def sample_root_record sample_readable)
  have "iso_lookup sample_cd (dir_record 20) [bytes ''image.bin''] = Some image_record" by (simp add: sample_lists)
  then have "iso_file sample_cd (bytes ''/image.bin'') (iso_bytes sample_cd image_record)"
    unfolding iso_file_def by (intro exI [of _ "[bytes ''image.bin'']"] exI [of _ image_record])
      (simp add: iso_path_def good_name_def sample_root_record sample_readable, simp add: image_record_def)
  moreover have "length (iso_bytes sample_cd image_record) = 0x40000"
    using length_iso_bytes [OF sample_readable, of image_record] by (simp add: image_record_def)
  ultimately show "\<exists>img. iso_file sample_cd (bytes ''/image.bin'') img \<and> length img = 0x40000" by blast
  have "iso_bytes sample_cd config_record = sample_config"
    by (simp add: iso_bytes_def sectors_def sample_cd_def sector_of_def config_record_def sample_config_def)
  moreover have "iso_lookup sample_cd (dir_record 20) [bytes ''linuxboot.cfg''] = Some config_record" by (simp add: sample_lists)
  ultimately show "iso_file sample_cd (bytes ''/linuxboot.cfg'') sample_config"
    unfolding iso_file_def by (intro exI [of _ "[bytes ''linuxboot.cfg'']"] exI [of _ config_record])
      (simp add: iso_path_def good_name_def sample_root_record sample_readable, simp add: config_record_def)
qed


end
