(* ===== verification/LoadLinux.thy ===== *)
theory LoadLinux
  imports KernelSetup Fatx Iso9660
begin

text \<open>
  Loading and starting a Linux kernel, \<open>boot/LoadLinux.c\<close>: the kernel image is loaded to where the
  RAM disk goes later, split into the setup part at 0x90000 and the protected-mode part at 1 MB,
  the RAM disk is loaded, the parameters are written and the kernel is entered. Files come from
  FATX (the model of \<open>Fatx\<close>), from a CD (the model of \<open>Iso9660\<close>) or from a native file system (an
  argument of the model: what GRUB's \<open>grub_open\<close> and \<open>grub_read\<close> do). The paths of the configuration
  are given as character lists, the command line by its address.
\<close>

section \<open>The code\<close>

definition KERNEL_HDR_SIZE :: nat where "KERNEL_HDR_SIZE = 4 * 1024"
definition IDT_LOC :: u32 where "IDT_LOC = 0xB0000"
definition INITRD_START :: u32 where "INITRD_START = 0x00900000"
definition MAX_KERNEL_SIZE :: u32 where "MAX_KERNEL_SIZE = 0x00900000 - 0x00100000"
definition MAX_INITRD_SIZE :: u32 where "MAX_INITRD_SIZE = 0x02A00000 - 0x00900000"

record OPTLINUX =
  szKernel :: "u8 list"
  szInitrd :: "u8 list"
  szAppend :: u32

record linux_state =
  memory :: mem
  dwKernelSize :: u32
  dwInitrdSize :: u32

text \<open>\<open>elf\<close> is what Etherboot does with an ELF image, when it returns.\<close>

definition try_elf_boot :: "(u32 \<Rightarrow> u32 \<Rightarrow> mem \<Rightarrow> mem) \<Rightarrow> u32 \<Rightarrow> u32 \<Rightarrow> mem \<Rightarrow> mem" where
  "try_elf_boot elf p len m =
     (if le32 (m p) (m (p + 1)) (m (p + 2)) (m (p + 3)) \<noteq> 0x464c457f then m else elf p len m)"

definition memPlaceKernel :: "(u32 \<Rightarrow> u32 \<Rightarrow> mem \<Rightarrow> mem) \<Rightarrow> u32 \<Rightarrow> u32 \<Rightarrow> mem \<Rightarrow> mem" where
  "memPlaceKernel elf kernelOrg kernelSize m =
     (let nSizeHeader = (ucast (m (kernelOrg + 0x01f1)) + 1) * 512;
          m1 = memcpy KERNEL_SETUP kernelOrg (unat nSizeHeader) m;
          m2 = memcpy KERNEL_PM_CODE (kernelOrg + nSizeHeader) (unat (kernelSize - nSizeHeader)) m1
      in try_elf_boot elf kernelOrg kernelSize m2)"

subsection \<open>From FATX\<close>

definition blank_info :: FATXFILEINFO where
  "blank_info = \<lparr>filename = [], clusterId = 0, fileSize = 0, fileRead = 0, buffer = []\<rparr>"

text \<open>\<open>LoadFATXFilefixed\<close> to an address: its buffer is what it stores there, also when it fails later.\<close>

definition fatx_load_at :: "disk \<Rightarrow> u8 list \<Rightarrow> u8 list \<Rightarrow> FATXPartition option \<Rightarrow> u8 list \<Rightarrow> u32 \<Rightarrow> mem \<Rightarrow>
    (bool \<times> FATXFILEINFO \<times> mem) option" where
  "fatx_load_at disk junk cj part name Position m =
     map_option (\<lambda>(ok, info). (ok, info, wr Position (buffer info) m))
       (LoadFATXFilefixed disk junk cj part name blank_info)"

definition LoadLinuxFATX :: "(u32 \<Rightarrow> u32 \<Rightarrow> mem \<Rightarrow> mem) \<Rightarrow> disk \<Rightarrow> u8 list \<Rightarrow> u8 list \<Rightarrow> FATXPartition option \<Rightarrow> OPTLINUX \<Rightarrow>
    linux_state \<Rightarrow> (bool \<times> linux_state) option" where
  "LoadLinuxFATX elf disk junk cj part opt s =
     (let m0 = memset KERNEL_SETUP 0 KERNEL_HDR_SIZE (memory s) in
      case fatx_load_at disk junk cj part (szKernel opt) INITRD_START m0 of
        None \<Rightarrow> None
      | Some (False, _, m1) \<Rightarrow> Some (False, s\<lparr>memory := m1\<rparr>)
      | Some (True, infokernel, m1) \<Rightarrow>
          let s2 = s\<lparr>dwKernelSize := fileSize infokernel,
                     memory := memPlaceKernel elf INITRD_START (fileSize infokernel) m1\<rparr> in
          if szInitrd opt \<noteq> []
          then (case fatx_load_at disk junk cj part (szInitrd opt) INITRD_START (memory s2) of
                  None \<Rightarrow> None
                | Some (False, _, m3) \<Rightarrow> Some (False, s2\<lparr>memory := m3\<rparr>)
                | Some (True, infoinitrd, m3) \<Rightarrow> Some (True, s2\<lparr>memory := m3, dwInitrdSize := fileSize infoinitrd\<rparr>))
          else Some (True, s2\<lparr>dwInitrdSize := 0\<rparr>))"

subsection \<open>From a CD\<close>

definition LoadLinuxCD :: "(u32 \<Rightarrow> u32 \<Rightarrow> mem \<Rightarrow> mem) \<Rightarrow> cdrom \<Rightarrow> OPTLINUX \<Rightarrow> linux_state \<Rightarrow> (bool \<times> linux_state) option" where
  "LoadLinuxCD elf cd opt s =
     (case BootIso9660GetFile cd (szKernel opt) INITRD_START MAX_KERNEL_SIZE (memset KERNEL_SETUP 0 KERNEL_HDR_SIZE (memory s)) of
        None \<Rightarrow> None
      | Some (n, m1) \<Rightarrow>
          let s1 = s\<lparr>memory := m1, dwKernelSize := n\<rparr> in
          if n <s 0 then Some (False, s1)
          else let s2 = s1\<lparr>memory := memPlaceKernel elf INITRD_START n m1\<rparr>
               in if szInitrd opt \<noteq> []
                  then map_option (\<lambda>(k, m3). (\<not> k <s 0, s2\<lparr>memory := m3, dwInitrdSize := k\<rparr>))
                         (BootIso9660GetFile cd (szInitrd opt) INITRD_START MAX_INITRD_SIZE (memory s2))
                  else Some (True, s2\<lparr>dwInitrdSize := 0\<rparr>))"

subsection \<open>From a native file system\<close>

text \<open>
  What the code uses of GRUB: opening a path sets the return value, \<open>errnum\<close> and \<open>filemax\<close>;
  reading goes on with the file opened.
\<close>

record grub =
  grub_open :: "u8 list \<Rightarrow> u32 \<times> u32 \<times> u32"
  grub_read :: "u8 list \<Rightarrow> u32 \<Rightarrow> u32 \<Rightarrow> mem \<Rightarrow> u32 \<times> mem"

text \<open>
  The request buffer after \<open>strncpy(&szGrub[4], path, n)\<close>: the path is not terminated when its
  length is copied, so what the buffer held before follows it; the second path is copied with
  2048 bytes of padding. The path that GRUB sees ends at the first 0.
\<close>

definition grub_path :: "u8 list \<Rightarrow> u8 list" where
  "grub_path request = takeWhile (\<lambda>c. c \<noteq> 0) request"

definition LoadLinuxNative :: "(u32 \<Rightarrow> u32 \<Rightarrow> mem \<Rightarrow> mem) \<Rightarrow> grub \<Rightarrow> u8 list \<Rightarrow> OPTLINUX \<Rightarrow> linux_state \<Rightarrow>
    bool \<times> linux_state" where
  "LoadLinuxNative elf g szGrub opt s =
     (let m0 = memset KERNEL_SETUP 0 KERNEL_HDR_SIZE (memory s);
          path = grub_path (szKernel opt @ drop (length (szKernel opt)) szGrub);
          (nRet, errnum, filemax) = grub_open g path
      in if nRet \<noteq> 1 then (False, s\<lparr>memory := m0\<rparr>)
         else let (n, m1) = grub_read g path INITRD_START MAX_KERNEL_SIZE m0;
                  s2 = s\<lparr>dwKernelSize := n, memory := memPlaceKernel elf INITRD_START n m1\<rparr>
              in if szInitrd opt \<noteq> []
                 then let (nRet', errnum', filemax') = grub_open g (szInitrd opt)
                      in if filemax' = 0 \<or> nRet' \<noteq> 1 \<or> errnum' \<noteq> 0 then (False, s2)
                         else let (k, m3) = grub_read g (szInitrd opt) INITRD_START MAX_INITRD_SIZE (memory s2)
                              in (True, s2\<lparr>memory := m3, dwInitrdSize := k\<rparr>)
                 else (True, s2\<lparr>dwInitrdSize := 0\<rparr>))"

subsection \<open>Starting the kernel\<close>

text \<open>The UDMA mode: the highest that the drive's revision word names, or 2 without an 80-pin cable.\<close>

definition udma_mode :: "u8 \<Rightarrow> u16 \<Rightarrow> u8" where
  "udma_mode conductors revision =
     (if conductors = 80
      then fold (\<lambda>(bits, mode) nAta. if revision AND bits \<noteq> 0 then mode else nAta)
             [(2, 1), (4, 2), (8, 3), (16, 4), (32, 5)] 0
      else 2)"

text \<open>What the kernel finds: the transfer modes set for drives 0 and 1, the memory, and where it is entered.\<close>

record handover =
  transfer_modes :: "(nat \<times> u8) list"
  kernel_memory :: mem
  kernel_entry :: u32

definition startLinux :: "u32 \<Rightarrow> u32 \<Rightarrow> u32 \<Rightarrow> u8 \<Rightarrow> u16 \<Rightarrow> u32 \<Rightarrow> u32 \<Rightarrow> u32 \<Rightarrow> u32 \<Rightarrow> mem \<Rightarrow> handover" where
  "startLinux xbox_ram width height conductors revision initrdStart initrdSize appendLine entry m =
     (let m1 = linux_setup xbox_ram width height KERNEL_SETUP initrdStart initrdSize appendLine m;
          nAta = udma_mode conductors revision;
          fb = 0xf0000000 OR (xbox_ram * 0x100000 - FB_SIZE);
          m2 = wr 0xFD600800 [byte_of32 fb 0, byte_of32 fb 1, byte_of32 fb 2, byte_of32 fb 3] m1
      in \<lparr>transfer_modes = [(0, 0x40 OR nAta), (1, 0x40 OR nAta)],
          kernel_memory = memset IDT_LOC 0 (1024 * 8) m2, kernel_entry = entry\<rparr>)"

definition ExittoLinux :: "u32 \<Rightarrow> u32 \<Rightarrow> u32 \<Rightarrow> u8 \<Rightarrow> u16 \<Rightarrow> OPTLINUX \<Rightarrow> linux_state \<Rightarrow> handover" where
  "ExittoLinux xbox_ram width height conductors revision opt s =
     startLinux xbox_ram width height conductors revision INITRD_START (dwInitrdSize s) (szAppend opt) 0x100000 (memory s)"

section \<open>Areas of memory\<close>

lemma rd_wr_apart: "region p n \<inter> region q (length bs) = {} \<Longrightarrow> rd (wr q bs m) p n = rd m p n"
  by (rule rd_wr_other)

lemma memset_outside: "a \<notin> region d n \<Longrightarrow> memset d b n m a = m a"
  by (simp add: memset_wr wr_outside)

lemma le32_eq_iff: "le32 a b c d = le32 a' b' c' d' \<longleftrightarrow> a = a' \<and> b = b' \<and> c = c' \<and> d = d'"
  by (metis byte_of32_le32)

section \<open>The kernel in its place\<close>

definition header_bytes :: "u8 list \<Rightarrow> nat" where
  "header_bytes K = (unat (K ! 0x1f1) + 1) * 512"

text \<open>An image that is complete, not larger than 8 MB behind its setup part, and no ELF file.\<close>

definition kernel_image :: "u8 list \<Rightarrow> bool" where
  "kernel_image K \<longleftrightarrow> 512 \<le> length K \<and> header_bytes K \<le> length K \<and> length K - header_bytes K \<le> unat MAX_KERNEL_SIZE \<and>
     take 4 K \<noteq> [0x7f, 0x45, 0x4c, 0x46]"

lemma header_bounds: "512 \<le> header_bytes K" "header_bytes K \<le> 0x20000"
proof -
  have "unat (K ! 0x1f1) < 256" by (rule less_le_trans [OF unsigned_less]) simp
  then show "512 \<le> header_bytes K" "header_bytes K \<le> 0x20000" by (simp_all add: header_bytes_def)
qed

lemma memPlaceKernel_places:
  assumes "kernel_image K" "rd m INITRD_START (length K) = K"
  shows "memPlaceKernel elf INITRD_START (of_nat (length K)) m
    = wr KERNEL_PM_CODE (drop (header_bytes K) K) (wr KERNEL_SETUP (take (header_bytes K) K) m)"
proof -
  let ?h = "header_bytes K" and ?n = "length K"
  have b: "512 \<le> ?n" "?h \<le> ?n" "?n \<le> 0x820000" "?n - ?h \<le> 0x800000" "512 \<le> ?h" "?h \<le> 0x20000"
    using assms(1) header_bounds [of K] by (auto simp: kernel_image_def MAX_KERNEL_SIZE_def)
  have at: "m (INITRD_START + of_nat i) = K ! i" if "i < ?n" for i
    using nth_rd [OF that, of m INITRD_START] unfolding assms(2) by simp
  have hdr: "(ucast (m (INITRD_START + 0x01f1)) + 1) * 512 = (of_nat ?h :: u32)"
  proof -
    have "m (INITRD_START + 0x01f1) = K ! 0x1f1" using at [of "0x1f1"] b(1) by simp
    then show ?thesis by (simp add: header_bytes_def)
  qed
  have uh: "unat (of_nat ?h :: u32) = ?h" "unat (of_nat ?n - of_nat ?h :: u32) = ?n - ?h"
    using b by (simp_all add: unat_of_nat take_bit_nat_eq_self flip: of_nat_diff)
  have m1: "memcpy KERNEL_SETUP INITRD_START ?h m = wr KERNEL_SETUP (take ?h K) m" (is "_ = ?m1")
  proof -
    have "region KERNEL_SETUP ?h \<inter> region INITRD_START ?h = {}"
      using b by (intro areas_apart) (simp_all add: KERNEL_SETUP_def INITRD_START_def)
    then show ?thesis using rd_take [of ?h ?n m INITRD_START] b(2) assms(2) by (simp add: memcpy_wr)
  qed
  have src: "rd ?m1 (INITRD_START + of_nat ?h) (?n - ?h) = drop ?h K"
  proof -
    have "region INITRD_START ?n \<inter> region KERNEL_SETUP ?h = {}"
      using b areas_apart [of KERNEL_SETUP ?h INITRD_START ?n] by (auto simp: KERNEL_SETUP_def INITRD_START_def)
    moreover have "length (take ?h K) = ?h" using b(2) by simp
    ultimately have "rd ?m1 INITRD_START ?n = K" using assms(2) rd_wr_apart by metis
    then show ?thesis using rd_drop [of ?h ?n ?m1 INITRD_START] b(2) by simp
  qed
  have m2: "memcpy KERNEL_PM_CODE (INITRD_START + of_nat ?h) (?n - ?h) ?m1 = wr KERNEL_PM_CODE (drop ?h K) ?m1" (is "_ = ?m2")
  proof -
    have "unat (INITRD_START + of_nat ?h) = 0x900000 + ?h"
      using b by (simp add: INITRD_START_def unat_word_ariths unat_of_nat)
    then have "region KERNEL_PM_CODE (?n - ?h) \<inter> region (INITRD_START + of_nat ?h) (?n - ?h) = {}"
      using b by (intro areas_apart) (simp_all add: KERNEL_PM_CODE_def)
    then show ?thesis using src by (simp add: memcpy_wr)
  qed
  have frame: "?m2 (INITRD_START + of_nat i) = K ! i" if "i < 4" for i
  proof -
    have i: "INITRD_START + of_nat i \<in> region INITRD_START 4" using that by (auto simp: region_def)
    have "region KERNEL_PM_CODE (length (drop ?h K)) \<inter> region INITRD_START 4 = {}"
      using b by (intro areas_apart) (simp_all add: KERNEL_PM_CODE_def INITRD_START_def)
    moreover have "region KERNEL_SETUP (length (take ?h K)) \<inter> region INITRD_START 4 = {}"
      using b by (intro areas_apart) (simp_all add: KERNEL_SETUP_def INITRD_START_def)
    ultimately have "?m2 (INITRD_START + of_nat i) = m (INITRD_START + of_nat i)" using wr_outside i by (metis disjoint_iff)
    then show ?thesis using at [of i] that b(1) by simp
  qed
  have "try_elf_boot elf INITRD_START (of_nat ?n) ?m2 = ?m2"
  proof -
    have "take 4 K = [K ! 0, K ! 1, K ! 2, K ! 3]"
      using b(1) by (intro nth_equalityI) (auto simp: less_Suc_eq numeral_eq_Suc)
    then have "le32 (K ! 0) (K ! 1) (K ! 2) (K ! 3) \<noteq> le32 0x7f 0x45 0x4c 0x46"
      using assms(1) by (auto simp: le32_eq_iff kernel_image_def)
    moreover have "le32 0x7f 0x45 0x4c 0x46 = 0x464c457f" by (simp add: le32_def)
    ultimately show ?thesis using frame [of 0] frame [of 1] frame [of 2] frame [of 3] by (simp add: try_elf_boot_def)
  qed
  then show ?thesis by (simp only: memPlaceKernel_def Let_def hdr uh m1 m2)
qed

section \<open>A file on the FATX volume\<close>

definition fatx_volume :: "disk \<Rightarrow> FATXPartition \<Rightarrow> u32 set \<Rightarrow> (u32 \<Rightarrow> u8 list list) \<Rightarrow> bool" where
  "fatx_volume disk p D dirs \<longleftrightarrow> holds_tree disk p D dirs \<and> fatx_geometry p \<and> FATX_ROOT_FAT_CLUSTER \<in> D"

definition fatx_file :: "disk \<Rightarrow> FATXPartition \<Rightarrow> (u32 \<Rightarrow> u8 list list) \<Rightarrow> u8 list \<Rightarrow> u8 list \<Rightarrow> bool" where
  "fatx_file disk p dirs path content \<longleftrightarrow> (\<exists>comps e cs d.
     comps \<noteq> [] \<and> (\<forall>c \<in> set comps. good_component c) \<and> turn_slashes path = 0x2f # join_path comps \<and>
     path_lookup dirs FATX_ROOT_FAT_CLUSTER comps = Some e \<and> fatx_chain p (entry_cluster e) cs \<and>
     (\<forall>k \<in> set cs. cluster_holds disk p k (d k)) \<and> unat (entry_size e) \<le> 0x4000 * length cs \<and>
     content = take (unat (entry_size e)) (concat (map d cs)))"

lemma load_file_reads:
  assumes "fatx_volume disk p D dirs" "fatx_file disk p dirs path content" "length cj = 0x4000"
  obtains info' where "load_file blank disk junk cj (Some p) path info = Some (True, info')"
    "buffer info' = content" "fileSize info' = of_nat (length content)"
proof -
  obtain comps e cs d where f: "comps \<noteq> []" "\<forall>c \<in> set comps. good_component c" "turn_slashes path = 0x2f # join_path comps"
     "path_lookup dirs FATX_ROOT_FAT_CLUSTER comps = Some e" "fatx_chain p (entry_cluster e) cs"
     "\<forall>k \<in> set cs. cluster_holds disk p k (d k)" "unat (entry_size e) \<le> 0x4000 * length cs"
     "content = take (unat (entry_size e)) (concat (map d cs))"
    using assms(2) by (auto simp: fatx_file_def)
  have v: "holds_tree disk p D dirs" "fatx_geometry p" "FATX_ROOT_FAT_CLUSTER \<in> D"
    using assms(1) by (auto simp: fatx_volume_def)
  define info1 where "info1 = info\<lparr>clusterId := entry_cluster e, fileSize := entry_size e, filename := last comps,
     buffer := replicate (unat (entry_size e)) blank\<rparr>"
  have "length (concat (map d cs)) = 0x4000 * length cs"
    using f(6) LoadFATXCluster_holds(2) [OF v(2)] by (induction cs) (auto simp: algebra_simps)
  then have len: "length content = unat (entry_size e)" using f(7,8) by simp
  have find: "FATXFindFile disk junk cj p path FATX_ROOT_FAT_CLUSTER info
      = Some (True, info\<lparr>clusterId := entry_cluster e, fileSize := entry_size e, filename := last comps\<rparr>)"
    using find_path_resolves [OF v(1,2) assms(3) v(3) f(1,2,3)] f(4) by (simp add: found_def)
  have "FATXLoadFromDisk disk junk cj p info1 =
      Some (True, info1\<lparr>fileRead := of_nat (length content), buffer := overlay content (buffer info1)\<rparr>)"
    using load_from_disk_contents [OF v(2), of info1 cs disk d cj content junk] f(5-8) assms(3) by (simp add: info1_def)
  moreover have "overlay content (buffer info1) = content" by (simp add: overlay_def info1_def len)
  ultimately have "load_file blank disk junk cj (Some p) path info =
      Some (True, info1\<lparr>fileRead := of_nat (length content), buffer := content\<rparr>)"
    using find by (simp add: load_file_def info1_def)
  then show thesis
    using that [of "info1\<lparr>fileRead := of_nat (length content), buffer := content\<rparr>"] by (simp add: info1_def len)
qed

lemma fatx_load_at_file:
  assumes "fatx_volume disk p D dirs" "fatx_file disk p dirs path content" "length cj = 0x4000"
  obtains info where "fatx_load_at disk junk cj (Some p) path pos m = Some (True, info, wr pos content m)"
    "fileSize info = of_nat (length content)"
  by (rule load_file_reads [OF assms, where blank = "0xff" and junk = junk and info = blank_info])
    (use that in \<open>simp add: fatx_load_at_def LoadFATXFilefixed_def\<close>)

section \<open>What the kernel finds\<close>

lemma kernel_memory_rd:
  assumes "region p n \<inter> region IDT_LOC 0x2000 = {}" "region p n \<inter> region 0xFD600800 4 = {}"
  shows "rd (kernel_memory (startLinux ram w h cc ar ist isz app entry m)) p n
    = rd (linux_setup ram w h KERNEL_SETUP ist isz app m) p n"
proof (rule rd_cong)
  fix a assume "a \<in> region p n"
  then have "a \<notin> region IDT_LOC 0x2000" "a \<notin> region 0xFD600800 4" using assms by auto
  then show "kernel_memory (startLinux ram w h cc ar ist isz app entry m) a = linux_setup ram w h KERNEL_SETUP ist isz app m a"
    by (simp add: startLinux_def Let_def memset_outside del: wr.simps) (subst wr_outside; simp add: numeral_eq_Suc)
qed

lemma LoadLinuxFATX_memory:
  assumes "fatx_volume disk p D dirs" "length cj = 0x4000"
    and "fatx_file disk p dirs (szKernel opt) K" "kernel_image K"
    and "szInitrd opt \<noteq> []" "fatx_file disk p dirs (szInitrd opt) I"
  shows "LoadLinuxFATX elf disk junk cj (Some p) opt s = Some (True, s\<lparr>dwKernelSize := of_nat (length K), dwInitrdSize := of_nat (length I),
    memory := wr INITRD_START I (wr KERNEL_PM_CODE (drop (header_bytes K) K) (wr KERNEL_SETUP (take (header_bytes K) K)
      (wr INITRD_START K (memset KERNEL_SETUP 0 KERNEL_HDR_SIZE (memory s)))))\<rparr>)"
proof -
  let ?m0 = "memset KERNEL_SETUP 0 KERNEL_HDR_SIZE (memory s)"
  have lenK: "length K \<le> 0x820000"
    using assms(4) header_bounds [of K] by (auto simp: kernel_image_def MAX_KERNEL_SIZE_def)
  obtain ik where ik: "fatx_load_at disk junk cj (Some p) (szKernel opt) INITRD_START ?m0 = Some (True, ik, wr INITRD_START K ?m0)"
    "fileSize ik = of_nat (length K)" by (rule fatx_load_at_file [OF assms(1,3,2)])
  have "rd (wr INITRD_START K ?m0) INITRD_START (length K) = K" using lenK by (intro rd_wr) simp
  note placed = memPlaceKernel_places [OF assms(4) this]
  obtain ii where ii: "fatx_load_at disk junk cj (Some p) (szInitrd opt) INITRD_START
      (memPlaceKernel elf INITRD_START (of_nat (length K)) (wr INITRD_START K ?m0)) =
      Some (True, ii, wr INITRD_START I (memPlaceKernel elf INITRD_START (of_nat (length K)) (wr INITRD_START K ?m0)))"
    "fileSize ii = of_nat (length I)" by (rule fatx_load_at_file [OF assms(1,6,2)])
  show ?thesis
    using assms(5) by (simp add: LoadLinuxFATX_def Let_def ik ii [unfolded placed] placed)
qed

text \<open>The parts of memory in question, by their bounds.\<close>

lemma area_bounds [simp]:
  "unat KERNEL_SETUP = 0x90000" "unat KERNEL_PM_CODE = 0x100000" "unat INITRD_START = 0x900000"
  "unat CMD_LINE_LOC = 0x90800" "unat IDT_LOC = 0xB0000"
  by (simp_all add: KERNEL_SETUP_def KERNEL_PM_CODE_def INITRD_START_def CMD_LINE_LOC_def IDT_LOC_def)

lemma areas_apart': "unat q + k \<le> unat p \<Longrightarrow> unat p + n \<le> 2 ^ 32 \<Longrightarrow> region p n \<inter> region q k = {}"
  using areas_apart [of q k p n] by blast

lemma above_area: "unat q + n \<le> unat a \<Longrightarrow> a \<notin> region q n"
proof -
  assume "unat q + n \<le> unat a"
  moreover have "unat a < 2 ^ 32" by (rule less_le_trans [OF unsigned_less]) simp
  ultimately show ?thesis by (subst region_unat) auto
qed

text \<open>The memory that the kernel finds, for any memory that the loader leaves.\<close>

lemma kernel_finds:
  fixes z ram w h :: u32 and cc :: u8 and ar :: u16 and M :: mem
  assumes "cstr M app c" "0x02A00000 \<le> unat app" "unat app + length c < 0xFD000000"
  defines "m \<equiv> kernel_memory (startLinux ram w h cc ar INITRD_START z app 0x100000 M)"
  shows "0xB2000 \<le> unat q \<Longrightarrow> unat q + n \<le> 0xFD600800 \<Longrightarrow> rd m q n = rd M q n"
    and "(off, le_field 4 v) \<in> set (setup_fields ram w h INITRD_START z) \<Longrightarrow> off + 4 \<le> 800 \<Longrightarrow>
      rd m (KERNEL_SETUP + of_nat off) 4 = le_field 4 v"
    and "cstr m CMD_LINE_LOC (take 511 c)"
proof -
  have ap: "region app (Suc (length c)) \<inter> (region KERNEL_SETUP 800 \<union> region CMD_LINE_LOC 512) = {}"
    using assms(2,3) areas_apart' [of KERNEL_SETUP 800 app "Suc (length c)"] areas_apart' [of CMD_LINE_LOC 512 app "Suc (length c)"]
    by auto
  note facts = linux_setup_facts [OF assms(1) ap, where ram = ram and w = w and h = h and p = INITRD_START and z = z]
  define m2 where "m2 = linux_setup ram w h KERNEL_SETUP INITRD_START z app M"
  have final: "rd m q n = rd m2 q n" if "unat q + n \<le> 0xB0000 \<or> 0xB2000 \<le> unat q \<and> unat q + n \<le> 0xFD600800" for q n
  proof -
    have "region q n \<inter> region IDT_LOC 0x2000 = {}" "region q n \<inter> region 0xFD600800 4 = {}"
      using that areas_apart [of q n IDT_LOC "0x2000"] areas_apart' [of IDT_LOC "0x2000" q n] areas_apart [of q n "0xFD600800" 4] by auto
    then show ?thesis using kernel_memory_rd unfolding m2_def m_def by blast
  qed
  show "rd m q n = rd M q n" if "0xB2000 \<le> unat q" "unat q + n \<le> 0xFD600800"
  proof -
    have "rd m2 q n = rd M q n"
      unfolding m2_def using that above_area by (intro rd_cong facts(4)) (auto simp: region_unat)
    then show ?thesis using final that by simp
  qed
  show "rd m (KERNEL_SETUP + of_nat off) 4 = le_field 4 v"
    if "(off, le_field 4 v) \<in> set (setup_fields ram w h INITRD_START z)" "off + 4 \<le> 800"
  proof -
    have "unat (KERNEL_SETUP + of_nat off) + 4 \<le> 0xB0000" using that(2) by (simp add: unat_word_ariths unat_of_nat)
    then show ?thesis using final facts(1) [OF that] by (simp add: m2_def)
  qed
  have "cstr m2 CMD_LINE_LOC (take 511 c)" using facts(2) by (simp add: m2_def)
  then show "cstr m CMD_LINE_LOC (take 511 c)"
  proof (rule cstr_cong)
    fix a assume "a \<in> region CMD_LINE_LOC (Suc (length (take 511 c)))"
    then have "unat a < 0x90800 + 512" by (auto simp: region_unat)
    then show "m a = m2 a" using final [of a 1] by (simp add: rd_def)
  qed
qed

text \<open>
  What the loaders leave, the kernel file having been read as \<open>Kb\<close> and the RAM disk as \<open>Ib\<close>, and how
  the kernel is entered.
\<close>

definition loaded_memory :: "u8 list \<Rightarrow> u8 list \<Rightarrow> u8 list \<Rightarrow> mem \<Rightarrow> mem" where
  "loaded_memory K Kb Ib m = wr INITRD_START Ib (wr KERNEL_PM_CODE (drop (header_bytes K) K)
     (wr KERNEL_SETUP (take (header_bytes K) K) (wr INITRD_START Kb (memset KERNEL_SETUP 0 KERNEL_HDR_SIZE m))))"

definition enters_kernel :: "u8 list \<Rightarrow> u8 list \<Rightarrow> u8 list \<Rightarrow> handover \<Rightarrow> bool" where
  "enters_kernel K I c k \<longleftrightarrow> kernel_entry k = KERNEL_PM_CODE \<and>
     rd (kernel_memory k) KERNEL_PM_CODE (length K - header_bytes K) = drop (header_bytes K) K \<and>
     rd (kernel_memory k) INITRD_START (length I) = I \<and>
     rd (kernel_memory k) (KERNEL_SETUP + 0x218) 4 = le_field 4 (ucast INITRD_START) \<and>
     rd (kernel_memory k) (KERNEL_SETUP + 0x21c) 4 = le_field 4 (of_nat (length I)) \<and>
     cstr (kernel_memory k) CMD_LINE_LOC (take 511 c)"

lemma kernel_entered:
  assumes "kernel_image K" "I \<noteq> []" "take (length I) Ib = I" "length Kb \<le> unat MAX_INITRD_SIZE" "length Ib \<le> unat MAX_INITRD_SIZE"
    and "cstr m app c" "0x02A00000 \<le> unat app" "unat app + length c < 0xFD000000"
    and "szAppend opt = app" "dwInitrdSize s' = of_nat (length I)" "memory s' = loaded_memory K Kb Ib m"
  shows "enters_kernel K I c (ExittoLinux ram w h cc ar opt s')"
proof -
  let ?h = "header_bytes K" and ?n = "length K" and ?z = "of_nat (length I) :: u32"
  have le: "length I \<le> length Ib" using arg_cong [OF assms(3), of length] by simp
  then have b: "?h \<le> ?n" "?n \<le> 0x820000" "?n - ?h \<le> 0x800000" "512 \<le> ?h" "?h \<le> 0x20000"
    "length I \<le> 0x2100000" "length I \<noteq> 0" "length Kb \<le> 0x2100000" "length Ib \<le> 0x2100000"
    using assms(1,2,4,5) header_bounds [of K] by (auto simp: kernel_image_def MAX_KERNEL_SIZE_def MAX_INITRD_SIZE_def)
  have z: "?z \<noteq> 0" "ucast ?z = (of_nat (length I) :: u64)"
    using b by (auto simp: unat_of_nat take_bit_nat_eq_self word_unat_eq_iff unsigned_ucast_eq)
  have high: "memory s' a = m a" if "0x02A00000 \<le> unat a" for a
    using that b above_area by (simp add: assms(11) loaded_memory_def memset_wr wr_outside KERNEL_HDR_SIZE_def)
  have "cstr (memory s') app c"
    using assms(7,8) by (intro cstr_cong [OF assms(6)] high) (auto simp: region_unat)
  note finds = kernel_finds [OF this assms(7,8), where z = ?z and ram = ram and w = w and h = h and cc = cc and ar = ar]
  have k: "ExittoLinux ram w h cc ar opt s' = startLinux ram w h cc ar INITRD_START ?z app 0x100000 (memory s')"
    by (simp add: ExittoLinux_def assms(9,10))
  have code: "rd (memory s') KERNEL_PM_CODE (?n - ?h) = drop ?h K"
    unfolding assms(11) loaded_memory_def using b rd_wr [of "drop ?h K"] by (simp add: rd_wr_apart areas_apart)
  have "rd (memory s') INITRD_START (length Ib) = Ib" using b by (simp add: assms(11) loaded_memory_def rd_wr)
  then have initrd: "rd (memory s') INITRD_START (length I) = I" using rd_take [OF le, of "memory s'" INITRD_START] assms(3) by simp
  show ?thesis
    using finds(1) [of KERNEL_PM_CODE "?n - ?h"] finds(1) [of INITRD_START "length I"] finds(3) code initrd b z
      finds(2) [of "0x218" "ucast INITRD_START"] finds(2) [of "0x21c" "ucast ?z"]
    by (simp add: enters_kernel_def k setup_fields_def initrd_fields_def, simp add: startLinux_def Let_def KERNEL_PM_CODE_def)
qed

lemma linux_starts:
  assumes "fatx_volume disk p D dirs" "length cj = 0x4000"
    and "fatx_file disk p dirs (szKernel opt) K" "kernel_image K"
    and "szInitrd opt \<noteq> []" "fatx_file disk p dirs (szInitrd opt) I" "I \<noteq> []" "length I \<le> unat MAX_INITRD_SIZE"
    and "cstr (memory s) (szAppend opt) c" "0x02A00000 \<le> unat (szAppend opt)" "unat (szAppend opt) + length c < 0xFD000000"
  shows "\<exists>s'. LoadLinuxFATX elf disk junk cj (Some p) opt s = Some (True, s')
    \<and> enters_kernel K I c (ExittoLinux ram w h cc ar opt s')"
proof -
  have "length K \<le> unat MAX_INITRD_SIZE"
    using assms(4) header_bounds [of K] by (auto simp: kernel_image_def MAX_KERNEL_SIZE_def MAX_INITRD_SIZE_def)
  then show ?thesis
    using LoadLinuxFATX_memory [OF assms(1-6)] assms by (auto intro!: kernel_entered [where Kb = K and Ib = I] simp: loaded_memory_def)
qed

lemma cd_linux_starts:
  assumes "iso_volume cd D" "iso_file cd (szKernel opt) K" "kernel_image K" "length K < unat MAX_KERNEL_SIZE"
    and "szInitrd opt \<noteq> []" "iso_file cd (szInitrd opt) I" "I \<noteq> []" "length I < unat MAX_INITRD_SIZE"
    and "cstr (memory s) (szAppend opt) c" "0x02A00000 \<le> unat (szAppend opt)" "unat (szAppend opt) + length c < 0xFD000000"
  shows "\<exists>s'. LoadLinuxCD elf cd opt s = Some (True, s') \<and> enters_kernel K I c (ExittoLinux ram w h cc ar opt s')"
proof -
  let ?m0 = "memset KERNEL_SETUP 0 KERNEL_HDR_SIZE (memory s)"
  have b: "length K < 2048 * 0x1000" "length I < 2048 * 0x4200"
    using assms(4,8) by (simp_all add: MAX_KERNEL_SIZE_def MAX_INITRD_SIZE_def)
  obtain Kb where Kb: "length Kb = file_span (length K)" "take (length K) Kb = K"
    "BootIso9660GetFile cd (szKernel opt) INITRD_START MAX_KERNEL_SIZE ?m0 = Some (of_nat (length K), wr INITRD_START Kb ?m0)"
    by (rule iso_file_contents [OF assms(1,2,4)])
  have lK: "length K \<le> length Kb" "length Kb \<le> 0x800000"
    using arg_cong [OF Kb(2), of length] file_span_bound [OF b(1)] Kb(1) by simp_all
  have "rd (wr INITRD_START Kb ?m0) INITRD_START (length Kb) = Kb" using lK by (intro rd_wr) simp
  then have "rd (wr INITRD_START Kb ?m0) INITRD_START (length K) = K" using rd_take [OF lK(1)] Kb(2) by metis
  note placed = memPlaceKernel_places [OF assms(3) this, of elf]
  let ?m2 = "memPlaceKernel elf INITRD_START (of_nat (length K)) (wr INITRD_START Kb ?m0)"
  obtain Ib where Ib: "length Ib = file_span (length I)" "take (length I) Ib = I"
    "BootIso9660GetFile cd (szInitrd opt) INITRD_START MAX_INITRD_SIZE ?m2 = Some (of_nat (length I), wr INITRD_START Ib ?m2)"
    by (rule iso_file_contents [OF assms(1,6,8)])
  have neg: "\<not> of_nat (length K) <s (0 :: u32)" "\<not> of_nat (length I) <s (0 :: u32)"
    using b by (simp_all add: word_sless_alt sint_uint signed_take_bit_int_eq_self unat_of_nat uint_nat take_bit_nat_eq_self)
  define s' where "s' = s\<lparr>memory := wr INITRD_START Ib ?m2, dwKernelSize := of_nat (length K), dwInitrdSize := of_nat (length I)\<rparr>"
  have "LoadLinuxCD elf cd opt s = Some (True, s')"
    using neg assms(5) by (simp add: LoadLinuxCD_def Kb(3) Ib(3) Let_def s'_def)
  moreover have "enters_kernel K I c (ExittoLinux ram w h cc ar opt s')"
    using lK file_span_bound [OF b(2)] Ib(1,2)
    by (intro kernel_entered [where Kb = Kb and Ib = Ib, OF assms(3,7) Ib(2) _ _ assms(9-11)])
      (simp_all add: s'_def placed loaded_memory_def MAX_INITRD_SIZE_def)
  ultimately show ?thesis by blast
qed


section \<open>A run\<close>

text \<open>A root directory with the file F of 1024 zero bytes, which serves as kernel and as RAM disk.\<close>

definition linux_entry :: "u8 list" where
  "linux_entry = [1, 0, 0x46] @ replicate 41 0 @ [2, 0, 0, 0, 0, 4, 0, 0] @ replicate 12 0"

definition linux_disk :: disk where
  "linux_disk drive sector = Some (if sector < 0x430 then concat (replicate 8 linux_entry) else replicate 512 0)"

definition linux_opt :: OPTLINUX where
  "linux_opt = \<lparr>szKernel = [0x2f, 0x46], szInitrd = [0x2f, 0x46], szAppend = 0x3000000\<rparr>"

definition linux_start :: linux_state where
  "linux_start = \<lparr>memory = wr 0x3000000 (example_cmdline @ [0]) (\<lambda>_. 0xaa), dwKernelSize = 0, dwInitrdSize = 0\<rparr>"

lemma linux_entry_facts:
  "length linux_entry = 64" "linux_entry ! 0 = 1" "entry_name linux_entry = [0x46]" "entry_cluster linux_entry = 2"
  "entry_size linux_entry = 0x400" "\<not> is_dir linux_entry"
  by (simp_all add: linux_entry_def entry_name_def entry_cluster_def entry_size_def le32_def is_dir_def
      entry_flags_def nth_append)

lemma linux_volume: "fatx_volume linux_disk fatx_example {1} (\<lambda>c. replicate 256 linux_entry)"
proof -
  have "cluster_sector fatx_example 1 + of_nat i < 0x430" if "i < 32" for i
    using that by (simp add: cluster_sector_def fatx_example_def word_less_nat_alt unat_word_ariths unat_of_nat)
  then have "holds_tree linux_disk fatx_example {1} (\<lambda>c. replicate 256 linux_entry)"
    by (intro one_entry_tree) (simp_all add: linux_disk_def linux_entry_facts)
  then show ?thesis by (simp add: fatx_volume_def fatx_example_geometry FATX_ROOT_FAT_CLUSTER_def)
qed

lemma linux_file: "fatx_file linux_disk fatx_example (\<lambda>c. replicate 256 linux_entry) [0x2f, 0x46] (replicate 1024 0)"
proof -
  define d where "d c = concat (map (\<lambda>i. replicate 512 (0 :: u8)) [0..<32])" for c :: u32
  have holds: "cluster_holds linux_disk fatx_example c (d c)" if "c = 2 \<or> c = 3" for c
  proof -
    have "\<not> cluster_sector fatx_example c + of_nat i < 0x430" if "i < 32" for i
      using that \<open>c = 2 \<or> c = 3\<close>
      by (auto simp: cluster_sector_def fatx_example_def word_less_nat_alt unat_word_ariths unat_of_nat)
    then show ?thesis unfolding cluster_holds_def d_def
      by (intro exI [of _ "\<lambda>i. replicate 512 0"]) (simp add: linux_disk_def)
  qed
  have d: "d c = replicate 0x4000 0" for c
    using concat_blocks [of 512 "[0]" 32] by (simp add: d_def concat_replicate_single)
  have lookup: "path_lookup (\<lambda>c. replicate 256 linux_entry) 1 [[0x46]] = Some linux_entry"
    by (rule one_entry_lookup) (simp_all add: linux_entry_facts)
  have "take (unat (entry_size linux_entry)) (concat (map d [2, 3])) = replicate 1024 0"
    by (simp add: d linux_entry_facts)
  then show ?thesis
    using lookup holds [of 2] holds [of 3] unfolding fatx_file_def
    by (intro exI [of _ "[[0x46]]"] exI [of _ linux_entry] exI [of _ "[2, 3]"] exI [of _ d])
      (auto simp del: path_lookup.simps simp: linux_entry_facts FATX_ROOT_FAT_CLUSTER_def good_component_def FATX_FILENAME_MAX_def
        turn_slashes_def fatx_example_chain)
qed


end
