(* ===== verification/BootConfig.thy ===== *)
theory BootConfig
  imports BootString VsPrintf
begin

text \<open>
  The boot configuration file, \<open>lib/misc/BootParser.c\<close>. The file is a buffer of the flat memory that
  the parser cuts up in place with \<open>strsep\<close>; the entries it allocates are records, in the order of
  their links \<open>nextConfigEntry\<close>. The strings of an entry are one array of bytes, as they lie in the
  structure, so that a title longer than \<open>title\<close> runs on into \<open>szPath\<close> as it does there; a write
  behind the last of them, over the links, is \<open>None\<close>.
\<close>

section \<open>The code\<close>

datatype BootTypes = BOOT_CDROM | BOOT_FATX | BOOT_NATIVE
datatype BootSystems = SYS_LINUX | SYS_REACTOS

record CONFIGENTRY =
  drive :: u32
  partition_no :: u32
  isDefault :: bool
  bootType :: BootTypes
  bootSystem :: BootSystems
  chars :: "u8 list"

text \<open>\<open>chars\<close> holds \<open>title[15]\<close>, \<open>szPath[2048]\<close>, a byte of padding and the three strings of \<open>OPTLINUX\<close>.\<close>

definition CHARS :: nat where "CHARS = 8208"
definition TITLE :: nat where "TITLE = 0"
definition PATH :: nat where "PATH = 15"
definition KERNEL :: nat where "KERNEL = 2064"
definition INITRD :: nat where "INITRD = 4112"
definition APPEND :: nat where "APPEND = 6160"

definition new_entry :: CONFIGENTRY where
  "new_entry = \<lparr>drive = 0, partition_no = 0, isDefault = False, bootType = BOOT_CDROM, bootSystem = SYS_LINUX,
     chars = replicate CHARS 0\<rparr>"

definition get_chars :: "nat \<Rightarrow> CONFIGENTRY \<Rightarrow> u8 list" where
  "get_chars off e = takeWhile (\<lambda>c. c \<noteq> 0) (drop off (chars e))"

definition put_chars :: "nat \<Rightarrow> u8 list \<Rightarrow> CONFIGENTRY \<Rightarrow> CONFIGENTRY option" where
  "put_chars off s e =
     (if off + length s \<le> CHARS
      then Some (e\<lparr>chars := take off (chars e) @ s @ drop (off + length s) (chars e)\<rparr>) else None)"

text \<open>The addresses of the string literals the parser uses.\<close>

record literals =
  lit_newline :: u32
  lit_blanks :: u32
  lit_title :: u32
  lit_kernel :: u32
  lit_initrd :: u32
  lit_no :: u32
  lit_append :: u32
  lit_default :: u32

record parser =
  buffer_mem :: mem
  config_entries :: "CONFIGENTRY list"
  defaultTitle :: u32

partial_function (option) skip_space :: "mem \<Rightarrow> u32 \<Rightarrow> u32 option" where
  "skip_space m p = (if isspace (m p) then skip_space m (p + 1) else Some p)"

partial_function (option) back_space :: "mem \<Rightarrow> u32 \<Rightarrow> u32 \<Rightarrow> u32 option" where
  "back_space m paramdata p =
     (if p \<noteq> paramdata \<and> isspace (m p) then back_space m paramdata (p - 1) else Some p)"

text \<open>The text behind the key at \<open>param\<close>: its address, and the memory with the blanks at its end cut off.\<close>

definition find_value :: "u32 \<Rightarrow> mem \<Rightarrow> (u32 \<times> mem) option" where
  "find_value param m =
     (case skip_space m (param + strlen m param + 1) of None \<Rightarrow> None
      | Some paramdata \<Rightarrow>
          (case back_space m paramdata (paramdata + strlen m paramdata - 1) of None \<Rightarrow> None
           | Some p \<Rightarrow> Some (paramdata, m(p + 1 := 0))))"

definition string_at :: "mem \<Rightarrow> u32 \<Rightarrow> u8 list" where
  "string_at m p = rd m p (unat (strlen m p))"

text \<open>An operation on the entry that is being filled, the last one.\<close>

definition on_current :: "(CONFIGENTRY \<Rightarrow> CONFIGENTRY option) \<Rightarrow> parser \<Rightarrow> parser option" where
  "on_current f st =
     map_option (\<lambda>e. st\<lparr>config_entries := butlast (config_entries st) @ [e]\<rparr>) (f (last (config_entries st)))"

definition set_title :: "u8 list \<Rightarrow> parser \<Rightarrow> parser option" where
  "set_title t st =
     (let st' = (if get_chars TITLE (last (config_entries st)) = [] then st
                 else st\<lparr>config_entries := config_entries st @ [new_entry]\<rparr>)
      in on_current (\<lambda>e. map_option (bootSystem_update (\<lambda>_. SYS_LINUX)) (put_chars TITLE t e)) st')"

text \<open>\<open>sprintf\<close> of a path to one of the fields, with the directory, or with a slash when it has none.\<close>

definition print_path :: "u8 list option \<Rightarrow> u8 list \<Rightarrow> u8 list option" where
  "print_path szPath v =
     map_option fst
       (case szPath of
          Some d \<Rightarrow> sprintf [0x25, 0x73, 0x2f, 0x25, 0x73] [StrArg (Some d), StrArg (Some v)]
        | None \<Rightarrow> if v \<noteq> [] \<and> hd v = 0x2f then sprintf [0x25, 0x73] [StrArg (Some v)]
                  else sprintf [0x2f, 0x25, 0x73] [StrArg (Some v)])"

definition set_path :: "nat \<Rightarrow> u8 list option \<Rightarrow> u8 list \<Rightarrow> parser \<Rightarrow> parser option" where
  "set_path off szPath v st =
     (case print_path szPath v of None \<Rightarrow> None
      | Some s \<Rightarrow> on_current (put_chars off s) st)"

definition parse_line :: "literals \<Rightarrow> u8 list option \<Rightarrow> u32 \<Rightarrow> parser \<Rightarrow> parser option" where
  "parse_line L szPath linePtr st =
     (case strsep linePtr (lit_blanks L) (buffer_mem st) of None \<Rightarrow> None
      | Some (param, _, m1) \<Rightarrow>
     case find_value param m1 of None \<Rightarrow> None
      | Some (paramdata, m2) \<Rightarrow>
     let st2 = st\<lparr>buffer_mem := m2\<rparr> in
     if strncmp m2 param (lit_title L) 5 = 0 then set_title (string_at m2 paramdata) st2
     else if strncmp m2 param (lit_kernel L) 6 = 0
     then (case chrreplace paramdata 0x5c 0x2f m2 of None \<Rightarrow> None
           | Some m3 \<Rightarrow> set_path KERNEL szPath (string_at m3 paramdata) (st\<lparr>buffer_mem := m3\<rparr>))
     else if strncmp m2 param (lit_initrd L) 6 = 0
     then (case chrreplace paramdata 0x5c 0x2f m2 of None \<Rightarrow> None
           | Some m3 \<Rightarrow> if strncmp m3 paramdata (lit_no L) 2 = 0 then Some (st\<lparr>buffer_mem := m3\<rparr>)
                        else set_path INITRD szPath (string_at m3 paramdata) (st\<lparr>buffer_mem := m3\<rparr>))
     else if strncmp m2 param (lit_append L) 6 = 0 then on_current (put_chars APPEND (string_at m2 paramdata)) st2
     else if strncmp m2 param (lit_default L) 7 = 0 then Some (st2\<lparr>defaultTitle := paramdata\<rparr>)
     else Some st2)"

partial_function (option) parse_lines :: "literals \<Rightarrow> u8 list option \<Rightarrow> u32 \<Rightarrow> parser \<Rightarrow> parser option" where
  "parse_lines L szPath currentPos st =
     (case strsep currentPos (lit_newline L) (buffer_mem st) of None \<Rightarrow> None
      | Some (linePtr, currentPos', m) \<Rightarrow>
          if linePtr = 0 then Some (st\<lparr>buffer_mem := m\<rparr>)
          else (case parse_line L szPath linePtr (st\<lparr>buffer_mem := m\<rparr>) of None \<Rightarrow> None
                | Some st' \<Rightarrow> parse_lines L szPath currentPos' st'))"

text \<open>The first entry whose title begins with the default title becomes the default.\<close>

fun mark_default :: "u8 list \<Rightarrow> CONFIGENTRY list \<Rightarrow> CONFIGENTRY list" where
  "mark_default d [] = []"
| "mark_default d (e # es) =
     (if take (length d) (get_chars TITLE e) = d then e\<lparr>isDefault := True\<rparr> # es else e # mark_default d es)"

definition ParseConfig :: "literals \<Rightarrow> u32 \<Rightarrow> u32 \<Rightarrow> u8 list option \<Rightarrow> mem \<Rightarrow> (CONFIGENTRY list \<times> mem) option" where
  "ParseConfig L szBuffer fileLen szPath m =
     (case parse_lines L szPath szBuffer
         \<lparr>buffer_mem = m(szBuffer + fileLen := 0), config_entries = [new_entry], defaultTitle = 0\<rparr> of
        None \<Rightarrow> None
      | Some st \<Rightarrow>
          Some (if defaultTitle st \<noteq> 0
                then mark_default (string_at (buffer_mem st) (defaultTitle st)) (config_entries st)
                else config_entries st, buffer_mem st))"

section \<open>The buffer as a list\<close>

text \<open>\<open>holds m p B\<close>: the bytes \<open>B\<close> lie at \<open>p\<close>, and the area does not reach the end of the address space.\<close>

definition holds :: "mem \<Rightarrow> u32 \<Rightarrow> u8 list \<Rightarrow> bool" where
  "holds m p B \<longleftrightarrow> rd m p (length B) = B \<and> unat p + length B < 2 ^ 32"

lemma holds_bound: "holds m p B \<Longrightarrow> length B < 2 ^ 32"
  by (simp add: holds_def)

lemma holds_nth: "holds m p (xs @ c # ys) \<Longrightarrow> m (p + of_nat (length xs)) = c"
proof -
  assume "holds m p (xs @ c # ys)"
  then have "rd m p (length (xs @ c # ys)) = xs @ c # ys" unfolding holds_def by blast
  then have "rd m p (length (xs @ c # ys)) ! length xs = c" by simp
  then show ?thesis by (subst (asm) nth_rd) auto
qed

lemma holds_append: "holds m p (xs @ ys) \<Longrightarrow> rd m p (length xs) = xs \<and> rd m (p + of_nat (length xs)) (length ys) = ys"
  by (simp add: holds_def rd_add append_eq_append_conv)

lemma holds_cstr: "holds m p (xs @ s @ 0 # ys) \<Longrightarrow> 0 \<notin> set s \<Longrightarrow> cstr m (p + of_nat (length xs)) s"
proof -
  assume h: "holds m p (xs @ s @ 0 # ys)" and "0 \<notin> set s"
  moreover have "rd m (p + of_nat (length xs)) (length s + length (0 # ys)) = s @ 0 # ys"
    using holds_append [OF h] by simp
  then have "rd m (p + of_nat (length xs)) (length s) = s"
    by (subst (asm) rd_add) (simp only: append_eq_append_conv length_rd simp_thms)
  ultimately show ?thesis using holds_nth [of m p "xs @ s" 0 ys] by (simp add: cstr_iff add.assoc)
qed

lemma holds_not_null: "holds m p B \<Longrightarrow> p \<noteq> 0 \<Longrightarrow> i \<le> length B \<Longrightarrow> p + of_nat i \<noteq> 0"
proof
  assume h: "holds m p B" "p \<noteq> 0" "i \<le> length B" "p + of_nat i = 0"
  from h(1,3) have "unat (p + of_nat i) = unat p + i"
    by (simp add: holds_def unat_word_ariths unat_of_nat take_bit_nat_eq_self)
  with h(4) have "unat p = 0" by simp
  with h(2) show False by (simp add: unat_eq_zero)
qed

lemma holds_upd: "holds m p (xs @ c # ys) \<Longrightarrow> holds (m(p + of_nat (length xs) := b)) p (xs @ b # ys)"
proof -
  assume h: "holds m p (xs @ c # ys)"
  have "rd (m(p + of_nat (length xs) := b)) p (length (xs @ b # ys)) = xs @ b # ys"
  proof (rule nth_equalityI)
    fix i assume "i < length (rd (m(p + of_nat (length xs) := b)) p (length (xs @ b # ys)))"
    then have i: "i < length (xs @ c # ys)" by simp
    have "i < 2 ^ 32" "length xs < 2 ^ 32" using i holds_bound [OF h] by auto
    then have "(of_nat i :: u32) = of_nat (length xs) \<longleftrightarrow> i = length xs" by (rule of_nat_u32_eq_iff)
    moreover have "m (p + of_nat i) = (xs @ c # ys) ! i"
      using h i unfolding holds_def by (metis nth_rd)
    ultimately show "rd (m(p + of_nat (length xs) := b)) p (length (xs @ b # ys)) ! i = (xs @ b # ys) ! i"
      using i by (auto simp: nth_append nth_Cons split: nat.splits)
  qed simp
  with h show ?thesis by (simp add: holds_def)
qed

text \<open>A change inside the buffer.\<close>

definition within :: "u32 \<Rightarrow> nat \<Rightarrow> mem \<Rightarrow> mem \<Rightarrow> bool" where
  "within p n m m' \<longleftrightarrow> (\<forall>a. a \<notin> region p n \<longrightarrow> m' a = m a)"

lemma within_refl [simp]: "within p n m m"
  by (simp add: within_def)

lemma within_trans: "within p n m m' \<Longrightarrow> within p n m' m'' \<Longrightarrow> within p n m m''"
  by (simp add: within_def)

lemma within_upd: "i < n \<Longrightarrow> within p n m (m(p + of_nat i := b))"
  by (auto simp: within_def region_def)

lemma within_cstr: "within p n m m' \<Longrightarrow> cstr m a s \<Longrightarrow> region a (Suc (length s)) \<inter> region p n = {} \<Longrightarrow> cstr m' a s"
  by (erule cstr_cong) (auto simp: within_def)

lemma string_at_cstr: "cstr m p s \<Longrightarrow> length s < 2 ^ 32 - 1 \<Longrightarrow> string_at m p = s"
  by (simp add: string_at_def strlen_cstr unat_of_nat take_bit_nat_eq_self cstr_iff)

section \<open>Blanks around a text\<close>

definition ltrim :: "u8 list \<Rightarrow> u8 list" where "ltrim s = dropWhile isspace s"
definition rtrim :: "u8 list \<Rightarrow> u8 list" where "rtrim s = rev (dropWhile isspace (rev s))"
definition trim :: "u8 list \<Rightarrow> u8 list" where "trim s = ltrim (rtrim s)"

lemma isspace_0 [simp]: "\<not> isspace 0"
  by (simp add: isspace_def)

lemma rtrim_blanks: "\<exists>ws. s = rtrim s @ ws \<and> (\<forall>c \<in> set ws. isspace c)"
  unfolding rtrim_def
  by (metis rev_append rev_rev_ident set_rev set_takeWhileD takeWhile_dropWhile_id)

lemma rtrim_last: "rtrim s \<noteq> [] \<Longrightarrow> \<not> isspace (last (rtrim s))"
  unfolding rtrim_def by (metis hd_dropWhile hd_rev rev_is_Nil_conv rev_rev_ident)

lemma skip_space_holds:
  "holds m p (xs @ ws @ c # ys) \<Longrightarrow> \<forall>c \<in> set ws. isspace c \<Longrightarrow> \<not> isspace c \<Longrightarrow>
   skip_space m (p + of_nat (length xs)) = Some (p + of_nat (length (xs @ ws)))"
proof (induction ws arbitrary: xs)
  case Nil
  then show ?case using holds_nth [of m p xs c ys] by (subst skip_space.simps) simp
next
  case (Cons w ws)
  then show ?case using Cons.IH [of "xs @ [w]"] holds_nth [of m p xs w "ws @ c # ys"]
    by (subst skip_space.simps) (simp add: add_ac)
qed

lemma back_space_holds:
  "holds m p (xs @ [c] @ ws @ ys) \<Longrightarrow> \<forall>c \<in> set ws. isspace c \<Longrightarrow>
   \<not> isspace c \<or> paramdata = p + of_nat (length xs) \<Longrightarrow>
   (\<forall>k. length xs < k \<and> k \<le> length (xs @ ws) \<longrightarrow> paramdata \<noteq> p + of_nat k) \<Longrightarrow>
   back_space m paramdata (p + of_nat (length (xs @ ws))) = Some (p + of_nat (length xs))"
proof (induction ws arbitrary: ys rule: rev_induct)
  case Nil
  then show ?case using holds_nth [of m p xs c ys] by (subst back_space.simps) auto
next
  case (snoc w ws)
  have "m (p + of_nat (length (xs @ ws @ [w]))) = w"
    using holds_nth [of m p "xs @ [c] @ ws" w ys] snoc.prems(1) by (simp add: add_ac)
  moreover have "back_space m paramdata (p + of_nat (length (xs @ ws))) = Some (p + of_nat (length xs))"
    using snoc.prems by (intro snoc.IH [of "w # ys"]) auto
  moreover have "paramdata \<noteq> p + of_nat (length (xs @ ws @ [w]))" using snoc.prems(4) [rule_format, of "length (xs @ ws @ [w])"] by simp
  ultimately show ?case using snoc.prems(2)
    by (subst back_space.simps) (simp add: add_ac)
qed

text \<open>
  Behind a key the value is found with its blanks cut off at both ends; when there is none, the byte
  behind the key is cleared.
\<close>

definition cut :: "u8 list \<Rightarrow> u8 list \<Rightarrow> u8 list" where
  "cut T ys = (T @ 0 # ys)[length (rtrim T) := 0]"

lemma length_rtrim: "length (rtrim T) \<le> length T"
  using length_dropWhile_le [of isspace "rev T"] by (simp add: rtrim_def)

lemma length_cut [simp]: "length (cut T ys) = length T + Suc (length ys)"
  by (simp add: cut_def)

lemma cut_text: "\<exists>zs. cut T ys = rtrim T @ 0 # zs @ ys \<and> length zs + length (rtrim T) = length T \<and> (\<forall>c \<in> set zs. isspace c \<or> c = 0)"
proof -
  obtain ws where ws: "T = rtrim T @ ws" "\<forall>c \<in> set ws. isspace c" using rtrim_blanks by blast
  show ?thesis
  proof (cases ws)
    case Nil
    then show ?thesis using ws by (intro exI [of _ "[]"]) (simp add: cut_def list_update_append)
  next
    case (Cons w ws')
    have l: "length T = length (rtrim T) + length ws" using ws(1) by (metis length_append)
    have "cut T ys = ((rtrim T @ ws) @ 0 # ys)[length (rtrim T) := 0]" unfolding cut_def using ws(1) by simp
    also have "\<dots> = rtrim T @ 0 # (ws' @ [0]) @ ys" using Cons by (simp add: list_update_append)
    finally show ?thesis using ws(2) Cons l by (intro exI [of _ "ws' @ [0]"]) auto
  qed
qed


lemma trim_split:
  assumes "T = ws @ V" "\<forall>c \<in> set ws. isspace c" "V \<noteq> []" "\<not> isspace (hd V)"
  shows "rtrim T = ws @ rtrim V" "trim T = rtrim V" "rtrim V \<noteq> []"
proof -
  have V: "hd V \<in> set V" using assms(3) by simp
  then have d: "dropWhile isspace (rev V @ rev ws) = dropWhile isspace (rev V) @ rev ws"
    using assms(4) by (intro dropWhile_append1 [of "hd V"]) auto
  then show r: "rtrim T = ws @ rtrim V" by (simp add: assms(1) rtrim_def)
  obtain us where us: "V = rtrim V @ us" "\<forall>c \<in> set us. isspace c" using rtrim_blanks by blast
  then show n: "rtrim V \<noteq> []" using V assms(4) by (metis append_Nil)
  then have "hd (rtrim V) = hd V" using us(1) by (metis hd_append2)
  then have "dropWhile isspace (rtrim V) = rtrim V" using n assms(4) by (cases "rtrim V") auto
  then show "trim T = rtrim V" using assms(2) r by (simp add: trim_def ltrim_def dropWhile_append2)
qed

lemma trim_blank: "\<forall>c \<in> set T. isspace c \<Longrightarrow> rtrim T = [] \<and> trim T = []"
proof -
  assume "\<forall>c \<in> set T. isspace c"
  then have "rtrim T = []" by (simp add: rtrim_def)
  then show ?thesis by (simp add: trim_def ltrim_def)
qed

lemma offsets_differ: "holds m p B \<Longrightarrow> i \<le> length B \<Longrightarrow> j \<le> length B \<Longrightarrow> i \<noteq> j \<Longrightarrow> p + of_nat i \<noteq> p + of_nat j"
  using holds_bound [of m p B] of_nat_u32_eq_iff [of i j] by auto

definition value_at :: "mem \<Rightarrow> u32 \<Rightarrow> u8 list \<Rightarrow> u8 list \<Rightarrow> u8 list \<Rightarrow> u32 \<times> mem \<Rightarrow> bool" where
  "value_at m p xs T ys = (\<lambda>(paramdata, m').
     \<exists>A zs. xs @ cut T ys = A @ trim T @ 0 # zs @ ys \<and> length xs \<le> length A \<and> (\<forall>c \<in> set zs. isspace c \<or> c = 0)
       \<and> paramdata = p + of_nat (length A) \<and> holds m' p (xs @ cut T ys)
       \<and> within p (length (xs @ cut T ys)) m m')"

lemma find_value_holds:
  assumes h: "holds m p (xs @ key @ 0 # T @ 0 # ys)" and nk: "0 \<notin> set key" and nT: "0 \<notin> set T"
  shows "\<exists>r. find_value (p + of_nat (length xs)) m = Some r \<and> value_at m p (xs @ key @ [0]) T ys r"
proof -
  define ws V where "ws = takeWhile isspace T" and "V = dropWhile isspace T"
  have T: "T = ws @ V" and w: "\<forall>c \<in> set ws. isspace c"
    by (auto simp: ws_def V_def dest: set_takeWhileD)
  define pd where "pd = p + of_nat (length (xs @ key @ 0 # ws))"
  have b: "length xs + length key + length T + length ys + 2 < 2 ^ 32" using holds_bound [OF h] by simp
  have start: "p + of_nat (length xs) + strlen m (p + of_nat (length xs)) + 1 = p + of_nat (length (xs @ key @ [0]))"
    using strlen_cstr [OF holds_cstr [OF h nk]] b by (simp add: add_ac)
  have nV: "0 \<notin> set V" using nT by (auto simp: T)
  define k where "k = length (rtrim T)"
  have skip: "skip_space m (p + of_nat (length (xs @ key @ [0]))) = Some pd"
  proof (cases V)
    case Nil
    then show ?thesis using skip_space_holds [of m p "xs @ key @ [0]" ws 0 ys] h w by (simp add: T pd_def)
  next
    case (Cons c V')
    then have "\<not> isspace c" using hd_dropWhile [of isspace T] by (simp add: V_def)
    with Cons show ?thesis
      using skip_space_holds [of m p "xs @ key @ [0]" ws c "V' @ 0 # ys"] h w by (simp add: T pd_def)
  qed
  have sl: "strlen m pd = of_nat (length V)"
    using strlen_cstr [of m pd V] holds_cstr [of m p "xs @ key @ 0 # ws" V ys] h nV b by (simp add: T pd_def)
  show ?thesis
  proof (cases "V = []")
    case True
    have "back_space m pd (p + of_nat (length ((xs @ key) @ T))) = Some (p + of_nat (length (xs @ key)))"
    proof (rule back_space_holds [where c = 0 and ys = "0 # ys"])
      show "holds m p ((xs @ key) @ [0] @ T @ 0 # ys)" using h by simp
      show "\<forall>c \<in> set T. isspace c" using w True by (simp add: T)
      show "\<forall>k. length (xs @ key) < k \<and> k \<le> length ((xs @ key) @ T) \<longrightarrow> pd \<noteq> p + of_nat k"
      proof (intro allI impI)
        fix k assume "length (xs @ key) < k \<and> k \<le> length ((xs @ key) @ T)"
        then show "pd \<noteq> p + of_nat k"
          unfolding pd_def using True by (intro offsets_differ [OF h]) (simp_all add: T)
      qed
    qed simp
    then have f: "find_value (p + of_nat (length xs)) m = Some (pd, m(p + of_nat (length (xs @ key @ [0])) := 0))"
      unfolding find_value_def start skip using sl True by (simp add: pd_def T add_ac)
    have r: "rtrim T = []" "trim T = []" using trim_blank [of T] w True by (auto simp: T)
    have c: "cut T ys = (case T of [] \<Rightarrow> [] | _ # T' \<Rightarrow> 0 # T') @ 0 # ys"
      by (simp add: cut_def r list_update_def split: list.splits)
    have "holds (m(p + of_nat (length (xs @ key @ [0])) := 0)) p ((xs @ key @ [0]) @ cut T ys)"
    proof (cases T)
      case Nil
      then show ?thesis using holds_upd [of m p "xs @ key @ [0]" 0 ys 0] h c by simp
    next
      case (Cons t T')
      then show ?thesis using holds_upd [of m p "xs @ key @ [0]" t "T' @ 0 # ys" 0] h c by simp
    qed
    moreover have "within p (length ((xs @ key @ [0]) @ cut T ys)) m (m(p + of_nat (length (xs @ key @ [0])) := 0))"
      by (rule within_upd) simp
    ultimately have "value_at m p (xs @ key @ [0]) T ys (pd, m(p + of_nat (length (xs @ key @ [0])) := 0))"
      unfolding value_at_def prod.case
    proof (intro exI conjI)
      let ?A = "(xs @ key @ [0]) @ (case T of [] \<Rightarrow> [] | _ # T' \<Rightarrow> 0 # T')"
      show "(xs @ key @ [0]) @ cut T ys = ?A @ trim T @ 0 # [] @ ys" using c r by simp
      have "length ?A = length (xs @ key @ 0 # T)" by (simp split: list.splits)
      moreover have "ws = T" using True T by simp
      ultimately show "pd = p + of_nat (length ?A)" by (simp add: pd_def)
    qed auto
    with f show ?thesis by blast
  next
    case False
    then have nh: "\<not> isspace (hd V)" unfolding V_def by (rule hd_dropWhile)
    note tr = trim_split [OF T w False nh]
    obtain us where us: "V = rtrim V @ us" "\<forall>c \<in> set us. isspace c" using rtrim_blanks by blast
    obtain V1 c where V1: "rtrim V = V1 @ [c]" using tr(3) by (metis rev_exhaust)
    then have c: "\<not> isspace c" using rtrim_last [OF tr(3)] by simp
    let ?e = "length (xs @ key @ 0 # ws @ V1)"
    have VV: "V = V1 @ [c] @ us" using us(1) V1 by simp
    have bs: "back_space m pd (p + of_nat (length ((xs @ key @ 0 # ws @ V1) @ us))) = Some (p + of_nat ?e)"
    proof (rule back_space_holds [where c = c and ys = "0 # ys"])
      show "holds m p ((xs @ key @ 0 # ws @ V1) @ [c] @ us @ 0 # ys)" using h VV by (simp add: T)
      show "\<forall>k. ?e < k \<and> k \<le> length ((xs @ key @ 0 # ws @ V1) @ us) \<longrightarrow> pd \<noteq> p + of_nat k"
      proof (intro allI impI)
        fix k assume "?e < k \<and> k \<le> length ((xs @ key @ 0 # ws @ V1) @ us)"
        then show "pd \<noteq> p + of_nat k"
          unfolding pd_def using VV by (intro offsets_differ [OF h]) (simp_all add: T)
      qed
    qed (use us(2) c in auto)
    have ad: "pd + of_nat (length V) - 1 = p + of_nat (length ((xs @ key @ 0 # ws @ V1) @ us))"
      using VV by (simp add: pd_def add_ac)
    have f: "find_value (p + of_nat (length xs)) m = Some (pd, m(p + of_nat ?e + 1 := 0))"
      unfolding find_value_def start skip option.case sl ad bs ..
    obtain zs where zs: "cut T ys = rtrim T @ 0 # zs @ ys" "\<forall>c \<in> set zs. isspace c \<or> c = 0" using cut_text by blast
    obtain d us' where d: "us @ 0 # ys = d # us'" by (cases us) auto
    have e: "p + of_nat ?e + 1 = p + of_nat (length (xs @ key @ 0 # ws @ V1 @ [c]))" by (simp add: add_ac)
    have "holds (m(p + of_nat ?e + 1 := 0)) p ((xs @ key @ 0 # ws @ V1 @ [c]) @ 0 # us')"
      unfolding e using h VV d by (intro holds_upd [of _ _ _ d]) (simp add: T)
    moreover have "(xs @ key @ [0]) @ cut T ys = (xs @ key @ 0 # ws @ V1 @ [c]) @ 0 # us'"
    proof -
      have "T @ 0 # ys = (ws @ V1 @ [c]) @ d # us'" using d VV by (simp add: T)
      moreover have "rtrim T = ws @ V1 @ [c]" using tr(1) V1 by simp
      ultimately show ?thesis by (simp add: cut_def list_update_append)
    qed
    ultimately have "holds (m(p + of_nat ?e + 1 := 0)) p ((xs @ key @ [0]) @ cut T ys)" by simp
    moreover have "within p (length ((xs @ key @ [0]) @ cut T ys)) m (m(p + of_nat ?e + 1 := 0))"
      unfolding e using VV by (intro within_upd) (simp add: T)
    ultimately have "value_at m p (xs @ key @ [0]) T ys (pd, m(p + of_nat ?e + 1 := 0))"
      unfolding value_at_def prod.case
    proof (intro exI conjI)
      show "(xs @ key @ [0]) @ cut T ys = (xs @ key @ 0 # ws) @ trim T @ 0 # zs @ ys" using zs(1) tr by simp
    qed (use zs(2) in \<open>auto simp: pd_def\<close>)
    with f show ?thesis by blast
  qed
qed

section \<open>What a configuration file says\<close>

record boot_item =
  i_title :: "u8 list"
  i_kernel :: "u8 list"
  i_initrd :: "u8 list"
  i_append :: "u8 list"

definition blank_item :: boot_item where
  "blank_item = \<lparr>i_title = [], i_kernel = [], i_initrd = [], i_append = []\<rparr>"

function lines_of :: "u8 list \<Rightarrow> u8 list list" where
  "lines_of s =
     (if 0x0a \<in> set s
      then takeWhile (\<lambda>c. c \<noteq> 0x0a) s # lines_of (tl (dropWhile (\<lambda>c. c \<noteq> 0x0a) s)) else [s])"
  by pat_completeness auto
termination
proof (relation "measure length")
  fix s :: "u8 list" assume "0x0a \<in> set s"
  then have "dropWhile (\<lambda>c. c \<noteq> 0x0a) s \<noteq> []" by auto
  then have "length (tl (dropWhile (\<lambda>c. c \<noteq> 0x0a) s)) < length (dropWhile (\<lambda>c. c \<noteq> 0x0a) s)" by simp
  with length_dropWhile_le [of "\<lambda>c. c \<noteq> 0x0a" s]
  show "(tl (dropWhile (\<lambda>c. c \<noteq> 0x0a) s), s) \<in> measure length" by simp
qed auto

declare lines_of.simps [simp del]

definition key_of :: "u8 list \<Rightarrow> u8 list" where "key_of l = takeWhile (\<lambda>c. c \<notin> {0x20, 0x09}) l"
definition value_of :: "u8 list \<Rightarrow> u8 list" where "value_of l = trim (drop (Suc (length (key_of l))) l)"
definition begins :: "u8 list \<Rightarrow> u8 list \<Rightarrow> bool" where "begins k s \<longleftrightarrow> take (length k) s = k"

definition TITLE_KEY :: "u8 list" where "TITLE_KEY = [0x74, 0x69, 0x74, 0x6c, 0x65]"
definition KERNEL_KEY :: "u8 list" where "KERNEL_KEY = [0x6b, 0x65, 0x72, 0x6e, 0x65, 0x6c]"
definition INITRD_KEY :: "u8 list" where "INITRD_KEY = [0x69, 0x6e, 0x69, 0x74, 0x72, 0x64]"
definition NO_KEY :: "u8 list" where "NO_KEY = [0x6e, 0x6f]"
definition APPEND_KEY :: "u8 list" where "APPEND_KEY = [0x61, 0x70, 0x70, 0x65, 0x6e, 0x64]"
definition DEFAULT_KEY :: "u8 list" where "DEFAULT_KEY = [0x64, 0x65, 0x66, 0x61, 0x75, 0x6c, 0x74]"

lemmas keys = TITLE_KEY_def KERNEL_KEY_def INITRD_KEY_def NO_KEY_def APPEND_KEY_def DEFAULT_KEY_def

definition slashes :: "u8 list \<Rightarrow> u8 list" where "slashes v = map (\<lambda>c. if c = 0x5c then 0x2f else c) v"

definition in_directory :: "u8 list option \<Rightarrow> u8 list \<Rightarrow> u8 list" where
  "in_directory dir v =
     (case dir of Some d \<Rightarrow> d @ [0x2f] @ v | None \<Rightarrow> if v \<noteq> [] \<and> hd v = 0x2f then v else 0x2f # v)"

text \<open>One line changes the last item, or opens a new one, or names the default title.\<close>

definition on_last :: "(boot_item \<Rightarrow> boot_item) \<Rightarrow> boot_item list \<Rightarrow> boot_item list" where
  "on_last f is = butlast is @ [f (last is)]"

definition says :: "u8 list option \<Rightarrow> u8 list \<Rightarrow> boot_item list \<times> u8 list option \<Rightarrow> boot_item list \<times> u8 list option" where
  "says dir l = (\<lambda>(is, d).
     let k = key_of l; v = value_of l in
     if begins TITLE_KEY k
     then (if i_title (last is) = [] then on_last (i_title_update (\<lambda>_. v)) is
           else is @ [blank_item\<lparr>i_title := v\<rparr>], d)
     else if begins KERNEL_KEY k then (on_last (i_kernel_update (\<lambda>_. in_directory dir (slashes v))) is, d)
     else if begins INITRD_KEY k
     then (if begins NO_KEY (slashes v) then is else on_last (i_initrd_update (\<lambda>_. in_directory dir (slashes v))) is, d)
     else if begins APPEND_KEY k then (on_last (i_append_update (\<lambda>a. v @ drop (length v) a)) is, d)
     else if begins DEFAULT_KEY k then (is, Some v)
     else (is, d))"

definition file_says :: "u8 list option \<Rightarrow> u8 list \<Rightarrow> boot_item list \<times> u8 list option" where
  "file_says dir s = fold (says dir) (lines_of s) ([blank_item], None)"

text \<open>The item that is marked: the first whose title begins with the default title.\<close>

definition default_item :: "boot_item list \<times> u8 list option \<Rightarrow> nat option" where
  "default_item = (\<lambda>(is, d). case d of None \<Rightarrow> None
     | Some t \<Rightarrow> (if \<exists>i \<in> set is. begins t (i_title i)
                 then Some (length (takeWhile (\<lambda>i. \<not> begins t (i_title i)) is)) else None))"

text \<open>
  A line the parser can take: one of its keys has a value, short enough for its place.
\<close>

definition keyword :: "u8 list \<Rightarrow> bool" where
  "keyword k \<longleftrightarrow> (\<exists>w \<in> {TITLE_KEY, KERNEL_KEY, INITRD_KEY, APPEND_KEY, DEFAULT_KEY}. begins w k)"

definition line_ok :: "u8 list option \<Rightarrow> u8 list \<Rightarrow> bool" where
  "line_ok dir l \<longleftrightarrow>
     (keyword (key_of l) \<longrightarrow> value_of l \<noteq> []
        \<and> length (value_of l) + (case dir of None \<Rightarrow> 0 | Some d \<Rightarrow> length d) \<le> 2046)"

section \<open>Entries\<close>

text \<open>\<open>entry_is e i\<close>: the strings of the entry are those of the item, and the title and the command line are followed by zeros.\<close>

definition layout :: "boot_item \<Rightarrow> u8 list \<Rightarrow> u8 list \<Rightarrow> u8 list" where
  "layout i x y = (i_title i @ replicate (2064 - length (i_title i)) 0) @ (i_kernel i @ 0 # x) @ (i_initrd i @ 0 # y)
     @ (i_append i @ replicate (2048 - length (i_append i)) 0)"

definition item_ok :: "boot_item \<Rightarrow> bool" where
  "item_ok i \<longleftrightarrow> length (i_title i) \<le> 2063 \<and> length (i_append i) \<le> 2047
     \<and> 0 \<notin> set (i_title i) \<and> 0 \<notin> set (i_kernel i) \<and> 0 \<notin> set (i_initrd i) \<and> 0 \<notin> set (i_append i)"

definition entry_is :: "CONFIGENTRY \<Rightarrow> boot_item \<Rightarrow> bool" where
  "entry_is e i \<longleftrightarrow> item_ok i \<and> (\<exists>x y. chars e = layout i x y
     \<and> length (i_kernel i @ 0 # x) = 2048 \<and> length (i_initrd i @ 0 # y) = 2048)"

lemma takeWhile_no_nul: "0 \<notin> set (s :: u8 list) \<Longrightarrow> takeWhile (\<lambda>c. c \<noteq> 0) (s @ 0 # t) = s"
  by (induction s) auto

lemma replicate_pos: "0 < n \<Longrightarrow> replicate n x = x # replicate (n - 1) x"
  by (cases n) auto

lemma entry_is_get:
  assumes "entry_is e i"
  shows "get_chars TITLE e = i_title i" "get_chars KERNEL e = i_kernel i" "get_chars INITRD e = i_initrd i"
    "get_chars APPEND e = i_append i"
proof -
  obtain x' y' where c: "chars e = (i_title i @ replicate (2064 - length (i_title i)) 0) @ (i_kernel i @ 0 # x') @ (i_initrd i @ 0 # y')
       @ (i_append i @ replicate (2048 - length (i_append i)) 0)"
     "length (i_title i) \<le> 2063" "0 \<notin> set (i_title i)" "length (i_append i) \<le> 2047" "0 \<notin> set (i_append i)"
     "length (i_kernel i @ 0 # x') = 2048" "0 \<notin> set (i_kernel i)"
     "length (i_initrd i @ 0 # y') = 2048" "0 \<notin> set (i_initrd i)"
    using assms unfolding entry_is_def item_ok_def layout_def by blast
  let ?t = "i_title i @ replicate (2064 - length (i_title i)) 0"
  have lt: "length ?t = 2064" using c(2) by simp
  show "get_chars TITLE e = i_title i"
    using c(2,3) by (simp add: get_chars_def TITLE_def c(1) replicate_pos takeWhile_no_nul)
  have "drop KERNEL (chars e) = i_kernel i @ 0 # x' @ (i_initrd i @ 0 # y') @ (i_append i @ replicate (2048 - length (i_append i)) 0)"
    unfolding c(1) KERNEL_def using lt by (subst drop_append) simp
  then show "get_chars KERNEL e = i_kernel i" using c(7) by (simp add: get_chars_def takeWhile_no_nul)
  have "drop INITRD (chars e) = i_initrd i @ 0 # y' @ (i_append i @ replicate (2048 - length (i_append i)) 0)"
    unfolding c(1) INITRD_def using lt c(6) by (subst append_assoc [symmetric], subst drop_append) simp
  then show "get_chars INITRD e = i_initrd i" using c(9) by (simp add: get_chars_def takeWhile_no_nul)
  have "drop APPEND (chars e) = i_append i @ replicate (2048 - length (i_append i)) 0"
    unfolding c(1) APPEND_def using lt c(6,8) by (subst append_assoc [symmetric], subst append_assoc [symmetric], subst drop_append) simp
  then show "get_chars APPEND e = i_append i" using c(4,5) by (simp add: get_chars_def replicate_pos takeWhile_no_nul)
qed

lemma put_chars_at:
  assumes "chars e = A @ B @ C" "length A = off" "length B = length s" "off + length s \<le> CHARS"
  shows "put_chars off s e = Some (e\<lparr>chars := A @ s @ C\<rparr>)"
proof -
  have "take off (chars e) = A" "drop (off + length s) (chars e) = C" using assms(1-3) by auto
  with assms(4) show ?thesis by (simp add: put_chars_def)
qed

lemma put_result:
  assumes "put_chars off s e = Some (e\<lparr>chars := c\<rparr>)" "c = layout i x y" "item_ok i"
    "length (i_kernel i @ 0 # x) = 2048" "length (i_initrd i @ 0 # y) = 2048"
  shows "\<exists>c. put_chars off s e = Some (e\<lparr>chars := c\<rparr>) \<and> entry_is (e\<lparr>chars := c\<rparr>) i"
  using assms unfolding entry_is_def by (intro exI [of _ c]) auto

lemma split_zeros: "k \<le> n \<Longrightarrow> replicate n x = replicate k x @ replicate (n - k) x"
  by (metis le_add_diff_inverse replicate_add)

lemma put_title:
  assumes "entry_is e i" "i_title i = []" "length v \<le> 2063" "0 \<notin> set v"
  shows "\<exists>c. put_chars TITLE v e = Some (e\<lparr>chars := c\<rparr>) \<and> entry_is (e\<lparr>chars := c\<rparr>) (i\<lparr>i_title := v\<rparr>)"
proof -
  obtain x y where c: "chars e = layout i x y" "length (i_kernel i @ 0 # x) = 2048" "length (i_initrd i @ 0 # y) = 2048"
    "item_ok i" using assms(1) unfolding entry_is_def by blast
  have l: "chars e = [] @ replicate (length v) 0 @ replicate (2064 - length v) 0 @ drop 2064 (layout i x y)"
    using assms(2,3) split_zeros [of "length v" 2064 "0 :: u8"] by (simp add: c(1) layout_def)
  have "put_chars TITLE v e = Some (e\<lparr>chars := [] @ v @ replicate (2064 - length v) 0 @ drop 2064 (layout i x y)\<rparr>)"
    using assms(3) by (intro put_chars_at [OF l]) (simp_all add: TITLE_def CHARS_def)
  moreover have "[] @ v @ replicate (2064 - length v) 0 @ drop 2064 (layout i x y) = layout (i\<lparr>i_title := v\<rparr>) x y"
    using assms(2) by (simp add: layout_def)
  moreover have "item_ok (i\<lparr>i_title := v\<rparr>)" using c(4) assms by (simp add: item_ok_def)
  ultimately show ?thesis by (rule put_result) (use c(2,3) in simp_all)
qed

lemma put_kernel:
  assumes "entry_is e i" "length s \<le> 2047" "0 \<notin> set s"
  shows "\<exists>c. put_chars KERNEL (s @ [0]) e = Some (e\<lparr>chars := c\<rparr>) \<and> entry_is (e\<lparr>chars := c\<rparr>) (i\<lparr>i_kernel := s\<rparr>)"
proof -
  obtain x y where c: "chars e = layout i x y" "length (i_kernel i @ 0 # x) = 2048" "length (i_initrd i @ 0 # y) = 2048"
    "item_ok i" using assms(1) unfolding entry_is_def by blast
  let ?A = "i_title i @ replicate (2064 - length (i_title i)) 0" and ?k = "i_kernel i @ 0 # x"
  let ?C = "(i_initrd i @ 0 # y) @ (i_append i @ replicate (2048 - length (i_append i)) 0)"
  let ?x = "drop (Suc (length s)) ?k"
  have "chars e = ?A @ (take (Suc (length s)) ?k @ ?x) @ ?C"
    unfolding append_take_drop_id c(1) layout_def ..
  then have l: "chars e = ?A @ take (Suc (length s)) ?k @ (?x @ ?C)" by (simp only: append_assoc)
  have "put_chars KERNEL (s @ [0]) e = Some (e\<lparr>chars := ?A @ (s @ [0]) @ (?x @ ?C)\<rparr>)"
    using assms(2) c(2,4) by (intro put_chars_at [OF l]) (simp_all add: KERNEL_def CHARS_def item_ok_def)
  moreover have "?A @ (s @ [0]) @ (?x @ ?C) = layout (i\<lparr>i_kernel := s\<rparr>) ?x y" by (simp add: layout_def)
  moreover have "item_ok (i\<lparr>i_kernel := s\<rparr>)" using c(4) assms by (simp add: item_ok_def)
  moreover have "length (i_kernel (i\<lparr>i_kernel := s\<rparr>) @ 0 # ?x) = 2048" using assms(2) c(2) by simp
  moreover have "length (i_initrd (i\<lparr>i_kernel := s\<rparr>) @ 0 # y) = 2048" using c(3) by simp
  ultimately show ?thesis by (rule put_result)
qed

lemma put_initrd:
  assumes "entry_is e i" "length s \<le> 2047" "0 \<notin> set s"
  shows "\<exists>c. put_chars INITRD (s @ [0]) e = Some (e\<lparr>chars := c\<rparr>) \<and> entry_is (e\<lparr>chars := c\<rparr>) (i\<lparr>i_initrd := s\<rparr>)"
proof -
  obtain x y where c: "chars e = layout i x y" "length (i_kernel i @ 0 # x) = 2048" "length (i_initrd i @ 0 # y) = 2048"
    "item_ok i" using assms(1) unfolding entry_is_def by blast
  let ?A = "(i_title i @ replicate (2064 - length (i_title i)) 0) @ (i_kernel i @ 0 # x)" and ?k = "i_initrd i @ 0 # y"
  let ?C = "i_append i @ replicate (2048 - length (i_append i)) 0"
  let ?y = "drop (Suc (length s)) ?k"
  have "chars e = ?A @ (take (Suc (length s)) ?k @ ?y) @ ?C"
    unfolding append_take_drop_id c(1) layout_def append_assoc ..
  then have l: "chars e = ?A @ take (Suc (length s)) ?k @ (?y @ ?C)" by (simp only: append_assoc)
  have "put_chars INITRD (s @ [0]) e = Some (e\<lparr>chars := ?A @ (s @ [0]) @ (?y @ ?C)\<rparr>)"
    using assms(2) c(2-4) by (intro put_chars_at [OF l]) (simp_all add: INITRD_def CHARS_def item_ok_def)
  moreover have "?A @ (s @ [0]) @ (?y @ ?C) = layout (i\<lparr>i_initrd := s\<rparr>) x ?y" by (simp add: layout_def)
  moreover have "item_ok (i\<lparr>i_initrd := s\<rparr>)" using c(4) assms by (simp add: item_ok_def)
  moreover have "length (i_kernel (i\<lparr>i_initrd := s\<rparr>) @ 0 # x) = 2048" using c(2) by simp
  moreover have "length (i_initrd (i\<lparr>i_initrd := s\<rparr>) @ 0 # ?y) = 2048" using assms(2) c(3) by simp
  ultimately show ?thesis by (rule put_result)
qed

lemma put_append:
  assumes "entry_is e i" "length v \<le> 2047" "0 \<notin> set v"
  shows "\<exists>c. put_chars APPEND v e = Some (e\<lparr>chars := c\<rparr>)
    \<and> entry_is (e\<lparr>chars := c\<rparr>) (i\<lparr>i_append := v @ drop (length v) (i_append i)\<rparr>)"
proof -
  obtain x y where c: "chars e = layout i x y" "length (i_kernel i @ 0 # x) = 2048" "length (i_initrd i @ 0 # y) = 2048"
    "item_ok i" using assms(1) unfolding entry_is_def by blast
  let ?A = "(i_title i @ replicate (2064 - length (i_title i)) 0) @ (i_kernel i @ 0 # x) @ (i_initrd i @ 0 # y)"
  let ?z = "replicate (2048 - length (i_append i)) (0 :: u8)"
  let ?a' = "v @ drop (length v) (i_append i)"
  have d: "drop (length v) (i_append i @ ?z) = drop (length v) (i_append i) @ replicate (2048 - length ?a') 0"
    using assms(2) c(4) by (auto simp: max_def item_ok_def)
  have "chars e = ?A @ (take (length v) (i_append i @ ?z) @ drop (length v) (i_append i @ ?z))"
    unfolding append_take_drop_id c(1) layout_def append_assoc ..
  then have l: "chars e = ?A @ take (length v) (i_append i @ ?z) @ drop (length v) (i_append i @ ?z)" .
  have "put_chars APPEND v e = Some (e\<lparr>chars := ?A @ v @ drop (length v) (i_append i @ ?z)\<rparr>)"
    using assms(2) c(2-4) by (intro put_chars_at [OF l]) (simp_all add: APPEND_def CHARS_def item_ok_def)
  moreover have "?A @ v @ drop (length v) (i_append i @ ?z) = layout (i\<lparr>i_append := ?a'\<rparr>) x y"
    unfolding d by (simp add: layout_def)
  moreover have "item_ok (i\<lparr>i_append := ?a'\<rparr>)" using c(4) assms by (auto simp: item_ok_def dest: in_set_dropD)
  ultimately show ?thesis by (rule put_result) (use c(2,3) in simp_all)
qed

lemma new_entry_blank: "entry_is new_entry blank_item"
proof -
  have "chars new_entry = layout blank_item (replicate 2047 0) (replicate 2047 0)"
    by (simp add: layout_def new_entry_def blank_item_def CHARS_def flip: replicate_add replicate_Suc)
  moreover have "item_ok blank_item" by (simp add: item_ok_def blank_item_def)
  moreover have "length (i_kernel blank_item @ 0 # replicate 2047 0) = 2048"
    "length (i_initrd blank_item @ 0 # replicate 2047 0) = 2048" by (simp_all add: blank_item_def)
  ultimately show ?thesis unfolding entry_is_def by blast
qed

section \<open>Printing a path\<close>

lemma convert_plain_string:
  assumes "length s < 2 ^ 32"
  shows "convert spr (0x73 # fmt) (StrArg (Some s) # args) = Some (s, fmt, args, False)"
proof -
  have "uint (- 1 :: u32) = 2 ^ 32 - 1" by (simp add: unsigned_minus_1_eq_mask mask_eq_exp_minus_1)
  then have "min (int (length s)) (uint (- 1 :: u32)) = int (length s)" using assms by simp
  then have "convert_string 0 (- 1) (- 1) (StrArg (Some s) # args) = Some (s, args)"
    by (simp add: convert_string_def fill_def Let_def)
  then show ?thesis
    by (simp add: convert_def parse_width_def parse_precision_def parse_qualifier_def peek_def isdigit_def
      conversion_def finish_def)
qed

lemma print_path_is:
  assumes "length v < 2 ^ 32" "\<And>d. dir = Some d \<Longrightarrow> length d < 2 ^ 32"
  shows "print_path dir v = Some (in_directory dir v @ [0])"
  using assms by (auto simp: print_path_def in_directory_def sprintf_def vsprintf_def convert_plain_string split: option.split)

section \<open>One line\<close>

text \<open>\<open>edited m0 p B m\<close>: the buffer at \<open>p\<close> holds \<open>B\<close>, all else is as in \<open>m0\<close>.\<close>

definition edited :: "mem \<Rightarrow> u32 \<Rightarrow> u8 list \<Rightarrow> mem \<Rightarrow> bool" where
  "edited m0 p B m \<longleftrightarrow> holds m p B \<and> within p (length B) m0 m"

lemma edited_upd: "edited m0 p (xs @ c # ys) m \<Longrightarrow> edited m0 p (xs @ b # ys) (m(p + of_nat (length xs) := b))"
  using within_trans [OF _ within_upd [of "length xs" "length (xs @ c # ys)" p m b]]
  by (auto simp: edited_def holds_upd)

lemma edited_wr:
  "edited m0 p (xs @ s @ ys) m \<Longrightarrow> length s' = length s \<Longrightarrow>
   edited m0 p (xs @ s' @ ys) (wr (p + of_nat (length xs)) s' m)"
proof (induction s' arbitrary: xs s m)
  case (Cons b s')
  then obtain c s1 where s: "s = c # s1" by (cases s) auto
  have "edited m0 p ((xs @ [b]) @ s1 @ ys) (m(p + of_nat (length xs) := b))"
    using edited_upd [of m0 p xs c "s1 @ ys" m b] Cons.prems(1) by (simp add: s)
  from Cons.IH [OF this] Cons.prems(2) show ?case by (simp add: s add_ac fun_upd_def)
qed simp

definition literal_strings :: "literals \<Rightarrow> (u32 \<times> u8 list) list" where
  "literal_strings L = [(lit_newline L, [0x0a]), (lit_blanks L, [0x20, 0x09]), (lit_title L, TITLE_KEY),
     (lit_kernel L, KERNEL_KEY), (lit_initrd L, INITRD_KEY), (lit_no L, NO_KEY), (lit_append L, APPEND_KEY),
     (lit_default L, DEFAULT_KEY)]"

text \<open>The literals are in memory, outside the buffer.\<close>

definition literals_at :: "literals \<Rightarrow> mem \<Rightarrow> u32 \<Rightarrow> nat \<Rightarrow> bool" where
  "literals_at L m p n \<longleftrightarrow>
     (\<forall>(a, s) \<in> set (literal_strings L). cstr m a s \<and> region a (Suc (length s)) \<inter> region p n = {})"

lemma literals_cstr:
  assumes "literals_at L m0 p (length B)" "edited m0 p B m"
  shows "cstr m (lit_newline L) [0x0a]" "cstr m (lit_blanks L) [0x20, 0x09]" "cstr m (lit_title L) TITLE_KEY"
    "cstr m (lit_kernel L) KERNEL_KEY" "cstr m (lit_initrd L) INITRD_KEY" "cstr m (lit_no L) NO_KEY"
    "cstr m (lit_append L) APPEND_KEY" "cstr m (lit_default L) DEFAULT_KEY"
proof -
  have "cstr m a s" if "(a, s) \<in> set (literal_strings L)" for a s
  proof (rule within_cstr)
    from assms(1) that show "cstr m0 a s" "region a (Suc (length s)) \<inter> region p (length B) = {}"
      unfolding literals_at_def by fast+
    from assms(2) show "within p (length B) m0 m" by (simp add: edited_def)
  qed
  then show "cstr m (lit_newline L) [0x0a]" "cstr m (lit_blanks L) [0x20, 0x09]" "cstr m (lit_title L) TITLE_KEY"
    "cstr m (lit_kernel L) KERNEL_KEY" "cstr m (lit_initrd L) INITRD_KEY" "cstr m (lit_no L) NO_KEY"
    "cstr m (lit_append L) APPEND_KEY" "cstr m (lit_default L) DEFAULT_KEY"
    by (simp_all del: cstr.simps add: literal_strings_def)
qed

text \<open>Comparing with the literals is asking how the string begins.\<close>

lemma strncmp_begins:
  assumes "literals_at L m0 p (length B)" "edited m0 p B m" "cstr m a s"
  shows "strncmp m a (lit_title L) 5 = 0 \<longleftrightarrow> begins TITLE_KEY s"
    "strncmp m a (lit_kernel L) 6 = 0 \<longleftrightarrow> begins KERNEL_KEY s"
    "strncmp m a (lit_initrd L) 6 = 0 \<longleftrightarrow> begins INITRD_KEY s"
    "strncmp m a (lit_no L) 2 = 0 \<longleftrightarrow> begins NO_KEY s"
    "strncmp m a (lit_append L) 6 = 0 \<longleftrightarrow> begins APPEND_KEY s"
    "strncmp m a (lit_default L) 7 = 0 \<longleftrightarrow> begins DEFAULT_KEY s"
  unfolding begins_def
  using strncmp_prefix [OF assms(3) literals_cstr(3) [OF assms(1,2)], of 5]
    strncmp_prefix [OF assms(3) literals_cstr(4) [OF assms(1,2)], of 6]
    strncmp_prefix [OF assms(3) literals_cstr(5) [OF assms(1,2)], of 6]
    strncmp_prefix [OF assms(3) literals_cstr(6) [OF assms(1,2)], of 2]
    strncmp_prefix [OF assms(3) literals_cstr(7) [OF assms(1,2)], of 6]
    strncmp_prefix [OF assms(3) literals_cstr(8) [OF assms(1,2)], of 7]
  by (simp_all add: keys)

text \<open>The entries and the items they stand for.\<close>

definition entries_are :: "CONFIGENTRY list \<Rightarrow> boot_item list \<Rightarrow> bool" where
  "entries_are es is \<longleftrightarrow> list_all2 entry_is es is \<and> es \<noteq> []
     \<and> (\<forall>e \<in> set es. e = new_entry\<lparr>chars := chars e\<rparr>)"

lemma entries_are_last:
  "entries_are es is \<Longrightarrow> is \<noteq> [] \<and> entry_is (last es) (last is) \<and> last es = new_entry\<lparr>chars := chars (last es)\<rparr>"
proof -
  assume e: "entries_are es is"
  then have n: "es \<noteq> []" "is \<noteq> []" "length es = length is" by (auto simp: entries_are_def list_all2_lengthD)
  have "entry_is (es ! (length is - 1)) (is ! (length is - 1))"
    using e n by (auto simp: entries_are_def list_all2_conv_all_nth)
  with n e show ?thesis by (simp add: last_conv_nth entries_are_def)
qed

lemma entries_are_snoc:
  "entries_are es is \<Longrightarrow> entry_is (new_entry\<lparr>chars := c\<rparr>) i \<Longrightarrow> entries_are (butlast es @ [new_entry\<lparr>chars := c\<rparr>]) (butlast is @ [i])"
  "entries_are es is \<Longrightarrow> entry_is (new_entry\<lparr>chars := c\<rparr>) i \<Longrightarrow> entries_are (es @ [new_entry\<lparr>chars := c\<rparr>]) (is @ [i])"
  by (auto simp: entries_are_def list_all2_appendI list_all2_conv_all_nth nth_butlast nth_append dest: in_set_butlastD)

lemma on_current_step:
  assumes "entries_are (config_entries st) is"
    and "\<And>e. entry_is e (last is) \<Longrightarrow> e = new_entry\<lparr>chars := chars e\<rparr> \<Longrightarrow>
      \<exists>c. f e = Some (e\<lparr>chars := c\<rparr>) \<and> entry_is (e\<lparr>chars := c\<rparr>) (g (last is))"
  shows "\<exists>es. on_current f st = Some (st\<lparr>config_entries := es\<rparr>) \<and> entries_are es (on_last g is)"
proof -
  let ?e = "last (config_entries st)"
  obtain c where c: "f ?e = Some (?e\<lparr>chars := c\<rparr>)" "entry_is (?e\<lparr>chars := c\<rparr>) (g (last is))"
    using assms(2) entries_are_last [OF assms(1)] by blast
  have "?e\<lparr>chars := c\<rparr> = new_entry\<lparr>chars := c\<rparr>"
    using entries_are_last [OF assms(1)] by (metis CONFIGENTRY.update_convs(6) CONFIGENTRY.surjective)
  with c show ?thesis using entries_are_snoc(1) [OF assms(1), of c "g (last is)"]
    by (auto simp: on_current_def on_last_def)
qed

lemma put_current_title:
  assumes "entries_are (config_entries st) is" "i_title (last is) = []" "length v \<le> 2063" "0 \<notin> set v"
  shows "\<exists>es. on_current (\<lambda>e. map_option (bootSystem_update (\<lambda>_. SYS_LINUX)) (put_chars TITLE v e)) st
      = Some (st\<lparr>config_entries := es\<rparr>) \<and> entries_are es (on_last (i_title_update (\<lambda>_. v)) is)"
proof (rule on_current_step [OF assms(1)])
  fix e assume e: "entry_is e (last is)" "e = new_entry\<lparr>chars := chars e\<rparr>"
  from put_title [OF e(1) assms(2-4)] obtain c where
    c: "put_chars TITLE v e = Some (e\<lparr>chars := c\<rparr>)" "entry_is (e\<lparr>chars := c\<rparr>) (last is\<lparr>i_title := v\<rparr>)" by blast
  have "bootSystem_update (\<lambda>_. SYS_LINUX) (e\<lparr>chars := c\<rparr>) = e\<lparr>chars := c\<rparr>"
    by (subst (1 2) e(2)) (simp add: new_entry_def)
  with c show "\<exists>c. map_option (bootSystem_update (\<lambda>_. SYS_LINUX)) (put_chars TITLE v e) = Some (e\<lparr>chars := c\<rparr>)
      \<and> entry_is (e\<lparr>chars := c\<rparr>) (last is\<lparr>i_title := v\<rparr>)" by auto
qed

lemma set_title_step:
  assumes ent: "entries_are (config_entries st) is" and v: "length v \<le> 2063" "0 \<notin> set v"
  shows "\<exists>es. set_title v st = Some (st\<lparr>config_entries := es\<rparr>)
    \<and> entries_are es (if i_title (last is) = [] then on_last (i_title_update (\<lambda>_. v)) is
                      else is @ [blank_item\<lparr>i_title := v\<rparr>])"
proof (cases "i_title (last is) = []")
  case True
  with entry_is_get(1) entries_are_last [OF ent] have "get_chars TITLE (last (config_entries st)) = []" by metis
  with put_current_title [OF ent True v] True show ?thesis by (simp add: set_title_def)
next
  case False
  with entry_is_get(1) entries_are_last [OF ent] have n: "get_chars TITLE (last (config_entries st)) \<noteq> []" by metis
  let ?st = "st\<lparr>config_entries := config_entries st @ [new_entry]\<rparr>"
  have "entries_are (config_entries ?st) (is @ [blank_item])"
    using entries_are_snoc(2) [OF ent, of "chars new_entry" blank_item] new_entry_blank by simp
  from put_current_title [OF this _ v] n False show ?thesis
    by (auto simp: set_title_def on_last_def blank_item_def)
qed

lemma in_directory_bounds:
  assumes "length v + (case dir of None \<Rightarrow> 0 | Some d \<Rightarrow> length d) \<le> 2046" "0 \<notin> set v" "\<And>d. dir = Some d \<Longrightarrow> 0 \<notin> set d"
  shows "length (in_directory dir v) \<le> 2047" "0 \<notin> set (in_directory dir v)"
  using assms by (auto simp: in_directory_def split: option.splits)

lemma set_path_step:
  assumes ent: "entries_are (config_entries st) is"
    and v: "length v + (case dir of None \<Rightarrow> 0 | Some d \<Rightarrow> length d) \<le> 2046" "0 \<notin> set v" "\<And>d. dir = Some d \<Longrightarrow> 0 \<notin> set d"
  shows "\<exists>es. set_path KERNEL dir v st = Some (st\<lparr>config_entries := es\<rparr>)
      \<and> entries_are es (on_last (i_kernel_update (\<lambda>_. in_directory dir v)) is)"
    and "\<exists>es. set_path INITRD dir v st = Some (st\<lparr>config_entries := es\<rparr>)
      \<and> entries_are es (on_last (i_initrd_update (\<lambda>_. in_directory dir v)) is)"
proof -
  have p: "print_path dir v = Some (in_directory dir v @ [0])"
    using v(1) by (intro print_path_is) auto
  note b = in_directory_bounds [OF v]
  show "\<exists>es. set_path KERNEL dir v st = Some (st\<lparr>config_entries := es\<rparr>)
      \<and> entries_are es (on_last (i_kernel_update (\<lambda>_. in_directory dir v)) is)"
    unfolding set_path_def p option.case by (rule on_current_step [OF ent]) (rule put_kernel [OF _ b])
  show "\<exists>es. set_path INITRD dir v st = Some (st\<lparr>config_entries := es\<rparr>)
      \<and> entries_are es (on_last (i_initrd_update (\<lambda>_. in_directory dir v)) is)"
    unfolding set_path_def p option.case by (rule on_current_step [OF ent]) (rule put_initrd [OF _ b])
qed

lemma i_append_update_const: "i\<lparr>i_append := f (i_append i)\<rparr> = i_append_update f i"
  by (cases i) simp

lemma set_append_step:
  assumes "entries_are (config_entries st) is" "length v \<le> 2046" "0 \<notin> set v"
  shows "\<exists>es. on_current (put_chars APPEND v) st = Some (st\<lparr>config_entries := es\<rparr>)
      \<and> entries_are es (on_last (i_append_update (\<lambda>a. v @ drop (length v) a)) is)"
proof (rule on_current_step [OF assms(1)])
  fix e assume "entry_is e (last is)"
  from put_append [OF this _ assms(3)] assms(2)
  show "\<exists>c. put_chars APPEND v e = Some (e\<lparr>chars := c\<rparr>)
      \<and> entry_is (e\<lparr>chars := c\<rparr>) (i_append_update (\<lambda>a. v @ drop (length v) a) (last is))"
    using i_append_update_const [where i = "last is" and f = "\<lambda>a. v @ drop (length v) a"] by simp
qed

text \<open>Where the default title lies: below the offset \<open>n\<close>, from which on the buffer may still change.\<close>

definition default_at :: "u32 \<Rightarrow> u8 list \<Rightarrow> nat \<Rightarrow> u8 list option \<Rightarrow> u32 \<Rightarrow> bool" where
  "default_at p B n d dt =
     (case d of None \<Rightarrow> dt = 0
      | Some t \<Rightarrow> \<exists>A C. B = A @ t @ 0 # C \<and> length A + length t < n \<and> 0 \<notin> set t \<and> dt = p + of_nat (length A))"

lemma default_at_keep:
  assumes "default_at p B n d dt" "take n B' = take n B" "n \<le> n'"
  shows "default_at p B' n' d dt"
proof (cases d)
  case (Some t)
  then obtain A C where a: "B = (A @ t @ [0]) @ C" "length (A @ t @ [0]) \<le> n" "0 \<notin> set t" "dt = p + of_nat (length A)"
    using assms(1) by (auto simp: default_at_def)
  have "take (length (A @ t @ [0])) B = A @ t @ [0]" by (simp add: a(1))
  then have "take (length (A @ t @ [0])) B' = A @ t @ [0]"
    using assms(2) a(2) by (metis min.absorb1 take_take)
  then have "B' = (A @ t @ [0]) @ drop (length (A @ t @ [0])) B'" by (metis append_take_drop_id)
  then have "B' = A @ t @ 0 # drop (length (A @ t @ [0])) B'" by simp
  with a assms(3) Some show ?thesis unfolding default_at_def by auto
qed (use assms in \<open>simp add: default_at_def\<close>)

definition stands_for :: "u32 \<Rightarrow> u8 list \<Rightarrow> nat \<Rightarrow> parser \<Rightarrow> boot_item list \<times> u8 list option \<Rightarrow> bool" where
  "stands_for p B n st = (\<lambda>(is, d). entries_are (config_entries st) is \<and> default_at p B n d (defaultTitle st))"

lemma key_parts:
  assumes "c \<in> set l" "c \<in> {0x20, 0x09}"
  shows "\<exists>b. l = key_of l @ b # drop (Suc (length (key_of l))) l"
proof -
  have "dropWhile (\<lambda>c. c \<notin> {0x20, 0x09}) l \<noteq> []" using assms by (auto simp: dropWhile_eq_Nil_conv)
  then obtain b r where r: "dropWhile (\<lambda>c. c \<notin> {0x20, 0x09}) l = b # r" by (meson list.exhaust)
  then have "l = key_of l @ b # r" unfolding key_of_def by (metis takeWhile_dropWhile_id)
  moreover from this have "drop (Suc (length (key_of l))) l = r" by (metis append_eq_conv_conj drop_Suc list.sel(3) tl_drop)
  ultimately show ?thesis by metis
qed

lemma set_key: "c \<in> set (key_of l) \<Longrightarrow> c \<in> set l"
  by (auto simp: key_of_def dest: set_takeWhileD)

lemma set_trim: "c \<in> set (trim T) \<Longrightarrow> c \<in> set T"
  unfolding trim_def ltrim_def rtrim_def by (metis set_dropWhileD set_rev)

lemma set_value: "c \<in> set (value_of l) \<Longrightarrow> c \<in> set l"
  unfolding value_of_def by (metis in_set_dropD set_trim)

lemma length_value: "length (value_of l) \<le> length l"
proof -
  have "length (trim T) \<le> length T" for T
    using length_rtrim [of T] length_dropWhile_le [of isspace "rtrim T"] by (simp add: trim_def ltrim_def)
  from this [of "drop (Suc (length (key_of l))) l"] show ?thesis by (simp add: value_of_def)
qed

lemma holds_unat: "holds m p B \<Longrightarrow> i \<le> length B \<Longrightarrow> unat (p + of_nat i) = unat p + i"
  by (simp add: holds_def unat_word_ariths unat_of_nat take_bit_nat_eq_self)

lemma strsep_holds:
  assumes h: "holds m p (xs @ s @ 0 # ys)" and "0 \<notin> set s" "p \<noteq> 0" "cstr m ct d" and tok: "takeWhile (\<lambda>c. c \<notin> set d) s = tok"
  shows "strsep (p + of_nat (length xs)) ct m =
    (if tok = s then Some (p + of_nat (length xs), 0, m)
     else Some (p + of_nat (length xs), p + of_nat (length (xs @ tok @ [0])), m(p + of_nat (length (xs @ tok)) := 0)))"
proof -
  have "unat (p + of_nat (length xs)) + length s < 2 ^ 32"
    using holds_unat [OF h, of "length xs"] h by (simp add: holds_def)
  from strsep_cstr [OF holds_cstr [OF h assms(2)] assms(4) holds_not_null [OF h assms(3)] this]
  show ?thesis unfolding tok by (simp add: add_ac)
qed

text \<open>The key and the value of a line with a blank in it, and what is left of the line in the buffer.\<close>

lemma line_parts:
  assumes ed: "edited m0 p (xs @ l @ 0 # ys) m" and p: "p \<noteq> 0" and nl: "0 \<notin> set l"
    and bl: "c \<in> set l" "c \<in> {0x20, 0x09}" and lits: "literals_at L m0 p (length (xs @ l @ 0 # ys))"
  shows "\<exists>q m1 pd m2 A zs. strsep (p + of_nat (length xs)) (lit_blanks L) m = Some (p + of_nat (length xs), q, m1)
     \<and> find_value (p + of_nat (length xs)) m1 = Some (pd, m2)
     \<and> pd = p + of_nat (length (xs @ A)) \<and> length A + length (value_of l) + length zs = length l
     \<and> edited m0 p ((xs @ A) @ value_of l @ 0 # zs @ ys) m2
     \<and> cstr m2 (p + of_nat (length xs)) (key_of l) \<and> cstr m2 pd (value_of l)"
proof -
  define key T where "key = key_of l" and "T = drop (Suc (length (key_of l))) l"
  obtain b where l: "l = key @ b # T" using key_parts [OF bl] unfolding key_def T_def by blast
  have v: "value_of l = trim T" by (simp add: value_of_def T_def)
  have h: "holds m p (xs @ l @ 0 # ys)" using ed by (simp add: edited_def)
  have nk: "0 \<notin> set key" "0 \<notin> set T" using nl by (auto simp: l)
  let ?m1 = "m(p + of_nat (length (xs @ key)) := 0)"
  have tok: "takeWhile (\<lambda>c. c \<notin> set [0x20, 0x09]) l = key" by (simp add: key_def key_of_def)
  have "key \<noteq> l" using l by auto
  have sep: "strsep (p + of_nat (length xs)) (lit_blanks L) m
      = Some (p + of_nat (length xs), p + of_nat (length (xs @ key @ [0])), ?m1)"
    unfolding strsep_holds [OF h nl p literals_cstr(2) [OF lits ed] tok] using \<open>key \<noteq> l\<close> by simp
  have ed1: "edited m0 p (xs @ key @ 0 # T @ 0 # ys) ?m1"
    using edited_upd [of m0 p "xs @ key" b "T @ 0 # ys" m 0] ed by (simp add: l)
  then have h1: "holds ?m1 p (xs @ key @ 0 # T @ 0 # ys)" by (simp add: edited_def)
  obtain pd m2 where fv: "find_value (p + of_nat (length xs)) ?m1 = Some (pd, m2)"
    and va: "value_at ?m1 p (xs @ key @ [0]) T ys (pd, m2)"
    using find_value_holds [OF h1 nk] by (metis surj_pair)
  obtain A0 zs where A0: "(xs @ key @ [0]) @ cut T ys = A0 @ trim T @ 0 # zs @ ys"
      "length (xs @ key @ [0]) \<le> length A0" "pd = p + of_nat (length A0)"
      "holds m2 p ((xs @ key @ [0]) @ cut T ys)" "within p (length ((xs @ key @ [0]) @ cut T ys)) ?m1 m2"
    using va unfolding value_at_def prod.case by blast
  have "take (length xs) A0 = xs" using A0(1,2) by (metis append.assoc append_eq_append_conv_if append_eq_conv_conj length_append le_add1 le_trans)
  then obtain A where A: "A0 = xs @ A" by (metis append_take_drop_id)
  have B: "(xs @ key @ [0]) @ cut T ys = (xs @ A) @ value_of l @ 0 # zs @ ys" using A0(1) by (simp add: A v)
  then have "length ((xs @ key @ [0]) @ cut T ys) = length ((xs @ A) @ value_of l @ 0 # zs @ ys)" by (rule arg_cong)
  then have n: "length A + length (value_of l) + length zs = length l" by (simp add: l)
  have ed2: "edited m0 p ((xs @ A) @ value_of l @ 0 # zs @ ys) m2"
    using A0(4,5) ed1 within_trans unfolding edited_def B [symmetric] by fastforce
  have "holds m2 p (xs @ key @ 0 # cut T ys)" "holds m2 p ((xs @ A) @ value_of l @ 0 # zs @ ys)"
    using A0(4) ed2 by (simp_all add: edited_def)
  then have "cstr m2 (p + of_nat (length xs)) key" "cstr m2 (p + of_nat (length (xs @ A))) (value_of l)"
    using holds_cstr nk set_value nl by blast+
  with sep fv A0(3) n ed2 show ?thesis unfolding key_def A by blast
qed

lemma no_nul_slashes: "0 \<notin> set v \<Longrightarrow> 0 \<notin> set (slashes v)"
  by (auto simp: slashes_def)

lemma length_slashes [simp]: "length (slashes v) = length v"
  by (simp add: slashes_def)

text \<open>What the parser does with a line, once key and value are found.\<close>

definition line_action :: "u8 list option \<Rightarrow> u8 list \<Rightarrow> u8 list \<Rightarrow> u32 \<Rightarrow> parser \<Rightarrow> parser \<Rightarrow> parser option" where
  "line_action dir k v pd st2 st3 =
    (if begins TITLE_KEY k then set_title v st2
     else if begins KERNEL_KEY k then set_path KERNEL dir (slashes v) st3
     else if begins INITRD_KEY k
     then if begins NO_KEY (slashes v) then Some st3 else set_path INITRD dir (slashes v) st3
     else if begins APPEND_KEY k then on_current (put_chars APPEND v) st2
     else if begins DEFAULT_KEY k then Some (st2\<lparr>defaultTitle := pd\<rparr>)
     else Some st2)"

lemma parse_line_acts:
  assumes ed: "edited m0 p (xs @ l @ 0 # ys) (buffer_mem st)" and p: "p \<noteq> 0" and nl: "0 \<notin> set l"
    and bl: "c \<in> set l" "c \<in> {0x20, 0x09}" and lits: "literals_at L m0 p (length (xs @ l @ 0 # ys))"
  shows "\<exists>A zs m2 m3 pd. parse_line L dir (p + of_nat (length xs)) st
        = line_action dir (key_of l) (value_of l) pd (st\<lparr>buffer_mem := m2\<rparr>) (st\<lparr>buffer_mem := m3\<rparr>)
     \<and> pd = p + of_nat (length (xs @ A)) \<and> length A + length (value_of l) + length zs = length l
     \<and> edited m0 p (xs @ (A @ value_of l @ 0 # zs) @ ys) m2
     \<and> edited m0 p (xs @ (A @ slashes (value_of l) @ 0 # zs) @ ys) m3"
proof -
  define v k where "v = value_of l" and "k = key_of l"
  obtain q m1 pd m2 A zs where lp: "strsep (p + of_nat (length xs)) (lit_blanks L) (buffer_mem st) = Some (p + of_nat (length xs), q, m1)"
    "find_value (p + of_nat (length xs)) m1 = Some (pd, m2)"
    "pd = p + of_nat (length (xs @ A))" "length A + length v + length zs = length l"
    and ed2: "edited m0 p ((xs @ A) @ v @ 0 # zs @ ys) m2"
    and ck: "cstr m2 (p + of_nat (length xs)) k" and cv: "cstr m2 pd v"
    using line_parts [OF ed p nl bl lits] unfolding v_def k_def by blast
  have nv: "0 \<notin> set v" using nl set_value unfolding v_def by blast
  have "length (xs @ l @ 0 # ys) < 2 ^ 32" using ed holds_bound unfolding edited_def by blast
  then have lv: "length v < 2 ^ 32 - 1" using lp(4) by simp
  let ?B = "xs @ A @ v @ 0 # zs @ ys" and ?B3 = "xs @ A @ slashes v @ 0 # zs @ ys"
  have "length ?B = length (xs @ l @ 0 # ys)" using lp(4) by simp
  then have lits2: "literals_at L m0 p (length ?B)" using lits by (simp only:)
  have e2: "edited m0 p ?B m2" using ed2 by simp
  define m3 where "m3 = wr pd (slashes v) m2"
  have e3: "edited m0 p ?B3 m3"
    using edited_wr [OF ed2, of "slashes v"] by (simp add: m3_def lp(3))
  have chr: "chrreplace pd 0x5c 0x2f m2 = Some m3"
    using chrreplace_cstr [OF cv] by (simp add: m3_def slashes_def)
  have cv3: "cstr m3 pd (slashes v)"
    using holds_cstr [of m3 p "xs @ A" "slashes v" "zs @ ys"] e3 no_nul_slashes [OF nv] by (simp add: edited_def lp(3))
  have sa: "string_at m2 pd = v" "string_at m3 pd = slashes v"
    using string_at_cstr cv cv3 lv by simp_all
  note sb = strncmp_begins [OF lits2 e2 ck]
  have "literals_at L m0 p (length ?B3)" using lits2 by simp
  note no = strncmp_begins(4) [OF this e3 cv3]
  have "parse_line L dir (p + of_nat (length xs)) st = line_action dir k v pd (st\<lparr>buffer_mem := m2\<rparr>) (st\<lparr>buffer_mem := m3\<rparr>)"
    by (simp add: parse_line_def line_action_def lp(1,2) sb chr sa no)
  with lp(3,4) e2 e3 show ?thesis unfolding v_def k_def by auto
qed

lemma parse_line_says:
  assumes ed: "edited m0 p (xs @ l @ 0 # ys) (buffer_mem st)" and p: "p \<noteq> 0" and nl: "0 \<notin> set l"
    and bl: "c \<in> set l" "c \<in> {0x20, 0x09}" and lits: "literals_at L m0 p (length (xs @ l @ 0 # ys))"
    and ok: "line_ok dir l" and dir: "\<And>d. dir = Some d \<Longrightarrow> 0 \<notin> set d"
    and st: "stands_for p (xs @ l @ 0 # ys) (length xs) st (is, d)"
  shows "\<exists>st' w. parse_line L dir (p + of_nat (length xs)) st = Some st' \<and> length w = Suc (length l)
    \<and> edited m0 p (xs @ w @ ys) (buffer_mem st') \<and> stands_for p (xs @ w @ ys) (length xs + length w) st' (says dir l (is, d))"
proof -
  define v k where "v = value_of l" and "k = key_of l"
  obtain A zs m2 m3 pd where pl: "parse_line L dir (p + of_nat (length xs)) st
        = line_action dir k v pd (st\<lparr>buffer_mem := m2\<rparr>) (st\<lparr>buffer_mem := m3\<rparr>)"
    and pd: "pd = p + of_nat (length (xs @ A))" and lA: "length A + length v + length zs = length l"
    and e2': "edited m0 p (xs @ (A @ v @ 0 # zs) @ ys) m2" and e3': "edited m0 p (xs @ (A @ slashes v @ 0 # zs) @ ys) m3"
    using parse_line_acts [OF ed p nl bl lits] unfolding v_def k_def by blast
  have nv: "0 \<notin> set v" using nl set_value unfolding v_def by blast
  have ent: "entries_are (config_entries st) is" and def: "default_at p (xs @ l @ 0 # ys) (length xs) d (defaultTitle st)"
    using st by (simp_all add: stands_for_def)
  have keep: "default_at p (xs @ w @ ys) (length xs + length w) d (defaultTitle st)" for w
    by (rule default_at_keep [OF def]) simp_all
  have len: "length (A @ v @ 0 # zs) = Suc (length l)" "length (A @ slashes v @ 0 # zs) = Suc (length l)"
    using lA by simp_all
  have kw: "v \<noteq> [] \<and> length v + (case dir of None \<Rightarrow> 0 | Some d \<Rightarrow> length d) \<le> 2046" if "keyword k"
    using ok that unfolding line_ok_def v_def k_def by blast
  then have lv2: "length v \<le> 2046" if "keyword k" using that by fastforce
  have fin: ?thesis
    if "line_action dir k v pd (st\<lparr>buffer_mem := m2\<rparr>) (st\<lparr>buffer_mem := m3\<rparr>) = Some (st\<lparr>buffer_mem := m, config_entries := es, defaultTitle := dt\<rparr>)"
      "length w = Suc (length l)" "edited m0 p (xs @ w @ ys) m" "entries_are es is'"
      "default_at p (xs @ w @ ys) (length xs + length w) d' dt" "says dir l (is, d) = (is', d')" for m es dt w is' d'
    using that unfolding pl stands_for_def
    by (intro exI [of _ "st\<lparr>buffer_mem := m, config_entries := es, defaultTitle := dt\<rparr>"] exI [of _ w]) simp
  note says = says_def prod.case Let_def v_def [symmetric] k_def [symmetric]
  consider (title) "begins TITLE_KEY k" | (kernel) "\<not> begins TITLE_KEY k" "begins KERNEL_KEY k"
    | (initrd) "\<not> begins TITLE_KEY k" "\<not> begins KERNEL_KEY k" "begins INITRD_KEY k"
    | (append) "\<not> begins TITLE_KEY k" "\<not> begins KERNEL_KEY k" "\<not> begins INITRD_KEY k" "begins APPEND_KEY k"
    | (dflt) "\<not> begins TITLE_KEY k" "\<not> begins KERNEL_KEY k" "\<not> begins INITRD_KEY k" "\<not> begins APPEND_KEY k" "begins DEFAULT_KEY k"
    | (other) "\<not> begins TITLE_KEY k" "\<not> begins KERNEL_KEY k" "\<not> begins INITRD_KEY k" "\<not> begins APPEND_KEY k" "\<not> begins DEFAULT_KEY k"
    by blast
  then show ?thesis
  proof cases
    case title
    then have v: "length v \<le> 2063" using lv2 by (fastforce simp: keyword_def)
    obtain es where "set_title v (st\<lparr>buffer_mem := m2\<rparr>) = Some (st\<lparr>buffer_mem := m2, config_entries := es\<rparr>)"
      "entries_are es (if i_title (last is) = [] then on_last (i_title_update (\<lambda>_. v)) is else is @ [blank_item\<lparr>i_title := v\<rparr>])"
      using set_title_step [of "st\<lparr>buffer_mem := m2\<rparr>" "is" v] ent v nv by auto
    then show ?thesis by (intro fin [OF _ len(1) e2' _ keep]) (simp_all add: line_action_def says title)
  next
    case kernel
    then have "keyword k" by (simp add: keyword_def)
    then have "length (slashes v) + (case dir of None \<Rightarrow> 0 | Some d \<Rightarrow> length d) \<le> 2046" using kw by simp
    then obtain es where "set_path KERNEL dir (slashes v) (st\<lparr>buffer_mem := m3\<rparr>) = Some (st\<lparr>buffer_mem := m3, config_entries := es\<rparr>)"
      "entries_are es (on_last (i_kernel_update (\<lambda>_. in_directory dir (slashes v))) is)"
      using set_path_step(1) [of "st\<lparr>buffer_mem := m3\<rparr>" "is" "slashes v" dir] ent no_nul_slashes [OF nv] dir by auto
    then show ?thesis by (intro fin [OF _ len(2) e3' _ keep]) (simp_all add: line_action_def says kernel)
  next
    case initrd
    then have "keyword k" by (simp add: keyword_def)
    then have "length (slashes v) + (case dir of None \<Rightarrow> 0 | Some d \<Rightarrow> length d) \<le> 2046" using kw by simp
    then obtain es where "set_path INITRD dir (slashes v) (st\<lparr>buffer_mem := m3\<rparr>) = Some (st\<lparr>buffer_mem := m3, config_entries := es\<rparr>)"
      "entries_are es (on_last (i_initrd_update (\<lambda>_. in_directory dir (slashes v))) is)"
      using set_path_step(2) [of "st\<lparr>buffer_mem := m3\<rparr>" "is" "slashes v" dir] ent no_nul_slashes [OF nv] dir by auto
    then show ?thesis using ent
      by (cases "begins NO_KEY (slashes v)"; intro fin [OF _ len(2) e3' _ keep]) (simp_all add: line_action_def says initrd)
  next
    case append
    then have v: "length v \<le> 2046" using lv2 by (simp add: keyword_def)
    obtain es where "on_current (put_chars APPEND v) (st\<lparr>buffer_mem := m2\<rparr>) = Some (st\<lparr>buffer_mem := m2, config_entries := es\<rparr>)"
      "entries_are es (on_last (i_append_update (\<lambda>a. v @ drop (length v) a)) is)"
      using set_append_step [of "st\<lparr>buffer_mem := m2\<rparr>" "is" v] ent v nv by auto
    then show ?thesis by (intro fin [OF _ len(1) e2' _ keep]) (simp_all add: line_action_def says append)
  next
    case dflt
    have "default_at p (xs @ (A @ v @ 0 # zs) @ ys) (length xs + length (A @ v @ 0 # zs)) (Some v) pd"
      unfolding default_at_def option.case using nv pd by (intro exI [of _ "xs @ A"] exI [of _ "zs @ ys"]) simp
    with ent show ?thesis by (intro fin [OF _ len(1) e2']) (simp_all add: line_action_def says dflt)
  next
    case other
    with ent show ?thesis by (intro fin [OF _ len(1) e2' _ keep]) (simp_all add: line_action_def says)
  qed
qed

text \<open>A line without a blank names no key; the blanks at the end of the rest are cut off.\<close>

lemma no_blank: "\<forall>c \<in> set l. c \<notin> {0x20, 0x09} \<Longrightarrow> key_of l = l \<and> value_of l = []"
proof -
  assume "\<forall>c \<in> set l. c \<notin> {0x20, 0x09}"
  then have "key_of l = l" unfolding key_of_def by (simp only: takeWhile_eq_all_conv)
  then show ?thesis by (simp add: value_of_def trim_blank)
qed

lemma not_keyword:
  assumes "\<not> keyword k"
  shows "\<not> begins TITLE_KEY k" "\<not> begins KERNEL_KEY k" "\<not> begins INITRD_KEY k" "\<not> begins APPEND_KEY k" "\<not> begins DEFAULT_KEY k"
  using assms by (simp_all add: keyword_def)

lemma says_other: "\<not> keyword (key_of l) \<Longrightarrow> says dir l s = s"
  by (cases s) (simp add: says_def not_keyword)

lemma parse_line_skips:
  assumes ed: "edited m0 p (xs @ l @ 0 # U @ 0 # zs) (buffer_mem st)" and p: "p \<noteq> 0" and nl: "0 \<notin> set l" "0 \<notin> set U"
    and bl: "\<forall>c \<in> set l. c \<notin> {0x20, 0x09}" and lits: "literals_at L m0 p (length (xs @ l @ 0 # U @ 0 # zs))"
    and kw: "\<not> keyword (key_of l)"
  shows "\<exists>m. parse_line L dir (p + of_nat (length xs)) st = Some (st\<lparr>buffer_mem := m\<rparr>)
    \<and> edited m0 p (xs @ l @ 0 # cut U zs) m"
proof -
  have h: "holds (buffer_mem st) p (xs @ l @ 0 # U @ 0 # zs)" using ed by (simp add: edited_def)
  have tok: "takeWhile (\<lambda>c. c \<notin> set [0x20, 0x09]) l = l" using bl by (simp only: takeWhile_eq_all_conv) simp
  have sep: "strsep (p + of_nat (length xs)) (lit_blanks L) (buffer_mem st) = Some (p + of_nat (length xs), 0, buffer_mem st)"
    using strsep_holds [OF h nl(1) p literals_cstr(2) [OF lits ed] tok] by simp
  obtain pd m2 where fv: "find_value (p + of_nat (length xs)) (buffer_mem st) = Some (pd, m2)"
    and va: "value_at (buffer_mem st) p (xs @ l @ [0]) U zs (pd, m2)"
    using find_value_holds [OF h nl] by (metis surj_pair)
  then have "holds m2 p (xs @ l @ 0 # cut U zs)" "within p (length (xs @ l @ 0 # cut U zs)) (buffer_mem st) m2"
    by (auto simp: value_at_def)
  then have e2: "edited m0 p (xs @ l @ 0 # cut U zs) m2" using ed within_trans by (fastforce simp: edited_def)
  have ck: "cstr m2 (p + of_nat (length xs)) l" using holds_cstr e2 nl(1) unfolding edited_def by blast
  have "literals_at L m0 p (length (xs @ l @ 0 # cut U zs))" using lits by simp
  note sb = strncmp_begins [OF this e2 ck]
  have "\<not> keyword l" using kw no_blank [OF bl] by simp
  then have "parse_line L dir (p + of_nat (length xs)) st = Some (st\<lparr>buffer_mem := m2\<rparr>)"
    by (simp add: parse_line_def sep fv sb not_keyword)
  with e2 show ?thesis by blast
qed

section \<open>Blanks at the end of a file\<close>

lemma lines_of_snoc:
  "lines_of (s @ [c]) = (if c = 0x0a then lines_of s @ [[]] else butlast (lines_of s) @ [last (lines_of s) @ [c]])"
proof (induction s rule: lines_of.induct)
  case (1 s)
  show ?case
  proof (cases "0x0a \<in> set s")
    case True
    have n: "lines_of t \<noteq> []" for t by (subst lines_of.simps) simp
    let ?l = "takeWhile (\<lambda>c. c \<noteq> 0x0a) s" and ?r = "tl (dropWhile (\<lambda>c. c \<noteq> 0x0a) s)"
    have d: "dropWhile (\<lambda>c. c \<noteq> 0x0a) s \<noteq> []" using True by (auto simp: dropWhile_eq_Nil_conv)
    have "lines_of (s @ [c]) = ?l # lines_of (?r @ [c])"
      using True d by (subst lines_of.simps) (simp add: takeWhile_append1 dropWhile_append1)
    also have "\<dots> = (if c = 0x0a then (?l # lines_of ?r) @ [[]] else butlast (?l # lines_of ?r) @ [last (?l # lines_of ?r) @ [c]])"
      using 1 [OF True] n by simp
    also have "?l # lines_of ?r = lines_of s" using True by (subst (2) lines_of.simps) simp
    finally show ?thesis .
  next
    case False
    then have s: "lines_of s = [s]" by (subst lines_of.simps) simp
    have e: "lines_of [] = [[]]" by (subst lines_of.simps) simp
    have "takeWhile (\<lambda>c. c \<noteq> 0x0a) (s @ [0x0a]) = s" "dropWhile (\<lambda>c. c \<noteq> 0x0a) (s @ [0x0a]) = [0x0a]"
      using False by (subst takeWhile_append2 dropWhile_append2; fastforce)+
    with False e show ?thesis by (subst lines_of.simps) (auto simp: s)
  qed
qed

lemma rtrim_snoc: "isspace c \<Longrightarrow> rtrim (s @ [c]) = rtrim s"
  by (simp add: rtrim_def)

lemma begins_snoc: "c \<notin> set w \<Longrightarrow> begins w (s @ [c]) \<longleftrightarrow> begins w s"
proof -
  assume c: "c \<notin> set w"
  show ?thesis
  proof (cases "length w \<le> length s")
    case False
    then have "take (length w) (s @ [c]) = s @ [c]" "take (length w) s = s" by auto
    with c False show ?thesis by (auto simp: begins_def)
  qed (simp add: begins_def)
qed

lemma keyword_snoc: "isspace c \<Longrightarrow> keyword (s @ [c]) \<longleftrightarrow> keyword s"
proof -
  assume "isspace c"
  then have "c \<notin> set TITLE_KEY" "c \<notin> set KERNEL_KEY" "c \<notin> set INITRD_KEY" "c \<notin> set APPEND_KEY" "c \<notin> set DEFAULT_KEY"
    by (auto simp: keys isspace_def)
  then show ?thesis by (simp add: keyword_def begins_snoc)
qed

lemma line_snoc:
  assumes c: "isspace c" and ok: "line_ok dir (l @ [c])"
  shows "says dir (l @ [c]) s = says dir l s \<and> line_ok dir l"
proof (cases "\<exists>b \<in> set l. b \<in> {0x20, 0x09}")
  case True
  then have k: "key_of (l @ [c]) = key_of l" unfolding key_of_def by (auto intro: takeWhile_append1)
  obtain b where "b \<in> set l" "b \<in> {0x20, 0x09}" using True by blast
  then have "length (key_of l) < length l" using key_parts [of b l] by (metis length_append length_Cons less_add_Suc1 add_Suc_right)
  then have "value_of (l @ [c]) = trim (drop (Suc (length (key_of l))) l @ [c])" by (simp add: value_of_def k Suc_leI)
  then have v: "value_of (l @ [c]) = value_of l" using c by (simp add: value_of_def trim_def rtrim_snoc)
  show ?thesis using ok by (cases s) (simp add: says_def line_ok_def k v)
next
  case False
  then have nb: "\<forall>b \<in> set l. b \<notin> {0x20, 0x09}" by blast
  have "value_of (l @ [c]) = [] \<and> (key_of (l @ [c]) = l \<or> key_of (l @ [c]) = l @ [c])"
  proof (cases "c \<in> {0x20, 0x09}")
    case True
    then have "key_of (l @ [c]) = l" using nb unfolding key_of_def by (subst takeWhile_append2) auto
    then show ?thesis by (simp add: value_of_def trim_blank)
  next
    case False
    with nb no_blank [of "l @ [c]"] show ?thesis by auto
  qed
  then have "\<not> keyword (key_of (l @ [c]))" "\<not> keyword (key_of l)"
    using ok keyword_snoc [OF c, of l] no_blank [OF nb] unfolding line_ok_def by auto
  then show ?thesis using says_other by (simp add: line_ok_def)
qed

lemma lines_of_not_Nil [simp]: "lines_of s \<noteq> []"
  by (subst lines_of.simps) simp

lemma file_snoc:
  assumes c: "isspace c" and ok: "\<forall>l \<in> set (lines_of (s @ [c])). line_ok dir l"
  shows "fold (says dir) (lines_of (s @ [c])) r = fold (says dir) (lines_of s) r \<and> (\<forall>l \<in> set (lines_of s). line_ok dir l)"
proof (cases "c = 0x0a")
  case True
  have "\<not> keyword (key_of [])" by (simp add: key_of_def keyword_def begins_def keys)
  with True ok show ?thesis by (simp add: lines_of_snoc says_other)
next
  case False
  have l: "lines_of s = butlast (lines_of s) @ [last (lines_of s)]" by simp
  have "line_ok dir (last (lines_of s) @ [c])" using ok False by (simp add: lines_of_snoc)
  note s = line_snoc [OF c this]
  have "fold (says dir) (lines_of (s @ [c])) r = says dir (last (lines_of s) @ [c]) (fold (says dir) (butlast (lines_of s)) r)"
    using False by (simp add: lines_of_snoc)
  also have "\<dots> = says dir (last (lines_of s)) (fold (says dir) (butlast (lines_of s)) r)" using s by blast
  also have "\<dots> = fold (says dir) (butlast (lines_of s) @ [last (lines_of s)]) r" by (simp only: fold_append fold.simps comp_apply id_apply)
  finally have "fold (says dir) (lines_of (s @ [c])) r = fold (says dir) (butlast (lines_of s) @ [last (lines_of s)]) r" .
  moreover have "\<forall>l \<in> set (butlast (lines_of s)). line_ok dir l" using ok False by (simp add: lines_of_snoc)
  then have "\<forall>l \<in> set (butlast (lines_of s) @ [last (lines_of s)]). line_ok dir l"
    using s [THEN conjunct2] by (simp only: set_append Un_iff set_simps) blast
  ultimately show ?thesis using l by simp
qed

lemma file_rtrim:
  assumes "\<forall>l \<in> set (lines_of s). line_ok dir l"
  shows "fold (says dir) (lines_of (rtrim s)) r = fold (says dir) (lines_of s) r \<and> (\<forall>l \<in> set (lines_of (rtrim s)). line_ok dir l)"
proof -
  obtain ws where ws: "s = rtrim s @ ws" "\<forall>c \<in> set ws. isspace c" using rtrim_blanks by blast
  have "(\<forall>l \<in> set (lines_of (t @ ws)). line_ok dir l) \<Longrightarrow>
    fold (says dir) (lines_of t) r = fold (says dir) (lines_of (t @ ws)) r \<and> (\<forall>l \<in> set (lines_of t). line_ok dir l)" for t
    using ws(2)
  proof (induction ws rule: rev_induct)
    case (snoc w ws)
    from file_snoc [of w "t @ ws" dir r] snoc show ?case by simp
  qed simp
  from this [of "rtrim s"] ws(1) assms show ?thesis by metis
qed

section \<open>The whole file\<close>

lemma line_split:
  assumes "0x0a \<in> set R"
  shows "R = takeWhile (\<lambda>c. c \<noteq> 0x0a) R @ 0x0a # tl (dropWhile (\<lambda>c. c \<noteq> 0x0a) R)"
proof -
  have "dropWhile (\<lambda>c. c \<noteq> 0x0a) R \<noteq> []" using assms by (auto simp: dropWhile_eq_Nil_conv)
  then have "dropWhile (\<lambda>c. c \<noteq> 0x0a) R = 0x0a # tl (dropWhile (\<lambda>c. c \<noteq> 0x0a) R)"
    using hd_dropWhile [of "\<lambda>c. c \<noteq> 0x0a" R] by (metis list.collapse)
  then show ?thesis by (metis takeWhile_dropWhile_id)
qed

lemma stands_for_keep:
  "stands_for p B n st s \<Longrightarrow> take n B' = take n B \<Longrightarrow> n \<le> n' \<Longrightarrow> stands_for p B' n' (st\<lparr>buffer_mem := m\<rparr>) s"
  using default_at_keep by (auto simp: stands_for_def)

definition parsed :: "u32 \<Rightarrow> mem \<Rightarrow> nat \<Rightarrow> boot_item list \<times> u8 list option \<Rightarrow> parser option \<Rightarrow> bool" where
  "parsed p m0 N s r \<longleftrightarrow> (\<exists>st B n. r = Some st \<and> stands_for p B n st s \<and> edited m0 p B (buffer_mem st) \<and> length B = N)"

text \<open>One line, whichever: what it says, and what is left of the rest of the file.\<close>

lemma parse_one_line:
  assumes ed: "edited m0 p (xs @ l @ 0 # R @ 0 # ys) (buffer_mem st)" and p: "p \<noteq> 0" and n: "0 \<notin> set l" "0 \<notin> set R"
    and lits: "literals_at L m0 p (length (xs @ l @ 0 # R @ 0 # ys))"
    and ok: "line_ok dir l" and dir: "\<And>d. dir = Some d \<Longrightarrow> 0 \<notin> set d"
    and st: "stands_for p (xs @ l @ 0 # R @ 0 # ys) (length xs) st s"
  shows "\<exists>st' w R' ys'. parse_line L dir (p + of_nat (length xs)) st = Some st' \<and> length w = Suc (length l)
    \<and> edited m0 p (xs @ w @ R' @ 0 # ys') (buffer_mem st')
    \<and> stands_for p (xs @ w @ R' @ 0 # ys') (length (xs @ w)) st' (says dir l s)
    \<and> R' \<in> {R, rtrim R} \<and> length R' + length ys' = length R + length ys \<and> set ys \<subseteq> set ys'"
proof (cases "\<exists>c \<in> set l. c \<in> {0x20, 0x09}")
  case True
  then obtain c where c: "c \<in> set l" "c \<in> {0x20, 0x09}" by blast
  have "stands_for p (xs @ l @ 0 # R @ 0 # ys) (length xs) st (fst s, snd s)" using st by simp
  from parse_line_says [OF ed p n(1) c lits ok dir this] show ?thesis by fastforce
next
  case False
  then have nb: "\<forall>c \<in> set l. c \<notin> {0x20, 0x09}" by blast
  then have kw: "\<not> keyword (key_of l)" using ok no_blank unfolding line_ok_def by blast
  obtain m where m: "parse_line L dir (p + of_nat (length xs)) st = Some (st\<lparr>buffer_mem := m\<rparr>)"
    "edited m0 p (xs @ l @ 0 # cut R ys) m"
    using parse_line_skips [OF ed p n nb lits kw] by blast
  obtain zs where zs: "cut R ys = rtrim R @ 0 # zs @ ys" "length zs + length (rtrim R) = length R"
    using cut_text by blast
  have "stands_for p (xs @ (l @ [0]) @ rtrim R @ 0 # zs @ ys) (length (xs @ l @ [0])) (st\<lparr>buffer_mem := m\<rparr>) s"
    by (rule stands_for_keep [OF st]) simp_all
  then show ?thesis using m zs says_other [OF kw]
    by (intro exI [of _ "st\<lparr>buffer_mem := m\<rparr>"] exI [of _ "l @ [0]"] exI [of _ "rtrim R"] exI [of _ "zs @ ys"]) simp
qed

lemma strsep_null: "strsep 0 ct m = Some (0, 0, m)"
  by (simp add: strsep_def)

lemma parse_lines_says:
  assumes "edited m0 p (xs @ R @ 0 # ys) (buffer_mem st)" "p \<noteq> 0" "0 \<notin> set R" "0 \<in> set ys"
    "literals_at L m0 p (length (xs @ R @ 0 # ys))" "\<forall>l \<in> set (lines_of R). line_ok dir l"
    "\<And>d. dir = Some d \<Longrightarrow> 0 \<notin> set d" "stands_for p (xs @ R @ 0 # ys) (length xs) st s"
  shows "parsed p m0 (length (xs @ R @ 0 # ys)) (fold (says dir) (lines_of R) s)
    (parse_lines L dir (p + of_nat (length xs)) st)"
  using assms
proof (induction "length R" arbitrary: xs R ys st s rule: less_induct)
  case less
  note ed = less.prems(1) and p = less.prems(2) and n = less.prems(3) and lits = less.prems(5) and ok = less.prems(6)
    and dir = less.prems(7) and st = less.prems(8)
  let ?q = "p + of_nat (length xs)" and ?l = "takeWhile (\<lambda>c. c \<noteq> 0x0a) R"
  have h: "holds (buffer_mem st) p (xs @ R @ 0 # ys)" using ed by (simp add: edited_def)
  have q0: "?q \<noteq> 0" using holds_not_null [OF h p] by simp
  have tok: "takeWhile (\<lambda>c. c \<notin> set [0x0a]) R = ?l" by simp
  note sep = strsep_holds [OF h n p literals_cstr(1) [OF lits ed] tok]
  show ?case
  proof (cases "0x0a \<in> set R")
    case True
    define l R1 where "l = ?l" and "R1 = tl (dropWhile (\<lambda>c. c \<noteq> 0x0a) R)"
    have R: "R = l @ 0x0a # R1" using line_split [OF True] by (simp add: l_def R1_def)
    have lR: "lines_of R = l # lines_of R1" using True by (subst lines_of.simps) (simp add: l_def R1_def)
    let ?st = "st\<lparr>buffer_mem := (buffer_mem st)(p + of_nat (length (xs @ l)) := 0)\<rparr>"
    have "l \<noteq> R" using R by auto
    then have s1: "strsep ?q (lit_newline L) (buffer_mem st) = Some (?q, p + of_nat (length (xs @ l @ [0])), buffer_mem ?st)"
      unfolding sep l_def [symmetric] by simp
    have ed1: "edited m0 p (xs @ l @ 0 # R1 @ 0 # ys) (buffer_mem ?st)"
      using edited_upd [of m0 p "xs @ l" "0x0a" "R1 @ 0 # ys" "buffer_mem st" 0] ed by (simp add: R)
    have st1: "stands_for p (xs @ l @ 0 # R1 @ 0 # ys) (length xs) ?st s"
      by (rule stands_for_keep [OF st]) simp_all
    have n1: "0 \<notin> set l" "0 \<notin> set R1" using n by (auto simp: R)
    have "literals_at L m0 p (length (xs @ l @ 0 # R1 @ 0 # ys))" using lits by (simp add: R)
    moreover have "line_ok dir l" using ok lR by simp
    ultimately obtain st' w R' ys' where one: "parse_line L dir ?q ?st = Some st'" "length w = Suc (length l)"
      "edited m0 p (xs @ w @ R' @ 0 # ys') (buffer_mem st')"
      "stands_for p (xs @ w @ R' @ 0 # ys') (length (xs @ w)) st' (says dir l s)"
      "R' \<in> {R1, rtrim R1}" "length R' + length ys' = length R1 + length ys" "set ys \<subseteq> set ys'"
      using parse_one_line [OF ed1 p n1 _ _ dir st1] by blast
    have ok1: "\<forall>l \<in> set (lines_of R1). line_ok dir l" using ok lR by simp
    have R': "fold (says dir) (lines_of R') r = fold (says dir) (lines_of R1) r" "\<forall>l \<in> set (lines_of R'). line_ok dir l"
      "0 \<notin> set R'" "length R' \<le> length R1" for r
      using one(5) file_rtrim [OF ok1, of r] ok1 n1(2) length_rtrim [of R1] rtrim_blanks [of R1]
      by (auto, metis UnI1 set_append)
    have len: "length ((xs @ w) @ R' @ 0 # ys') = length (xs @ R @ 0 # ys)" using one(2,6) by (simp add: R)
    have "parsed p m0 (length ((xs @ w) @ R' @ 0 # ys')) (fold (says dir) (lines_of R') (says dir l s))
      (parse_lines L dir (p + of_nat (length (xs @ w))) st')"
    proof (rule less.hyps)
      show "length R' < length R" using R'(4) by (simp add: R)
      show "literals_at L m0 p (length ((xs @ w) @ R' @ 0 # ys'))" unfolding len by (rule lits)
      show "0 \<in> set ys'" using one(7) less.prems(4) by blast
    qed (use one R' p dir in \<open>simp_all\<close>)
    moreover have "p + of_nat (length (xs @ w)) = p + of_nat (length (xs @ l @ [0]))" using one(2) by simp
    moreover have "st\<lparr>buffer_mem := buffer_mem ?st\<rparr> = ?st" by simp
    ultimately show ?thesis using q0 R'(1) unfolding len
      by (subst parse_lines.simps) (simp only: s1 one(1) option.case prod.case if_False lR fold.simps comp_apply)
  next
    case False
    then have lR: "lines_of R = [R]" by (subst lines_of.simps) simp
    have "?l = R" using False by (auto simp: takeWhile_eq_all_conv)
    have s1: "strsep ?q (lit_newline L) (buffer_mem st) = Some (?q, 0, buffer_mem st)"
      unfolding sep using \<open>?l = R\<close> by simp
    obtain U zs where ys: "ys = U @ 0 # zs" "0 \<notin> set U" using split_list_first [OF less.prems(4)] by blast
    have "line_ok dir R" using ok lR by simp
    with parse_one_line [of m0 p xs R U zs st L dir s] ed p n ys lits dir st
    obtain st' w R' ys' where one: "parse_line L dir ?q st = Some st'" "length w = Suc (length R)"
      "edited m0 p (xs @ w @ R' @ 0 # ys') (buffer_mem st')"
      "stands_for p (xs @ w @ R' @ 0 # ys') (length (xs @ w)) st' (says dir R s)"
      "length R' + length ys' = length U + length zs" by auto
    then have "parsed p m0 (length (xs @ R @ 0 # ys)) (says dir R s) (parse_lines L dir 0 st')"
      unfolding parsed_def
      by (intro exI [of _ st'] exI [of _ "xs @ w @ R' @ 0 # ys'"] exI [of _ "length (xs @ w)"])
        (auto simp: ys parse_lines.simps [of L dir 0] strsep_null)
    then show ?thesis using q0
      by (subst parse_lines.simps) (simp add: s1 one(1) lR)
  qed
qed

definition item_of :: "CONFIGENTRY \<Rightarrow> boot_item" where
  "item_of e = \<lparr>i_title = get_chars TITLE e, i_kernel = get_chars KERNEL e, i_initrd = get_chars INITRD e,
     i_append = get_chars APPEND e\<rparr>"

lemma item_of_entry: "entry_is e i \<Longrightarrow> item_of e = i"
  by (simp add: item_of_def entry_is_get)

lemma get_chars_default [simp]: "get_chars off (e\<lparr>isDefault := b\<rparr>) = get_chars off e"
  by (simp add: get_chars_def)

lemma items_of_entries: "list_all2 entry_is es is \<Longrightarrow> map item_of es = is"
  by (induction rule: list_all2_induct) (simp_all add: item_of_entry)

lemma mark_default_items:
  "list_all2 entry_is es is \<Longrightarrow> \<forall>e \<in> set es. \<not> isDefault e \<Longrightarrow>
   map item_of (mark_default t es) = is \<and>
   (\<forall>n < length es. isDefault (mark_default t es ! n) \<longleftrightarrow> default_item (is, Some t) = Some n)"
proof (induction rule: list_all2_induct)
  case (Cons e es i "is")
  have m: "map item_of es = is" using items_of_entries [OF Cons.hyps(2)] .
  have e: "item_of e = i" "get_chars TITLE e = i_title i" using Cons.hyps(1) by (simp_all add: item_of_entry entry_is_get)
  show ?case
  proof (cases "begins t (i_title i)")
    case True
    then have "mark_default t (e # es) = e\<lparr>isDefault := True\<rparr> # es" by (simp add: begins_def e(2))
    moreover have "item_of (e\<lparr>isDefault := True\<rparr>) = i" using e(1) by (simp add: item_of_def)
    ultimately show ?thesis using True m Cons.prems
      by (auto simp: default_item_def nth_Cons split: nat.splits)
  next
    case False
    then have "mark_default t (e # es) = e # mark_default t es" by (simp add: begins_def e(2))
    with False e(1) Cons show ?thesis
      by (auto simp: default_item_def nth_Cons split: nat.splits if_splits)
  qed
qed simp

lemma mark_default_keeps: "\<forall>e \<in> set es. bootSystem e = SYS_LINUX \<Longrightarrow> \<forall>e \<in> set (mark_default t es). bootSystem e = SYS_LINUX"
  by (induction es) auto

lemma parse_config_reads:
  assumes area: "rd m p (length (file @ b # rest)) = file @ b # rest" "unat p + length (file @ b # rest) < 2 ^ 32"
    and p: "p \<noteq> 0" and nul: "0 \<notin> set file" "0 \<in> set rest"
    and lits: "literals_at L m p (length (file @ b # rest))"
    and ok: "\<forall>l \<in> set (lines_of file). line_ok dir l" and dir: "\<And>d. dir = Some d \<Longrightarrow> 0 \<notin> set d"
  shows "\<exists>es m'. ParseConfig L p (of_nat (length file)) dir m = Some (es, m')
    \<and> map item_of es = fst (file_says dir file) \<and> (\<forall>e \<in> set es. bootSystem e = SYS_LINUX)
    \<and> (\<forall>i < length es. isDefault (es ! i) \<longleftrightarrow> default_item (file_says dir file) = Some i)
    \<and> within p (length (file @ b # rest)) m m'"
proof -
  let ?st = "\<lparr>buffer_mem = m(p + of_nat (length file) := 0), config_entries = [new_entry], defaultTitle = 0\<rparr>"
  have "edited m p (file @ b # rest) m" using area by (simp add: edited_def holds_def)
  then have ed: "edited m p ([] @ file @ 0 # rest) (buffer_mem ?st)" using edited_upd [of m p "file" b rest m 0] by simp
  have "entries_are [new_entry] [blank_item]" using new_entry_blank by (simp add: entries_are_def new_entry_def)
  then have st: "stands_for p ([] @ file @ 0 # rest) (length []) ?st ([blank_item], None)"
    by (simp add: stands_for_def default_at_def)
  have "literals_at L m p (length ([] @ file @ 0 # rest))" using lits by simp
  from parse_lines_says [OF ed p nul this ok dir st]
  obtain st' B n where pl: "parse_lines L dir p ?st = Some st'" and sf: "stands_for p B n st' (file_says dir file)"
    and ed': "edited m p B (buffer_mem st')" and B: "length B = length (file @ b # rest)"
    by (auto simp: parsed_def file_says_def)
  obtain "is" d where fs: "file_says dir file = (is, d)" by fastforce
  have ent: "entries_are (config_entries st') is" and def: "default_at p B n d (defaultTitle st')"
    using sf by (simp_all add: stands_for_def fs)
  then have la: "list_all2 entry_is (config_entries st') is" "\<forall>e \<in> set (config_entries st'). \<not> isDefault e \<and> bootSystem e = SYS_LINUX"
    unfolding entries_are_def by (auto, (metis CONFIGENTRY.select_convs(3,5) CONFIGENTRY.update_convs(6) new_entry_def)+)
  have w: "within p (length (file @ b # rest)) m (buffer_mem st')" using ed' B by (simp add: edited_def)
  show ?thesis
  proof (cases d)
    case None
    then have "ParseConfig L p (of_nat (length file)) dir m = Some (config_entries st', buffer_mem st')"
      using def pl by (simp add: ParseConfig_def default_at_def)
    with None la w items_of_entries [OF la(1)] show ?thesis by (simp add: fs default_item_def)
  next
    case (Some t)
    then obtain A C where t: "B = A @ t @ 0 # C" "0 \<notin> set t" "defaultTitle st' = p + of_nat (length A)"
      using def by (auto simp: default_at_def)
    have h: "holds (buffer_mem st') p (A @ t @ 0 # C)" using ed' t(1) by (simp add: edited_def)
    have "length t < 2 ^ 32 - 1" using holds_bound [OF h] by simp
    then have s: "string_at (buffer_mem st') (defaultTitle st') = t"
      unfolding t(3) by (intro string_at_cstr holds_cstr [OF h t(2)])
    have "defaultTitle st' \<noteq> 0" unfolding t(3) by (rule holds_not_null [OF h p]) simp
    then have "ParseConfig L p (of_nat (length file)) dir m = Some (mark_default t (config_entries st'), buffer_mem st')"
      using pl s by (simp add: ParseConfig_def)
    moreover have "length (mark_default t es) = length es" for es by (induction es) auto
    ultimately show ?thesis
      using la w mark_default_items [OF la(1), of t] mark_default_keeps [of "config_entries st'" t] by (simp add: fs Some)
  qed
qed


definition sample_literals :: literals where
  "sample_literals = \<lparr>lit_newline = 0x100, lit_blanks = 0x110, lit_title = 0x120, lit_kernel = 0x130,
     lit_initrd = 0x140, lit_no = 0x150, lit_append = 0x160, lit_default = 0x170\<rparr>"

text \<open>An empty line in the middle and a line end at the end of the file.\<close>

definition sample_file :: "u8 list" where
  "sample_file = [0x74, 0x69, 0x74, 0x6c, 0x65, 0x20, 0x41, 0x0a, 0x6b, 0x65, 0x72, 0x6e, 0x65, 0x6c, 0x20, 0x20, 0x6b, 0x0d, 0x0a,
     0x0a, 0x64, 0x65, 0x66, 0x61, 0x75, 0x6c, 0x74, 0x20, 0x41, 0x0a]"

definition sample_mem :: mem where
  "sample_mem = wr 0x1000 (sample_file @ [0xFF, 0])
     (fold (\<lambda>(a, s). wr a (s @ [0])) (literal_strings sample_literals) (\<lambda>_. 0))"

lemma sample_lines:
  "lines_of sample_file = [[0x74, 0x69, 0x74, 0x6c, 0x65, 0x20, 0x41], [0x6b, 0x65, 0x72, 0x6e, 0x65, 0x6c, 0x20, 0x20, 0x6b, 0x0d],
     [], [0x64, 0x65, 0x66, 0x61, 0x75, 0x6c, 0x74, 0x20, 0x41], []]"
  by code_simp

lemma sample_says:
  "file_says None sample_file = ([\<lparr>i_title = [0x41], i_kernel = [0x2f, 0x6b], i_initrd = [], i_append = []\<rparr>], Some [0x41])"
  unfolding file_says_def sample_lines by code_simp

lemma sample_ok: "\<forall>l \<in> set (lines_of sample_file). line_ok None l"
  unfolding sample_lines by code_simp

lemma sample_literals_at: "literals_at sample_literals sample_mem 0x1000 (length (sample_file @ 0xFF # [0]))"
  unfolding literals_at_def literal_strings_def sample_literals_def keys
  by (auto simp: sample_mem_def sample_file_def sample_literals_def literal_strings_def keys intro!: areas_apart)

lemma sample_area: "rd sample_mem 0x1000 (length (sample_file @ 0xFF # [0])) = sample_file @ 0xFF # [0]"
  using rd_wr [of "sample_file @ [0xFF, 0]" "0x1000"] by (simp add: sample_mem_def sample_file_def)


end
