(* ===== verification/LoadReactOS.thy ===== *)
theory LoadReactOS
  imports LoadLinux BootConfig
begin

text \<open>
  Loading and starting ReactOS, \<open>boot/LoadReactOS.c\<close>: FreeLoader is read to 0x1000 from FATX, a CD or
  a native file system, the Multiboot header is searched in its first 8 KB, the image is copied to
  the addresses the header names, and the Multiboot information is built behind it. GRUB is
  an argument as in \<open>LoadLinux\<close>. The stack, which the code moves to the top of memory, is left out.
\<close>

section \<open>The code\<close>

definition MULTIBOOT_SEARCHAREA_LEN :: nat where "MULTIBOOT_SEARCHAREA_LEN = 8192"
definition MULTIBOOT_HEADER_MAGIC :: u32 where "MULTIBOOT_HEADER_MAGIC = 0x1BADB002"
definition MULTIBOOT_BOOTLOADER_MAGIC :: u32 where "MULTIBOOT_BOOTLOADER_MAGIC = 0x2BADB002"
definition FREELDR_LOAD_AREA :: u32 where "FREELDR_LOAD_AREA = 0x00001000"
definition FREELDR_MAX_SIZE :: u32 where "FREELDR_MAX_SIZE = 0x80000"

definition put32 :: "u32 \<Rightarrow> u32 \<Rightarrow> mem \<Rightarrow> mem" where
  "put32 a v m = wr a [byte_of32 v 0, byte_of32 v 1, byte_of32 v 2, byte_of32 v 3] m"

text \<open>The fields of \<open>MULTIBOOTHEADER\<close>.\<close>

definition mb_magic :: "mem \<Rightarrow> u32 \<Rightarrow> u32" where "mb_magic m h = get32 m h"
definition mb_flags :: "mem \<Rightarrow> u32 \<Rightarrow> u32" where "mb_flags m h = get32 m (h + 4)"
definition mb_checksum :: "mem \<Rightarrow> u32 \<Rightarrow> u32" where "mb_checksum m h = get32 m (h + 8)"
definition mb_header_addr :: "mem \<Rightarrow> u32 \<Rightarrow> u32" where "mb_header_addr m h = get32 m (h + 12)"
definition mb_load_addr :: "mem \<Rightarrow> u32 \<Rightarrow> u32" where "mb_load_addr m h = get32 m (h + 16)"
definition mb_load_end_addr :: "mem \<Rightarrow> u32 \<Rightarrow> u32" where "mb_load_end_addr m h = get32 m (h + 20)"
definition mb_bss_end_addr :: "mem \<Rightarrow> u32 \<Rightarrow> u32" where "mb_bss_end_addr m h = get32 m (h + 24)"
definition mb_entry_addr :: "mem \<Rightarrow> u32 \<Rightarrow> u32" where "mb_entry_addr m h = get32 m (h + 28)"

lemmas mb_fields = mb_magic_def mb_flags_def mb_checksum_def mb_header_addr_def mb_load_addr_def
  mb_load_end_addr_def mb_bss_end_addr_def mb_entry_addr_def

definition GetMultibootBootDevice :: "u8 \<Rightarrow> u8 \<Rightarrow> u8 \<Rightarrow> u8 \<Rightarrow> u32" where
  "GetMultibootBootDevice drv part sub1 sub2 =
     ucast sub2 OR push_bit 8 (ucast sub1) OR push_bit 16 (ucast part) OR push_bit 24 (ucast drv)"

text \<open>The search; 0 is NULL.\<close>

definition multiboot_header_at :: "mem \<Rightarrow> u32 \<Rightarrow> bool" where
  "multiboot_header_at m h \<longleftrightarrow>
     mb_magic m h = MULTIBOOT_HEADER_MAGIC \<and> mb_magic m h + mb_flags m h + mb_checksum m h = 0"

function find_header :: "mem \<Rightarrow> u32 \<Rightarrow> nat \<Rightarrow> u32" where
  "find_header m buf off =
     (if off < MULTIBOOT_SEARCHAREA_LEN
      then if multiboot_header_at m (buf + of_nat off) then buf + of_nat off
           else find_header m buf (off + 4)
      else 0)"
  by pat_completeness auto
termination
  by (relation "measure (\<lambda>(m, buf, off). MULTIBOOT_SEARCHAREA_LEN - off)") auto

declare find_header.simps [simp del]

definition CheckMultibootHeader :: "mem \<Rightarrow> u32 \<Rightarrow> u32" where
  "CheckMultibootHeader m buf = find_header m buf 0"

record OPTMULTIBOOT =
  pBuffer :: u32
  uBufferSize :: u32
  uBootDevice :: u32

text \<open>The entry of a system that was found, with its path.\<close>

definition reactos_entry :: "u8 list \<Rightarrow> CONFIGENTRY" where
  "reactos_entry path = new_entry\<lparr>bootSystem := SYS_REACTOS,
     chars := bytes ''ReactOS'' @ replicate 8 0 @ path @ replicate (CHARS - 15 - length path) 0\<rparr>"

subsection \<open>From a native file system\<close>

definition DetectReactOSNative :: "grub \<Rightarrow> CONFIGENTRY option" where
  "DetectReactOSNative g =
     (let (nRet, errnum, filemax) = grub_open g (bytes ''/freeldr.sys'')
      in if nRet \<noteq> 1 \<or> errnum \<noteq> 0 then None else Some (reactos_entry (bytes ''/freeldr.sys'')))"

definition LoadReactOSNative :: "grub \<Rightarrow> u8 list \<Rightarrow> CONFIGENTRY \<Rightarrow> mem \<Rightarrow> OPTMULTIBOOT option \<times> mem" where
  "LoadReactOSNative g szGrub config m =
     (let szPath = get_chars PATH config;
          path = grub_path (szPath @ drop (length szPath) szGrub);
          (nRet, errnum, filemax) = grub_open g path
      in if nRet \<noteq> 1 then (None, m)
         else let (dwSize, m1) = grub_read g path FREELDR_LOAD_AREA filemax m
              in if CheckMultibootHeader m1 FREELDR_LOAD_AREA = 0 then (None, m1)
                 else (Some \<lparr>pBuffer = FREELDR_LOAD_AREA, uBufferSize = dwSize,
                   uBootDevice = GetMultibootBootDevice (0x80 + ucast (drive config)) (ucast (partition_no config)) 0xFF 0xFF\<rparr>, m1))"

subsection \<open>From FATX\<close>

definition DetectReactOSFATX :: "disk \<Rightarrow> u8 list \<Rightarrow> u8 list \<Rightarrow> FATXPartition option \<Rightarrow> FATXFILEINFO \<Rightarrow>
    CONFIGENTRY option option" where
  "DetectReactOSFATX disk junk cj part info =
     map_option (\<lambda>(ok, _). if ok then Some (reactos_entry (bytes ''/freeldr.sys'')) else None)
       (LoadFATXFile disk junk cj part (bytes ''/freeldr.sys'') info)"

definition LoadReactOSFATX :: "disk \<Rightarrow> u8 list \<Rightarrow> u8 list \<Rightarrow> FATXPartition \<Rightarrow> CONFIGENTRY \<Rightarrow> mem \<Rightarrow>
    (OPTMULTIBOOT option \<times> mem) option" where
  "LoadReactOSFATX disk junk cj part config m =
     (case fatx_load_at disk junk cj (Some part) (get_chars PATH config) FREELDR_LOAD_AREA m of
        None \<Rightarrow> None
      | Some (False, _, m1) \<Rightarrow> Some (None, m1)
      | Some (True, fileinfo, m1) \<Rightarrow>
          Some (if CheckMultibootHeader m1 FREELDR_LOAD_AREA = 0 then None
                else Some \<lparr>pBuffer = FREELDR_LOAD_AREA, uBufferSize = fileRead fileinfo,
                  uBootDevice = GetMultibootBootDevice (0x80 + of_nat (nDriveIndex part)) 0 0xFF 0xFF\<rparr>, m1))"

subsection \<open>From a CD\<close>

definition DetectReactOSCD :: "cdrom \<Rightarrow> mem \<Rightarrow> (CONFIGENTRY option \<times> mem) option" where
  "DetectReactOSCD cd m =
     (case BootIso9660GetFile cd (bytes ''/loader/freeldr.sys'') FREELDR_LOAD_AREA FREELDR_MAX_SIZE m of
        None \<Rightarrow> None
      | Some (dwFreeldrSize, m1) \<Rightarrow>
          if 0 <s dwFreeldrSize then Some (Some (reactos_entry (bytes ''/loader/freeldr.sys'')), m1)
          else map_option (\<lambda>(dwSetupldrSize, m2).
                   (if 0 <s dwSetupldrSize then Some (reactos_entry (bytes ''/loader/setupldr.sys'')) else None, m2))
                 (BootIso9660GetFile cd (bytes ''/loader/setupldr.sys'') FREELDR_LOAD_AREA FREELDR_MAX_SIZE m1))"

definition LoadReactOSCD :: "cdrom \<Rightarrow> CONFIGENTRY \<Rightarrow> mem \<Rightarrow> (OPTMULTIBOOT option \<times> mem) option" where
  "LoadReactOSCD cd config m =
     map_option (\<lambda>(dwSize, m1).
         if dwSize <s 0 then (None, m1)
         else if CheckMultibootHeader m1 FREELDR_LOAD_AREA = 0 then (None, m1)
         else (Some \<lparr>pBuffer = FREELDR_LOAD_AREA, uBufferSize = dwSize,
           uBootDevice = GetMultibootBootDevice 0xE0 0xFE 0xFF 0xFF\<rparr>, m1))
       (BootIso9660GetFile cd (get_chars PATH config) FREELDR_LOAD_AREA FREELDR_MAX_SIZE
         (memset FREELDR_LOAD_AREA 0 (unat FREELDR_MAX_SIZE) m))"

subsection \<open>Starting FreeLoader\<close>

text \<open>
  The information structure: the fields that are set, by their offsets, the rest being zero, and
  behind its 96 bytes the entries of the memory map, of 24 bytes each.
\<close>

definition SIZEOF_MULTIBOOTINFO :: u32 where "SIZEOF_MULTIBOOTINFO = 96"
definition SIZEOF_MEMORYMAP :: u32 where "SIZEOF_MEMORYMAP = 24"

definition mmap_entry :: "u32 \<Rightarrow> u32 \<Rightarrow> u32 \<Rightarrow> u32 \<Rightarrow> (u32 \<times> u32) list" where
  "mmap_entry off base len ty =
     [(off, SIZEOF_MEMORYMAP), (off + 4, base), (off + 8, 0), (off + 12, len), (off + 16, 0), (off + 20, ty)]"

definition info_fields :: "u32 \<Rightarrow> u32 \<Rightarrow> u32 \<Rightarrow> (u32 \<times> u32) list" where
  "info_fields xbox_ram bootDev mbInfo =
     [(0, 0x1 OR 0x2 OR 0x40), (4, 1024), (8, (xbox_ram - 1) * 1024), (12, bootDev),
      (44, 2 * SIZEOF_MEMORYMAP), (48, mbInfo + SIZEOF_MULTIBOOTINFO + 4)]
     @ mmap_entry 96 0 (xbox_ram * 1024 * 1024 - FB_SIZE) 1
     @ mmap_entry 120 ((if xbox_ram > 64 then 64 else xbox_ram) * 1024 * 1024 - FB_SIZE) FB_SIZE 0
     @ (if xbox_ram > 64 then mmap_entry 144 (64 * 1024 * 1024) ((xbox_ram - 64) * 1024 * 1024) 1 else [])"

definition write_fields :: "u32 \<Rightarrow> (u32 \<times> u32) list \<Rightarrow> mem \<Rightarrow> mem" where
  "write_fields base fs m = fold (\<lambda>(off, v). put32 (base + off) v) fs m"

text \<open>What FreeLoader is entered with.\<close>

record multiboot_handover =
  mb_transfer_modes :: "(nat \<times> u8) list"
  mb_memory :: mem
  mb_eax :: u32
  mb_ebx :: u32
  mb_entry :: u32

definition move_image :: "u32 \<Rightarrow> u32 \<Rightarrow> mem \<Rightarrow> mem" where
  "move_image mbHeader ldrSize m =
     (let m1 = memcpy (mb_load_addr m mbHeader)
                 (mbHeader - (mb_header_addr m mbHeader - mb_load_addr m mbHeader))
                 (unat (if mb_load_end_addr m mbHeader > 0 then mb_load_end_addr m mbHeader - mb_load_addr m mbHeader
                        else ldrSize)) m
      in if mb_bss_end_addr m1 mbHeader > 0
         then memset (mb_load_end_addr m1 mbHeader) 0 (unat (mb_bss_end_addr m1 mbHeader - mb_load_end_addr m1 mbHeader)) m1
         else m1)"

definition info_address :: "u32 \<Rightarrow> u32 \<Rightarrow> mem \<Rightarrow> u32" where
  "info_address mbHeader ldrSize m =
     ((if mb_bss_end_addr m mbHeader = 0 then mb_load_addr m mbHeader + ldrSize else mb_bss_end_addr m mbHeader) + 3)
       AND NOT 3"

definition startReactOS :: "u32 \<Rightarrow> u8 \<Rightarrow> u16 \<Rightarrow> u32 \<Rightarrow> u32 \<Rightarrow> u32 \<Rightarrow> mem \<Rightarrow> multiboot_handover option" where
  "startReactOS xbox_ram conductors revision mbHeader loaderSize bootDevice m =
     (if mbHeader = 0 then None
      else let nAta = udma_mode conductors revision;
               m1 = move_image mbHeader loaderSize (memset IDT_LOC 0 (8 * 1024) m);
               mbInfo = info_address mbHeader loaderSize m1;
               m2 = memset mbInfo 0 (unat SIZEOF_MULTIBOOTINFO) m1;
               m3 = write_fields mbInfo (info_fields xbox_ram bootDevice mbInfo) m2
           in Some \<lparr>mb_transfer_modes = [(0, 0x40 OR nAta), (1, 0x40 OR nAta)], mb_memory = m3,
                mb_eax = MULTIBOOT_BOOTLOADER_MAGIC, mb_ebx = mbInfo, mb_entry = mb_entry_addr m3 mbHeader\<rparr>)"

definition ExittoReactOS :: "u32 \<Rightarrow> u8 \<Rightarrow> u16 \<Rightarrow> OPTMULTIBOOT \<Rightarrow> mem \<Rightarrow> multiboot_handover option" where
  "ExittoReactOS xbox_ram conductors revision mb m =
     (let mbHeader = CheckMultibootHeader m (pBuffer mb)
      in if mbHeader = 0 then None
         else startReactOS xbox_ram conductors revision mbHeader (uBufferSize mb) (uBootDevice mb) m)"

section \<open>Words in memory\<close>

definition word_at :: "u8 list \<Rightarrow> nat \<Rightarrow> u32" where
  "word_at c i = le32 (c ! i) (c ! (i + 1)) (c ! (i + 2)) (c ! (i + 3))"

lemma get32_rd: "i + 4 \<le> n \<Longrightarrow> get32 m (a + of_nat i) = word_at (rd m a n) i"
  by (simp add: get32_def word_at_def add_ac)

lemma get32_put32: "get32 (put32 a v m) a = v"
proof -
  have d: "a + 3 \<noteq> a + 2" "a + 3 \<noteq> a + 1" "a + 3 \<noteq> a" "a + 2 \<noteq> a + 1" "a + 2 \<noteq> a" "a + 1 \<noteq> a" by simp_all
  show ?thesis by (simp add: get32_def put32_def add.assoc)
qed

lemma put32_outside: "x \<notin> region a 4 \<Longrightarrow> put32 a v m x = m x"
  unfolding put32_def by (rule wr_outside) (simp add: eval_nat_numeral)

lemma write_fields_outside:
  "\<forall>(off, v) \<in> set fs. x \<notin> region (base + off) 4 \<Longrightarrow> write_fields base fs m x = m x"
  by (induction fs arbitrary: m) (auto simp: write_fields_def put32_outside)

definition fields_apart :: "(u32 \<times> u32) list \<Rightarrow> nat \<Rightarrow> bool" where
  "fields_apart fs n \<longleftrightarrow> sorted_wrt (\<lambda>(a, _) (b, _). unat a + 4 \<le> unat b) fs \<and> (\<forall>(a, _) \<in> set fs. unat a + 4 \<le> n)"

lemma field_region:
  assumes "unat base + n \<le> 2 ^ 32" "unat off + 4 \<le> n"
  shows "region (base + off) 4 = {x. unat base + unat off \<le> unat x \<and> unat x < unat base + unat off + 4}"
proof -
  have "unat (base + off) = unat base + unat off" using assms by (simp add: unat_word_ariths)
  then show ?thesis using assms by (subst region_unat) auto
qed

lemma write_fields_get:
  assumes "fields_apart fs n" "unat base + n \<le> 2 ^ 32" "(off, v) \<in> set fs"
  shows "get32 (write_fields base fs m) (base + off) = v"
  using assms
proof (induction fs arbitrary: m)
  case (Cons f fs)
  obtain o1 v1 where f: "f = (o1, v1)" by fastforce
  have fa: "fields_apart fs n" using Cons.prems(1) by (simp add: fields_apart_def)
  show ?case
  proof (cases "(off, v) \<in> set fs")
    case True
    from Cons.IH [OF fa assms(2) this, of "put32 (base + o1) v1 m"] show ?thesis by (simp add: write_fields_def f)
  next
    case False
    then have e: "off = o1" "v = v1" using Cons.prems(3) f by auto
    have "get32 (write_fields base fs (put32 (base + o1) v1 m)) (base + o1) = get32 (put32 (base + o1) v1 m) (base + o1)"
    proof (rule get32_region, rule write_fields_outside, clarify)
      fix x a b assume x: "x \<in> region (base + o1) 4" "(a, b) \<in> set fs" "x \<in> region (base + a) 4"
      have "unat o1 + 4 \<le> unat a" "unat a + 4 \<le> n" "unat o1 + 4 \<le> n"
        using Cons.prems(1) x(2) by (auto simp: fields_apart_def f)
      with x field_region [OF assms(2), of a] field_region [OF assms(2), of o1] show False by auto
    qed
    then show ?thesis by (simp add: e write_fields_def f get32_put32)
  qed
qed simp

section \<open>The header\<close>

text \<open>A Multiboot header at offset \<open>h\<close> of a file, and the fields there.\<close>

definition header_in :: "u8 list \<Rightarrow> nat \<Rightarrow> bool" where
  "header_in c h \<longleftrightarrow> word_at c h = MULTIBOOT_HEADER_MAGIC \<and> word_at c h + word_at c (h + 4) + word_at c (h + 8) = 0"

lemma header_at_in: "h + 12 \<le> length c \<Longrightarrow> rd m a (length c) = c \<Longrightarrow> multiboot_header_at m (a + of_nat h) \<longleftrightarrow> header_in c h"
  using get32_rd [of h "length c" m a] get32_rd [of "h + 4" "length c" m a] get32_rd [of "h + 8" "length c" m a]
  by (simp add: multiboot_header_at_def header_in_def mb_fields add_ac)

lemma find_header_first:
  assumes "off \<le> h" "4 dvd h - off" "h < MULTIBOOT_SEARCHAREA_LEN" "multiboot_header_at m (buf + of_nat h)"
    and "\<forall>j. off \<le> j \<and> j < h \<and> 4 dvd j - off \<longrightarrow> \<not> multiboot_header_at m (buf + of_nat j)"
  shows "find_header m buf off = buf + of_nat h"
  using assms
proof (induction "h - off" arbitrary: off rule: less_induct)
  case less
  show ?case
  proof (cases "off = h")
    case True
    then show ?thesis using less.prems by (subst find_header.simps) simp
  next
    case False
    obtain k where k: "h - off = 4 * k" using less.prems(2) by (auto simp: dvd_def)
    then have k': "h - (off + 4) = 4 * (k - 1)" "k \<noteq> 0" using False less.prems(1) by auto
    then have o: "off + 4 \<le> h" "4 dvd h - (off + 4)" using k less.prems(1) by auto
    have "\<forall>j. off + 4 \<le> j \<and> j < h \<and> 4 dvd j - (off + 4) \<longrightarrow> \<not> multiboot_header_at m (buf + of_nat j)"
    proof (intro allI impI)
      fix j assume j: "off + 4 \<le> j \<and> j < h \<and> 4 dvd j - (off + 4)"
      then have "j - off = j - (off + 4) + 4" by simp
      then have "4 dvd j - off" using j by (metis dvd_add dvd_refl)
      then show "\<not> multiboot_header_at m (buf + of_nat j)" using less.prems(5) j by simp
    qed
    with less.hyps [of "off + 4"] o less.prems(3,4) have "find_header m buf (off + 4) = buf + of_nat h" by simp
    moreover have "\<not> multiboot_header_at m (buf + of_nat off)" using less.prems(1,5) False by simp
    ultimately show ?thesis using less.prems(1,3) by (subst find_header.simps) simp
  qed
qed

lemma and_parts:
  fixes x y :: u32
  shows "(x AND NOT y) + (x AND y) = x"
proof -
  have "(x AND NOT y) AND (x AND y) = 0" by (rule bit_word_eqI) (auto simp: bit_and_iff bit_not_iff)
  then have "(x AND NOT y) + (x AND y) = (x AND NOT y) OR (x AND y)" by (rule disjunctive_add_eq_or)
  also have "\<dots> = x" by (rule bit_word_eqI) (auto simp: bit_or_iff bit_and_iff bit_not_iff)
  finally show ?thesis .
qed

lemma aligned_bounds:
  fixes w :: u32
  assumes "unat w + 3 < 2 ^ 32"
  shows "unat w \<le> unat ((w + 3) AND NOT 3) \<and> unat ((w + 3) AND NOT 3) \<le> unat w + 3"
proof -
  let ?x = "w + 3"
  have e: "?x AND NOT 3 = ?x - (?x AND 3)" using and_parts [of ?x 3] by (metis add_diff_cancel_right')
  have le: "?x AND 3 \<le> ?x" "?x AND 3 \<le> 3" by (simp_all add: word_and_le1 word_and_le2)
  then have "unat (?x AND 3) \<le> 3" by (simp add: word_le_nat_alt)
  moreover have "unat ?x = unat w + 3" using assms by (simp add: unat_word_ariths)
  ultimately show ?thesis unfolding e using le(1) by (simp add: unat_sub)
qed

section \<open>The image in its place\<close>

definition load_of :: "u8 list \<Rightarrow> nat \<Rightarrow> nat" where "load_of c h = unat (word_at c (h + 16))"
definition load_end_of :: "u8 list \<Rightarrow> nat \<Rightarrow> nat" where "load_end_of c h = unat (word_at c (h + 20))"
definition bss_end_of :: "u8 list \<Rightarrow> nat \<Rightarrow> nat" where "bss_end_of c h = unat (word_at c (h + 24))"

text \<open>Where in the file the image starts: the header lies at \<open>header_addr\<close> of it.\<close>

definition start_of :: "u8 list \<Rightarrow> nat \<Rightarrow> nat" where
  "start_of c h = h - (unat (word_at c (h + 12)) - load_of c h)"

definition bootable_image :: "u8 list \<Rightarrow> nat \<Rightarrow> bool" where
  "bootable_image c h \<longleftrightarrow> 4 dvd h \<and> h < MULTIBOOT_SEARCHAREA_LEN \<and> h + 32 \<le> length c \<and> length c \<le> unat FREELDR_MAX_SIZE
     \<and> header_in c h \<and> (\<forall>j < h. 4 dvd j \<longrightarrow> \<not> header_in c j)
     \<and> 0x100000 \<le> load_of c h \<and> load_of c h < load_end_of c h \<and> load_end_of c h \<le> bss_end_of c h \<and> bss_end_of c h \<le> 0x2A00000
     \<and> load_of c h \<le> unat (word_at c (h + 12)) \<and> unat (word_at c (h + 12)) - load_of c h \<le> h
     \<and> start_of c h + (load_end_of c h - load_of c h) \<le> length c"

lemma mb_fields_file:
  assumes "rd m FREELDR_LOAD_AREA (length c) = c" "h + 32 \<le> length c"
  shows "mb_header_addr m (FREELDR_LOAD_AREA + of_nat h) = word_at c (h + 12)"
    "mb_load_addr m (FREELDR_LOAD_AREA + of_nat h) = word_at c (h + 16)"
    "mb_load_end_addr m (FREELDR_LOAD_AREA + of_nat h) = word_at c (h + 20)"
    "mb_bss_end_addr m (FREELDR_LOAD_AREA + of_nat h) = word_at c (h + 24)"
    "mb_entry_addr m (FREELDR_LOAD_AREA + of_nat h) = word_at c (h + 28)"
  using get32_rd [of "h + 12" "length c" m FREELDR_LOAD_AREA] get32_rd [of "h + 16" "length c" m FREELDR_LOAD_AREA]
    get32_rd [of "h + 20" "length c" m FREELDR_LOAD_AREA] get32_rd [of "h + 24" "length c" m FREELDR_LOAD_AREA]
    get32_rd [of "h + 28" "length c" m FREELDR_LOAD_AREA] assms
  by (simp_all add: mb_fields add_ac)

lemma move_image_places:
  assumes im: "bootable_image c h" and c: "rd m FREELDR_LOAD_AREA (length c) = c"
  shows "move_image (FREELDR_LOAD_AREA + of_nat h) sz m =
    wr (word_at c (h + 20)) (replicate (bss_end_of c h - load_end_of c h) 0)
      (wr (word_at c (h + 16)) (take (load_end_of c h - load_of c h) (drop (start_of c h) c)) m)"
proof -
  let ?H = "FREELDR_LOAD_AREA + of_nat h" and ?la = "word_at c (h + 16)" and ?le = "word_at c (h + 20)" and ?be = "word_at c (h + 24)"
  let ?n = "load_end_of c h - load_of c h"
  note i = im [unfolded bootable_image_def]
  have lc: "length c \<le> 0x80000" using i by (simp add: FREELDR_MAX_SIZE_def)
  have h32: "h + 32 \<le> length c" using i by blast
  note f = mb_fields_file [OF c h32]
  have la: "unat ?la = load_of c h" "unat ?le = load_end_of c h" "unat ?be = bss_end_of c h"
    by (simp_all add: load_of_def load_end_of_def bss_end_of_def)
  have len: "unat (?le - ?la) = ?n" using i la by (simp add: unat_sub word_le_nat_alt)
  have src: "?H - (word_at c (h + 12) - ?la) = FREELDR_LOAD_AREA + of_nat (start_of c h)"
  proof -
    have le: "unat ?la \<le> unat (word_at c (h + 12))" "unat (word_at c (h + 12)) - unat ?la \<le> h"
      using i unfolding load_of_def by blast+
    have "of_nat (start_of c h) = of_nat h - (of_nat (unat (word_at c (h + 12))) - of_nat (unat ?la) :: u32)"
      unfolding start_of_def load_of_def of_nat_diff [OF le(2)] of_nat_diff [OF le(1)] ..
    then show ?thesis by simp
  qed
  have st: "start_of c h + ?n \<le> length c" using i by blast
  have data: "rd m (FREELDR_LOAD_AREA + of_nat (start_of c h)) ?n = take ?n (drop (start_of c h) c)"
    using rd_drop [of "start_of c h" "length c" m FREELDR_LOAD_AREA] rd_take [of ?n "length c - start_of c h" m] st c by simp
  have "unat (FREELDR_LOAD_AREA + of_nat (start_of c h)) = 0x1000 + start_of c h"
    using st lc by (simp add: FREELDR_LOAD_AREA_def unat_word_ariths unat_of_nat)
  then have "region (FREELDR_LOAD_AREA + of_nat (start_of c h)) ?n \<inter> region ?la ?n = {}"
    using i st lc la by (intro areas_apart) auto
  then have m1: "memcpy ?la (FREELDR_LOAD_AREA + of_nat (start_of c h)) ?n m = wr ?la (take ?n (drop (start_of c h) c)) m"
    using memcpy_wr [of ?la ?n "FREELDR_LOAD_AREA + of_nat (start_of c h)" m] data by (simp add: Int_commute)
  let ?m1 = "wr ?la (take ?n (drop (start_of c h) c)) m"
  have "region FREELDR_LOAD_AREA (length c) \<inter> region ?la (length (take ?n (drop (start_of c h) c))) = {}"
    using i lc la by (intro areas_apart) (auto simp: FREELDR_LOAD_AREA_def)
  then have c1: "rd ?m1 FREELDR_LOAD_AREA (length c) = c" using c by (simp add: rd_wr_other)
  have pos: "?le > 0" "?be > 0" using i la by (auto simp: word_less_nat_alt)
  have "unat (?be - ?le) = bss_end_of c h - load_end_of c h" using i la by (simp add: unat_sub word_le_nat_alt)
  then show ?thesis
    unfolding move_image_def f src Let_def using pos by (simp add: len m1 mb_fields_file [OF c1 h32] memset_wr)
qed

lemma info_fields_apart: "fields_apart (info_fields ram bd p) 168"
  by (cases "64 < ram") (auto simp: fields_apart_def info_fields_def mmap_entry_def)

lemma check_finds_header:
  assumes im: "bootable_image c h" and c: "rd m FREELDR_LOAD_AREA (length c) = c"
  shows "CheckMultibootHeader m FREELDR_LOAD_AREA = FREELDR_LOAD_AREA + of_nat h"
proof -
  have h: "h + 32 \<le> length c" "4 dvd h" "h < MULTIBOOT_SEARCHAREA_LEN" "header_in c h" "\<forall>j < h. 4 dvd j \<longrightarrow> \<not> header_in c j"
    using im by (auto simp: bootable_image_def)
  have at: "multiboot_header_at m (FREELDR_LOAD_AREA + of_nat j) \<longleftrightarrow> header_in c j" if "j \<le> h" for j
    using that h(1) by (intro header_at_in c) simp
  show ?thesis
    unfolding CheckMultibootHeader_def using h at by (intro find_header_first) auto
qed

text \<open>The memory FreeLoader finds, below the information structure and in it.\<close>

lemma reactos_memory:
  assumes im: "bootable_image c h" and c: "rd m FREELDR_LOAD_AREA (length c) = c" and mb: "pBuffer mb = FREELDR_LOAD_AREA"
  obtains k where "ExittoReactOS ram cc ar mb m = Some k" "mb_eax k = MULTIBOOT_BOOTLOADER_MAGIC"
    "mb_ebx k = (word_at c (h + 24) + 3) AND NOT 3" "mb_entry k = word_at c (h + 28)"
    "\<And>off v. (off, v) \<in> set (info_fields ram (uBootDevice mb) (mb_ebx k)) \<Longrightarrow> get32 (mb_memory k) (mb_ebx k + off) = v"
    "rd (mb_memory k) (word_at c (h + 16)) (load_end_of c h - load_of c h) = take (load_end_of c h - load_of c h) (drop (start_of c h) c)"
    "rd (mb_memory k) (word_at c (h + 20)) (bss_end_of c h - load_end_of c h) = replicate (bss_end_of c h - load_end_of c h) 0"
proof -
  let ?H = "FREELDR_LOAD_AREA + of_nat h" and ?la = "word_at c (h + 16)" and ?le = "word_at c (h + 20)" and ?be = "word_at c (h + 24)"
  let ?img = "take (load_end_of c h - load_of c h) (drop (start_of c h) c)" and ?bss = "replicate (bss_end_of c h - load_end_of c h) (0 :: u8)"
  note i = im [unfolded bootable_image_def]
  have lc: "length c \<le> 0x80000" and h32: "h + 32 \<le> length c" and bs: "0x100000 \<le> load_of c h" "load_of c h < load_end_of c h"
    "load_end_of c h \<le> bss_end_of c h" "bss_end_of c h \<le> 0x2A00000"
    using i by (simp_all add: FREELDR_MAX_SIZE_def)
  have la: "unat ?la = load_of c h" "unat ?le = load_end_of c h" "unat ?be = bss_end_of c h"
    by (simp_all add: load_of_def load_end_of_def bss_end_of_def)
  have li: "length ?img = load_end_of c h - load_of c h"
  proof -
    have "start_of c h + (load_end_of c h - load_of c h) \<le> length c" using i by blast
    then show ?thesis by simp
  qed
  define m1 where "m1 = memset IDT_LOC 0 (8 * 1024) m"
  have c1: "rd m1 FREELDR_LOAD_AREA (length c) = c"
    unfolding m1_def memset_wr using c lc
    by (subst rd_wr_apart) (auto intro!: areas_apart simp: FREELDR_LOAD_AREA_def IDT_LOC_def)
  define m2 where "m2 = wr ?le ?bss (wr ?la ?img m1)"
  have mv: "move_image ?H (uBufferSize mb) m1 = m2" unfolding m2_def by (rule move_image_places [OF im c1])
  have c2: "rd m2 FREELDR_LOAD_AREA (length c) = c"
    unfolding m2_def using c1 lc bs la li
    by (subst rd_wr_apart, force intro!: areas_apart simp: FREELDR_LOAD_AREA_def,
        subst rd_wr_apart, force intro!: areas_apart simp: FREELDR_LOAD_AREA_def, simp)
  define p where "p = (?be + 3) AND NOT 3"
  have p: "bss_end_of c h \<le> unat p" "unat p \<le> bss_end_of c h + 3"
    using aligned_bounds [of ?be] bs la by (simp_all add: p_def)
  have "?be \<noteq> 0" using la(3) bs by auto
  then have ia: "info_address ?H (uBufferSize mb) m2 = p"
    unfolding info_address_def p_def mb_fields_file [OF c2 h32] by simp
  let ?fs = "info_fields ram (uBootDevice mb) p"
  define m4 where "m4 = write_fields p ?fs (memset p 0 (unat SIZEOF_MULTIBOOTINFO) m2)"
  have low: "m4 a = m2 a" if "unat a < bss_end_of c h" for a
  proof -
    have "a \<notin> region p (unat SIZEOF_MULTIBOOTINFO)" using that p bs by (subst region_unat) (auto simp: SIZEOF_MULTIBOOTINFO_def)
    moreover have "\<forall>(off, v) \<in> set ?fs. a \<notin> region (p + off) 4"
      using that p bs info_fields_apart [of ram "uBootDevice mb" p] field_region [of p 168]
      by (auto simp: fields_apart_def)
    ultimately show ?thesis by (simp add: m4_def write_fields_outside memset_outside)
  qed
  have lowr: "rd m4 a n = rd m2 a n" if "unat a + n \<le> bss_end_of c h" for a n
    using that bs by (intro rd_cong low) (auto simp: region_unat)
  have "rd m4 FREELDR_LOAD_AREA (length c) = c" using lowr [of FREELDR_LOAD_AREA "length c"] c2 lc bs by (simp add: FREELDR_LOAD_AREA_def)
  note entry = mb_fields_file(5) [OF this h32]
  have "?H \<noteq> 0"
  proof -
    have "unat ?H = 0x1000 + h" using h32 lc by (simp add: FREELDR_LOAD_AREA_def unat_word_ariths unat_of_nat)
    then show ?thesis by (metis add_is_0 unat_0 zero_neq_numeral)
  qed
  then have ex: "ExittoReactOS ram cc ar mb m = Some \<lparr>mb_transfer_modes = [(0, 0x40 OR udma_mode cc ar), (1, 0x40 OR udma_mode cc ar)],
      mb_memory = m4, mb_eax = MULTIBOOT_BOOTLOADER_MAGIC, mb_ebx = p, mb_entry = word_at c (h + 28)\<rparr>"
    unfolding ExittoReactOS_def mb check_finds_header [OF im c] startReactOS_def Let_def m1_def [symmetric] mv ia m4_def [symmetric]
    using entry by simp
  have "rd m4 ?la (load_end_of c h - load_of c h) = rd (wr ?la ?img m1) ?la (load_end_of c h - load_of c h)"
    using lowr [of ?la "load_end_of c h - load_of c h"] bs la unfolding m2_def
    by (simp, subst rd_wr_apart) (auto intro!: areas_apart)
  also have "\<dots> = ?img" using rd_wr [of ?img ?la m1] li bs by simp
  finally have img: "rd m4 ?la (load_end_of c h - load_of c h) = ?img" .
  have bss: "rd m4 ?le (bss_end_of c h - load_end_of c h) = ?bss"
    using lowr [of ?le "bss_end_of c h - load_end_of c h"] rd_wr [of ?bss ?le "wr ?la ?img m1"] bs la by (simp add: m2_def)
  have "get32 m4 (p + off) = v" if "(off, v) \<in> set ?fs" for off v
    unfolding m4_def by (rule write_fields_get [OF info_fields_apart _ that]) (use p bs in simp)
  then show thesis using img bss by (intro that [OF ex]) (simp_all add: p_def)
qed

text \<open>FreeLoader from FATX: the file is where the header is searched, and the boot device names the drive.\<close>

lemma reactos_loads_from_fatx:
  assumes "fatx_volume disk p D dirs" "fatx_file disk p dirs (get_chars PATH config) c" "length cj = 0x4000" "bootable_image c h"
  obtains mb where "LoadReactOSFATX disk junk cj p config m = Some (Some mb, wr FREELDR_LOAD_AREA c m)"
    "pBuffer mb = FREELDR_LOAD_AREA" "uBootDevice mb = GetMultibootBootDevice (0x80 + of_nat (nDriveIndex p)) 0 0xFF 0xFF"
    "rd (wr FREELDR_LOAD_AREA c m) FREELDR_LOAD_AREA (length c) = c"
proof -
  obtain info where l: "fatx_load_at disk junk cj (Some p) (get_chars PATH config) FREELDR_LOAD_AREA m
      = Some (True, info, wr FREELDR_LOAD_AREA c m)" by (rule fatx_load_at_file [OF assms(1-3)])
  have lc: "length c \<le> 0x80000" "h + 32 \<le> length c" using assms(4) by (auto simp: bootable_image_def FREELDR_MAX_SIZE_def)
  then have r: "rd (wr FREELDR_LOAD_AREA c m) FREELDR_LOAD_AREA (length c) = c" by (intro rd_wr) simp
  have "unat (FREELDR_LOAD_AREA + of_nat h) = 0x1000 + h" using lc by (simp add: FREELDR_LOAD_AREA_def unat_word_ariths unat_of_nat)
  then have "FREELDR_LOAD_AREA + of_nat h \<noteq> 0" by (metis add_is_0 unat_0 zero_neq_numeral)
  with l check_finds_header [OF assms(4) r] r show thesis
    by (intro that [of "\<lparr>pBuffer = FREELDR_LOAD_AREA, uBufferSize = fileRead info,
        uBootDevice = GetMultibootBootDevice (0x80 + of_nat (nDriveIndex p)) 0 0xFF 0xFF\<rparr>"]) (simp_all add: LoadReactOSFATX_def)
qed


definition tiny_loader :: "u8 list" where
  "tiny_loader = [0x02, 0xB0, 0xAD, 0x1B, 0, 0, 1, 0, 0xFE, 0x4F, 0x51, 0xE4, 0, 0, 0x10, 0, 0, 0, 0x10, 0, 0x20, 0, 0x10, 0,
     0x42, 0, 0x10, 0, 0x10, 0, 0x10, 0]"

lemma tiny_loader_bootable: "bootable_image tiny_loader 0"
  by (simp add: bootable_image_def tiny_loader_def header_in_def word_at_def le32_def load_of_def load_end_of_def bss_end_of_def
      start_of_def MULTIBOOT_SEARCHAREA_LEN_def FREELDR_MAX_SIZE_def MULTIBOOT_HEADER_MAGIC_def)


end
