(* ===== verification/BootDevice.thy ===== *)
theory BootDevice
  imports LoadReactOS
begin

text \<open>
  Choosing what to boot: \<open>boot/BootFromDevice.c\<close>, the detection of configurations in
  \<open>boot/LoadLinux.c\<close>, and the boot menu of \<open>menu/actions/MenuActions.c\<close>. A list of entries linked
  by \<open>nextConfigEntry\<close> is a list, NULL the empty one; an entry with a list of its own in
  \<open>nestedConfigEntry\<close> is a node of a tree. GRUB, the sectors of the CD and the disk are arguments.
\<close>

section \<open>The code\<close>

datatype config = Config (config_entry: CONFIGENTRY) (nested: "config list")

definition SECTOR_STORE :: u32 where "SECTOR_STORE = 0x0055F400"
definition STORE_SIZE :: u64 where "STORE_SIZE = 0x131F00000"
definition MAX_CONFIG_FILESIZE :: u32 where "MAX_CONFIG_FILESIZE = 1024 * 256"
definition GRUB_REQUEST_SIZE :: nat where "GRUB_REQUEST_SIZE = 256 + 4"

text \<open>The request: drive and partition, and an empty path; resetting GRUB's variables is left to GRUB.\<close>

definition InitGrubRequest :: "u32 \<Rightarrow> u32 \<Rightarrow> u8 list" where
  "InitGrubRequest drv part = [0xff, 0xff, ucast part, ucast drv] @ replicate (GRUB_REQUEST_SIZE - 4) 0"

definition fill_entry :: "BootTypes \<Rightarrow> u32 \<Rightarrow> u32 \<Rightarrow> CONFIGENTRY \<Rightarrow> CONFIGENTRY" where
  "fill_entry bt drv part e =
     (case bt of
        BOOT_NATIVE \<Rightarrow> e\<lparr>bootType := bt, drive := drv, partition_no := part\<rparr>
      | BOOT_FATX \<Rightarrow> e\<lparr>bootType := bt\<rparr>
      | BOOT_CDROM \<Rightarrow> e\<lparr>bootType := bt, drive := drv\<rparr>)"

definition FillConfigEntries :: "config list \<Rightarrow> BootTypes \<Rightarrow> u32 \<Rightarrow> u32 \<Rightarrow> config list" where
  "FillConfigEntries cs bt drv part = map (\<lambda>c. Config (fill_entry bt drv part (config_entry c)) (nested c)) cs"

definition AddNestedConfigEntry :: "config list \<Rightarrow> config list \<Rightarrow> u8 list \<Rightarrow> config list" where
  "AddNestedConfigEntry cs nst ttl =
     cs @ [Config (new_entry\<lparr>chars := take 15 ttl @ drop (length (take 15 ttl)) (chars new_entry)\<rparr>) nst]"

text \<open>Both systems of a device, as the three detections do it.\<close>

definition add_systems :: "BootTypes \<Rightarrow> u32 \<Rightarrow> u32 \<Rightarrow> CONFIGENTRY list \<Rightarrow> CONFIGENTRY option \<Rightarrow> config list" where
  "add_systems bt drv part cfgLinux cfgReactOS =
     (let c1 = (if cfgLinux \<noteq> []
                then AddNestedConfigEntry [] (FillConfigEntries (map (\<lambda>e. Config e []) cfgLinux) bt drv part) (bytes ''Linux'')
                else [])
      in case cfgReactOS of None \<Rightarrow> c1
         | Some e \<Rightarrow> AddNestedConfigEntry c1 (FillConfigEntries [Config e []] bt drv part) (bytes ''ReactOS''))"

subsection \<open>Native file systems\<close>

text \<open>\<open>\<open>None\<close>\<close> is a parser that does not return.\<close>

definition DetectLinuxNative :: "literals \<Rightarrow> grub \<Rightarrow> mem \<Rightarrow> (CONFIGENTRY list \<times> mem) option" where
  "DetectLinuxNative L g m =
     (let m0 = memset KERNEL_SETUP 0 KERNEL_HDR_SIZE m;
          try = (\<lambda>path. let (nRet, errnum, filemax) = grub_open g path in (nRet = 1 \<and> errnum = 0, path, filemax));
          r1 = try (bytes ''/boot/linuxboot.cfg'');
          (ok, path, filemax) = (if fst r1 then r1 else try (bytes ''/linuxboot.cfg''))
      in if \<not> ok then Some ([], m0)
         else let (n, m1) = grub_read g path KERNEL_SETUP filemax m0;
                  nLen = (if n > MAX_CONFIG_FILESIZE then MAX_CONFIG_FILESIZE else n)
              in ParseConfig L KERNEL_SETUP nLen None m1)"

definition DetectSystemNative :: "literals \<Rightarrow> (u8 list \<Rightarrow> grub) \<Rightarrow> u32 \<Rightarrow> u32 \<Rightarrow> mem \<Rightarrow> (config list \<times> mem) option" where
  "DetectSystemNative L grub_of drv part m =
     (let g = grub_of (InitGrubRequest drv part) in
      map_option (\<lambda>(cfgLinux, m1). (add_systems BOOT_NATIVE drv part cfgLinux (DetectReactOSNative g), m1))
        (DetectLinuxNative L g m))"

subsection \<open>FATX\<close>

text \<open>The file is read into a block of the heap at \<open>buf\<close>; \<open>info\<close> is what the local structure held before.\<close>

definition DetectLinuxFATX :: "literals \<Rightarrow> disk \<Rightarrow> u8 list \<Rightarrow> u8 list \<Rightarrow> FATXPartition option \<Rightarrow> FATXFILEINFO \<Rightarrow> u32 \<Rightarrow>
    mem \<Rightarrow> (CONFIGENTRY list \<times> mem) option" where
  "DetectLinuxFATX L disk junk cj part info buf m =
     (case LoadFATXFile disk junk cj part (bytes ''/linuxboot.cfg'') info of
        None \<Rightarrow> None
      | Some (True, i) \<Rightarrow> ParseConfig L buf (fileSize i) None (wr buf (buffer i) m)
      | Some (False, i) \<Rightarrow>
          (case LoadFATXFile disk junk cj part (bytes ''/debian/linuxboot.cfg'') i of
             None \<Rightarrow> None
           | Some (True, i') \<Rightarrow> ParseConfig L buf (fileSize i') (Some (bytes ''/debian'')) (wr buf (buffer i') m)
           | Some (False, _) \<Rightarrow> Some ([], m)))"

definition detect_on_fatx :: "literals \<Rightarrow> disk \<Rightarrow> u8 list \<Rightarrow> u8 list \<Rightarrow> FATXPartition \<Rightarrow> FATXFILEINFO \<Rightarrow> u32 \<Rightarrow>
    mem \<Rightarrow> (config list \<times> mem) option" where
  "detect_on_fatx L disk junk cj p info buf m =
     (case DetectLinuxFATX L disk junk cj (Some p) info buf m of
        None \<Rightarrow> None
      | Some (cfgLinux, m1) \<Rightarrow>
          map_option (\<lambda>cfgReactOS. (add_systems BOOT_FATX 0 0 cfgLinux cfgReactOS, m1))
            (DetectReactOSFATX disk junk cj (Some p) info))"

definition DetectSystemFatX :: "literals \<Rightarrow> disk \<Rightarrow> u8 list \<Rightarrow> u8 list \<Rightarrow> (nat \<Rightarrow> u8 list) \<Rightarrow> FATXFILEINFO \<Rightarrow> u32 \<Rightarrow>
    mem \<Rightarrow> (config list \<times> mem) option" where
  "DetectSystemFatX L disk junk cj hj info buf m =
     (case OpenFATXPartition disk junk hj 0 SECTOR_STORE STORE_SIZE of
        None \<Rightarrow> None
      | Some None \<Rightarrow> Some ([], m)
      | Some (Some p) \<Rightarrow> detect_on_fatx L disk junk cj p info buf m)"

subsection \<open>CD\<close>

definition DetectLinuxCD :: "literals \<Rightarrow> cdrom \<Rightarrow> mem \<Rightarrow> (CONFIGENTRY list \<times> mem) option" where
  "DetectLinuxCD L cd m =
     (let m0 = memset KERNEL_SETUP 0 KERNEL_HDR_SIZE m;
          parse = (\<lambda>(n, m). if n \<le>s 0 then Some ([], m) else ParseConfig L KERNEL_SETUP n None m)
      in case BootIso9660GetFile cd (bytes ''/linuxboo.cfg'') KERNEL_SETUP 0x800 m0 of
           None \<Rightarrow> None
         | Some (n, m1) \<Rightarrow>
             if n \<le>s 0
             then Option.bind (BootIso9660GetFile cd (bytes ''/linuxboot.cfg'') KERNEL_SETUP 0x800 m1) parse
             else parse (n, m1))"

text \<open>
  Waiting for a CD: at every poll what both detections find, whether A or B is pressed and whether
  somebody pushes the tray in. \<open>None\<close>: the polls so far do not end the wait.
\<close>

record cd_poll =
  found_linux :: "CONFIGENTRY list"
  found_reactos :: "CONFIGENTRY option"
  key_A :: bool
  key_B :: bool
  tray_pushed :: bool

definition poll_drive :: "literals \<Rightarrow> cdrom \<Rightarrow> bool \<Rightarrow> bool \<Rightarrow> bool \<Rightarrow> mem \<Rightarrow> (cd_poll \<times> mem) option" where
  "poll_drive L cd a b tray m =
     (case DetectLinuxCD L cd m of None \<Rightarrow> None
      | Some (cfgLinux, m1) \<Rightarrow>
          map_option (\<lambda>(cfgReactOS, m2).
              (\<lparr>found_linux = cfgLinux, found_reactos = cfgReactOS, key_A = a, key_B = b, tray_pushed = tray\<rparr>, m2))
            (DetectReactOSCD cd m1))"

definition cd_found :: "cd_poll \<Rightarrow> bool" where
  "cd_found x \<longleftrightarrow> found_linux x \<noteq> [] \<or> found_reactos x \<noteq> None"

fun detect_rounds :: "nat \<Rightarrow> cd_poll list \<Rightarrow> (cd_poll option \<times> cd_poll list) option" where
  "detect_rounds 0 w = Some (None, w)"
| "detect_rounds (Suc n) [] = None"
| "detect_rounds (Suc n) (x # w) = (if cd_found x then Some (Some x, w) else detect_rounds n w)"

datatype cd_wait = Retry | Found cd_poll | Cancelled

fun wait_for_cd :: "cd_poll list \<Rightarrow> (cd_wait \<times> cd_poll list) option" where
  "wait_for_cd [] = None"
| "wait_for_cd (x # w) =
     (if key_A x \<or> tray_pushed x then Some (if cd_found x then Found x else Retry, w)
      else if cd_found x then Some (Found x, w)
      else if key_B x then Some (Cancelled, w)
      else wait_for_cd w)"

lemma detect_rounds_length: "detect_rounds n w = Some (r, w') \<Longrightarrow> length w' \<le> length w"
  by (induction n w rule: detect_rounds.induct) (auto split: if_splits)

lemma wait_for_cd_length: "wait_for_cd w = Some (r, w') \<Longrightarrow> length w' < length w"
  by (induction w rule: wait_for_cd.induct) (auto split: if_splits)

text \<open>The outer loop: 32 rounds of 250 ms, then the tray is opened and the user asked.\<close>

function cd_loop :: "cd_poll list \<Rightarrow> cd_poll option option" where
  "cd_loop w =
     (case detect_rounds 32 w of
        None \<Rightarrow> None
      | Some (Some x, w') \<Rightarrow> Some (Some x)
      | Some (None, w') \<Rightarrow>
          (case wait_for_cd w' of
             None \<Rightarrow> None
           | Some (Found x, w'') \<Rightarrow> Some (Some x)
           | Some (Cancelled, w'') \<Rightarrow> Some None
           | Some (Retry, w'') \<Rightarrow> cd_loop w''))"
  by pat_completeness auto
termination
  by (relation "measure length") (auto dest!: detect_rounds_length wait_for_cd_length)

definition DetectSystemCD :: "u32 \<Rightarrow> cd_poll list \<Rightarrow> config list option" where
  "DetectSystemCD cdromId w =
     map_option (\<lambda>r. case r of None \<Rightarrow> [] | Some x \<Rightarrow> add_systems BOOT_CDROM cdromId 0 (found_linux x) (found_reactos x))
       (cd_loop w)"

subsection \<open>Booting an entry\<close>

text \<open>
  What the loaders need: the machine's readers, and the address \<open>app\<close> of the command line of the
  entry in the heap.
\<close>

definition linux_options :: "u32 \<Rightarrow> CONFIGENTRY \<Rightarrow> OPTLINUX" where
  "linux_options app e = \<lparr>szKernel = get_chars KERNEL e, szInitrd = get_chars INITRD e, szAppend = app\<rparr>"

text \<open>What was loaded: nothing, a Linux kernel, or a Multiboot loader.\<close>

datatype loaded = Not_loaded | Linux_loaded | ReactOS_loaded OPTMULTIBOOT

definition linux_result :: "bool \<times> linux_state \<Rightarrow> loaded \<times> linux_state" where
  "linux_result = (\<lambda>(ok, s). (if ok then Linux_loaded else Not_loaded, s))"

definition reactos_result :: "linux_state \<Rightarrow> OPTMULTIBOOT option \<times> mem \<Rightarrow> loaded \<times> linux_state" where
  "reactos_result s = (\<lambda>(r, m). (case r of None \<Rightarrow> Not_loaded | Some mb \<Rightarrow> ReactOS_loaded mb, s\<lparr>memory := m\<rparr>))"

definition BootFromNative :: "(u32 \<Rightarrow> u32 \<Rightarrow> mem \<Rightarrow> mem) \<Rightarrow> (u8 list \<Rightarrow> grub) \<Rightarrow> u32 \<Rightarrow> CONFIGENTRY \<Rightarrow> linux_state \<Rightarrow>
    loaded \<times> linux_state" where
  "BootFromNative elf grub_of app e s =
     (let szGrub = InitGrubRequest (drive e) (partition_no e); g = grub_of szGrub
      in case bootSystem e of
           SYS_LINUX \<Rightarrow> linux_result (LoadLinuxNative elf g (drop 4 szGrub) (linux_options app e) s)
         | SYS_REACTOS \<Rightarrow> reactos_result s (LoadReactOSNative g (drop 4 szGrub) e (memory s)))"

definition BootFromCD :: "(u32 \<Rightarrow> u32 \<Rightarrow> mem \<Rightarrow> mem) \<Rightarrow> (u32 \<Rightarrow> cdrom) \<Rightarrow> u32 \<Rightarrow> CONFIGENTRY \<Rightarrow> linux_state \<Rightarrow>
    (loaded \<times> linux_state) option" where
  "BootFromCD elf cd app e s =
     (case bootSystem e of
        SYS_LINUX \<Rightarrow> map_option linux_result (LoadLinuxCD elf (cd (drive e)) (linux_options app e) s)
      | SYS_REACTOS \<Rightarrow> map_option (reactos_result s) (LoadReactOSCD (cd (drive e)) e (memory s)))"

definition boot_on_fatx :: "(u32 \<Rightarrow> u32 \<Rightarrow> mem \<Rightarrow> mem) \<Rightarrow> disk \<Rightarrow> u8 list \<Rightarrow> u8 list \<Rightarrow> FATXPartition \<Rightarrow> u32 \<Rightarrow> CONFIGENTRY \<Rightarrow>
    linux_state \<Rightarrow> (loaded \<times> linux_state) option" where
  "boot_on_fatx elf disk junk cj p app e s =
     (case bootSystem e of
        SYS_LINUX \<Rightarrow> map_option linux_result (LoadLinuxFATX elf disk junk cj (Some p) (linux_options app e) s)
      | SYS_REACTOS \<Rightarrow> map_option (reactos_result s) (LoadReactOSFATX disk junk cj p e (memory s)))"

definition BootFromFatX :: "(u32 \<Rightarrow> u32 \<Rightarrow> mem \<Rightarrow> mem) \<Rightarrow> disk \<Rightarrow> u8 list \<Rightarrow> u8 list \<Rightarrow> (nat \<Rightarrow> u8 list) \<Rightarrow> u32 \<Rightarrow> CONFIGENTRY \<Rightarrow>
    linux_state \<Rightarrow> (loaded \<times> linux_state) option" where
  "BootFromFatX elf disk junk cj hj app e s =
     (case OpenFATXPartition disk junk hj 0 SECTOR_STORE STORE_SIZE of
        None \<Rightarrow> None
      | Some None \<Rightarrow> Some (Not_loaded, s)
      | Some (Some p) \<Rightarrow> boot_on_fatx elf disk junk cj p app e s)"

text \<open>The switch on the device; then the system is entered, when it was loaded.\<close>

datatype boot_exit = Back_to_menu linux_state | Into_linux handover | Into_reactos multiboot_handover

definition enter_system :: "u32 \<Rightarrow> u32 \<Rightarrow> u32 \<Rightarrow> u8 \<Rightarrow> u16 \<Rightarrow> u32 \<Rightarrow> CONFIGENTRY \<Rightarrow> loaded \<times> linux_state \<Rightarrow> boot_exit" where
  "enter_system ram w h conductors revision app e = (\<lambda>(r, s).
     case r of
       Not_loaded \<Rightarrow> Back_to_menu s
     | Linux_loaded \<Rightarrow> Into_linux (ExittoLinux ram w h conductors revision (linux_options app e) s)
     | ReactOS_loaded mb \<Rightarrow>
         (case ExittoReactOS ram conductors revision mb (memory s) of None \<Rightarrow> Back_to_menu s | Some k \<Rightarrow> Into_reactos k))"

definition BootFromDevice :: "(u32 \<Rightarrow> u32 \<Rightarrow> mem \<Rightarrow> mem) \<Rightarrow> disk \<Rightarrow> u8 list \<Rightarrow> u8 list \<Rightarrow> (nat \<Rightarrow> u8 list) \<Rightarrow> (u8 list \<Rightarrow> grub) \<Rightarrow>
    (u32 \<Rightarrow> cdrom) \<Rightarrow> u32 \<Rightarrow> u32 \<Rightarrow> u32 \<Rightarrow> u8 \<Rightarrow> u16 \<Rightarrow> u32 \<Rightarrow> CONFIGENTRY \<Rightarrow> linux_state \<Rightarrow> boot_exit option" where
  "BootFromDevice elf disk junk cj hj grub_of cd ram w h conductors revision app e s =
     map_option (enter_system ram w h conductors revision app e)
       (case bootType e of
          BOOT_CDROM \<Rightarrow> BootFromCD elf cd app e s
        | BOOT_FATX \<Rightarrow> BootFromFatX elf disk junk cj hj app e s
        | BOOT_NATIVE \<Rightarrow> Some (BootFromNative elf grub_of app e s))"

subsection \<open>The boot menu\<close>

text \<open>
  What comes of a list of configurations: an entry that is booted, or a menu with an item for each,
  their captions, and the item that is selected first. \<open>None\<close> is the NULL that is read.
\<close>

datatype boot_outcome = Boots CONFIGENTRY | Boot_menu "(u8 list \<times> config) list" "nat option"

function DrawBootMenu :: "bool \<Rightarrow> config list \<Rightarrow> boot_outcome option"
  and BootMenuEntry :: "bool \<Rightarrow> config \<Rightarrow> boot_outcome option" where
  "DrawBootMenu timedOut cs =
     (case cs of
        [] \<Rightarrow> None
      | [c] \<Rightarrow> BootMenuEntry timedOut c
      | c # _ \<Rightarrow>
          if timedOut
          then (case List.find (\<lambda>c. isDefault (config_entry c)) cs of
                  Some d \<Rightarrow> BootMenuEntry timedOut d
                | None \<Rightarrow> BootMenuEntry timedOut c)
          else Some (Boot_menu (map (\<lambda>c. (take 50 (get_chars TITLE (config_entry c)), c)) cs)
                 (case filter (\<lambda>i. isDefault (config_entry (cs ! i))) [0..<length cs] of
                    [] \<Rightarrow> None | is \<Rightarrow> Some (last is))))"
| "BootMenuEntry timedOut c =
     (if nested c \<noteq> [] then DrawBootMenu timedOut (nested c) else Some (Boots (config_entry c)))"
  by pat_completeness auto
termination
proof -
  have m: "c \<in> set cs \<Longrightarrow> size c < size_list size cs" for c and cs :: "config list" by (induction cs) auto
  have f: "List.find P cs = Some d \<Longrightarrow> size d < size_list size cs" for P d and cs :: "config list"
    by (rule m) (auto simp: find_Some_iff)
  have f2: "(if P x then Some x else List.find P (y # z)) = Some d \<Longrightarrow> size d < Suc (Suc (size x + (size y + size_list size z)))"
    for P d x y and z :: "config list" using f [of P "x # y # z" d] by simp
  have n: "size_list size (nested c) < size c" for c by (cases c) simp
  show ?thesis
    by (relation "measure (\<lambda>x. case x of Inl (t, cs) \<Rightarrow> size_list size cs | Inr (t, c) \<Rightarrow> size c)")
      (auto simp: n intro: f2 m)
qed

section \<open>From the configuration to the kernel\<close>

text \<open>The item that is started without a user: the marked one, or the first.\<close>

definition auto_item :: "boot_item list \<times> u8 list option \<Rightarrow> boot_item" where
  "auto_item s = (case default_item s of Some i \<Rightarrow> fst s ! i | None \<Rightarrow> hd (fst s))"

lemma literals_within:
  "literals_at L m p n \<Longrightarrow> within p n m m' \<Longrightarrow> literals_at L m' p n"
  unfolding literals_at_def by (fast intro: within_cstr)

lemma within_wr: "length bs \<le> n \<Longrightarrow> within p n m (wr p bs m)"
proof -
  assume "length bs \<le> n"
  then have "region p (length bs) \<subseteq> region p n" by (auto simp: region_def)
  then show ?thesis by (auto simp: within_def intro: wr_outside)
qed

definition auto_entry :: "CONFIGENTRY list \<Rightarrow> CONFIGENTRY" where
  "auto_entry es = (case List.find isDefault es of Some e \<Rightarrow> e | None \<Rightarrow> hd es)"

text \<open>Started by the timeout, a list of plain entries boots its default or its first.\<close>

lemma auto_boot_plain:
  assumes "es \<noteq> []"
  shows "DrawBootMenu True (map (\<lambda>e. Config e []) es) = Some (Boots (auto_entry es))"
proof -
  have f: "List.find (\<lambda>c. isDefault (config_entry c)) (map (\<lambda>e. Config e []) xs) = map_option (\<lambda>e. Config e []) (List.find isDefault xs)" for xs
    by (induction xs) auto
  obtain e es' where es: "es = e # es'" using assms by (cases es) auto
  have b: "BootMenuEntry True (Config x []) = Some (Boots x)" for x by simp
  show ?thesis
  proof (cases es')
    case Nil
    then show ?thesis by (simp add: es auto_entry_def)
  next
    case (Cons e2 es2)
    then show ?thesis using f [of es] unfolding es
      by (simp add: auto_entry_def del: BootMenuEntry.simps split: option.splits) (auto simp: b split: if_splits option.splits)
  qed
qed

lemma find_nth:
  assumes "\<forall>i < length es. P (es ! i) \<longleftrightarrow> d = Some i" "\<And>i. d = Some i \<Longrightarrow> i < length es"
  shows "List.find P es = map_option ((!) es) d"
proof (cases d)
  case None
  then show ?thesis using assms(1) by (simp add: find_None_iff in_set_conv_nth) blast
next
  case (Some i)
  then show ?thesis using assms by (auto simp: find_Some_iff)
qed

lemma default_item_bound: "default_item (is, d) = Some i \<Longrightarrow> i < length is"
proof -
  have "x \<in> set xs \<Longrightarrow> \<not> P x \<Longrightarrow> length (takeWhile P xs) < length xs" for P x and xs :: "boot_item list"
    by (induction xs) auto
  then show "default_item (is, d) = Some i \<Longrightarrow> i < length is"
    by (auto simp: default_item_def split: option.splits if_splits)
qed

lemma auto_entry_item:
  assumes "map item_of es = fst s" "es \<noteq> []" "\<forall>i < length es. isDefault (es ! i) \<longleftrightarrow> default_item s = Some i"
  shows "item_of (auto_entry es) = auto_item s"
proof -
  have l: "length es = length (fst s)" using assms(1) by (metis length_map)
  have b: "default_item s = Some i \<Longrightarrow> i < length es" for i using default_item_bound [of "fst s" "snd s" i] l by simp
  have f: "List.find isDefault es = map_option ((!) es) (default_item s)"
    by (rule find_nth [where P = isDefault, OF assms(3) b])
  show ?thesis
  proof (cases "default_item s")
    case None
    then show ?thesis using assms(2) by (simp add: auto_entry_def auto_item_def f hd_map flip: assms(1))
  next
    case (Some i)
    then have "fst s ! i = item_of (es ! i)" using b [of i] by (simp flip: assms(1))
    with Some show ?thesis by (simp add: auto_entry_def auto_item_def f)
  qed
qed

lemma fill_entry_keeps [simp]: "isDefault (fill_entry bt drv part e) = isDefault e" "item_of (fill_entry bt drv part e) = item_of e"
  "get_chars off (fill_entry bt drv part e) = get_chars off e" "bootSystem (fill_entry bt drv part e) = bootSystem e"
  "bootType (fill_entry bt drv part e) = bt"
  by (cases bt; simp add: fill_entry_def item_of_def get_chars_def)+

lemma auto_entry_fill: "es \<noteq> [] \<Longrightarrow> auto_entry (map (fill_entry bt drv part) es) = fill_entry bt drv part (auto_entry es)"
proof -
  assume "es \<noteq> []"
  moreover have "List.find isDefault (map (fill_entry bt drv part) es) = map_option (fill_entry bt drv part) (List.find isDefault es)"
    by (induction es) auto
  ultimately show ?thesis by (cases "List.find isDefault es") (simp_all add: auto_entry_def hd_map)
qed

text \<open>Linux comes first: a device with both systems boots Linux when nobody chooses.\<close>

lemma auto_boot_systems:
  assumes "es \<noteq> []"
  shows "DrawBootMenu True (add_systems bt drv part es r) = Some (Boots (fill_entry bt drv part (auto_entry es)))"
proof -
  let ?es = "map (fill_entry bt drv part) es"
  let ?n = "Config (new_entry\<lparr>chars := take 15 (bytes ''Linux'') @ drop (length (take 15 (bytes ''Linux''))) (chars new_entry)\<rparr>)
    (map (\<lambda>e. Config e []) ?es)"
  have fill: "FillConfigEntries (map (\<lambda>e. Config e []) es) bt drv part = map (\<lambda>e. Config e []) ?es"
    by (simp add: FillConfigEntries_def)
  have "DrawBootMenu True (map (\<lambda>e. Config e []) ?es) = Some (Boots (fill_entry bt drv part (auto_entry es)))"
    using auto_boot_plain [of ?es] auto_entry_fill [OF assms] assms by simp
  then have n: "BootMenuEntry True ?n = Some (Boots (fill_entry bt drv part (auto_entry es)))"
    using assms by (subst BootMenuEntry.simps) simp
  show ?thesis
  proof (cases r)
    case None
    then have "add_systems bt drv part es r = [?n]" using assms by (simp add: add_systems_def fill AddNestedConfigEntry_def)
    then show ?thesis using n by (subst DrawBootMenu.simps) simp
  next
    case (Some e)
    then obtain c where "add_systems bt drv part es r = [?n, c]" "\<not> isDefault (config_entry c)"
      using assms by (simp add: add_systems_def fill AddNestedConfigEntry_def new_entry_def)
    moreover have "\<not> isDefault (config_entry ?n)" by (simp add: new_entry_def)
    ultimately show ?thesis using n by (subst DrawBootMenu.simps) simp
  qed
qed

text \<open>The parser's result for a buffer that holds a file of lines it can take.\<close>

lemma config_parsed:
  assumes area: "rd m buf (length (file @ b # rest)) = file @ b # rest" "unat buf + length (file @ b # rest) < 2 ^ 32"
      "buf \<noteq> 0" "0 \<notin> set file" "0 \<in> set rest" "literals_at L m buf (length (file @ b # rest))"
    and ok: "\<forall>l \<in> set (lines_of file). line_ok None l"
  obtains es m' where "ParseConfig L buf (of_nat (length file)) None m = Some (es, m')" "es \<noteq> []"
    "item_of (auto_entry es) = auto_item (file_says None file)" "\<forall>e \<in> set es. bootSystem e = SYS_LINUX"
proof -
  from parse_config_reads [OF area ok] obtain es m' where
    es: "ParseConfig L buf (of_nat (length file)) None m = Some (es, m')" "map item_of es = fst (file_says None file)"
      "\<forall>e \<in> set es. bootSystem e = SYS_LINUX" "\<forall>i < length es. isDefault (es ! i) \<longleftrightarrow> default_item (file_says None file) = Some i"
    by auto
  have "fst (fold (says None) ls s) \<noteq> []" if "fst s \<noteq> []" for ls s
    using that by (induction ls arbitrary: s) (auto simp: says_def Let_def on_last_def split: prod.splits)
  then have "fst (file_says None file) \<noteq> []" by (simp add: file_says_def)
  then have "es \<noteq> []" using es(2) by auto
  then show thesis using auto_entry_item [OF es(2) _ es(4)] es(1,3) that by blast
qed

lemma fatx_config_read:
  assumes vol: "fatx_volume disk p D dirs" "length cj = 0x4000" "fatx_file disk p dirs (bytes ''/linuxboot.cfg'') file"
    and mem: "rd m (buf + of_nat (length file)) (length (b # rest)) = b # rest" "unat buf + length (file @ b # rest) < 2 ^ 32"
      "buf \<noteq> 0" "0 \<notin> set file" "0 \<in> set rest" "literals_at L m buf (length (file @ b # rest))"
    and ok: "\<forall>l \<in> set (lines_of file). line_ok None l"
  obtains es m' where "DetectLinuxFATX L disk junk cj (Some p) info buf m = Some (es, m')" "es \<noteq> []"
    "item_of (auto_entry es) = auto_item (file_says None file)" "\<forall>e \<in> set es. bootSystem e = SYS_LINUX"
proof -
  obtain i where i: "LoadFATXFile disk junk cj (Some p) (bytes ''/linuxboot.cfg'') info = Some (True, i)"
    "buffer i = file" "fileSize i = of_nat (length file)"
    unfolding LoadFATXFile_def by (rule load_file_reads [OF vol(1,3,2)])
  let ?m = "wr buf file m" and ?B = "file @ b # rest"
  have lf: "length file \<le> 2 ^ 32" using mem(2) by simp
  have "region (buf + of_nat (length file)) (length (b # rest)) \<inter> region buf (length file) = {}"
  proof -
    have "unat (buf + of_nat (length file)) = unat buf + length file"
      using mem(2) by (simp add: unat_word_ariths unat_of_nat take_bit_nat_eq_self)
    then have "region buf (length file) \<inter> region (buf + of_nat (length file)) (length (b # rest)) = {}"
      using mem(2) by (intro areas_apart) simp_all
    then show ?thesis by blast
  qed
  then have "rd ?m (buf + of_nat (length file)) (length (b # rest)) = b # rest"
    using mem(1) by (simp only: rd_wr_other)
  then have area: "rd ?m buf (length ?B) = ?B"
    using rd_wr [OF lf, of buf m] by (simp only: length_append rd_add)
  have "literals_at L ?m buf (length ?B)"
    by (rule literals_within [OF mem(6) within_wr]) simp
  from config_parsed [OF area mem(2,3,4,5) this ok] obtain es m' where
    es: "ParseConfig L buf (of_nat (length file)) None ?m = Some (es, m')" "es \<noteq> []"
      "item_of (auto_entry es) = auto_item (file_says None file)" "\<forall>e \<in> set es. bootSystem e = SYS_LINUX" .
  then show thesis using i that by (simp add: DetectLinuxFATX_def)
qed

text \<open>
  C1. From the configuration file to the running kernel. On a FATX volume with a
  \<open>linuxboot.cfg\<close> whose lines the parser can take, detection returns a list of systems; when the
  timeout starts it, the entry booted is the default item of the file (or its first), as Linux from
  FATX; and when that item's kernel and RAM disk are files of the volume, the kernel is entered
  with its protected-mode part at 1 MB, the RAM disk at 9 MB and named in the parameters, and the
  first 511 characters of the item's command line, which lies at \<open>app\<close> in the heap.
\<close>

theorem configured_kernel_boots:
  assumes "fatx_volume disk p D dirs" "length cj = 0x4000" "fatx_file disk p dirs (bytes ''/linuxboot.cfg'') file"
    and "rd m (buf + of_nat (length file)) (length (b # rest)) = b # rest" "unat buf + length (file @ b # rest) < 2 ^ 32"
      "buf \<noteq> 0" "0 \<notin> set file" "0 \<in> set rest" "literals_at L m buf (length (file @ b # rest))"
    and "\<forall>l \<in> set (lines_of file). line_ok None l" "DetectReactOSFATX disk junk cj (Some p) info \<noteq> None"
    and "item = auto_item (file_says None file)"
    and "fatx_file disk p dirs (i_kernel item) K" "kernel_image K"
    and "i_initrd item \<noteq> []" "fatx_file disk p dirs (i_initrd item) I" "I \<noteq> []" "length I \<le> unat MAX_INITRD_SIZE"
    and "cstr (memory s) app (i_append item)" "0x02A00000 \<le> unat app" "unat app + length (i_append item) < 0xFD000000"
  shows "\<exists>cfgs m' e k. detect_on_fatx L disk junk cj p info buf m = Some (cfgs, m')
    \<and> DrawBootMenu True cfgs = Some (Boots e) \<and> bootType e = BOOT_FATX \<and> item_of e = item
    \<and> map_option (enter_system ram w h cc ar app e) (boot_on_fatx elf disk junk cj p app e s) = Some (Into_linux k)
    \<and> kernel_entry k = KERNEL_PM_CODE
    \<and> rd (kernel_memory k) KERNEL_PM_CODE (length K - header_bytes K) = drop (header_bytes K) K
    \<and> rd (kernel_memory k) INITRD_START (length I) = I
    \<and> rd (kernel_memory k) (KERNEL_SETUP + 0x218) 4 = le_field 4 (ucast INITRD_START)
    \<and> rd (kernel_memory k) (KERNEL_SETUP + 0x21c) 4 = le_field 4 (of_nat (length I))
    \<and> cstr (kernel_memory k) CMD_LINE_LOC (take 511 (i_append item))"
proof -
  obtain es m' where es: "DetectLinuxFATX L disk junk cj (Some p) info buf m = Some (es, m')" "es \<noteq> []"
    "item_of (auto_entry es) = item" "\<forall>e \<in> set es. bootSystem e = SYS_LINUX"
    using fatx_config_read [OF assms(1-10)] assms(12) by metis
  obtain r where r: "DetectReactOSFATX disk junk cj (Some p) info = Some r" using assms(11) by blast
  define e where "e = fill_entry BOOT_FATX 0 0 (auto_entry es)"
  have det: "detect_on_fatx L disk junk cj p info buf m = Some (add_systems BOOT_FATX 0 0 es r, m')"
    by (simp add: detect_on_fatx_def es(1) r)
  have boot: "DrawBootMenu True (add_systems BOOT_FATX 0 0 es r) = Some (Boots e)"
    unfolding e_def by (rule auto_boot_systems [OF es(2)])
  have "auto_entry es \<in> set es"
    using es(2) by (auto simp: auto_entry_def find_Some_iff split: option.splits)
  then have sys: "bootSystem e = SYS_LINUX" "bootType e = BOOT_FATX" "item_of e = item" using es(3,4) by (simp_all add: e_def)
  then have opt: "szKernel (linux_options app e) = i_kernel item" "szInitrd (linux_options app e) = i_initrd item"
    "szAppend (linux_options app e) = app" by (auto simp: linux_options_def item_of_def)
  obtain s' where s': "LoadLinuxFATX elf disk junk cj (Some p) (linux_options app e) s = Some (True, s')"
    and f: "enters_kernel K I (i_append item) (ExittoLinux ram w h cc ar (linux_options app e) s')"
    using linux_starts [of disk p D dirs cj "linux_options app e" K I s "i_append item" elf junk ram w h cc ar] assms opt by auto
  have "map_option (enter_system ram w h cc ar app e) (boot_on_fatx elf disk junk cj p app e s)
      = Some (Into_linux (ExittoLinux ram w h cc ar (linux_options app e) s'))"
    using s' sys by (simp add: boot_on_fatx_def linux_result_def enter_system_def)
  with det boot sys f show ?thesis unfolding enters_kernel_def by blast
qed

section \<open>A run from the configuration file\<close>

text \<open>
  A root directory with two files, in turn in all its slots: F, 1024 zero bytes in clusters 2 and 3,
  and \<open>linuxboot.cfg\<close> in cluster 3, which names F as kernel and as RAM disk.
\<close>

definition boot_file :: "u8 list" where
  "boot_file = bytes ''title A'' @ [0x0a] @ bytes ''kernel F'' @ [0x0a] @ bytes ''initrd F'' @ [0x0a] @ bytes ''append x'' @ [0x0a]"

definition config_dirent :: "u8 list" where
  "config_dirent = [13, 0] @ bytes ''linuxboot.cfg'' @ replicate 29 0 @ [3, 0, 0, 0, 35, 0, 0, 0] @ replicate 12 0"

definition boot_slots :: "u8 list list" where
  "boot_slots = concat (replicate 4 [linux_entry, config_dirent])"

definition boot_disk :: disk where
  "boot_disk drv sector = Some (if sector < 0x430 then concat boot_slots
     else if sector = 0x450 then boot_file @ replicate (512 - length boot_file) 0 else replicate 512 0)"

definition boot_mem :: mem where
  "boot_mem = fold (\<lambda>(a, s). wr a (s @ [0])) (literal_strings sample_literals) (\<lambda>_. 0)"

lemma config_dirent_facts:
  "length config_dirent = 64" "config_dirent ! 0 = 13" "entry_name config_dirent = bytes ''linuxboot.cfg''" "entry_cluster config_dirent = 3"
  "entry_size config_dirent = 35" "\<not> is_dir config_dirent"
  by (simp_all add: config_dirent_def entry_name_def entry_cluster_def entry_size_def le32_def is_dir_def
      entry_flags_def nth_append)

lemma boot_file_length: "length boot_file = 35"
  by (simp add: boot_file_def)

lemma nth_chunk_list:
  "\<forall>E \<in> set Es. length E = k \<Longrightarrow> i < length Es \<Longrightarrow> take k (drop (i * k) (concat Es)) = Es ! i"
proof (induction Es arbitrary: i)
  case (Cons E Es)
  then show ?case by (cases i) (simp_all add: nth_Cons)
qed simp

lemma sector_entries:
  assumes "length Es = 8" "\<forall>E \<in> set Es. length E = 64"
  shows "cluster_entries fatx_example (concat (map (\<lambda>i. concat Es) [0..<32])) = concat (replicate 32 Es)"
proof -
  have "concat (map (\<lambda>i. concat Es) [0..<n]) = concat (concat (replicate n Es))" for n
    by (induction n) (simp_all flip: replicate_append_same)
  moreover have "length (concat (replicate 32 Es)) = 256" by (simp add: length_concat sum_list_replicate assms(1))
  ultimately show ?thesis using assms(2)
    by (intro nth_equalityI)
      (simp_all add: cluster_entries_def fatx_example_def FATX_DIRECTORYENTRY_SIZE_def nth_chunk_list del: upt_rec_numeral)
qed

lemma boot_slots_facts: "length boot_slots = 8" "\<forall>E \<in> set boot_slots. length E = 64 \<and> \<not> is_dir E"
  using linux_entry_facts config_dirent_facts
  by (simp add: boot_slots_def length_concat sum_list_replicate, auto simp: boot_slots_def)

lemma boot_volume: "fatx_volume boot_disk fatx_example {1} (\<lambda>c. concat (replicate 32 boot_slots))"
proof -
  let ?data = "concat (map (\<lambda>i :: nat. concat boot_slots) [0..<32])"
  have low: "cluster_sector fatx_example 1 + of_nat i < 0x430" if "i < 32" for i
    using that by (simp add: cluster_sector_def fatx_example_def word_less_nat_alt unat_word_ariths unat_of_nat)
  have "length (concat boot_slots) = 512"
    using boot_slots_facts by (simp add: boot_slots_def linux_entry_facts config_dirent_facts numeral_eq_Suc)
  then have "cluster_holds boot_disk fatx_example 1 ?data"
    unfolding cluster_holds_def by (intro exI [of _ "\<lambda>i. concat boot_slots"]) (simp add: boot_disk_def low del: upt_rec_numeral)
  then have "holds_dir boot_disk fatx_example 1 (concat (replicate 32 boot_slots))"
    unfolding holds_dir_def using boot_slots_facts
    by (intro exI [of _ "[1]"] exI [of _ "\<lambda>_. ?data"])
      (simp add: fatx_example_chain(2) sector_entries del: upt_rec_numeral)
  then show ?thesis using boot_slots_facts(2)
    by (auto simp: holds_tree_def fatx_volume_def fatx_example_geometry FATX_ROOT_FAT_CLUSTER_def)
qed

definition boot_cluster :: "u32 \<Rightarrow> u8 list" where
  "boot_cluster c = concat (map (\<lambda>i. the (boot_disk 0 (cluster_sector fatx_example c + of_nat i))) [0..<32])"

lemma boot_cluster_holds: "c = 2 \<or> c = 3 \<Longrightarrow> cluster_holds boot_disk fatx_example c (boot_cluster c)"
proof -
  assume c: "c = 2 \<or> c = 3"
  have "\<not> cluster_sector fatx_example c + of_nat i < 0x430" if "i < 32" for i
    using that c by (auto simp: cluster_sector_def fatx_example_def word_less_nat_alt unat_word_ariths unat_of_nat)
  then show ?thesis unfolding cluster_holds_def boot_cluster_def
    by (intro exI [of _ "\<lambda>i. the (boot_disk 0 (cluster_sector fatx_example c + of_nat i))"])
      (auto simp: boot_disk_def fatx_example_def boot_file_length)
qed

lemma boot_cluster_starts:
  "take 1024 (boot_cluster 2) = replicate 1024 0" "take 35 (boot_cluster 3) = boot_file"
proof -
  have u: "[0..<32] = 0 # 1 # [2..<32]" by (simp add: upt_rec)
  have s: "cluster_sector fatx_example 2 + 0 = 0x430" "cluster_sector fatx_example 2 + 1 = 0x431" "cluster_sector fatx_example 3 + 0 = 0x450"
    by (simp_all add: cluster_sector_def fatx_example_def)
  show "take 1024 (boot_cluster 2) = replicate 1024 0"
    unfolding boot_cluster_def u using s by (simp add: boot_disk_def flip: replicate_add del: upt_rec_numeral)
  show "take 35 (boot_cluster 3) = boot_file"
    unfolding boot_cluster_def u using s by (simp add: boot_disk_def boot_file_length del: upt_rec_numeral)
qed

lemma dir_lookup_short:
  assumes "\<forall>E \<in> set Es. 0 < E ! 0 \<and> unat (E ! 0) \<le> 42"
  shows "dir_lookup name Es = find (\<lambda>e. entry_name e = name) Es"
proof -
  have "E ! 0 \<noteq> 0 \<and> E ! 0 \<noteq> 0xff \<and> E ! 0 \<noteq> 0xE5" if "E \<in> set Es" for E using assms that by fastforce
  then have "takeWhile (\<lambda>e. e ! 0 \<notin> {0, 0xff}) Es = Es" "filter (\<lambda>e. e ! 0 \<noteq> 0xE5) Es = Es"
    by (auto simp: takeWhile_eq_all_conv filter_id_conv)
  then have "live_entries Es = Es" by (simp only: live_entries_def)
  moreover have "takeWhile (\<lambda>e. unat (e ! 0) \<le> 42) Es = Es" using assms by (auto simp: takeWhile_eq_all_conv)
  ultimately show ?thesis by (simp only: dir_lookup_def)
qed

lemma boot_lookup:
  "path_lookup (\<lambda>c. concat (replicate 32 boot_slots)) 1 [[0x46]] = Some linux_entry"
  "path_lookup (\<lambda>c. concat (replicate 32 boot_slots)) 1 [bytes ''linuxboot.cfg''] = Some config_dirent"
  "path_lookup (\<lambda>c. concat (replicate 32 boot_slots)) 1 [bytes ''freeldr.sys''] = None"
proof -
  define es where "es = concat (replicate 32 boot_slots)"
  have set_es: "set es = {linux_entry, config_dirent}" by (auto simp: es_def boot_slots_def)
  obtain r where r: "es = linux_entry # config_dirent # r" by (simp add: es_def boot_slots_def numeral_eq_Suc)
  have look: "dir_lookup name es = find (\<lambda>e. entry_name e = name) es" for name
    by (rule dir_lookup_short) (simp add: set_es linux_entry_facts config_dirent_facts)
  have "find (\<lambda>e. entry_name e = bytes ''freeldr.sys'') es = None"
    by (auto simp: find_None_iff set_es linux_entry_facts config_dirent_facts)
  then show "path_lookup (\<lambda>c. concat (replicate 32 boot_slots)) 1 [[0x46]] = Some linux_entry"
    "path_lookup (\<lambda>c. concat (replicate 32 boot_slots)) 1 [bytes ''linuxboot.cfg''] = Some config_dirent"
    "path_lookup (\<lambda>c. concat (replicate 32 boot_slots)) 1 [bytes ''freeldr.sys''] = None"
    unfolding es_def [symmetric] path_lookup.simps look by (simp_all add: r linux_entry_facts config_dirent_facts)
qed

lemma boot_files:
  "fatx_file boot_disk fatx_example (\<lambda>c. concat (replicate 32 boot_slots)) [0x2f, 0x46] (replicate 1024 0)"
  "fatx_file boot_disk fatx_example (\<lambda>c. concat (replicate 32 boot_slots)) (bytes ''/linuxboot.cfg'') boot_file"
proof -
  note holds = boot_cluster_holds [of 2] boot_cluster_holds [of 3]
  have l: "1024 \<le> length (boot_cluster 2)" using arg_cong [OF boot_cluster_starts(1), of length] by simp
  have c3: "fatx_chain fatx_example 3 [3]"
    using fatx_chain.link [OF _ fatx_example_next(3) fatx_chain.end_of_chain] by simp
  show "fatx_file boot_disk fatx_example (\<lambda>c. concat (replicate 32 boot_slots)) [0x2f, 0x46] (replicate 1024 0)"
    unfolding fatx_file_def using boot_lookup(1) holds boot_cluster_starts(1) l
    by (intro exI [of _ "[[0x46]]"] exI [of _ linux_entry] exI [of _ "[2, 3]"] exI [of _ boot_cluster])
      (auto simp del: path_lookup.simps simp: linux_entry_facts FATX_ROOT_FAT_CLUSTER_def good_component_def FATX_FILENAME_MAX_def
        turn_slashes_def fatx_example_chain)
  show "fatx_file boot_disk fatx_example (\<lambda>c. concat (replicate 32 boot_slots)) (bytes ''/linuxboot.cfg'') boot_file"
    unfolding fatx_file_def using boot_lookup(2) holds boot_cluster_starts(2) c3
    by (intro exI [of _ "[bytes ''linuxboot.cfg'']"] exI [of _ config_dirent] exI [of _ "[3]"] exI [of _ boot_cluster])
      (auto simp del: path_lookup.simps simp: config_dirent_facts FATX_ROOT_FAT_CLUSTER_def good_component_def FATX_FILENAME_MAX_def
        turn_slashes_def)
qed

lemma boot_lines: "lines_of boot_file = [bytes ''title A'', bytes ''kernel F'', bytes ''initrd F'', bytes ''append x'', []]"
  unfolding boot_file_def by code_simp

lemma boot_says:
  "file_says None boot_file = ([\<lparr>i_title = bytes ''A'', i_kernel = [0x2f, 0x46], i_initrd = [0x2f, 0x46], i_append = bytes ''x''\<rparr>], None)"
  unfolding file_says_def boot_lines by code_simp

lemma boot_ok: "\<forall>l \<in> set (lines_of boot_file). line_ok None l"
  unfolding boot_lines by code_simp

lemma boot_literals_at: "literals_at sample_literals boot_mem 0x1000 (length (boot_file @ 0 # [0]))"
  unfolding literals_at_def literal_strings_def sample_literals_def keys
  by (auto simp: boot_mem_def boot_file_length sample_literals_def literal_strings_def keys intro!: areas_apart)

lemma boot_no_freeldr: "DetectReactOSFATX boot_disk [] (replicate 0x4000 0) (Some fatx_example) info \<noteq> None"
proof -
  have tree: "holds_tree boot_disk fatx_example {1} (\<lambda>c. concat (replicate 32 boot_slots))"
    using boot_volume by (simp add: fatx_volume_def)
  have t: "turn_slashes (bytes ''/freeldr.sys'') = 0x2f # join_path [bytes ''freeldr.sys'']"
    by (simp add: turn_slashes_def)
  have "FATXFindFile boot_disk [] (replicate 0x4000 0) fatx_example (bytes ''/freeldr.sys'') FATX_ROOT_FAT_CLUSTER i = Some (False, i)" for i
    using find_path_resolves [OF tree fatx_example_geometry _ _ _ _ t, of "replicate 0x4000 0" "[]" i] boot_lookup(3)
    by (simp add: FATX_ROOT_FAT_CLUSTER_def good_component_def FATX_FILENAME_MAX_def found_def)
  then show ?thesis by (simp add: DetectReactOSFATX_def LoadFATXFile_def load_file_def)
qed

text \<open>The heap holds the command line of the item; the machine's memory is otherwise arbitrary.\<close>

definition boot_start :: linux_state where
  "boot_start = \<lparr>memory = wr 0x3000000 (bytes ''x'' @ [0]) (\<lambda>_. 0xaa), dwKernelSize = 0, dwInitrdSize = 0\<rparr>"

theorem configured_kernel_boots_witness:
  "\<exists>cfgs m' e k. detect_on_fatx sample_literals boot_disk [] (replicate 0x4000 0) fatx_example (fatx_example_info 0 0) 0x1000 boot_mem = Some (cfgs, m')
    \<and> DrawBootMenu True cfgs = Some (Boots e)
    \<and> map_option (enter_system 64 640 480 80 0x3f 0x3000000 e)
        (boot_on_fatx (\<lambda>_ _ m. m) boot_disk [] (replicate 0x4000 0) fatx_example 0x3000000 e boot_start) = Some (Into_linux k)
    \<and> rd (kernel_memory k) INITRD_START 1024 = replicate 1024 0"
proof -
  have area: "rd boot_mem (0x1000 + of_nat (length boot_file)) (length (0 # [0 :: u8])) = 0 # [0]"
    by (simp add: boot_mem_def boot_file_length sample_literals_def literal_strings_def keys rd_def)
  have "replicate 4 (0 :: u8) = [0, 0, 0, 0]" by (simp add: numeral_eq_Suc)
  then have k: "kernel_image (replicate 1024 0)"
    by (simp add: kernel_image_def header_bytes_def MAX_KERNEL_SIZE_def)
  have c: "cstr (memory boot_start) 0x3000000 (bytes ''x'')" unfolding boot_start_def by (simp add: cstr_wr)
  define item where "item = auto_item (file_says None boot_file)"
  have item: "i_kernel item = [0x2f, 0x46]" "i_initrd item = [0x2f, 0x46]" "i_append item = bytes ''x''"
    unfolding item_def boot_says by (simp_all add: auto_item_def default_item_def)
  have f: "length (replicate 0x4000 (0 :: u8)) = 0x4000" "unat (0x1000 :: u32) + length (boot_file @ 0 # [0]) < 2 ^ 32"
    "(0x1000 :: u32) \<noteq> 0" "0 \<notin> set boot_file" "(0 :: u8) \<in> set [0]" "replicate 1024 (0 :: u8) \<noteq> []"
    "length (replicate 1024 (0 :: u8)) \<le> unat MAX_INITRD_SIZE"
    "0x02A00000 \<le> unat (0x3000000 :: u32)" "unat (0x3000000 :: u32) + length (i_append item) < 0xFD000000"
    by (simp_all add: boot_file_length boot_file_def MAX_INITRD_SIZE_def item)
  have i: "fatx_file boot_disk fatx_example (\<lambda>c. concat (replicate 32 boot_slots)) (i_kernel item) (replicate 1024 0)"
    "fatx_file boot_disk fatx_example (\<lambda>c. concat (replicate 32 boot_slots)) (i_initrd item) (replicate 1024 0)"
    "i_initrd item \<noteq> []" "cstr (memory boot_start) 0x3000000 (i_append item)"
    using boot_files(1) c unfolding item by simp_all
  have "length (replicate 1024 (0 :: u8)) = 1024" by simp
  note r = configured_kernel_boots [OF boot_volume f(1) boot_files(2) area f(2-5) boot_literals_at boot_ok boot_no_freeldr item_def
      i(1) k i(3) i(2) f(6,7) i(4) f(8,9), where info = "fatx_example_info 0 0" and elf = "\<lambda>_ _ m. m" and ram = 64 and w = 640 and h = 480 and cc = 80 and ar = "0x3f",
      unfolded this]
  then show ?thesis by (elim exE conjE) (intro exI conjI, assumption+)
qed

section \<open>From a CD\<close>

lemma reactos_detection_returns: "iso_volume cd D \<Longrightarrow> DetectReactOSCD cd m \<noteq> None"
proof -
  assume v: "iso_volume cd D"
  have "BootIso9660GetFile cd (iso_path [bytes ''loader'', f]) buf limit m \<noteq> None"
    if "good_name f" "length f \<le> 100" for f buf limit m
    using get_file_resolves [OF v, of "[bytes ''loader'', f]" buf limit m] that
    by (simp add: good_name_def iso_path_def split: option.splits)
  from this [of "bytes ''freeldr.sys''"] this [of "bytes ''setupldr.sys''"]
  have "BootIso9660GetFile cd (bytes ''/loader/freeldr.sys'') buf limit m \<noteq> None"
    "BootIso9660GetFile cd (bytes ''/loader/setupldr.sys'') buf limit m \<noteq> None" for buf limit m
    by (auto simp: iso_path_def good_name_def)
  note returns = this
  obtain n1 m1 where n1: "BootIso9660GetFile cd (bytes ''/loader/freeldr.sys'') FREELDR_LOAD_AREA FREELDR_MAX_SIZE m = Some (n1, m1)"
    using returns(1) [of FREELDR_LOAD_AREA FREELDR_MAX_SIZE m] by auto
  obtain n2 m2 where "BootIso9660GetFile cd (bytes ''/loader/setupldr.sys'') FREELDR_LOAD_AREA FREELDR_MAX_SIZE m1 = Some (n2, m2)"
    using returns(2) [of FREELDR_LOAD_AREA FREELDR_MAX_SIZE m1] by auto
  with n1 show ?thesis by (simp add: DetectReactOSCD_def del: list.map)
qed

lemma positive_small: "0 < n \<Longrightarrow> n < 2 ^ 31 \<Longrightarrow> \<not> (of_nat n :: u32) \<le>s 0"
  by (simp add: word_sle_eq sint_uint signed_take_bit_int_eq_self unat_of_nat uint_nat take_bit_nat_eq_self)

lemma cd_config_read:
  assumes vol: "iso_volume cd D" "iso_lookup cd (iso_root cd) [bytes ''linuxboo.cfg''] = None"
      "iso_file cd (bytes ''/linuxboot.cfg'') file"
    and sz: "file \<noteq> []" "length file < 0x800" "0 \<notin> set file" and lit: "literals_at L m KERNEL_SETUP 0x1000"
    and ok: "\<forall>l \<in> set (lines_of file). line_ok None l"
  obtains es m' where "DetectLinuxCD L cd m = Some (es, m')" "es \<noteq> []"
    "item_of (auto_entry es) = auto_item (file_says None file)" "\<forall>e \<in> set es. bootSystem e = SYS_LINUX"
proof -
  let ?m0 = "memset KERNEL_SETUP 0 KERNEL_HDR_SIZE m"
  have first: "BootIso9660GetFile cd (bytes ''/linuxboo.cfg'') KERNEL_SETUP 0x800 ?m0 = Some (- 1, ?m0)"
    using get_file_resolves [OF vol(1), of "[bytes ''linuxboo.cfg'']" KERNEL_SETUP "0x800" ?m0] vol(2)
    by (simp add: good_name_def iso_path_def)
  have "length file < unat (0x800 :: u32)" using sz(2) by simp
  then obtain bs where bs: "length bs = file_span (length file)" "take (length file) bs = file"
    "BootIso9660GetFile cd (bytes ''/linuxboot.cfg'') KERNEL_SETUP 0x800 ?m0 = Some (of_nat (length file), wr KERNEL_SETUP bs ?m0)"
    by (rule iso_file_contents [OF vol(1,3)])
  let ?m1 = "wr KERNEL_SETUP bs ?m0"
  have l: "length bs = 2048" using bs(1) sz(2) by (simp add: file_span_def)
  have "rd ?m1 KERNEL_SETUP (length bs) = bs" using l by (intro rd_wr) simp
  then have low: "rd ?m1 KERNEL_SETUP 2048 = bs" by (simp only: l)
  have "rd ?m0 KERNEL_SETUP (length (replicate 4096 (0 :: u8))) = replicate 4096 0"
    unfolding memset_wr KERNEL_HDR_SIZE_def by (simp del: wr.simps) (rule rd_wr [of "replicate 4096 0", simplified])
  then have "rd ?m0 (KERNEL_SETUP + of_nat 2048) 2048 = drop 2048 (replicate 4096 0)"
    using rd_drop [of 2048 4096 ?m0 KERNEL_SETUP] by simp
  moreover have "region (KERNEL_SETUP + of_nat 2048) 2048 \<inter> region KERNEL_SETUP (length bs) = {}"
    using l areas_apart' [of KERNEL_SETUP 2048 "KERNEL_SETUP + of_nat 2048" 2048] by (simp add: KERNEL_SETUP_def)
  ultimately have high: "rd ?m1 (KERNEL_SETUP + of_nat 2048) 2048 = replicate 2048 0" by (simp add: rd_wr_other)
  obtain b r where br: "drop (length file) bs = b # r"
    using l sz(2) by (cases "drop (length file) bs") auto
  have B: "bs @ replicate 2048 0 = file @ b # r @ replicate 2048 0"
    using append_take_drop_id [of "length file" bs] bs(2) br by simp
  have L: "length (file @ b # r @ replicate 2048 0) = 4096" using arg_cong [OF B, of length] l by simp
  have area: "rd ?m1 KERNEL_SETUP (length (file @ b # r @ replicate 2048 0)) = file @ b # r @ replicate 2048 0"
    unfolding L B [symmetric] using rd_add [of ?m1 KERNEL_SETUP 2048 2048] low high by (simp add: l)
  have "within KERNEL_SETUP 4096 m ?m1"
    by (rule within_trans [OF _ within_wr]) (simp_all add: l memset_wr KERNEL_HDR_SIZE_def within_wr)
  then have lits: "literals_at L ?m1 KERNEL_SETUP (length (file @ b # r @ replicate 2048 0))"
    unfolding L by (rule literals_within [OF lit])
  have "unat KERNEL_SETUP + length (file @ b # r @ replicate 2048 0) < 2 ^ 32" unfolding L by simp
  from config_parsed [OF area this _ sz(3) _ lits ok] obtain es m' where
    es: "ParseConfig L KERNEL_SETUP (of_nat (length file)) None ?m1 = Some (es, m')" "es \<noteq> []"
      "item_of (auto_entry es) = auto_item (file_says None file)" "\<forall>e \<in> set es. bootSystem e = SYS_LINUX"
    by (auto simp: KERNEL_SETUP_def)
  have "\<not> (of_nat (length file) :: u32) \<le>s 0" using sz by (intro positive_small) auto
  then have "DetectLinuxCD L cd m = Some (es, m')" using es(1) by (simp add: DetectLinuxCD_def first bs(3) Let_def del: list.map)
  then show thesis using es that by blast
qed

text \<open>
  C10. Booting from a CD. When the ISO volume has a \<open>linuxboot.cfg\<close> (and no \<open>linuxboo.cfg\<close>, which is
  tried first) of less than 2 KB whose lines the parser can take, the first poll of the drive
  ends the wait for a CD; the timeout then boots the default item of the file as Linux from that
  drive; and when that item's kernel and RAM disk are files of the volume smaller than their
  limits, the kernel is entered with both in their places, with the parameters and the first 511
  characters of the item's command line.
\<close>

theorem configured_cd_boots:
  assumes "iso_volume (drives d) D" "iso_lookup (drives d) (iso_root (drives d)) [bytes ''linuxboo.cfg''] = None"
    and "iso_file (drives d) (bytes ''/linuxboot.cfg'') file" "file \<noteq> []" "length file < 0x800" "0 \<notin> set file"
      "literals_at L m KERNEL_SETUP 0x1000" "\<forall>l \<in> set (lines_of file). line_ok None l"
    and "item = auto_item (file_says None file)"
    and "iso_file (drives d) (i_kernel item) K" "kernel_image K" "length K < unat MAX_KERNEL_SIZE"
    and "i_initrd item \<noteq> []" "iso_file (drives d) (i_initrd item) I" "I \<noteq> []" "length I < unat MAX_INITRD_SIZE"
    and "cstr (memory s) app (i_append item)" "0x02A00000 \<le> unat app" "unat app + length (i_append item) < 0xFD000000"
  shows "\<exists>x m' cfgs e k. poll_drive L (drives d) a b tray m = Some (x, m') \<and> DetectSystemCD d (x # w) = Some cfgs
    \<and> DrawBootMenu True cfgs = Some (Boots e) \<and> item_of e = item
    \<and> BootFromDevice elf disk junk cj hj grub_of drives ram wi h cc ar app e s = Some (Into_linux k)
    \<and> enters_kernel K I (i_append item) k"
proof -
  obtain es m1 where es: "DetectLinuxCD L (drives d) m = Some (es, m1)" "es \<noteq> []" "item_of (auto_entry es) = item"
    "\<forall>e \<in> set es. bootSystem e = SYS_LINUX"
    using cd_config_read [OF assms(1-8)] assms(9) by metis
  obtain r m2 where r: "DetectReactOSCD (drives d) m1 = Some (r, m2)"
    using reactos_detection_returns [OF assms(1), of m1] by auto
  define x where "x = \<lparr>found_linux = es, found_reactos = r, key_A = a, key_B = b, tray_pushed = tray\<rparr>"
  have poll: "poll_drive L (drives d) a b tray m = Some (x, m2)" by (simp add: poll_drive_def es(1) r x_def)
  have "cd_found x" using es(2) by (simp add: cd_found_def x_def)
  then have "detect_rounds 32 (x # w) = Some (Some x, w)" by (simp add: numeral_eq_Suc)
  then have det: "DetectSystemCD d (x # w) = Some (add_systems BOOT_CDROM d 0 es r)"
    unfolding DetectSystemCD_def cd_loop.simps [of "x # w"] by (simp add: x_def)
  define e where "e = fill_entry BOOT_CDROM d 0 (auto_entry es)"
  have boot: "DrawBootMenu True (add_systems BOOT_CDROM d 0 es r) = Some (Boots e)"
    unfolding e_def by (rule auto_boot_systems [OF es(2)])
  have "auto_entry es \<in> set es"
    using es(2) by (auto simp: auto_entry_def find_Some_iff split: option.splits)
  then have sys: "bootSystem e = SYS_LINUX" "bootType e = BOOT_CDROM" "item_of e = item" using es(3,4) by (simp_all add: e_def)
  have drv: "drive e = d" by (simp add: e_def fill_entry_def)
  have opt: "szKernel (linux_options app e) = i_kernel item" "szInitrd (linux_options app e) = i_initrd item"
    "szAppend (linux_options app e) = app" using sys(3) by (auto simp: linux_options_def item_of_def)
  obtain s' where "LoadLinuxCD elf (drives d) (linux_options app e) s = Some (True, s')"
    "enters_kernel K I (i_append item) (ExittoLinux ram wi h cc ar (linux_options app e) s')"
    using cd_linux_starts [of "drives d" D "linux_options app e" K I s "i_append item" elf ram wi h cc ar] assms opt by auto
  then have "BootFromDevice elf disk junk cj hj grub_of drives ram wi h cc ar app e s
      = Some (Into_linux (ExittoLinux ram wi h cc ar (linux_options app e) s'))"
    "enters_kernel K I (i_append item) (ExittoLinux ram wi h cc ar (linux_options app e) s')"
    using sys drv by (simp_all add: BootFromDevice_def BootFromCD_def linux_result_def enter_system_def)
  with poll det boot sys(3) show ?thesis by blast
qed

lemma sample_cd_lines: "lines_of sample_config = [bytes ''title A'', bytes ''kernel k'', bytes ''initrd k'', bytes ''append x'', []]"
  unfolding sample_config_def by code_simp

lemma sample_cd_says: "file_says None sample_config
    = ([\<lparr>i_title = bytes ''A'', i_kernel = bytes ''/k'', i_initrd = bytes ''/k'', i_append = bytes ''x''\<rparr>], None)"
  unfolding file_says_def sample_cd_lines by code_simp

lemma sample_cd_ok: "\<forall>l \<in> set (lines_of sample_config). line_ok None l"
  unfolding sample_cd_lines by code_simp

lemma sample_cd_literals: "literals_at sample_literals boot_mem KERNEL_SETUP 0x1000"
  unfolding literals_at_def literal_strings_def sample_literals_def keys
  by (auto simp: boot_mem_def sample_literals_def literal_strings_def keys KERNEL_SETUP_def intro!: areas_apart)

text \<open>The first poll finds the CD whatever the buttons, and the file's item boots.\<close>

theorem configured_cd_boots_witness:
  "\<exists>x m' cfgs e k. poll_drive sample_literals sample_cd False False False boot_mem = Some (x, m')
    \<and> DetectSystemCD 1 [x] = Some cfgs \<and> DrawBootMenu True cfgs = Some (Boots e)
    \<and> BootFromDevice (\<lambda>_ _ m. m) boot_disk [] [] (\<lambda>_. []) (\<lambda>_. \<lparr>grub_open = (\<lambda>_. (0, 0, 0)), grub_read = (\<lambda>_ _ _ m. (0, m))\<rparr>)
        (\<lambda>_. sample_cd) 64 640 480 80 0x3f 0x3000000 e boot_start = Some (Into_linux k)
    \<and> rd (kernel_memory k) INITRD_START 1024 = replicate 1024 0"
proof -
  define item where "item = auto_item (file_says None sample_config)"
  have item: "i_kernel item = bytes ''/k''" "i_initrd item = bytes ''/k''" "i_append item = bytes ''x''"
    unfolding item_def sample_cd_says by (simp_all add: auto_item_def default_item_def)
  have "replicate 4 (0 :: u8) = [0, 0, 0, 0]" by (simp add: numeral_eq_Suc)
  then have k: "kernel_image (replicate 1024 0)"
    by (simp add: kernel_image_def header_bytes_def MAX_KERNEL_SIZE_def)
  have c: "cstr (memory boot_start) 0x3000000 (i_append item)" unfolding boot_start_def item by (simp add: cstr_wr)
  have lk: "iso_lookup sample_cd (iso_root sample_cd) [bytes ''linuxboo.cfg''] = None"
    by (simp add: sample_root_record sample_lists)
  have f: "sample_config \<noteq> []" "length sample_config < 0x800" "0 \<notin> set sample_config" "i_initrd item \<noteq> []"
    "replicate 1024 (0 :: u8) \<noteq> []" "length (replicate 1024 (0 :: u8)) < unat MAX_KERNEL_SIZE"
    "length (replicate 1024 (0 :: u8)) < unat MAX_INITRD_SIZE"
    "0x02A00000 \<le> unat (0x3000000 :: u32)" "unat (0x3000000 :: u32) + length (i_append item) < 0xFD000000"
    by (simp_all add: sample_config_def MAX_KERNEL_SIZE_def MAX_INITRD_SIZE_def item)
  have i: "iso_file sample_cd (i_kernel item) (replicate 1024 0)" "iso_file sample_cd (i_initrd item) (replicate 1024 0)"
    unfolding item by (rule sample_files(1))+
  have "length (replicate 1024 (0 :: u8)) = 1024" by simp
  note r = configured_cd_boots [where drives = "\<lambda>_. sample_cd" and d = 1 and w = "[]", OF sample_volume lk sample_files(3) f(1-3) sample_cd_literals
      sample_cd_ok item_def i(1) k f(6,4) i(2) f(5,7) c f(8,9), of False False False "\<lambda>_ _ m. m" boot_disk "[]" "[]" "\<lambda>_. []"
      "\<lambda>_. \<lparr>grub_open = (\<lambda>_. (0, 0, 0)), grub_read = (\<lambda>_ _ _ m. (0, m))\<rparr>" 64 640 480 80 "0x3f", unfolded this enters_kernel_def]
  then show ?thesis by (elim exE conjE) (intro exI conjI, assumption+)
qed

end
