(* ===== verification/FlashCD.thy ===== *)
theory FlashCD
  imports BootDevice Flash Sha1
begin

text \<open>
  Reprogramming the flash from a CD, \<open>BootLoadFlashCD\<close> of \<open>boot/BootFromDevice.c\<close>: the file \<open>image.bin\<close> of
  256 KB is read to 1 MB, programmed, and the SHA-1 digest of what the chip then holds is compared
  with that of the file. The CDs found by the attempts to read, in turn, and the polls of button A
  are lists; \<open>None\<close> when they do not end the waiting.
\<close>

section \<open>The code\<close>

definition FLASH_IMAGE :: u32 where "FLASH_IMAGE = 256 * 1024"

text \<open>An attempt, with a limit of 16 bytes.\<close>

definition probe_cd :: "cdrom \<Rightarrow> mem \<Rightarrow> (bool \<times> mem) option" where
  "probe_cd cd m = map_option (\<lambda>(n, m1). (0 \<le>s n, m1)) (BootIso9660GetFile cd (bytes ''/image.bin'') KERNEL_PM_CODE 0x10 m)"

fun probe_rounds :: "nat \<Rightarrow> cdrom list \<Rightarrow> mem \<Rightarrow> (bool \<times> cdrom list \<times> mem) option" where
  "probe_rounds 0 cds m = Some (False, cds, m)"
| "probe_rounds (Suc n) [] m = None"
| "probe_rounds (Suc n) (cd # cds) m =
     (case probe_cd cd m of None \<Rightarrow> None
      | Some (cdPresent, m1) \<Rightarrow> if cdPresent then Some (True, cds, m1) else probe_rounds n cds m1)"

text \<open>After the CD has been asked for: button A, then attempts until the media is readable.\<close>

fun wait_readable :: "cdrom list \<Rightarrow> mem \<Rightarrow> (cdrom list \<times> mem) option" where
  "wait_readable [] m = None"
| "wait_readable (cd # cds) m =
     (case probe_cd cd m of None \<Rightarrow> None
      | Some (ok, m1) \<Rightarrow> if ok then Some (cds, m1) else wait_readable cds m1)"

definition find_image_cd :: "cdrom list \<Rightarrow> bool list \<Rightarrow> mem \<Rightarrow> (cdrom list \<times> mem) option" where
  "find_image_cd cds keys_A m =
     (case probe_rounds 16 cds m of None \<Rightarrow> None
      | Some (True, cds1, m1) \<Rightarrow> Some (cds1, m1)
      | Some (False, cds1, m1) \<Rightarrow> if True \<in> set keys_A then wait_readable cds1 m1 else None)"

text \<open>
  How it ends: it hangs with a message, restarts the machine, or returns 0 after a second
  programming. \<open>context\<close> and \<open>of0\<close> are uninitialised objects on the stack.
\<close>

datatype 'c flash_cd = Image_refused | Rebooted "'c flash_state" | Reflashed "'c flash_state"

definition flash_and_check :: "'c chip \<Rightarrow> OBJECT_FLASH \<Rightarrow> SHA1Context \<Rightarrow> u8 list \<Rightarrow> 'c flash_state \<Rightarrow> 'c flash_cd option" where
  "flash_and_check chip of0 context bios s =
     (case BootReflashAndReset chip of0 bios 0 FLASH_IMAGE s of None \<Rightarrow> None
      | Some (code, s1) \<Rightarrow>
          let checksum = sha1_of_chunks context [bios];
              (flash, c) = read_back chip 0 (unat FLASH_IMAGE) (fchip s1);
              s2 = s1\<lparr>fchip := c\<rparr>
          in if checksum = sha1_of_chunks context [flash] then Some (Rebooted s2)
             else map_option (\<lambda>(code, s3). Reflashed s3) (BootReflashAndReset chip of0 bios 0 FLASH_IMAGE s2))"

definition BootLoadFlashCD :: "'c chip \<Rightarrow> OBJECT_FLASH \<Rightarrow> SHA1Context \<Rightarrow> cdrom list \<Rightarrow> bool list \<Rightarrow> mem \<Rightarrow> 'c flash_state \<Rightarrow>
    'c flash_cd option" where
  "BootLoadFlashCD chip of0 context cds keys_A m s =
     (case find_image_cd cds keys_A (memset KERNEL_SETUP 0 KERNEL_HDR_SIZE m) of
        None \<Rightarrow> None
      | Some ([], m1) \<Rightarrow> None
      | Some (cd # cds1, m1) \<Rightarrow>
          (case BootIso9660GetFile cd (bytes ''/image.bin'') KERNEL_PM_CODE FLASH_IMAGE m1 of
             None \<Rightarrow> None
           | Some (dwConfigSize, m2) \<Rightarrow>
               if dwConfigSize \<noteq> FLASH_IMAGE then Some Image_refused
               else flash_and_check chip of0 context (rd m2 KERNEL_PM_CODE (unat FLASH_IMAGE)) s))"

section \<open>What reaches the flash\<close>

lemma length_read_back: "length (fst (read_back chip a n c)) = n"
  by (induction n arbitrary: a c) (auto split: prod.splits simp: split_def Let_def)

lemma find_image_cd_in: "find_image_cd cds keys_A m = Some (cds1, m1) \<Longrightarrow> set cds1 \<subseteq> set cds"
proof -
  have p: "probe_rounds n cds m = Some (b, cds1, m1) \<Longrightarrow> set cds1 \<subseteq> set cds" for n cds m b cds1 m1
    by (induction n cds m rule: probe_rounds.induct) (auto split: option.splits prod.splits if_splits, blast)
  have w: "wait_readable cds m = Some (cds1, m1) \<Longrightarrow> set cds1 \<subseteq> set cds" for cds m cds1 m1
    by (induction cds m rule: wait_readable.induct) (auto split: option.splits prod.splits if_splits, blast)
  assume "find_image_cd cds keys_A m = Some (cds1, m1)"
  then show ?thesis by (auto simp: find_image_cd_def split: option.splits prod.splits bool.splits if_splits dest!: p w)
qed

lemma small_nonnegative: "unat (w :: u32) < 2 ^ 31 \<Longrightarrow> 0 \<le>s w"
proof -
  have "n < 2 ^ 31 \<Longrightarrow> 0 \<le>s (of_nat n :: u32)" for n
    by (simp add: word_sle_eq sint_uint signed_take_bit_int_eq_self unat_of_nat uint_nat take_bit_nat_eq_self)
  from this [of "unat w"] show "unat w < 2 ^ 31 \<Longrightarrow> 0 \<le>s w" by simp
qed

lemma probe_finds:
  assumes "iso_volume cd D" "iso_file cd (bytes ''/image.bin'') bios" "0x10 \<le> length bios" "unat (get32 m 0x10) \<le> 0x1000000"
  obtains bs where "length bs \<le> 0x1000800" "probe_cd cd m = Some (True, wr KERNEL_PM_CODE bs m)"
proof -
  have a: "unat (0x10 :: u32) \<le> length bios" "unat (get32 m 0x10) \<le> 2 ^ 32 - 4096" using assms(3,4) by simp_all
  obtain bs where bs: "length bs = file_span (unat (get32 m 0x10))"
    "BootIso9660GetFile cd (bytes ''/image.bin'') KERNEL_PM_CODE 0x10 m = Some (get32 m 0x10, wr KERNEL_PM_CODE bs m)"
    by (rule iso_file_too_long [OF assms(1,2) a])
  have "file_span (unat (get32 m 0x10)) \<le> 2048 * 0x2001" using assms(4) by (intro file_span_bound) simp
  moreover have "0 \<le>s get32 m 0x10"
    using assms(4) by (intro small_nonnegative) simp
  ultimately show thesis using that [of bs] bs by (simp add: probe_cd_def del: list.map)
qed

lemma memset_at: "unat a + 4 \<le> 0x90000 \<Longrightarrow> get32 (memset KERNEL_SETUP 0 KERNEL_HDR_SIZE m) a = get32 m a"
proof (rule get32_region)
  fix x assume "unat a + 4 \<le> 0x90000" "x \<in> region a 4"
  then have "x \<notin> region KERNEL_SETUP 4096" using areas_apart [of a 4 KERNEL_SETUP 4096] by (auto simp: KERNEL_SETUP_def)
  then show "memset KERNEL_SETUP 0 KERNEL_HDR_SIZE m x = m x" by (simp add: memset_outside KERNEL_HDR_SIZE_def)
qed

lemma image_read:
  assumes "iso_volume cd D" "iso_file cd (bytes ''/image.bin'') bios" "unat FLASH_IMAGE \<le> length bios"
    and "unat (get32 m 0x10) \<le> 0x1000000" "unat (get32 m 0x40000) \<le> 2 ^ 32 - 4096"
  obtains m1 m2 where "find_image_cd (cd # cd # cds) keys_A (memset KERNEL_SETUP 0 KERNEL_HDR_SIZE m) = Some (cd # cds, m1)"
    "BootIso9660GetFile cd (bytes ''/image.bin'') KERNEL_PM_CODE FLASH_IMAGE m1 = Some (get32 m 0x40000, m2)"
proof -
  let ?m0 = "memset KERNEL_SETUP 0 KERNEL_HDR_SIZE m"
  have w: "get32 ?m0 0x10 = get32 m 0x10" "get32 ?m0 0x40000 = get32 m 0x40000" by (rule memset_at; simp)+
  obtain bs where bs: "length bs \<le> 0x1000800" "probe_cd cd ?m0 = Some (True, wr KERNEL_PM_CODE bs ?m0)"
    by (rule probe_finds [OF assms(1,2), of ?m0]) (use assms(3,4) w in \<open>simp_all add: FLASH_IMAGE_def\<close>)
  let ?m1 = "wr KERNEL_PM_CODE bs ?m0"
  have g: "get32 ?m1 0x40000 = get32 m 0x40000"
  proof -
    have "get32 ?m1 0x40000 = get32 ?m0 0x40000"
    proof (rule get32_region)
      fix x :: u32 assume "x \<in> region 0x40000 4"
      then have "x \<notin> region KERNEL_PM_CODE (length bs)"
        using areas_apart [of "0x40000" 4 KERNEL_PM_CODE "length bs"] bs(1) by auto
      then show "?m1 x = ?m0 x" by (rule wr_outside)
    qed
    then show ?thesis by (simp add: w)
  qed
  have found: "find_image_cd (cd # cd # cds) keys_A ?m0 = Some (cd # cds, ?m1)"
    by (simp add: find_image_cd_def numeral_eq_Suc bs(2))
  have g': "get32 ?m1 FLASH_IMAGE = get32 m 0x40000" using g by (simp add: FLASH_IMAGE_def)
  then have "unat (get32 ?m1 FLASH_IMAGE) \<le> 2 ^ 32 - 4096" using assms(5) by simp
  then obtain bs' where "BootIso9660GetFile cd (bytes ''/image.bin'') KERNEL_PM_CODE FLASH_IMAGE ?m1
      = Some (get32 ?m1 FLASH_IMAGE, wr KERNEL_PM_CODE bs' ?m1)"
    by (rule iso_file_too_long [OF assms(1-3)])
  then show thesis using that found g' by simp
qed

text \<open>
  C12. The machine is restarted only when the chip, read from its start after programming, gives
  256 KB whose SHA-1 digest is that of the 256 KB that were read from a CD; whatever the chip,
  the CDs and the memory are.
\<close>

theorem flash_cd_reboots_checked:
  assumes "BootLoadFlashCD chip of0 context cds keys_A m s = Some (Rebooted s')" and "length (Message_Block context) = 64"
  shows "\<exists>cd \<in> set cds. \<exists>m1 m2 c. BootIso9660GetFile cd (bytes ''/image.bin'') KERNEL_PM_CODE FLASH_IMAGE m1 = Some (FLASH_IMAGE, m2)
    \<and> snd (read_back chip 0 0x40000 c) = fchip s'
    \<and> sha1_spec (fst (read_back chip 0 0x40000 c)) = sha1_spec (rd m2 KERNEL_PM_CODE 0x40000)"
proof -
  obtain cd cds1 m1 m2 where f: "find_image_cd cds keys_A (memset KERNEL_SETUP 0 KERNEL_HDR_SIZE m) = Some (cd # cds1, m1)"
    "BootIso9660GetFile cd (bytes ''/image.bin'') KERNEL_PM_CODE FLASH_IMAGE m1 = Some (FLASH_IMAGE, m2)"
    "flash_and_check chip of0 context (rd m2 KERNEL_PM_CODE (unat FLASH_IMAGE)) s = Some (Rebooted s')"
    using assms(1) by (auto simp: BootLoadFlashCD_def split: option.splits prod.splits list.splits if_splits)
  let ?bios = "rd m2 KERNEL_PM_CODE 0x40000"
  obtain code s1 where s1: "BootReflashAndReset chip of0 ?bios 0 FLASH_IMAGE s = Some (code, s1)"
    using f(3) by (auto simp: flash_and_check_def FLASH_IMAGE_def split: option.splits prod.splits)
  obtain flash c where c: "read_back chip 0 0x40000 (fchip s1) = (flash, c)" by fastforce
  have r: "sha1_of_chunks context [?bios] = sha1_of_chunks context [flash] \<and> s' = s1\<lparr>fchip := c\<rparr>"
    using f(3) s1 c by (auto simp: flash_and_check_def FLASH_IMAGE_def Let_def split: if_splits option.splits)
  have l: "length flash = 0x40000" using length_read_back [of chip 0 "0x40000" "fchip s1"] c by simp
  have "sha1_spec ?bios = sha1_spec flash"
    using r sha1_streaming_digest [OF assms(2), of "[?bios]"] sha1_streaming_digest [OF assms(2), of "[flash]"] l by simp
  moreover have "cd \<in> set cds" using find_image_cd_in [OF f(1)] by auto
  ultimately show ?thesis using f(2) c r by (intro bexI [of _ cd] exI [of _ m1] exI [of _ m2] exI [of _ "fchip s1"]) auto
qed


text \<open>A chip that holds the image already, and whose type is unknown.\<close>

definition holding_chip :: "(u32 \<Rightarrow> u8) \<Rightarrow> bool chip" where
  "holding_chip f = \<lparr>chip_read = \<lambda>a mode. (if mode then f a else 0, mode), chip_write = \<lambda>a b mode. b = 0xf0\<rparr>"

lemma holding_chip_unknown:
  obtains s1 where "BootReflashAndReset (holding_chip f) (example_flash None) bios 0 n (example_state False) = Some (1, s1)" "fchip s1"
proof -
  note step = read_at_def write_at_def holding_chip_def
  let ?s = "(example_state False)\<lparr>ferror := NoError\<rparr>" and ?c = "holding_chip f"
  let ?on = "?s\<lparr>fchip := True\<rparr>"
  have r: "read_at ?c a ?s = (0, ?s)" for a by (simp add: step example_state_def)
  have n: "read_at ?c a ?on = (f a, ?on)" for a by (simp add: step)
  have a: "id_28xxx ?c ?s = (0, 0, ?s)" by (simp add: id_28xxx_def step example_state_def)
  have b: "id_29xxx ?c ?s = (0, 0, ?on)" by (simp add: id_29xxx_def step example_state_def)
  have t: "\<exists>pof'. id_tries 2 ?c 0 0 1 pof ?s = (pof', ?on) \<and> m_bManufacturerId pof' = 0" for pof
    by (auto simp: numeral_2_eq_2 a b r n Let_def)
  have k: "find_type aknownflashtypesDefault 0 dev = None" for dev
    by (simp add: aknownflashtypesDefault_def known_flash_def)
  have "\<exists>pof' s1. BootFlashGetDescriptor ?c aknownflashtypesDefault pof (example_state False) = (False, pof', s1) \<and> fchip s1" for pof
    using t [of "pof\<lparr>m_fIsBelievedCapableOfWriteAndErase := True\<rparr>"] by (auto simp: BootFlashGetDescriptor_def r n k)
  from this [of "(example_flash None)\<lparr>m_dwStartOffset := 0, m_dwLengthUsedArea := n, m_pcallbackFlash := Some BootFlashUserInterface\<rparr>"]
  show thesis using that by (auto simp: BootReflashAndReset_def Let_def)
qed

lemma holding_chip_read: "read_back (holding_chip f) a n c = (map (\<lambda>i. if c then f (a + of_nat i) else 0) [0..<n], c)"
  by (induction n arbitrary: a) (simp_all add: holding_chip_def map_upt_Suc algebra_simps del: upt_Suc)


theorem flash_cd_reboots_checked_witness:
  "\<exists>f. (\<exists>s'. BootLoadFlashCD (holding_chip f) (example_flash None) sha1_example_context [sample_cd, sample_cd] []
       ((\<lambda>_. 0)(0x40002 := 4)) (example_state False) = Some (Rebooted s')) \<and>
     (\<exists>m1 m2. BootIso9660GetFile sample_cd (bytes ''/image.bin'') KERNEL_PM_CODE FLASH_IMAGE m1 = Some (FLASH_IMAGE, m2) \<and>
       sha1_spec (map (\<lambda>i. f (of_nat i)) [0..<0x40000]) = sha1_spec (rd m2 KERNEL_PM_CODE 0x40000))"
proof -
  let ?m = "(\<lambda>_. 0)(0x40002 := 4) :: mem"
  have w: "get32 ?m 0x10 = 0" "get32 ?m 0x40000 = FLASH_IMAGE" by (simp_all add: get32_def le32_def FLASH_IMAGE_def)
  obtain img where img: "iso_file sample_cd (bytes ''/image.bin'') img" "length img = 0x40000" using sample_files(2) by blast
  obtain m1 m2 where r: "find_image_cd [sample_cd, sample_cd] [] (memset KERNEL_SETUP 0 KERNEL_HDR_SIZE ?m) = Some ([sample_cd], m1)"
    "BootIso9660GetFile sample_cd (bytes ''/image.bin'') KERNEL_PM_CODE FLASH_IMAGE m1 = Some (get32 ?m 0x40000, m2)"
    by (rule image_read [OF sample_volume img(1), of ?m]) (use img(2) w in \<open>simp_all add: FLASH_IMAGE_def\<close>)
  define f where "f a = m2 (KERNEL_PM_CODE + a)" for a
  let ?bios = "rd m2 KERNEL_PM_CODE 0x40000"
  obtain s1 where s1: "BootReflashAndReset (holding_chip f) (example_flash None) ?bios 0 FLASH_IMAGE (example_state False) = Some (1, s1)" "fchip s1"
    by (rule holding_chip_unknown)
  have b: "read_back (holding_chip f) 0 0x40000 True = (?bios, True)"
    using holding_chip_read [of f 0 "0x40000" True] by (simp add: f_def rd_def)
  have "BootLoadFlashCD (holding_chip f) (example_flash None) sha1_example_context [sample_cd, sample_cd] [] ?m (example_state False)
      = flash_and_check (holding_chip f) (example_flash None) sha1_example_context ?bios (example_state False)"
    using r w(2) by (simp add: BootLoadFlashCD_def FLASH_IMAGE_def)
  also have "\<dots> = Some (Rebooted s1)"
    using s1 b by (simp add: flash_and_check_def FLASH_IMAGE_def Let_def)
  finally have "BootLoadFlashCD (holding_chip f) (example_flash None) sha1_example_context [sample_cd, sample_cd] [] ?m (example_state False)
      = Some (Rebooted s1)" .
  from flash_cd_reboots_checked [OF this] this show ?thesis
    using s1(2) holding_chip_read [of f 0 "0x40000"] by (fastforce simp: sha1_example_context_def)
qed

end
