(* ===== verification/Ide.thy ===== *)
theory Ide
  imports HddKey "HOL-Library.Monad_Syntax"
begin

text \<open>
  The IDE driver, \<open>drivers/ide/BootIde.c\<close>: commands by the registers of the task file, data words,
  ATAPI packets, sectors of disks and CDs, identification, and the security commands.

  The controller with its drives is an argument: reads and writes of its ports act on a state of
  any type. \<open>None\<close> is a run that does not return: it waits for ever, divides by zero or leaves an
  array. Integers are natural numbers where they count, and drive indices are not negative.
  Printed texts are left out.
\<close>

section \<open>Ports and registers\<close>

record 'd ports =
  in_byte :: "u16 \<Rightarrow> 'd \<Rightarrow> u8 \<times> 'd"
  in_word :: "u16 \<Rightarrow> 'd \<Rightarrow> u16 \<times> 'd"
  out_byte :: "u16 \<Rightarrow> u8 \<Rightarrow> 'd \<Rightarrow> 'd"
  out_word :: "u16 \<Rightarrow> u16 \<Rightarrow> 'd \<Rightarrow> 'd"

definition IDE_BASE1 :: u16 where "IDE_BASE1 = 0x1F0"
definition IDE_SECTOR_SIZE :: nat where "IDE_SECTOR_SIZE = 0x200"
definition IDE_REG_EXTENDED_OFFSET :: u16 where "IDE_REG_EXTENDED_OFFSET = 0x200"

definition IDE_REG_DATA :: "u16 \<Rightarrow> u16" where "IDE_REG_DATA base = base"
definition IDE_REG_ERROR :: "u16 \<Rightarrow> u16" where "IDE_REG_ERROR base = base + 1"
definition IDE_REG_FEATURE :: "u16 \<Rightarrow> u16" where "IDE_REG_FEATURE base = base + 1"
definition IDE_REG_SECTOR_COUNT :: "u16 \<Rightarrow> u16" where "IDE_REG_SECTOR_COUNT base = base + 2"
definition IDE_REG_SECTOR_NUMBER :: "u16 \<Rightarrow> u16" where "IDE_REG_SECTOR_NUMBER base = base + 3"
definition IDE_REG_CYLINDER_LSB :: "u16 \<Rightarrow> u16" where "IDE_REG_CYLINDER_LSB base = base + 4"
definition IDE_REG_CYLINDER_MSB :: "u16 \<Rightarrow> u16" where "IDE_REG_CYLINDER_MSB base = base + 5"
definition IDE_REG_DRIVEHEAD :: "u16 \<Rightarrow> u16" where "IDE_REG_DRIVEHEAD base = base + 6"
definition IDE_REG_STATUS :: "u16 \<Rightarrow> u16" where "IDE_REG_STATUS base = base + 7"
definition IDE_REG_COMMAND :: "u16 \<Rightarrow> u16" where "IDE_REG_COMMAND base = base + 7"
definition IDE_REG_ALTSTATUS :: "u16 \<Rightarrow> u16" where "IDE_REG_ALTSTATUS base = base + IDE_REG_EXTENDED_OFFSET + 6"
definition IDE_REG_CONTROL :: "u16 \<Rightarrow> u16" where "IDE_REG_CONTROL base = base + IDE_REG_EXTENDED_OFFSET + 6"

record tsIdeCommandParams =
  m_bPrecomp :: u8
  m_bCountSector :: u8
  m_bSector :: u8
  m_wCylinder :: u16
  m_bDrivehead :: u8
  m_bCountSectorExt :: u8
  m_bSectorExt :: u8
  m_wCylinderExt :: u16

definition IDE_DH_DEFAULT :: u8 where "IDE_DH_DEFAULT = 0xA0"
definition IDE_DH_LBA :: u8 where "IDE_DH_LBA = 0x40"
definition IDE_DH_CHS :: u8 where "IDE_DH_CHS = 0x00"
definition IDE_DH_HEAD :: "u32 \<Rightarrow> u8" where "IDE_DH_HEAD x = ucast (x AND 0x0F)"
definition IDE_DH_DRIVE :: "nat \<Rightarrow> u8" where "IDE_DH_DRIVE x = (if x mod 2 \<noteq> 0 then 0x10 else 0x00)"

definition IDE_DEFAULT_COMMAND :: tsIdeCommandParams where
  "IDE_DEFAULT_COMMAND = \<lparr>m_bPrecomp = 0xFF, m_bCountSector = 0x01, m_bSector = 0x00, m_wCylinder = 0x0000,
     m_bDrivehead = IDE_DH_DEFAULT OR 0x10, m_bCountSectorExt = 0, m_bSectorExt = 0, m_wCylinderExt = 0\<rparr>"

definition IDE_CMD_READ_MULTI_RETRY :: u8 where "IDE_CMD_READ_MULTI_RETRY = 0x20"
definition IDE_CMD_READ_EXT :: u8 where "IDE_CMD_READ_EXT = 0x24"
definition IDE_CMD_WRITE_MULTI_RETRY :: u8 where "IDE_CMD_WRITE_MULTI_RETRY = 0x30"
definition IDE_CMD_IDENTIFY :: u8 where "IDE_CMD_IDENTIFY = 0xEC"
definition IDE_CMD_PACKET_IDENTIFY :: u8 where "IDE_CMD_PACKET_IDENTIFY = 0xA1"
definition ATAPI_SOFT_RESET :: u8 where "ATAPI_SOFT_RESET = 0x08"
definition IDE_CMD_SET_FEATURES :: u8 where "IDE_CMD_SET_FEATURES = 0xEF"
definition IDE_CMD_ATAPI_PACKET :: u8 where "IDE_CMD_ATAPI_PACKET = 0xA0"
definition IDE_CMD_SECURITY_SET_PASSWORD :: u8 where "IDE_CMD_SECURITY_SET_PASSWORD = 0xF1"
definition IDE_CMD_SECURITY_UNLOCK :: u8 where "IDE_CMD_SECURITY_UNLOCK = 0xF2"
definition IDE_CMD_SECURITY_DISABLE :: u8 where "IDE_CMD_SECURITY_DISABLE = 0xF6"

record tsHarddiskInfo =
  m_fwPortBase :: u16
  m_wCountHeads :: u16
  m_wCountCylinders :: u16
  m_wCountSectorsPerTrack :: u16
  m_dwCountSectorsTotal :: u32
  m_bLbaMode :: u8
  m_szIdentityModelNumber :: "u8 list"
  m_szSerial :: "u8 list"
  m_szFirmware :: "u8 list"
  m_fDriveExists :: bool
  m_fAtapi :: bool
  m_bCableConductors :: u8
  m_wAtaRevisionSupported :: u16
  s_length :: nat
  m_length :: nat
  m_fHasMbr :: bool
  m_securitySettings :: u16

type_synonym drives_info = "nat \<Rightarrow> tsHarddiskInfo"

section \<open>Commands and data\<close>

definition out_bytes :: "'d ports \<Rightarrow> (u16 \<times> u8) list \<Rightarrow> 'd \<Rightarrow> 'd" where
  "out_bytes io ws d = fold (\<lambda>(p, b). out_byte io p b) ws d"

partial_function (option) BootIdeWaitNotBusy :: "'d ports \<Rightarrow> u16 \<Rightarrow> 'd \<Rightarrow> (u8 \<times> 'd) option" where
  "BootIdeWaitNotBusy io uIoBase d =
     (let r = in_byte io (IDE_REG_ALTSTATUS uIoBase) d in
      if fst r AND 0x80 \<noteq> 0 then BootIdeWaitNotBusy io uIoBase (snd r) else Some (fst r AND 1, snd r))"

fun data_ready_polls :: "nat \<Rightarrow> 'd ports \<Rightarrow> u16 \<Rightarrow> 'd \<Rightarrow> nat \<times> 'd" where
  "data_ready_polls 0 io uIoBase d = (case in_byte io (IDE_REG_ALTSTATUS uIoBase) d of (b, d1) \<Rightarrow> (if b AND 0x01 \<noteq> 0 then 2 else 1, d1))"
| "data_ready_polls (Suc i) io uIoBase d =
     (case in_byte io (IDE_REG_ALTSTATUS uIoBase) d of (b, d1) \<Rightarrow>
        if b AND 0x88 = 0x08
        then (case in_byte io (IDE_REG_ALTSTATUS uIoBase) d1 of (b2, d2) \<Rightarrow> (if b2 AND 0x01 \<noteq> 0 then 2 else 0, d2))
        else data_ready_polls i io uIoBase d1)"

definition BootIdeWaitDataReady :: "'d ports \<Rightarrow> u16 \<Rightarrow> 'd \<Rightarrow> nat \<times> 'd" where
  "BootIdeWaitDataReady io uIoBase d = data_ready_polls 0x800000 io uIoBase d"

text \<open>Each register of the task file is written twice, for 48-bit addresses.\<close>

definition task_file :: "u16 \<Rightarrow> u8 \<Rightarrow> tsIdeCommandParams \<Rightarrow> (u16 \<times> u8) list" where
  "task_file uIoBase command params =
     [(IDE_REG_SECTOR_COUNT uIoBase, m_bCountSectorExt params), (IDE_REG_SECTOR_NUMBER uIoBase, m_bSectorExt params),
      (IDE_REG_CYLINDER_LSB uIoBase, ucast (m_wCylinderExt params AND 0xFF)),
      (IDE_REG_CYLINDER_MSB uIoBase, ucast (drop_bit 8 (m_wCylinderExt params))),
      (IDE_REG_SECTOR_COUNT uIoBase, m_bCountSector params), (IDE_REG_SECTOR_NUMBER uIoBase, m_bSector params),
      (IDE_REG_CYLINDER_LSB uIoBase, ucast (m_wCylinder params AND 0xFF)),
      (IDE_REG_CYLINDER_MSB uIoBase, ucast (drop_bit 8 (m_wCylinder params))),
      (IDE_REG_DRIVEHEAD uIoBase, m_bDrivehead params), (IDE_REG_COMMAND uIoBase, command)]"

definition BootIdeIssueAtaCommand :: "'d ports \<Rightarrow> u16 \<Rightarrow> u8 \<Rightarrow> tsIdeCommandParams \<Rightarrow> 'd \<Rightarrow> (nat \<times> 'd) option" where
  "BootIdeIssueAtaCommand io uIoBase command params d = do {
     (_, d2) \<leftarrow> BootIdeWaitNotBusy io uIoBase (snd (in_byte io (IDE_REG_STATUS uIoBase) d));
     (n, d3) \<leftarrow> BootIdeWaitNotBusy io uIoBase (out_bytes io (task_file uIoBase command params) d2);
     Some (if n \<noteq> 0 then 1 else 0, d3)
   }"

fun read_words :: "nat \<Rightarrow> 'd ports \<Rightarrow> u16 \<Rightarrow> 'd \<Rightarrow> u8 list \<times> 'd" where
  "read_words 0 io uIoBase d = ([], d)"
| "read_words (Suc n) io uIoBase d =
     (case in_word io (IDE_REG_DATA uIoBase) d of (w, d1) \<Rightarrow>
      case read_words n io uIoBase d1 of (bs, d2) \<Rightarrow> (ucast w # ucast (drop_bit 8 w) # bs, d2))"

text \<open>The result, and the bytes stored at the start of the buffer.\<close>

definition BootIdeReadData :: "'d ports \<Rightarrow> u16 \<Rightarrow> nat \<Rightarrow> 'd \<Rightarrow> nat \<times> u8 list \<times> 'd" where
  "BootIdeReadData io uIoBase n d =
     (case BootIdeWaitDataReady io uIoBase d of (r, d1) \<Rightarrow>
      if r \<noteq> 0 then (1, [], d1)
      else case read_words (n div 2) io uIoBase d1 of (bs, d2) \<Rightarrow>
        let (_, d3) = in_byte io (IDE_REG_STATUS uIoBase) d2;
            (b, d4) = in_byte io (IDE_REG_ALTSTATUS uIoBase) d3
        in (if b AND 0x01 \<noteq> 0 then 2 else 0, bs, d4))"

fun write_words :: "'d ports \<Rightarrow> u16 \<Rightarrow> u8 list \<Rightarrow> 'd \<Rightarrow> 'd" where
  "write_words io uIoBase (lo # hi # bs) d =
     write_words io uIoBase bs (out_word io (IDE_REG_DATA uIoBase) (le16 lo hi) d)"
| "write_words io uIoBase bs d = d"

definition BootIdeWriteData :: "'d ports \<Rightarrow> u16 \<Rightarrow> u8 list \<Rightarrow> 'd \<Rightarrow> (nat \<times> 'd) option" where
  "BootIdeWriteData io uIoBase buf d = do {
     (n, d2) \<leftarrow> BootIdeWaitNotBusy io uIoBase (write_words io uIoBase buf (snd (BootIdeWaitDataReady io uIoBase d)));
     if n \<noteq> 0 then Some (1, d2)
     else (case in_byte io (IDE_REG_ALTSTATUS uIoBase) d2 of (b, d3) \<Rightarrow> Some (if b AND 0x01 \<noteq> 0 then 2 else 0, d3))
   }"

definition BootIdeWriteAtapiData :: "'d ports \<Rightarrow> u16 \<Rightarrow> u8 list \<Rightarrow> 'd \<Rightarrow> (nat \<times> 'd) option" where
  "BootIdeWriteAtapiData io uIoBase buf d =
     (let (_, d1) = BootIdeWaitDataReady io uIoBase d;
          (_, d2) = in_byte io (IDE_REG_CYLINDER_LSB uIoBase) d1;
          (_, d3) = in_byte io (IDE_REG_CYLINDER_MSB uIoBase) d2;
          (n, d4) = in_byte io (IDE_REG_STATUS uIoBase) d3
      in if n AND 1 \<noteq> 0 then Some (1, d4)
         else let (n, d5) = in_byte io (IDE_REG_STATUS uIoBase) (write_words io uIoBase buf d4)
         in if n AND 1 \<noteq> 0 then Some (1, d5)
            else do {
              (n, d6) \<leftarrow> BootIdeWaitNotBusy io uIoBase d5;
              if n \<noteq> 0 then Some (1, d6)
              else (case in_byte io (IDE_REG_ALTSTATUS uIoBase) d6 of (b, d7) \<Rightarrow> Some (if b AND 0x01 \<noteq> 0 then 2 else 0, d7))
            })"

definition drive_head :: "nat \<Rightarrow> u8" where
  "drive_head nDriveIndex = IDE_DH_DEFAULT OR IDE_DH_HEAD 0 OR IDE_DH_CHS OR IDE_DH_DRIVE nDriveIndex"

definition BootIdeIssueAtapiPacketCommandAndPacket :: "'d ports \<Rightarrow> drives_info \<Rightarrow> nat \<Rightarrow> u8 list \<Rightarrow> 'd \<Rightarrow> (nat \<times> 'd) option" where
  "BootIdeIssueAtapiPacketCommandAndPacket io info nDriveIndex packet d =
     (let uIoBase = m_fwPortBase (info nDriveIndex);
          tsicp = IDE_DEFAULT_COMMAND\<lparr>m_bDrivehead := drive_head nDriveIndex, m_wCylinder := 2048\<rparr>
      in do {
        (_, d1) \<leftarrow> BootIdeWaitNotBusy io uIoBase (out_byte io (IDE_REG_DRIVEHEAD uIoBase) (drive_head nDriveIndex) d);
        (r, d2) \<leftarrow> BootIdeIssueAtaCommand io uIoBase IDE_CMD_ATAPI_PACKET tsicp d1;
        if r \<noteq> 0 then Some (1, d2) else do {
          (n, d3) \<leftarrow> BootIdeWaitNotBusy io uIoBase d2;
          if n \<noteq> 0 then Some (1, snd (in_byte io (IDE_REG_ERROR uIoBase) d3)) else do {
            (r, d4) \<leftarrow> BootIdeWriteAtapiData io uIoBase (take 12 packet) d3;
            if r \<noteq> 0 then Some (1, d4)
            else if packet ! 0 \<noteq> 0x1e
            then (case BootIdeWaitDataReady io uIoBase d4 of (r, d5) \<Rightarrow>
                    if r \<noteq> 0 then Some (1, snd (in_byte io (IDE_REG_ERROR uIoBase) (snd (in_byte io (IDE_REG_ALTSTATUS uIoBase) d5))))
                    else Some (0, d5))
            else Some (0, d4)
          }
        }
      })"

section \<open>Packets\<close>

text \<open>
  A packet command whose answer goes to a buffer of \<open>nLengthMaxReturn\<close> bytes: the byte count of the drive
  (or a small error code), and the bytes stored.
\<close>

definition packet_answer :: "'d ports \<Rightarrow> drives_info \<Rightarrow> nat \<Rightarrow> u8 list \<Rightarrow> nat \<Rightarrow> 'd \<Rightarrow> (nat \<times> u8 list \<times> 'd) option" where
  "packet_answer io info nDriveIndex ba nLengthMaxReturn d =
     (let uIoBase = m_fwPortBase (info nDriveIndex) in
      if \<not> m_fDriveExists (info nDriveIndex) then Some (4, [], d)
      else do {
        (r, d1) \<leftarrow> BootIdeIssueAtapiPacketCommandAndPacket io info nDriveIndex ba d;
        if r \<noteq> 0 then Some (1, [], d1)
        else
          (let (lo, d2) = in_byte io (IDE_REG_CYLINDER_LSB uIoBase) d1;
               (hi, d3) = in_byte io (IDE_REG_CYLINDER_MSB uIoBase) d2;
               nReturn = min (unat lo + 256 * unat hi) nLengthMaxReturn;
               (_, bs, d4) = BootIdeReadData io uIoBase nReturn d3
           in Some (nReturn, bs, d4))
      })"

definition BootIdeAtapiModeSense :: "'d ports \<Rightarrow> drives_info \<Rightarrow> nat \<Rightarrow> u8 \<Rightarrow> nat \<Rightarrow> 'd \<Rightarrow> (nat \<times> u8 list \<times> 'd) option" where
  "BootIdeAtapiModeSense io info nDriveIndex bCodePage nLengthMaxReturn d =
     packet_answer io info nDriveIndex ((replicate 2048 0)[0 := 0x5a, 2 := bCodePage, 7 := 8, 8 := 0]) nLengthMaxReturn d"

definition BootIdeAtapiAdditionalSenseCode :: "'d ports \<Rightarrow> drives_info \<Rightarrow> nat \<Rightarrow> nat \<Rightarrow> 'd \<Rightarrow> (nat \<times> u8 list \<times> 'd) option" where
  "BootIdeAtapiAdditionalSenseCode io info nDriveIndex nLengthMaxReturn d =
     packet_answer io info nDriveIndex ((replicate 2048 0)[0 := 0x03, 4 := 0xfe]) nLengthMaxReturn d"

section \<open>Sectors\<close>

text \<open>The task file for a block, in one of the three ways to address it. A zero divisor traps.\<close>

definition block_params :: "tsHarddiskInfo \<Rightarrow> nat \<Rightarrow> u32 \<Rightarrow> tsIdeCommandParams option" where
  "block_params drv nDriveIndex block =
     (let tsicp = IDE_DEFAULT_COMMAND\<lparr>m_bCountSector := 1\<rparr> in
      if 0x10000000 \<le> block
      then Some (tsicp\<lparr>m_bCountSectorExt := 0, m_wCylinderExt := 0, m_bSectorExt := ucast (drop_bit 24 block AND 0xff),
        m_wCylinder := ucast (drop_bit 8 block AND 0xffff), m_bSector := ucast (block AND 0xff),
        m_bDrivehead := IDE_DH_DRIVE nDriveIndex OR IDE_DH_LBA\<rparr>)
      else if m_bLbaMode drv = IDE_DH_CHS
      then if m_wCountSectorsPerTrack drv = 0 \<or> m_wCountHeads drv = 0 then None
        else let spt = ucast (m_wCountSectorsPerTrack drv); heads = ucast (m_wCountHeads drv); track = block div spt
        in Some (tsicp\<lparr>m_bSector := ucast (1 + block mod spt), m_wCylinder := ucast (track div heads),
          m_bDrivehead := IDE_DH_DEFAULT OR IDE_DH_HEAD (track mod heads) OR IDE_DH_DRIVE nDriveIndex OR IDE_DH_CHS\<rparr>)
      else Some (tsicp\<lparr>m_bSector := ucast (block AND 0xff), m_wCylinder := ucast (drop_bit 8 block AND 0xffff),
        m_bDrivehead := IDE_DH_DEFAULT OR ucast (drop_bit 24 block AND 0x0f) OR IDE_DH_DRIVE nDriveIndex OR IDE_DH_LBA\<rparr>))"

text \<open>The first attempt to read, and then attempts until one succeeds.\<close>

partial_function (option) read_data_retry :: "'d ports \<Rightarrow> u16 \<Rightarrow> nat \<Rightarrow> 'd \<Rightarrow> (u8 list \<times> 'd) option" where
  "read_data_retry io uIoBase n d =
     (case BootIdeReadData io uIoBase n d of (status, bs, d1) \<Rightarrow>
        if status = 0 then Some (bs, d1) else read_data_retry io uIoBase n d1)"

text \<open>
  The sense data before a CD is read go to an array of 12 bytes; the two tests before it read the ports
  with numbers \<open>IDE_REG_STATUS(uIoBase) & 1\<close> and \<open>IDE_REG_ERROR(uIoBase) & 0x20\<close>.
\<close>

definition sticky_error :: "'d ports \<Rightarrow> drives_info \<Rightarrow> nat \<Rightarrow> 'd \<Rightarrow> 'd option" where
  "sticky_error io info nDriveIndex d =
     (let uIoBase = m_fwPortBase (info nDriveIndex);
          (_, d1) = in_byte io (IDE_REG_STATUS uIoBase) d;
          (b, d2) = in_byte io (IDE_REG_STATUS uIoBase AND 1) d1
      in if b = 0 then Some d2
         else case in_byte io (IDE_REG_ERROR uIoBase AND 0x20) d2 of (b, d3) \<Rightarrow>
           if b = 0 then Some d3
           else do {
             (_, bs, d4) \<leftarrow> BootIdeAtapiAdditionalSenseCode io info nDriveIndex 2048 d3;
             if 12 < length bs then None else Some d4
           })"

definition read_cd_sector :: "'d ports \<Rightarrow> drives_info \<Rightarrow> nat \<Rightarrow> u32 \<Rightarrow> nat \<Rightarrow> 'd \<Rightarrow> (nat \<times> u8 list \<times> 'd) option" where
  "read_cd_sector io info nDriveIndex block n_bytes d =
     (let uIoBase = m_fwPortBase (info nDriveIndex) in do {
        d1 \<leftarrow> sticky_error io info nDriveIndex d;
        (_, d2) \<leftarrow> BootIdeWaitNotBusy io uIoBase d1;
        if n_bytes < 2048 then Some (1, [], d2)
        else do {
          (r, d3) \<leftarrow> BootIdeIssueAtapiPacketCommandAndPacket io info nDriveIndex
            [0x28, 0, ucast (drop_bit 24 block), ucast (drop_bit 16 block), ucast (drop_bit 8 block), ucast block, 0, 0, 1, 0, 0, 0] d2;
          if r \<noteq> 0 then Some (1, [], d3)
          else
            (let (lo, d4) = in_byte io (IDE_REG_CYLINDER_LSB uIoBase) d3;
                 (hi, d5) = in_byte io (IDE_REG_CYLINDER_MSB uIoBase) d4
             in map_option (\<lambda>(bs, d6). (0, bs, d6)) (read_data_retry io uIoBase (min (unat lo + 256 * unat hi) 2048) d5))
        }
      })"

definition control_byte :: "tsHarddiskInfo \<Rightarrow> u8" where
  "control_byte drv = (if m_wCountHeads drv > 8 then 0x0a else 0x02)"

definition BootIdeReadSector :: "'d ports \<Rightarrow> drives_info \<Rightarrow> nat \<Rightarrow> u32 \<Rightarrow> nat \<Rightarrow> nat \<Rightarrow> 'd \<Rightarrow> (nat \<times> u8 list \<times> 'd) option" where
  "BootIdeReadSector io info nDriveIndex block byte_offset n_bytes d =
     (let drv = info nDriveIndex; uIoBase = m_fwPortBase drv in
      if \<not> m_fDriveExists drv then Some (4, [], d)
      else let d1 = out_byte io (IDE_REG_DRIVEHEAD uIoBase) (drive_head nDriveIndex) d in
      if 2 \<le> nDriveIndex then Some (1, [], d1)
      else if m_fAtapi drv then read_cd_sector io info nDriveIndex block n_bytes d1
      else do {
        tsicp \<leftarrow> block_params drv nDriveIndex block;
        (r, d2) \<leftarrow> BootIdeIssueAtaCommand io uIoBase (if 0x10000000 \<le> block then IDE_CMD_READ_EXT else IDE_CMD_READ_MULTI_RETRY) tsicp
          (out_byte io (IDE_REG_CONTROL uIoBase) (control_byte drv) d1);
        if r \<noteq> 0 then Some (1, [], snd (in_byte io (IDE_REG_ERROR uIoBase) d2))
        else do {
          (bs, d3) \<leftarrow> read_data_retry io uIoBase IDE_SECTOR_SIZE d2;
          if n_bytes \<noteq> IDE_SECTOR_SIZE
          then if byte_offset + n_bytes \<le> IDE_SECTOR_SIZE then Some (0, take n_bytes (drop byte_offset bs), d3) else None
          else Some (0, bs, d3)
        }
      })"

definition BootIdeWriteSector :: "'d ports \<Rightarrow> drives_info \<Rightarrow> nat \<Rightarrow> u8 list \<Rightarrow> u32 \<Rightarrow> 'd \<Rightarrow> (nat \<times> 'd) option" where
  "BootIdeWriteSector io info nDriveIndex buf block d =
     (let drv = info nDriveIndex; uIoBase = m_fwPortBase drv in
      if \<not> m_fDriveExists drv then Some (4, d)
      else let d1 = out_byte io (IDE_REG_DRIVEHEAD uIoBase) (drive_head nDriveIndex) d in
      if 2 \<le> nDriveIndex then Some (1, d1)
      else do {
        tsicp \<leftarrow> block_params drv nDriveIndex block;
        (r, d2) \<leftarrow> BootIdeIssueAtaCommand io uIoBase IDE_CMD_WRITE_MULTI_RETRY tsicp
          (out_byte io (IDE_REG_CONTROL uIoBase) (control_byte drv) d1);
        if r \<noteq> 0 then Some (1, snd (in_byte io (IDE_REG_ERROR uIoBase) d2))
        else BootIdeWriteData io uIoBase (take IDE_SECTOR_SIZE buf) d2
      })"

text \<open>The boot sector of a disk, or the default one of a bootable CD; the bytes left in the buffer.\<close>

definition baCheck11hFormat :: "u8 list" where
  "baCheck11hFormat = [0x00,0x43,0x44,0x30,0x30,0x31,0x01,0x45,0x4C,0x20,0x54,0x4F,0x52,0x49,0x54,0x4F,
     0x20,0x53,0x50,0x45,0x43,0x49,0x46,0x49,0x43,0x41,0x54,0x49,0x4F,0x4E]"

definition stored :: "u8 list \<Rightarrow> u8 list \<Rightarrow> u8 list" where
  "stored bs buf = bs @ drop (length bs) buf"

definition dword_at :: "u8 list \<Rightarrow> nat \<Rightarrow> u32" where
  "dword_at buf i = le32 (buf ! i) (buf ! (i + 1)) (buf ! (i + 2)) (buf ! (i + 3))"

definition BootIdeBootSectorHddOrElTorito :: "'d ports \<Rightarrow> drives_info \<Rightarrow> nat \<Rightarrow> u8 list \<Rightarrow> 'd \<Rightarrow> (nat \<times> u8 list \<times> 'd) option" where
  "BootIdeBootSectorHddOrElTorito io info nDriveIndex buf d =
     (if \<not> m_fDriveExists (info nDriveIndex) then Some (4, buf, d)
      else if m_fAtapi (info nDriveIndex)
      then do {
        (r, bs, d1) \<leftarrow> BootIdeReadSector io info nDriveIndex 0x11 0 2048 d;
        let b1 = stored bs buf;
        if r \<noteq> 0 then Some (1, b1, d1)
        else if take 30 b1 \<noteq> baCheck11hFormat then Some (2, b1, d1)
        else do {
          (r, bs, d2) \<leftarrow> BootIdeReadSector io info nDriveIndex (dword_at b1 0x47) 0 2048 d1;
          let b2 = stored bs b1;
          if r \<noteq> 0 then Some (3, b2, d2)
          else if b2 ! 0 \<noteq> 1 \<or> b2 ! 0x1e \<noteq> 0x55 \<or> b2 ! 0x1f \<noteq> 0xaa then Some (4, b2, d2)
          else if b2 ! 0x20 \<noteq> 0x88 then Some (4, b2, d2)
          else do {
            (r, bs, d3) \<leftarrow> BootIdeReadSector io info nDriveIndex (dword_at b2 0x28) 0 2048 d2;
            let b3 = stored bs b2;
            if r \<noteq> 0 then Some (3, b3, d3)
            else if b3 ! 0x7fe \<noteq> 0x55 \<or> b3 ! 0x7ff \<noteq> 0xaa then Some (4, b3, d3)
            else Some (0, b3, d3)
          }
        }
      }
      else do {
        (r, bs, d1) \<leftarrow> BootIdeReadSector io info nDriveIndex 0 0 512 d;
        let b1 = stored bs buf;
        if r \<noteq> 0 then Some (3, b1, d1)
        else if b1 ! 0x1fe \<noteq> 0x55 \<or> b1 ! 0x1ff \<noteq> 0xaa then Some (4, b1, d1)
        else Some (0, b1, d1)
      })"

section \<open>Security\<close>

text \<open>
  The password of a drive from the EEPROM and the drive's own strings. The strings are kept with the
  arrays of the identification at disjoint places of a memory.
\<close>

definition id_string :: "nat \<Rightarrow> u8 list \<Rightarrow> nat \<times> u8 list" where
  "id_string len src = (case copy_swap_trim 0x1000 0x2000 len (wr 0x2000 src (\<lambda>_. 0)) of (n, m) \<Rightarrow> (n, rd m 0x1000 len))"

definition CalculateDrivePassword :: "SHA1Context \<Rightarrow> SHA1Context \<Rightarrow> u8 list \<Rightarrow> drives_info \<Rightarrow> nat \<Rightarrow> u8 list option" where
  "CalculateDrivePassword c1 c2 eeprom info driveId =
     (case BootHddKeyGenerateEepromKeyData c1 (take 0x30 eeprom) of (nVersionHashing, baKeyFromEEPROM) \<Rightarrow>
        let hash = HMAC_SHA1 c2 baKeyFromEEPROM (take (m_length (info driveId)) (m_szIdentityModelNumber (info driveId)))
              (take (s_length (info driveId)) (m_szSerial (info driveId)))
        in if nVersionHashing = 0 then None else Some hash)"

definition security_sector :: "u8 \<Rightarrow> u8 list \<Rightarrow> u8 list" where
  "security_sector flag password = [flag, 0] @ password @ replicate (510 - length password) 0"

definition master_password :: "u8 list" where "master_password = bytes ''XBOXLINUX''"

definition security_command :: "'d ports \<Rightarrow> u16 \<Rightarrow> nat \<Rightarrow> u8 \<Rightarrow> u8 list \<Rightarrow> 'd \<Rightarrow> (nat \<times> 'd) option" where
  "security_command io uIoBase driveId ide_cmd data d = do {
     (r, d1) \<leftarrow> BootIdeIssueAtaCommand io uIoBase ide_cmd (IDE_DEFAULT_COMMAND\<lparr>m_bDrivehead := drive_head driveId\<rparr>) d;
     if r \<noteq> 0 then Some (2, d1)
     else do {
       (_, d2) \<leftarrow> BootIdeWriteData io uIoBase data (snd (BootIdeWaitDataReady io uIoBase d1));
       (n, d3) \<leftarrow> BootIdeWaitNotBusy io uIoBase d2;
       Some (if n \<noteq> 0 then 1 else 0, d3)
     }
   }"

definition check_identify :: "'d ports \<Rightarrow> u16 \<Rightarrow> nat \<Rightarrow> 'd \<Rightarrow> (nat \<times> 'd) option" where
  "check_identify io uIoBase driveId d = do {
     (r, d1) \<leftarrow> BootIdeIssueAtaCommand io uIoBase IDE_CMD_IDENTIFY (IDE_DEFAULT_COMMAND\<lparr>m_bDrivehead := drive_head driveId\<rparr>) d;
     if r \<noteq> 0 then Some (1, d1)
     else (case BootIdeReadData io uIoBase IDE_SECTOR_SIZE (snd (BootIdeWaitDataReady io uIoBase d1)) of
             (r, _, d2) \<Rightarrow> Some (if r \<noteq> 0 then 1 else 0, d2))
   }"

text \<open>
  Setting the password sends the master password first; only a command that is not accepted ends the
  whole, an error after its data does not.
\<close>

definition DriveSecurityChange :: "'d ports \<Rightarrow> u16 \<Rightarrow> nat \<Rightarrow> u8 \<Rightarrow> u8 list \<Rightarrow> 'd \<Rightarrow> (nat \<times> 'd) option" where
  "DriveSecurityChange io uIoBase driveId ide_cmd password d = do {
     (n, d1) \<leftarrow> BootIdeWaitNotBusy io uIoBase d;
     if n \<noteq> 0 then Some (1, d1)
     else do {
       (r, d2) \<leftarrow> (if ide_cmd = IDE_CMD_SECURITY_SET_PASSWORD
         then security_command io uIoBase driveId ide_cmd (security_sector 1 master_password) d1 else Some (0, d1));
       if r = 2 then Some (1, d2)
       else do {
         (r, d3) \<leftarrow> security_command io uIoBase driveId ide_cmd (security_sector 0 (take 20 password)) d2;
         if r \<noteq> 0 then Some (1, d3) else check_identify io uIoBase driveId d3
       }
     }
   }"

section \<open>Detection of the drives\<close>

definition word_of :: "u8 list \<Rightarrow> nat \<Rightarrow> u16" where
  "word_of bs i = le16 (bs ! (2 * i)) (bs ! (2 * i + 1))"

definition reset_info :: "u16 \<Rightarrow> tsHarddiskInfo \<Rightarrow> tsHarddiskInfo" where
  "reset_info uIoBase drv = drv\<lparr>m_fwPortBase := uIoBase, m_wCountHeads := 0, m_wCountCylinders := 0,
     m_wCountSectorsPerTrack := 0, m_dwCountSectorsTotal := 1, m_bLbaMode := IDE_DH_CHS, m_fDriveExists := False,
     m_fAtapi := False, m_wAtaRevisionSupported := 0, m_fHasMbr := False, m_securitySettings := 0\<rparr>"

text \<open>What the 512 bytes of an identification tell.\<close>

definition identified :: "u8 list \<Rightarrow> tsHarddiskInfo \<Rightarrow> tsHarddiskInfo" where
  "identified bs drv =
     (let (sn, serial) = id_string 20 (drop 20 bs);
          (mn, model) = id_string 40 (drop 54 bs);
          (_, firmware) = id_string 8 (drop 46 bs)
      in drv\<lparr>m_wCountHeads := word_of bs 3, m_wCountCylinders := word_of bs 1, m_wCountSectorsPerTrack := word_of bs 6,
           m_dwCountSectorsTotal := (if word_of bs 86 AND 0x400 \<noteq> 0 then dword_at bs 200 else dword_at bs 120),
           m_wAtaRevisionSupported := word_of bs 88, m_szSerial := serial, s_length := sn,
           m_szIdentityModelNumber := model, m_length := mn, m_szFirmware := firmware, m_fDriveExists := True\<rparr>)"

partial_function (option) clear_attention :: "'d ports \<Rightarrow> drives_info \<Rightarrow> nat \<Rightarrow> u8 list \<Rightarrow> 'd \<Rightarrow> 'd option" where
  "clear_attention io info nIndexDrive ba d =
     (if ba ! 2 = 0x06
      then Option.bind (BootIdeAtapiAdditionalSenseCode io info nIndexDrive 128 d) (\<lambda>(nPacketLength, bs, d1).
        clear_attention io info nIndexDrive (if nPacketLength < 12 then (stored bs ba)[2 := 0] else stored bs ba) d1)
      else Some d)"

definition identify_drive :: "'d ports \<Rightarrow> u16 \<Rightarrow> nat \<Rightarrow> 'd \<Rightarrow> ((bool \<times> u8 list) option \<times> 'd) option" where
  "identify_drive io uIoBase nIndexDrive d =
     (let tsicp = IDE_DEFAULT_COMMAND\<lparr>m_bDrivehead := drive_head nIndexDrive\<rparr> in do {
        (r, d1) \<leftarrow> BootIdeIssueAtaCommand io uIoBase IDE_CMD_IDENTIFY tsicp d;
        (found, d2) \<leftarrow> (if r \<noteq> 0
          then do {
            (_, d2) \<leftarrow> BootIdeIssueAtaCommand io uIoBase ATAPI_SOFT_RESET tsicp d1;
            (r, d3) \<leftarrow> BootIdeIssueAtaCommand io uIoBase IDE_CMD_PACKET_IDENTIFY tsicp d2;
            Some (if r \<noteq> 0 then None else Some True, d3)
          }
          else Some (Some False, d1));
        case found of None \<Rightarrow> Some (None, d2)
        | Some atapi \<Rightarrow>
            (case BootIdeReadData io uIoBase IDE_SECTOR_SIZE (snd (BootIdeWaitDataReady io uIoBase d2)) of
               (r, bs, d3) \<Rightarrow> Some (if r \<noteq> 0 then None else Some (atapi, bs), d3))
      })"

text \<open>A locked disk is unlocked with the password made from the EEPROM; without one the result is 1.\<close>

definition unlock_at_boot :: "'d ports \<Rightarrow> SHA1Context \<Rightarrow> SHA1Context \<Rightarrow> u8 list \<Rightarrow> drives_info \<Rightarrow> u16 \<Rightarrow> nat \<Rightarrow> 'd \<Rightarrow> (nat \<times> 'd) option" where
  "unlock_at_boot io c1 c2 eeprom info uIoBase nIndexDrive d =
     (if m_securitySettings (info nIndexDrive) AND 0x0004 = 0x0004
      then case CalculateDrivePassword c1 c2 eeprom info nIndexDrive of None \<Rightarrow> Some (1, d)
        | Some password \<Rightarrow>
            map_option (\<lambda>(_, d1). (0, d1)) (DriveSecurityChange io uIoBase nIndexDrive IDE_CMD_SECURITY_UNLOCK password d)
      else Some (0, d))"

definition partition_type :: "'d ports \<Rightarrow> drives_info \<Rightarrow> nat \<Rightarrow> 'd \<Rightarrow> (drives_info \<times> 'd) option" where
  "partition_type io info nIndexDrive d = do {
     (_, _, d1) \<leftarrow> BootIdeReadSector io info nIndexDrive 3 0 512 d;
     (r, bs, d2) \<leftarrow> BootIdeReadSector io info nIndexDrive 0 0 512 d1;
     Some (if r \<noteq> 0 then info
           else info(nIndexDrive := (info nIndexDrive)\<lparr>m_fHasMbr := (bs ! 0x1fe = 0x55 \<and> bs ! 0x1ff = 0xaa)\<rparr>), d2)
   }"

text \<open>\<open>junk\<close> is the array for the sense data before it is filled.\<close>

definition BootIdeDriveInit :: "'d ports \<Rightarrow> bool \<Rightarrow> SHA1Context \<Rightarrow> SHA1Context \<Rightarrow> u8 list \<Rightarrow> u8 list \<Rightarrow> u16 \<Rightarrow> nat \<Rightarrow> drives_info \<Rightarrow> 'd \<Rightarrow>
    (nat \<times> drives_info \<times> 'd) option" where
  "BootIdeDriveInit io cromwell c1 c2 junk eeprom uIoBase nIndexDrive info d =
     (let info0 = info(nIndexDrive := reset_info uIoBase (info nIndexDrive));
          d0 = out_bytes io [(IDE_REG_DRIVEHEAD uIoBase, drive_head nIndexDrive), (IDE_REG_CONTROL uIoBase, 0x0a),
                 (IDE_REG_FEATURE uIoBase, 0x00)] d
      in do {
        (n, d1) \<leftarrow> BootIdeWaitNotBusy io uIoBase d0;
        if n \<noteq> 0 then Some (1, info0, d1)
        else do {
          (found, d2) \<leftarrow> identify_drive io uIoBase nIndexDrive d1;
          case found of None \<Rightarrow> Some (1, info0, d2)
          | Some (atapi, bs) \<Rightarrow>
              (let info1 = info0(nIndexDrive := (identified bs (info0 nIndexDrive))\<lparr>m_fAtapi := atapi\<rparr>);
                   mode = (if word_of bs 49 AND 0x200 \<noteq> 0 then IDE_DH_LBA else IDE_DH_CHS)
               in if atapi
                  then do {
                    d3 \<leftarrow> (if cromwell then clear_attention io info1 nIndexDrive (junk[2 := 0x06]) d2 else Some d2);
                    Some (0, info1(nIndexDrive := (info1 nIndexDrive)\<lparr>m_bLbaMode := mode\<rparr>), d3)
                  }
                  else (let info2 = info1(nIndexDrive := (info1 nIndexDrive)\<lparr>m_securitySettings := word_of bs 128\<rparr>) in do {
                    (r, d3) \<leftarrow> (if cromwell then unlock_at_boot io c1 c2 eeprom info2 uIoBase nIndexDrive d2 else Some (0, d2));
                    if r \<noteq> 0 then Some (1, info2, d3)
                    else map_option (\<lambda>(info3, d4). (0, info3, d4))
                      (partition_type io (info2(nIndexDrive := (info2 nIndexDrive)\<lparr>m_bLbaMode := mode\<rparr>)) nIndexDrive d3)
                  }))
        }
      })"

text \<open>The cable is one of 80 conductors when the identification of the first drive says so.\<close>

definition cable_80 :: "u16 \<Rightarrow> bool" where
  "cable_80 w \<longleftrightarrow> w AND 0xc000 \<noteq> 0 \<and> w AND 0x8000 = 0 \<and> w AND 0xe000 \<noteq> 0x6000"

definition detect_cable :: "'d ports \<Rightarrow> drives_info \<Rightarrow> 'd \<Rightarrow> (drives_info \<times> 'd) option" where
  "detect_cable io info d =
     (let uIoBase = m_fwPortBase (info 0) in
      if \<not> m_fDriveExists (info 0) then Some (info, d)
      else do {
        (r, d1) \<leftarrow> BootIdeIssueAtaCommand io uIoBase IDE_CMD_IDENTIFY (IDE_DEFAULT_COMMAND\<lparr>m_bDrivehead := drive_head 0\<rparr>)
          (out_byte io (IDE_REG_DRIVEHEAD uIoBase) (drive_head 0) d);
        if r \<noteq> 0 then Some (info, d1)
        else (case BootIdeReadData io uIoBase IDE_SECTOR_SIZE (snd (BootIdeWaitDataReady io uIoBase d1)) of
                (r, bs, d2) \<Rightarrow>
                  Some (if r = 0 \<and> cable_80 (word_of bs 93) then info(0 := (info 0)\<lparr>m_bCableConductors := 80\<rparr>) else info, d2))
      })"

definition zero_info :: tsHarddiskInfo where
  "zero_info = \<lparr>m_fwPortBase = 0, m_wCountHeads = 0, m_wCountCylinders = 0, m_wCountSectorsPerTrack = 0,
     m_dwCountSectorsTotal = 0, m_bLbaMode = 0, m_szIdentityModelNumber = replicate 40 0, m_szSerial = replicate 20 0,
     m_szFirmware = replicate 8 0, m_fDriveExists = False, m_fAtapi = False, m_bCableConductors = 40,
     m_wAtaRevisionSupported = 0, s_length = 0, m_length = 0, m_fHasMbr = False, m_securitySettings = 0\<rparr>"

definition BootIdeInit :: "'d ports \<Rightarrow> bool \<Rightarrow> SHA1Context \<Rightarrow> SHA1Context \<Rightarrow> u8 list \<Rightarrow> u8 list \<Rightarrow> drives_info \<Rightarrow> 'd \<Rightarrow>
    (drives_info \<times> 'd) option" where
  "BootIdeInit io cromwell c1 c2 junk eeprom info d =
     (let info0 = info(0 := zero_info, 1 := zero_info) in do {
        (_, info1, d1) \<leftarrow> BootIdeDriveInit io cromwell c1 c2 junk eeprom IDE_BASE1 0 info0 (out_bytes io [(0xff60, 0x00), (0xff62, 0x62)] d);
        (_, info2, d2) \<leftarrow> BootIdeDriveInit io cromwell c1 c2 junk eeprom IDE_BASE1 1 info1 d1;
        detect_cable io info2 d2
      })"

section \<open>For GRUB; the transfer mode\<close>

record geometry =
  cylinders :: u32
  heads :: u32
  sectors :: u32
  total_sectors :: u32
  flags :: u32

definition get_diskinfo :: "drives_info \<Rightarrow> nat \<Rightarrow> geometry option" where
  "get_diskinfo info drive =
     (if 1 < drive then None
      else Some \<lparr>cylinders = ucast (m_wCountCylinders (info drive)), heads = ucast (m_wCountHeads (info drive)),
        sectors = ucast (m_wCountSectorsPerTrack (info drive)), total_sectors = m_dwCountSectorsTotal (info drive), flags = 0\<rparr>)"

definition BootIdeSetTransferMode :: "'d ports \<Rightarrow> drives_info \<Rightarrow> nat \<Rightarrow> u8 \<Rightarrow> 'd \<Rightarrow> (nat \<times> 'd) option" where
  "BootIdeSetTransferMode io info nIndexDrive nMode d =
     (let uIoBase = m_fwPortBase (info nIndexDrive) in do {
        (n, d1) \<leftarrow> BootIdeWaitNotBusy io uIoBase (out_bytes io [(IDE_REG_DRIVEHEAD uIoBase, drive_head nIndexDrive), (0xff62, 0x62),
          (IDE_REG_CONTROL uIoBase, 0x08), (IDE_REG_FEATURE uIoBase, 0x01)] d);
        if n \<noteq> 0 then Some (1, d1)
        else BootIdeIssueAtaCommand io uIoBase IDE_CMD_SET_FEATURES
          (IDE_DEFAULT_COMMAND\<lparr>m_bDrivehead := drive_head nIndexDrive, m_bCountSector := nMode\<rparr>)
          (out_byte io (IDE_REG_FEATURE uIoBase) 3 d1)
      })"

end
