(* ===== verification/AtaDrive.thy ===== *)
theory AtaDrive
  imports Ide
begin

text \<open>
  What the ATA documents say of the drives on a cable, as far as the driver relies on it: the task
  file with its two-deep registers, the addresses of sectors, data transfers, the passwords of the
  security feature, and packets of CD drives. \<open>ata_bus\<close> says that a bus status_shows such drives to the
  host, with any timing and any media errors.
\<close>

section \<open>Drives\<close>

record ata_drive =
  is_atapi :: bool
  d_heads :: nat
  d_per_track :: nat
  disk :: "nat \<Rightarrow> u8 list"
  identity :: "u8 list"
  user_password :: "u8 list option"
  master_pass :: "u8 list"
  locked :: bool

datatype transfer = ToSector nat | ToSecurity u8 | ToPacket

text \<open>The registers as pairs: what was written before, and what was written last.\<close>

record ata =
  r_count :: "u8 \<times> u8"
  r_sector :: "u8 \<times> u8"
  r_lsb :: "u8 \<times> u8"
  r_msb :: "u8 \<times> u8"
  r_dh :: u8
  pending :: "u8 list"
  taking :: "(transfer \<times> u8 list) option"
  failed :: bool
  drive_of :: "nat \<Rightarrow> ata_drive"

definition chosen :: "ata \<Rightarrow> nat" where
  "chosen v = (if r_dh v AND 0x10 \<noteq> 0 then 1 else 0)"

abbreviation the_drive :: "ata \<Rightarrow> ata_drive" where "the_drive v \<equiv> drive_of v (chosen v)"

definition ata_register :: "u16 \<Rightarrow> u8 \<Rightarrow> ata \<Rightarrow> ata" where
  "ata_register p b v =
     (if p = 0x1F2 then v\<lparr>r_count := (snd (r_count v), b)\<rparr>
      else if p = 0x1F3 then v\<lparr>r_sector := (snd (r_sector v), b)\<rparr>
      else if p = 0x1F4 then v\<lparr>r_lsb := (snd (r_lsb v), b)\<rparr>
      else if p = 0x1F5 then v\<lparr>r_msb := (snd (r_msb v), b)\<rparr>
      else if p = 0x1F6 then v\<lparr>r_dh := b\<rparr> else v)"

definition lba28 :: "ata \<Rightarrow> nat" where
  "lba28 v =
     (let head = unat (r_dh v AND 0x0F); c = unat (snd (r_msb v)) * 256 + unat (snd (r_lsb v)); s = unat (snd (r_sector v)) in
      if r_dh v AND 0x40 \<noteq> 0 then (head * 65536 + c) * 256 + s
      else (c * d_heads (the_drive v) + head) * d_per_track (the_drive v) + s - 1)"

definition lba48 :: "ata \<Rightarrow> nat" where
  "lba48 v = ((((unat (fst (r_msb v)) * 256 + unat (fst (r_lsb v))) * 256 + unat (fst (r_sector v))) * 256 + unat (snd (r_msb v))) * 256
     + unat (snd (r_lsb v))) * 256 + unat (snd (r_sector v))"

definition sectors28 :: "ata \<Rightarrow> nat" where
  "sectors28 v = (if snd (r_count v) = 0 then 256 else unat (snd (r_count v)))"

definition sectors48 :: "ata \<Rightarrow> nat" where
  "sectors48 v = (let n = unat (fst (r_count v)) * 256 + unat (snd (r_count v)) in if n = 0 then 65536 else n)"

definition read_disk :: "ata_drive \<Rightarrow> nat \<Rightarrow> nat \<Rightarrow> u8 list" where
  "read_disk dr a n = concat (map (disk dr) [a..<a + n])"

text \<open>The identification: the low byte of word 128 says that a password is set, and that the drive is locked.\<close>

definition security_byte :: "ata_drive \<Rightarrow> u8" where
  "security_byte dr = (identity dr ! 256 AND 0xF9) OR (if user_password dr \<noteq> None then 2 else 0) OR (if locked dr then 4 else 0)"

definition identify_bytes :: "ata_drive \<Rightarrow> u8 list" where
  "identify_bytes dr = (identity dr)[256 := security_byte dr]"

definition serves :: "u8 \<Rightarrow> ata \<Rightarrow> bool" where
  "serves c v =
     (if is_atapi (the_drive v) then c \<in> {0xA0, 0xA1, 0x08, 0xEF}
      else c \<in> {0xEC, 0xEF, 0xF2} \<or> c \<in> {0x20, 0x24, 0x30, 0xF1, 0xF6} \<and> \<not> locked (the_drive v))"

definition ata_reject :: "ata \<Rightarrow> ata" where
  "ata_reject v = v\<lparr>pending := [], taking := None, failed := True\<rparr>"

definition ata_accept :: "u8 \<Rightarrow> ata \<Rightarrow> ata" where
  "ata_accept c v =
     (let v0 = v\<lparr>pending := [], taking := None, failed := False\<rparr> in
      if c = 0x20 then v0\<lparr>pending := read_disk (the_drive v) (lba28 v) (sectors28 v)\<rparr>
      else if c = 0x24 then v0\<lparr>pending := read_disk (the_drive v) (lba48 v) (sectors48 v)\<rparr>
      else if c = 0x30 then v0\<lparr>taking := Some (ToSector (lba28 v), [])\<rparr>
      else if c = 0xEC \<or> c = 0xA1 then v0\<lparr>pending := identify_bytes (the_drive v)\<rparr>
      else if c = 0xA0 then v0\<lparr>taking := Some (ToPacket, [])\<rparr>
      else if c = 0xF1 \<or> c = 0xF2 \<or> c = 0xF6 then v0\<lparr>taking := Some (ToSecurity c, [])\<rparr>
      else v0)"

text \<open>Commands to the medium may fail, the others that the drive serves do not.\<close>

definition ata_command :: "u8 \<Rightarrow> ata \<Rightarrow> ata \<Rightarrow> bool" where
  "ata_command c v v' \<longleftrightarrow>
     (if serves c v then v' = ata_accept c v \<or> c \<in> {0x20, 0x24, 0x30, 0xA0} \<and> v' = ata_reject v else v' = ata_reject v)"

definition with_drive :: "(ata_drive \<Rightarrow> ata_drive) \<Rightarrow> ata \<Rightarrow> ata" where
  "with_drive f v = v\<lparr>drive_of := (drive_of v)(chosen v := f (the_drive v))\<rparr>"

definition ata_finish :: "(ata_drive \<Rightarrow> ata_drive) \<Rightarrow> ata \<Rightarrow> ata" where
  "ata_finish f v = (with_drive f v)\<lparr>pending := [], taking := None, failed := False\<rparr>"

definition needed :: "transfer \<Rightarrow> nat" where
  "needed k = (case k of ToPacket \<Rightarrow> 12 | _ \<Rightarrow> 512)"

definition password_given :: "u8 list \<Rightarrow> ata_drive \<Rightarrow> bool" where
  "password_given bs dr \<longleftrightarrow>
     (if bs ! 0 AND 1 = 0 then user_password dr = Some (take 32 (drop 2 bs)) else master_pass dr = take 32 (drop 2 bs))"

definition security_done :: "u8 \<Rightarrow> u8 list \<Rightarrow> ata \<Rightarrow> ata" where
  "security_done c bs v =
     (if c = 0xF1
      then ata_finish (if bs ! 0 AND 1 = 0 then user_password_update (\<lambda>_. Some (take 32 (drop 2 bs)))
                       else master_pass_update (\<lambda>_. take 32 (drop 2 bs))) v
      else if \<not> password_given bs (the_drive v) then ata_reject v
      else if c = 0xF2 then ata_finish (locked_update (\<lambda>_. False)) v
      else ata_finish (user_password_update (\<lambda>_. None)) v)"

text \<open>A sector whose writing failed holds anything.\<close>

fun ata_taken :: "transfer \<Rightarrow> u8 list \<Rightarrow> ata \<Rightarrow> ata \<Rightarrow> bool" where
  "ata_taken (ToSector a) bs v v' =
     (v' = ata_finish (disk_update (\<lambda>f. f(a := bs))) v
      \<or> (\<exists>junk. v' = ata_reject (with_drive (disk_update (\<lambda>f. f(a := junk))) v)))"
| "ata_taken (ToSecurity c) bs v v' = (v' = security_done c bs v)"
| "ata_taken ToPacket bs v v' =
     (v' = ata_reject v
      \<or> (\<exists>answer. v' = v\<lparr>pending := answer, taking := None, failed := False\<rparr>
          \<and> even (length answer) \<and> length answer < 65536
          \<and> (bs ! 0 = 0x28 \<longrightarrow> answer = read_disk (the_drive v) (unat (le32 (bs ! 5) (bs ! 4) (bs ! 3) (bs ! 2)))
               (unat (bs ! 7) * 256 + unat (bs ! 8)))))"

section \<open>The bus\<close>

text \<open>The status register: only the busy bit means anything while the drive is busy.\<close>

definition status_shows :: "ata \<Rightarrow> nat \<Rightarrow> u8 \<Rightarrow> bool" where
  "status_shows v busy b \<longleftrightarrow>
     (if 0 < busy then b AND 0x80 \<noteq> 0
      else b AND 0x80 = 0 \<and> (b AND 0x08 \<noteq> 0 \<longleftrightarrow> pending v \<noteq> [] \<or> taking v \<noteq> None) \<and> (b AND 1 \<noteq> 0 \<longleftrightarrow> failed v))"

text \<open>The status of the other drive, once it is selected, is its own.\<close>

definition status_of :: "ata \<Rightarrow> ata \<Rightarrow> bool" where
  "status_of v v' \<longleftrightarrow> (\<exists>p t f. v' = v\<lparr>pending := p, taking := t, failed := f\<rparr>)"

definition byte_reads :: "'d ports \<Rightarrow> ('d \<Rightarrow> ata) \<Rightarrow> ('d \<Rightarrow> nat) \<Rightarrow> bool" where
  "byte_reads io view busy \<longleftrightarrow> (\<forall>p d b d'. in_byte io p d = (b, d') \<longrightarrow>
     view d' = view d \<and> busy d' \<le> busy d
     \<and> (p = 0x3F6 \<or> p = 0x1F7 \<longrightarrow> status_shows (view d) (busy d) b \<and> (0 < busy d \<longrightarrow> busy d' < busy d))
     \<and> (busy d = 0 \<and> pending (view d) \<noteq> [] \<and> is_atapi (the_drive (view d)) \<longrightarrow>
          (p = 0x1F4 \<longrightarrow> b = of_nat (length (pending (view d)))) \<and> (p = 0x1F5 \<longrightarrow> b = of_nat (length (pending (view d)) div 256))))"

definition word_reads :: "'d ports \<Rightarrow> ('d \<Rightarrow> ata) \<Rightarrow> ('d \<Rightarrow> nat) \<Rightarrow> bool" where
  "word_reads io view busy \<longleftrightarrow> (\<forall>d w d' lo hi rest. in_word io 0x1F0 d = (w, d') \<and> busy d = 0 \<and> pending (view d) = lo # hi # rest \<longrightarrow>
     ucast w = lo \<and> ucast (drop_bit 8 w) = hi \<and> view d' = (view d)\<lparr>pending := rest\<rparr>
     \<and> (rest \<noteq> [] \<or> \<not> is_atapi (the_drive (view d)) \<longrightarrow> busy d' = 0))"

definition byte_writes :: "'d ports \<Rightarrow> ('d \<Rightarrow> ata) \<Rightarrow> ('d \<Rightarrow> nat) \<Rightarrow> bool" where
  "byte_writes io view busy \<longleftrightarrow> (\<forall>p b d. let d' = out_byte io p b d; v' = ata_register p b (view d) in
     (if p = 0x1F7 then busy d = 0 \<longrightarrow> ata_command b (view d) (view d')
      else if busy d = 0 then busy d' = 0 \<and> (if chosen v' = chosen (view d) then view d' = v' else status_of v' (view d'))
      else drive_of (view d') = drive_of (view d)))"

definition word_writes :: "'d ports \<Rightarrow> ('d \<Rightarrow> ata) \<Rightarrow> ('d \<Rightarrow> nat) \<Rightarrow> bool" where
  "word_writes io view busy \<longleftrightarrow> (\<forall>w d. busy d = 0 \<longrightarrow> (let d' = out_word io 0x1F0 w d in
     case taking (view d) of None \<Rightarrow> view d' = view d \<and> busy d' = 0
     | Some (k, bs) \<Rightarrow> let bs' = bs @ [ucast w, ucast (drop_bit 8 w)] in
         if length bs' < needed k then view d' = (view d)\<lparr>taking := Some (k, bs')\<rparr> \<and> busy d' = 0
         else ata_taken k bs' (view d) (view d')))"

definition ata_bus :: "'d ports \<Rightarrow> ('d \<Rightarrow> ata) \<Rightarrow> ('d \<Rightarrow> nat) \<Rightarrow> bool" where
  "ata_bus io view busy \<longleftrightarrow> byte_reads io view busy \<and> word_reads io view busy \<and> byte_writes io view busy \<and> word_writes io view busy"

text \<open>A bus on which the media never fail.\<close>

definition error_free :: "'d ports \<Rightarrow> ('d \<Rightarrow> ata) \<Rightarrow> ('d \<Rightarrow> nat) \<Rightarrow> bool" where
  "error_free io view busy \<longleftrightarrow>
     (\<forall>b d. busy d = 0 \<and> serves b (view d) \<longrightarrow> view (out_byte io 0x1F7 b d) = ata_accept b (view d))
     \<and> (\<forall>w d a bs. busy d = 0 \<and> taking (view d) = Some (ToSector a, bs) \<and> \<not> failed (view d) \<longrightarrow> \<not> failed (view (out_word io 0x1F0 w d)))"

section \<open>The primitives of the driver\<close>

lemmas ide_regs = IDE_REG_DATA_def IDE_REG_ERROR_def IDE_REG_FEATURE_def IDE_REG_SECTOR_COUNT_def IDE_REG_SECTOR_NUMBER_def
  IDE_REG_CYLINDER_LSB_def IDE_REG_CYLINDER_MSB_def IDE_REG_DRIVEHEAD_def IDE_REG_STATUS_def IDE_REG_COMMAND_def
  IDE_REG_ALTSTATUS_def IDE_REG_CONTROL_def IDE_REG_EXTENDED_OFFSET_def IDE_BASE1_def

lemma in_byte_view:
  assumes "ata_bus io view busy"
  shows "view (snd (in_byte io p d)) = view d" "busy (snd (in_byte io p d)) \<le> busy d"
    "p = 0x3F6 \<or> p = 0x1F7 \<Longrightarrow> status_shows (view d) (busy d) (fst (in_byte io p d))"
    "p = 0x3F6 \<or> p = 0x1F7 \<Longrightarrow> 0 < busy d \<Longrightarrow> busy (snd (in_byte io p d)) < busy d"
  using assms by (auto simp: ata_bus_def byte_reads_def split: prod.splits) (metis prod.collapse)+

lemma wait_not_busy:
  assumes "ata_bus io view busy"
  obtains d' where "BootIdeWaitNotBusy io IDE_BASE1 d = Some (if failed (view d) then 1 else 0, d')" "view d' = view d" "busy d' = 0"
proof -
  have "\<exists>d'. BootIdeWaitNotBusy io IDE_BASE1 d = Some (if failed (view d) then 1 else 0, d') \<and> view d' = view d \<and> busy d' = 0"
  proof (induction "busy d" arbitrary: d rule: less_induct)
    case less
    let ?r = "in_byte io 0x3F6 d"
    note v = in_byte_view [OF assms, of "0x3F6" d, simplified]
    show ?case
    proof (cases "0 < busy d")
      case True
      then have "fst ?r AND 0x80 \<noteq> 0" using v(3) by (simp add: status_shows_def)
      with less [OF v(4) [OF True]] v(1) show ?thesis
        by (subst BootIdeWaitNotBusy.simps) (simp add: ide_regs Let_def)
    next
      case False
      then have "fst ?r AND 0x80 = 0" "fst ?r AND 1 \<noteq> 0 \<longleftrightarrow> failed (view d)" using v(3) by (simp_all add: status_shows_def)
      moreover have "x AND 1 = 0 \<or> x AND 1 = 1" for x :: u8 by (simp add: and_one_eq odd_iff_mod_2_eq_one [symmetric] mod2_eq_if)
      ultimately have "fst ?r AND 1 = (if failed (view d) then 1 else 0)" by metis
      with False v(1,2) \<open>fst ?r AND 0x80 = 0\<close> show ?thesis
        by (subst BootIdeWaitNotBusy.simps) (simp add: ide_regs Let_def)
    qed
  qed
  then show thesis using that by blast
qed

lemma data_ready:
  assumes "ata_bus io view busy" "BootIdeWaitDataReady io IDE_BASE1 d = (r, d')"
  shows "view d' = view d" "busy d' \<le> busy d"
    "r = 0 \<Longrightarrow> busy d' = 0 \<and> (pending (view d) \<noteq> [] \<or> taking (view d) \<noteq> None) \<and> \<not> failed (view d)"
    "busy d = 0 \<Longrightarrow> pending (view d) \<noteq> [] \<or> taking (view d) \<noteq> None \<Longrightarrow> \<not> failed (view d) \<Longrightarrow> r = 0"
proof -
  note v = in_byte_view [OF assms(1), of "0x3F6", simplified]
  have drq: "b AND 0x80 = 0 \<and> b AND 8 \<noteq> 0" if "b AND 0x88 = 0x08" for b :: u8
  proof -
    have "b AND 0x80 = (b AND 0x88) AND 0x80" "b AND 8 = (b AND 0x88) AND 8" by (simp_all add: and.assoc)
    then show ?thesis using that by simp
  qed
  have drq': "b AND 0x88 = 0x08" if "b AND 0x80 = 0" "b AND 8 \<noteq> 0" for b :: u8
  proof -
    have "(0x88 :: u8) = 0x80 OR 8" by simp
    then have "b AND 0x88 = (b AND 0x80) OR (b AND 8)" by (metis bit.conj_disj_distrib)
    moreover have "b AND 8 = 8"
    proof (rule bit_word_eqI)
      have e: "(8 :: u8) = 2 ^ 3" by simp
      fix n assume "n < LENGTH(8)"
      have "bit (8 :: u8) n \<longleftrightarrow> n = 3" unfolding e bit_exp_iff using \<open>n < LENGTH(8)\<close> by auto
      moreover have "bit b 3" using \<open>b AND 8 \<noteq> 0\<close> and_exp_eq_0_iff_not_bit [of b 3] by (metis e)
      ultimately show "bit (b AND 8) n \<longleftrightarrow> bit (8 :: u8) n" by (auto simp: bit_and_iff)
    qed
    ultimately show ?thesis using that(1) by simp
  qed
  have "view d' = view d \<and> busy d' \<le> busy d
     \<and> (r = 0 \<longrightarrow> busy d' = 0 \<and> (pending (view d) \<noteq> [] \<or> taking (view d) \<noteq> None) \<and> \<not> failed (view d))"
    if "data_ready_polls i io IDE_BASE1 d = (r, d')" for i
    using that
  proof (induction i arbitrary: d)
    case 0
    then show ?case using v(1,2) [of d] by (auto simp: ide_regs split: prod.splits if_splits)
  next
    case (Suc i)
    obtain b d1 where b: "in_byte io 0x3F6 d = (b, d1)" by fastforce
    obtain b2 d2 where b2: "in_byte io 0x3F6 d1 = (b2, d2)" by fastforce
    show ?case
    proof (cases "b AND 0x88 = 0x08")
      case True
      then have s: "b AND 0x80 = 0" "b AND 8 \<noteq> 0" using drq by auto
      have z: "busy d = 0" using v(3) [of d] b s by (auto simp: status_shows_def split: if_splits)
      then have z1: "busy d1 = 0" "view d1 = view d" using v(1,2) [of d] b by simp_all
      have "(r, d') = (if b2 AND 0x01 \<noteq> 0 then 2 else 0, d2)" using Suc.prems True b b2 by (simp add: ide_regs)
      then show ?thesis
        using v(1,2,3) [of d1] v(3) [of d] b b2 z z1 s by (auto simp: status_shows_def)
    next
      case False
      then have "data_ready_polls i io IDE_BASE1 d1 = (r, d')" using Suc.prems b by (simp add: ide_regs)
      from Suc.IH [OF this] show ?thesis using v(1,2) [of d] b by simp
    qed
  qed
  then show "view d' = view d" "busy d' \<le> busy d"
    "r = 0 \<Longrightarrow> busy d' = 0 \<and> (pending (view d) \<noteq> [] \<or> taking (view d) \<noteq> None) \<and> \<not> failed (view d)"
    using assms(2) by (auto simp: BootIdeWaitDataReady_def)
  assume a: "busy d = 0" "pending (view d) \<noteq> [] \<or> taking (view d) \<noteq> None" "\<not> failed (view d)"
  obtain b d1 where b: "in_byte io 0x3F6 d = (b, d1)" by fastforce
  obtain b2 d2 where b2: "in_byte io 0x3F6 d1 = (b2, d2)" by fastforce
  have "b AND 0x80 = 0" "b AND 8 \<noteq> 0" using v(3) [of d] b a by (auto simp: status_shows_def)
  then have "b AND 0x88 = 0x08" by (rule drq')
  moreover have "b2 AND 1 = 0" using v(3) [of d1] v(1,2) [of d] b b2 a by (auto simp: status_shows_def)
  moreover obtain n where "(0x800000 :: nat) = Suc n" by (metis not0_implies_Suc zero_neq_numeral)
  then have "BootIdeWaitDataReady io IDE_BASE1 d = data_ready_polls (Suc n) io IDE_BASE1 d"
    by (simp only: BootIdeWaitDataReady_def)
  ultimately show "r = 0" using assms(2) b b2 by (simp add: ide_regs)
qed

lemma out_byte_view:
  assumes "ata_bus io view busy"
  shows "p \<noteq> 0x1F7 \<Longrightarrow> busy d = 0 \<Longrightarrow> status_of (ata_register p b (view d)) (view (out_byte io p b d)) \<and> busy (out_byte io p b d) = 0"
    "p \<noteq> 0x1F7 \<Longrightarrow> busy d = 0 \<Longrightarrow> p \<noteq> 0x1F6 \<or> chosen (ata_register p b (view d)) = chosen (view d) \<Longrightarrow>
       view (out_byte io p b d) = ata_register p b (view d)"
    "busy d = 0 \<Longrightarrow> ata_command b (view d) (view (out_byte io 0x1F7 b d))"
    "p \<noteq> 0x1F7 \<Longrightarrow> drive_of (view (out_byte io p b d)) = drive_of (view d)"
proof -
  have "byte_writes io view busy" using assms by (simp add: ata_bus_def)
  note w = iffD1 [OF byte_writes_def this, THEN spec, of p, THEN spec, of b, THEN spec, of d, unfolded Let_def]
  have r: "status_of v v" for v by (metis status_of_def ata.surjective ata.update_convs)
  have c: "p \<noteq> 0x1F6 \<Longrightarrow> chosen (ata_register p b (view d)) = chosen (view d)" by (simp add: ata_register_def chosen_def)
  show "p \<noteq> 0x1F7 \<Longrightarrow> busy d = 0 \<Longrightarrow> status_of (ata_register p b (view d)) (view (out_byte io p b d)) \<and> busy (out_byte io p b d) = 0"
    "p \<noteq> 0x1F7 \<Longrightarrow> busy d = 0 \<Longrightarrow> p \<noteq> 0x1F6 \<or> chosen (ata_register p b (view d)) = chosen (view d) \<Longrightarrow>
       view (out_byte io p b d) = ata_register p b (view d)"
    using w r c by (auto split: if_splits)
  show "drive_of (view (out_byte io p b d)) = drive_of (view d)" if "p \<noteq> 0x1F7"
  proof (cases "busy d = 0")
    case True
    then have "status_of (ata_register p b (view d)) (view (out_byte io p b d))" using w r that by (auto split: if_splits)
    then show ?thesis by (auto simp: status_of_def ata_register_def)
  next
    case False
    then show ?thesis using w that by auto
  qed
next
  have "byte_writes io view busy" using assms by (simp add: ata_bus_def)
  from iffD1 [OF byte_writes_def this, THEN spec, of "0x1F7", THEN spec, of b, THEN spec, of d, unfolded Let_def]
  show "busy d = 0 \<Longrightarrow> ata_command b (view d) (view (out_byte io 0x1F7 b d))" by simp
qed

lemma out_registers:
  assumes "ata_bus io view busy"
  shows "busy d = 0 \<Longrightarrow> 0x1F7 \<notin> fst ` set ws \<Longrightarrow> 0x1F6 \<notin> fst ` set ws \<Longrightarrow>
    view (out_bytes io ws d) = fold (\<lambda>(p, b). ata_register p b) ws (view d) \<and> busy (out_bytes io ws d) = 0"
  by (induction ws arbitrary: d) (auto simp: out_bytes_def out_byte_view(1,2) [OF assms])

lemma command_status:
  assumes "status_of v w"
  shows "ata_command c w v' = ata_command c v v'" "ata_accept c w = ata_accept c v" "serves c w = serves c v"
proof -
  obtain p t f where w: "w = v\<lparr>pending := p, taking := t, failed := f\<rparr>" using assms by (auto simp: status_of_def)
  have c: "chosen w = chosen v" "drive_of w = drive_of v" by (simp_all add: w chosen_def)
  have l: "lba28 w = lba28 v" "lba48 w = lba48 v" "sectors28 w = sectors28 v" "sectors48 w = sectors48 v"
    unfolding lba28_def lba48_def sectors28_def sectors48_def c by (simp_all add: w)
  have v0: "w\<lparr>pending := [], taking := None, failed := False\<rparr> = v\<lparr>pending := [], taking := None, failed := False\<rparr>" by (simp add: w)
  show a: "ata_accept c w = ata_accept c v" unfolding ata_accept_def v0 c l ..
  show b: "serves c w = serves c v" unfolding serves_def c ..
  have "ata_reject w = ata_reject v" by (simp add: ata_reject_def w)
  with a b show "ata_command c w v' = ata_command c v v'" by (simp add: ata_command_def)
qed

definition load_registers :: "tsIdeCommandParams \<Rightarrow> ata \<Rightarrow> ata" where
  "load_registers t v = v\<lparr>r_count := (m_bCountSectorExt t, m_bCountSector t), r_sector := (m_bSectorExt t, m_bSector t),
     r_lsb := (ucast (m_wCylinderExt t), ucast (m_wCylinder t)),
     r_msb := (ucast (drop_bit 8 (m_wCylinderExt t)), ucast (drop_bit 8 (m_wCylinder t))), r_dh := m_bDrivehead t\<rparr>"

lemma low_byte: "ucast (w AND 0xFF :: u16) = (ucast w :: u8)"
proof -
  have m: "(0xFF :: u16) = mask 8" by (simp add: mask_eq_decr_exp)
  show ?thesis unfolding m by (rule bit_word_eqI) (simp add: bit_simps)
qed

lemma issue_command:
  assumes "ata_bus io view busy"
  obtains d' where "BootIdeIssueAtaCommand io IDE_BASE1 c t d = Some (if failed (view d') then 1 else 0, d')"
    "ata_command c (load_registers t (view d)) (view d')" "busy d' = 0"
    "error_free io view busy \<and> serves c (load_registers t (view d)) \<longrightarrow> view d' = ata_accept c (load_registers t (view d))"
proof -
  obtain d2 where d2: "BootIdeWaitNotBusy io IDE_BASE1 (snd (in_byte io 0x1F7 d)) = Some (if failed (view d) then 1 else 0, d2)"
    "view d2 = view d" "busy d2 = 0"
    using wait_not_busy [OF assms, of "snd (in_byte io 0x1F7 d)"] in_byte_view(1) [OF assms] by metis
  let ?ws = "take 8 (task_file IDE_BASE1 c t)"
  let ?d3 = "out_bytes io ?ws d2"
  let ?dh = "out_byte io 0x1F6 (m_bDrivehead t) ?d3"
  have o: "view ?d3 = fold (\<lambda>(p, b). ata_register p b) ?ws (view d2) \<and> busy ?d3 = 0"
    by (rule out_registers [OF assms d2(3)]) (simp_all add: task_file_def ide_regs)
  then have "ata_register 0x1F6 (m_bDrivehead t) (view ?d3) = load_registers t (view d)"
    by (simp add: task_file_def ide_regs ata_register_def load_registers_def d2(2) low_byte)
  then have dh: "status_of (load_registers t (view d)) (view ?dh)" "busy ?dh = 0"
    using out_byte_view(1) [OF assms, of "0x1F6" ?d3 "m_bDrivehead t"] o by simp_all
  let ?d4 = "out_byte io 0x1F7 c ?dh"
  have "out_bytes io (task_file IDE_BASE1 c t) d2 = ?d4" by (simp add: task_file_def out_bytes_def ide_regs)
  moreover have "ata_command c (load_registers t (view d)) (view ?d4)"
    using out_byte_view(3) [OF assms dh(2)] command_status(1) [OF dh(1)] by simp
  moreover obtain d5 where "BootIdeWaitNotBusy io IDE_BASE1 ?d4 = Some (if failed (view ?d4) then 1 else 0, d5)"
    "view d5 = view ?d4" "busy d5 = 0" by (rule wait_not_busy [OF assms])
  moreover have "view ?d4 = ata_accept c (load_registers t (view d))" if "error_free io view busy" "serves c (load_registers t (view d))"
    using that(1) [unfolded error_free_def, THEN conjunct1, THEN spec, THEN spec, of ?dh c] that(2) dh(2) command_status(2,3) [OF dh(1)] by simp
  ultimately show thesis
    using that [of d5] d2(1) by (simp add: BootIdeIssueAtaCommand_def ide_regs)
qed

text \<open>Reading the words that are there, and the status after them.\<close>

lemma read_pending:
  assumes "ata_bus io view busy"
  shows "busy d = 0 \<Longrightarrow> pending (view d) = bs @ rest \<Longrightarrow> length bs = 2 * n \<Longrightarrow>
    \<exists>d'. read_words n io IDE_BASE1 d = (bs, d') \<and> view d' = (view d)\<lparr>pending := rest\<rparr>
      \<and> (rest \<noteq> [] \<or> \<not> is_atapi (the_drive (view d)) \<longrightarrow> busy d' = 0)"
proof (induction n arbitrary: d bs)
  case 0
  then show ?case by (cases "view d") simp
next
  case (Suc n)
  then obtain lo hi bs' where bs: "bs = lo # hi # bs'" "length bs' = 2 * n" by (cases bs; cases "tl bs") auto
  obtain w d1 where w: "in_word io 0x1F0 d = (w, d1)" by fastforce
  have "word_reads io view busy" using assms by (simp add: ata_bus_def)
  then have r: "ucast w = lo" "ucast (drop_bit 8 w) = hi" "view d1 = (view d)\<lparr>pending := bs' @ rest\<rparr>"
    "bs' @ rest \<noteq> [] \<or> \<not> is_atapi (the_drive (view d)) \<longrightarrow> busy d1 = 0"
    using w Suc.prems bs unfolding word_reads_def by (metis append_Cons)+
  show ?case
  proof (cases "bs' @ rest = [] \<and> is_atapi (the_drive (view d))")
    case True
    then show ?thesis using bs r w by (auto simp: ide_regs)
  next
    case False
    then have "busy d1 = 0" using r(4) by blast
    from Suc.IH [OF this, of bs'] r(3) bs(2)
    obtain d' where "read_words n io IDE_BASE1 d1 = (bs', d')" "view d' = (view d1)\<lparr>pending := rest\<rparr>"
      "rest \<noteq> [] \<or> \<not> is_atapi (the_drive (view d1)) \<longrightarrow> busy d' = 0" by auto
    then show ?thesis using w r bs by (simp add: ide_regs chosen_def)
  qed
qed

section \<open>A bus without delays and errors\<close>

definition ready_status :: "ata \<Rightarrow> u8" where
  "ready_status v = (if pending v \<noteq> [] \<or> taking v \<noteq> None then 8 else 0) OR (if failed v then 1 else 0)"

definition ready_taken :: "transfer \<Rightarrow> u8 list \<Rightarrow> ata \<Rightarrow> ata" where
  "ready_taken k bs v =
     (case k of ToSector a \<Rightarrow> ata_finish (disk_update (\<lambda>f. f(a := bs))) v
      | ToSecurity c \<Rightarrow> security_done c bs v
      | ToPacket \<Rightarrow>
          (let answer = (if bs ! 0 = 0x28 then read_disk (the_drive v) (unat (le32 (bs ! 5) (bs ! 4) (bs ! 3) (bs ! 2))) (unat (bs ! 7) * 256 + unat (bs ! 8))
                         else [])
           in if even (length answer) \<and> length answer < 65536 then v\<lparr>pending := answer, taking := None, failed := False\<rparr> else ata_reject v))"

definition ready_bus :: "ata ports" where
  "ready_bus = \<lparr>
     in_byte = \<lambda>p v. (if p = 0x3F6 \<or> p = 0x1F7 then ready_status v else if p = 0x1F4 then of_nat (length (pending v))
       else if p = 0x1F5 then of_nat (length (pending v) div 256) else 0, v),
     in_word = \<lambda>p v. (case pending v of lo # hi # rest \<Rightarrow> (le16 lo hi, v\<lparr>pending := rest\<rparr>) | _ \<Rightarrow> (0, v)),
     out_byte = \<lambda>p b v. (if p = 0x1F7 then if serves b v then ata_accept b v else ata_reject v else ata_register p b v),
     out_word = \<lambda>p w v. (case taking v of None \<Rightarrow> v
       | Some (k, bs) \<Rightarrow> let bs' = bs @ [ucast w, ucast (drop_bit 8 w)] in
           if length bs' < needed k then v\<lparr>taking := Some (k, bs')\<rparr> else ready_taken k bs' v)\<rparr>"

lemma le16_bytes: "ucast (le16 lo hi) = lo" "ucast (drop_bit 8 (le16 lo hi)) = hi"
  unfolding le16_def by (rule bit_word_eqI, auto simp: bit_simps bit_u8_beyond)+

lemma status_of_self: "status_of v v"
  by (metis status_of_def ata.surjective ata.update_convs)

lemma ready_bus: "ata_bus ready_bus (\<lambda>v. v) (\<lambda>_. 0)"
  unfolding ata_bus_def
proof (intro conjI)
  show "byte_reads ready_bus (\<lambda>v. v) (\<lambda>_. 0)"
    by (auto simp: byte_reads_def ready_bus_def status_shows_def ready_status_def)
  show "word_reads ready_bus (\<lambda>v. v) (\<lambda>_. 0)"
    by (auto simp: word_reads_def ready_bus_def le16_bytes)
  show "byte_writes ready_bus (\<lambda>v. v) (\<lambda>_. 0)"
    by (simp add: byte_writes_def ready_bus_def ata_command_def status_of_self)
  have "ata_taken k bs v (ready_taken k bs v)" for k bs v by (cases k) (auto simp: ready_taken_def Let_def)
  then show "word_writes ready_bus (\<lambda>v. v) (\<lambda>_. 0)"
    by (auto simp: word_writes_def ready_bus_def Let_def split: option.splits)
qed

end
