(* ===== verification/IdeSectors.thy ===== *)
theory IdeSectors
  imports AtaDrive
begin

text \<open>
  The sector functions of the IDE driver against the drives of \<open>AtaDrive\<close>: the three ways to address a
  block name that block, a read gives its bytes, a write changes it alone (and which one it changes
  from block 2^28 on), and a read of a CD gives the sector after the packet and its answer.
\<close>

section \<open>Addresses\<close>

lemma unat_and_mask: "unat (x AND mask n :: 'a::len word) = unat x mod 2 ^ n"
proof -
  have "unat (x AND mask n) = unat (take_bit n x)" by (simp only: take_bit_eq_mask)
  also have "\<dots> = take_bit n (unat x)" by (simp only: unsigned_take_bit_eq)
  finally show ?thesis by (simp only: take_bit_eq_mod)
qed

lemma unat_and_low:
  "unat (x AND 0x0F :: u32) = unat x mod 16" "unat (x AND 0xFF :: u32) = unat x mod 256" "unat (x AND 0xFFFF :: u32) = unat x mod 65536"
proof -
  have m: "(0x0F :: u32) = mask 4" "(0xFF :: u32) = mask 8" "(0xFFFF :: u32) = mask 16" by (simp_all add: mask_eq_decr_exp)
  show "unat (x AND 0x0F :: u32) = unat x mod 16" "unat (x AND 0xFF :: u32) = unat x mod 256" "unat (x AND 0xFFFF :: u32) = unat x mod 65536"
    unfolding m unat_and_mask by simp_all
qed

lemma unat_narrow:
  "unat (ucast (x :: u32) :: u8) = unat x mod 256" "unat (ucast (x :: u32) :: u16) = unat x mod 65536"
  "unat (ucast (y :: u16) :: u8) = unat y mod 256"
  by (simp_all only: unsigned_ucast_eq take_bit_eq_mod) simp_all

lemma unat_high: "unat (drop_bit n x) = unat x div 2 ^ n"
proof -
  have "unat (drop_bit n x) = drop_bit n (unat x)" by (simp only: unat_drop_bit_eq)
  then show ?thesis by (simp only: drop_bit_eq_div)
qed

lemma nibble_unat: "unat (ucast (x AND 0x0F :: u32) :: u8) = unat x mod 16"
proof -
  have "unat x mod 16 < 16" by simp
  then show ?thesis by (simp only: unat_narrow unat_and_low mod_less)
qed

lemma nibble_and: "ucast (x AND 0x0F :: u32) AND (0x0F :: u8) = ucast (x AND 0x0F)" "ucast (x AND 0x0F :: u32) AND (0x10 :: u8) = 0"
    "ucast (x AND 0x0F :: u32) AND (0x40 :: u8) = 0"
proof -
  have m: "(0x0F :: u32) = mask 4" "(0x0F :: u8) = mask 4" "(0x10 :: u8) = 2 ^ 4" "(0x40 :: u8) = 2 ^ 6" by (simp_all add: mask_eq_decr_exp)
  show "ucast (x AND 0x0F :: u32) AND (0x0F :: u8) = ucast (x AND 0x0F)" "ucast (x AND 0x0F :: u32) AND (0x10 :: u8) = 0"
    "ucast (x AND 0x0F :: u32) AND (0x40 :: u8) = 0"
    unfolding m by (rule bit_word_eqI, auto simp: bit_simps simp del: power_numeral)+
qed

lemma head_byte:
  fixes h :: u8
  assumes "h AND 0x0F = h" "h AND 0x10 = 0" "h AND 0x40 = 0" "n < 2"
  shows "(IDE_DH_DEFAULT OR h OR IDE_DH_DRIVE n OR IDE_DH_LBA) AND 0x0F = h" "(IDE_DH_DEFAULT OR h OR IDE_DH_DRIVE n OR IDE_DH_LBA) AND 0x40 \<noteq> 0"
    "(IDE_DH_DEFAULT OR h OR IDE_DH_DRIVE n OR IDE_DH_CHS) AND 0x0F = h" "(IDE_DH_DEFAULT OR h OR IDE_DH_DRIVE n OR IDE_DH_CHS) AND 0x40 = 0"
    "(IDE_DH_DEFAULT OR h OR IDE_DH_DRIVE n OR IDE_DH_LBA) AND 0x10 \<noteq> 0 \<longleftrightarrow> n = 1"
    "(IDE_DH_DEFAULT OR h OR IDE_DH_DRIVE n OR IDE_DH_CHS) AND 0x10 \<noteq> 0 \<longleftrightarrow> n = 1"
    "(IDE_DH_DRIVE n OR IDE_DH_LBA) AND 0x10 \<noteq> 0 \<longleftrightarrow> n = 1"
proof -
  have "n = 0 \<or> n = 1" using assms(4) by auto
  then show "(IDE_DH_DEFAULT OR h OR IDE_DH_DRIVE n OR IDE_DH_LBA) AND 0x0F = h" "(IDE_DH_DEFAULT OR h OR IDE_DH_DRIVE n OR IDE_DH_LBA) AND 0x40 \<noteq> 0"
    "(IDE_DH_DEFAULT OR h OR IDE_DH_DRIVE n OR IDE_DH_CHS) AND 0x0F = h" "(IDE_DH_DEFAULT OR h OR IDE_DH_DRIVE n OR IDE_DH_CHS) AND 0x40 = 0"
    "(IDE_DH_DEFAULT OR h OR IDE_DH_DRIVE n OR IDE_DH_LBA) AND 0x10 \<noteq> 0 \<longleftrightarrow> n = 1"
    "(IDE_DH_DEFAULT OR h OR IDE_DH_DRIVE n OR IDE_DH_CHS) AND 0x10 \<noteq> 0 \<longleftrightarrow> n = 1"
    "(IDE_DH_DRIVE n OR IDE_DH_LBA) AND 0x10 \<noteq> 0 \<longleftrightarrow> n = 1"
    using assms(1-3) by (auto simp: IDE_DH_DEFAULT_def IDE_DH_DRIVE_def IDE_DH_LBA_def IDE_DH_CHS_def bit.conj_disj_distrib2)
qed

lemma chunk_unat:
  fixes block :: u32
  shows "unat (ucast (block AND 0xff) :: u8) = unat block mod 256"
    "unat (ucast (ucast (drop_bit 8 block AND 0xffff) :: u16) :: u8) = unat block div 256 mod 256"
    "unat (ucast (drop_bit 8 (ucast (drop_bit 8 block AND 0xffff) :: u16)) :: u8) = unat block div 65536 mod 256"
    "unat (ucast (drop_bit 24 block AND 0xff) :: u8) = unat block div 16777216 mod 256"
proof -
  have a: "a mod 65536 mod 256 = a mod 256" for a :: nat by (simp add: mod_mod_cancel)
  have b: "a div 256 mod 65536 div 256 mod 256 = a div 65536 mod 256" for a :: nat
    using mod_mult2_eq [of "a div 256" 256 256] by (simp add: div_mult2_eq [symmetric] mod_mult2_eq)
  show "unat (ucast (block AND 0xff) :: u8) = unat block mod 256"
    "unat (ucast (ucast (drop_bit 8 block AND 0xffff) :: u16) :: u8) = unat block div 256 mod 256"
    "unat (ucast (drop_bit 8 (ucast (drop_bit 8 block AND 0xffff) :: u16)) :: u8) = unat block div 65536 mod 256"
    "unat (ucast (drop_bit 24 block AND 0xff) :: u8) = unat block div 16777216 mod 256"
    by (simp_all only: unat_narrow unat_and_low unat_high mod_mod_trivial a) (simp_all add: a b)
qed

text \<open>The geometry the driver keeps is the drive's, and the block can be addressed with it.\<close>

definition geometry_ok :: "tsHarddiskInfo \<Rightarrow> ata_drive \<Rightarrow> u32 \<Rightarrow> bool" where
  "geometry_ok drv dr block \<longleftrightarrow> m_bLbaMode drv = IDE_DH_CHS \<and> block < 0x10000000 \<longrightarrow>
     (let spt = unat (m_wCountSectorsPerTrack drv); heads = unat (m_wCountHeads drv) in
      0 < spt \<and> spt < 256 \<and> 0 < heads \<and> heads \<le> 16 \<and> d_per_track dr = spt \<and> d_heads dr = heads \<and> unat block < 65536 * heads * spt)"

lemma nibble_head: "ucast (x AND 0x0F :: u32) = IDE_DH_HEAD x"
  by (simp add: IDE_DH_HEAD_def)

lemma nat_bytes: "a div 16777216 * 16777216 + a div 65536 mod 256 * 65536 + a div 256 mod 256 * 256 + a mod 256 = (a :: nat)"
proof -
  have "a div 65536 div 256 = a div 16777216" "a div 256 div 256 = a div 65536" by (simp_all add: div_mult2_eq [symmetric])
  then show ?thesis
    using div_mult_mod_eq [of "a div 65536" 256] div_mult_mod_eq [of "a div 256" 256] div_mult_mod_eq [of a 256] by linarith
qed

lemma nat_3_bytes: "a div 65536 mod 256 * 65536 + a div 256 mod 256 * 256 + a mod 256 = (a :: nat) mod 2 ^ 24"
proof -
  have "a mod 2 ^ 24 = a mod 16777216" by simp
  then show ?thesis using nat_bytes [of a] div_mult_mod_eq [of a 16777216] by linarith
qed

lemma block_lba:
  assumes "n < 2" "block < 0x10000000" "m_bLbaMode drv \<noteq> IDE_DH_CHS"
  shows "\<exists>t. block_params drv n block = Some t \<and> chosen (load_registers t v) = n \<and> lba28 (load_registers t v) = unat block
    \<and> sectors28 (load_registers t v) = 1"
proof -
  let ?h = "ucast (drop_bit 24 block AND 0x0F) :: u8"
  have h: "?h AND 0x0F = ?h" "?h AND 0x10 = 0" "?h AND 0x40 = 0" by (rule nibble_and)+
  have n: "n = 0 \<or> n = 1" using assms(1) by auto
  have u: "unat block < 2 ^ 28" using assms(2) by (simp add: word_less_nat_alt)
  have "unat ?h = unat block div 2 ^ 24" using u by (simp only: nibble_unat unat_high) (simp add: mod_less div_less_dividend less_mult_imp_div_less)
  then have "lba28 (load_registers (IDE_DEFAULT_COMMAND\<lparr>m_bCountSector := 1, m_bSector := ucast (block AND 0xff),
      m_wCylinder := ucast (drop_bit 8 block AND 0xffff), m_bDrivehead := IDE_DH_DEFAULT OR ?h OR IDE_DH_DRIVE n OR IDE_DH_LBA\<rparr>) v) = unat block"
    by (simp add: lba28_def load_registers_def head_byte [OF h assms(1)] chunk_unat) (use nat_bytes [of "unat block"] in linarith)
  moreover have "\<not> 0x10000000 \<le> block" using assms(2) by simp
  ultimately show ?thesis
    using assms(3) head_byte(5) [OF h assms(1)] n
    by (auto simp: block_params_def load_registers_def chosen_def sectors28_def)
qed

lemma block_chs:
  assumes "n < 2" "block < 0x10000000" "m_bLbaMode drv = IDE_DH_CHS" "geometry_ok drv (drive_of v n) block"
  shows "\<exists>t. block_params drv n block = Some t \<and> chosen (load_registers t v) = n \<and> lba28 (load_registers t v) = unat block
    \<and> sectors28 (load_registers t v) = 1"
proof -
  let ?spt = "ucast (m_wCountSectorsPerTrack drv) :: u32" and ?heads = "ucast (m_wCountHeads drv) :: u32"
  let ?s = "unat (m_wCountSectorsPerTrack drv)" and ?hd = "unat (m_wCountHeads drv)"
  let ?track = "block div ?spt" and ?b = "unat block"
  let ?h = "IDE_DH_HEAD (?track mod ?heads)"
  let ?t = "IDE_DEFAULT_COMMAND\<lparr>m_bCountSector := 1, m_bSector := ucast (1 + block mod ?spt), m_wCylinder := ucast (?track div ?heads),
     m_bDrivehead := IDE_DH_DEFAULT OR ?h OR IDE_DH_DRIVE n OR IDE_DH_CHS\<rparr>"
  have g: "0 < ?s" "?s < 256" "0 < ?hd" "?hd \<le> 16" "d_per_track (drive_of v n) = ?s" "d_heads (drive_of v n) = ?hd" "?b < 65536 * ?hd * ?s"
    using assms(2-4) by (auto simp: geometry_ok_def Let_def)
  have h: "?h AND 0x0F = ?h" "?h AND 0x10 = 0" "?h AND 0x40 = 0" unfolding IDE_DH_HEAD_def by (rule nibble_and)+
  have u: "unat ?spt = ?s" "unat ?heads = ?hd"
    using unsigned_less [of "m_wCountSectorsPerTrack drv", where 'a = nat] unsigned_less [of "m_wCountHeads drv", where 'a = nat]
    by (simp_all add: unsigned_ucast_eq take_bit_nat_eq_self less_trans)
  have "unat (?track mod ?heads) = ?b div ?s mod ?hd" by (simp add: unat_div unat_mod u)
  moreover have "?b div ?s mod ?hd < 16" using g(3,4) mod_less_divisor [of ?hd "?b div ?s"] by linarith
  ultimately have uh: "unat ?h = ?b div ?s mod ?hd" unfolding IDE_DH_HEAD_def by (simp only: nibble_unat mod_less)
  have "?b mod ?s < ?s" using g(1) by simp
  then have "unat (1 + block mod ?spt) = ?b mod ?s + 1" using g(2) by (simp add: unat_word_ariths unat_mod u)
  moreover have "?b mod ?s + 1 < 256" using \<open>?b mod ?s < ?s\<close> g(2) by linarith
  ultimately have us: "unat (ucast (1 + block mod ?spt) :: u8) = ?b mod ?s + 1" by (simp only: unat_narrow mod_less)
  have "?b div ?s div ?hd < 65536" using g(7) by (simp add: div_mult2_eq [symmetric] less_mult_imp_div_less mult.assoc mult.commute [of ?s])
  then have uc: "unat (ucast (?track div ?heads) :: u16) = ?b div ?s div ?hd" by (simp only: unat_narrow unat_div u mod_less)
  have c: "unat (ucast (drop_bit 8 w) :: u8) * 256 + unat (ucast w :: u8) = unat w" for w :: u16
  proof -
    have "unat w div 256 < 256" using unsigned_less [of w, where 'a = nat] by (simp add: less_mult_imp_div_less)
    then show ?thesis by (simp only: unat_narrow unat_high) (simp add: mod_less)
  qed
  have ch: "chosen (load_registers ?t v) = n" using head_byte(6) [OF h assms(1)] assms(1) by (auto simp: load_registers_def chosen_def)
  have "lba28 (load_registers ?t v)
      = (unat (ucast (?track div ?heads) :: u16) * ?hd + unat ?h) * ?s + unat (ucast (1 + block mod ?spt) :: u8) - 1"
    unfolding lba28_def Let_def ch by (simp add: load_registers_def head_byte [OF h assms(1)] c g(5,6))
  also have "\<dots> = (?b div ?s div ?hd * ?hd + ?b div ?s mod ?hd) * ?s + ?b mod ?s" by (simp only: uc uh us)
  also have "\<dots> = ?b" by simp
  finally have "lba28 (load_registers ?t v) = ?b" .
  moreover have "block_params drv n block = Some ?t"
    using assms(2,3) g(1,3) by (auto simp: block_params_def Let_def)
  ultimately show ?thesis using ch by (auto simp: load_registers_def sectors28_def)
qed

lemma block_48:
  assumes "n < 2" "0x10000000 \<le> block"
  shows "\<exists>t. block_params drv n block = Some t \<and> chosen (load_registers t v) = n \<and> lba48 (load_registers t v) = unat block
    \<and> sectors48 (load_registers t v) = 1 \<and> lba28 (load_registers t v) = unat block mod 2 ^ 24 \<and> sectors28 (load_registers t v) = 1"
proof -
  have n: "n = 0 \<or> n = 1" using assms(1) by auto
  have "unat block div 16777216 < 256" using unsigned_less [of block, where 'a = nat] by (simp add: less_mult_imp_div_less)
  then have a: "((unat block div 16777216 mod 256 * 256 + unat block div 65536 mod 256) * 256 + unat block div 256 mod 256) * 256
     + unat block mod 256 = unat block"
    using nat_bytes [of "unat block"] by simp
  have b: "(x div 65536 mod 256 * 256 + x div 256 mod 256) * 256 + x mod 256 = x mod 2 ^ 24" for x :: nat
    using nat_3_bytes [of x] by simp
  have d: "(IDE_DH_DRIVE n OR IDE_DH_LBA) AND 0x0F = 0" "(IDE_DH_DRIVE n OR IDE_DH_LBA) AND 0x40 \<noteq> 0"
    "(IDE_DH_DRIVE n OR IDE_DH_LBA) AND 0x10 \<noteq> 0 \<longleftrightarrow> n = 1"
    using n by (auto simp: IDE_DH_DRIVE_def IDE_DH_LBA_def)
  show ?thesis
    using assms(2) n
    by (auto simp: block_params_def Let_def load_registers_def chosen_def lba48_def lba28_def sectors48_def sectors28_def chunk_unat unat_high d
        a [simplified] b [simplified] IDE_DEFAULT_COMMAND_def)
qed

section \<open>Reading\<close>

text \<open>Reading data from an ATA drive, which is done at once when they are there.\<close>

lemma read_data:
  assumes "ata_bus io view busy" "busy d = 0" "pending (view d) = bs" "length bs = 2 * n" "0 < n" "\<not> failed (view d)"
    "\<not> is_atapi (the_drive (view d))" "taking (view d) = None"
  shows "\<exists>d'. BootIdeReadData io IDE_BASE1 (2 * n) d = (0, bs, d') \<and> view d' = (view d)\<lparr>pending := []\<rparr> \<and> busy d' = 0"
proof -
  obtain r d1 where d1: "BootIdeWaitDataReady io IDE_BASE1 d = (r, d1)" by fastforce
  have bs: "pending (view d) \<noteq> []" using assms(3-5) by auto
  note w = data_ready [OF assms(1) d1]
  have r: "r = 0" by (rule w(4)) (use bs assms in auto)
  then have z: "busy d1 = 0" "view d1 = view d" using w(1,3) by auto
  obtain d2 where d2: "read_words n io IDE_BASE1 d1 = (bs, d2)" "view d2 = (view d)\<lparr>pending := []\<rparr>" "busy d2 = 0"
    using read_pending [OF assms(1) z(1), of bs "[]" n] assms(3,4,7) z(2) by auto
  let ?d3 = "snd (in_byte io 0x1F7 d2)" and ?r4 = "in_byte io 0x3F6 (snd (in_byte io 0x1F7 d2))"
  have z3: "view ?d3 = view d2" "busy ?d3 = 0" using in_byte_view(1,2) [OF assms(1), of "0x1F7" d2] d2(3) by simp_all
  have z4: "view (snd ?r4) = view d2" "busy (snd ?r4) = 0" using in_byte_view(1,2) [OF assms(1), of "0x3F6" ?d3] z3 by simp_all
  have "fst ?r4 AND 1 = 0" using in_byte_view(3) [OF assms(1), of "0x3F6" ?d3] z3 d2(2) assms(6) by (simp add: status_shows_def)
  then show ?thesis
    using d1 r d2 z4 by (auto simp: BootIdeReadData_def ide_regs split: prod.splits)
qed

text \<open>What reading from any drive may give.\<close>

lemma read_data_any:
  assumes "ata_bus io view busy" "BootIdeReadData io IDE_BASE1 n d = (r, bs, d')" "n = 2 * k" "length (pending (view d)) = n \<or> pending (view d) = []"
    "taking (view d) = None"
  shows "view d' = view d \<or> view d' = (view d)\<lparr>pending := []\<rparr>"
    "r = 0 \<Longrightarrow> pending (view d) \<noteq> [] \<and> bs = pending (view d) \<and> view d' = (view d)\<lparr>pending := []\<rparr>"
proof -
  obtain r1 d1 where d1: "BootIdeWaitDataReady io IDE_BASE1 d = (r1, d1)" by fastforce
  note w = data_ready [OF assms(1) d1]
  have "(view d' = view d \<or> view d' = (view d)\<lparr>pending := []\<rparr>) \<and>
    (r = 0 \<longrightarrow> pending (view d) \<noteq> [] \<and> bs = pending (view d) \<and> view d' = (view d)\<lparr>pending := []\<rparr>)"
  proof (cases "r1 = 0")
    case False
    then show ?thesis using assms(2) d1 w(1) by (simp add: BootIdeReadData_def)
  next
    case True
    then have z: "busy d1 = 0" "view d1 = view d" "pending (view d) \<noteq> []" using w(1,3) assms(5) by auto
    have l: "length (pending (view d)) = 2 * k" using assms(3,4) z(3) by auto
    obtain d2 where d2: "read_words k io IDE_BASE1 d1 = (pending (view d), d2)" "view d2 = (view d)\<lparr>pending := []\<rparr>"
      using read_pending [OF assms(1) z(1), of "pending (view d)" "[]" k] l z(2) by auto
    have v: "view (snd (in_byte io p d)) = view d" for p d by (rule in_byte_view(1) [OF assms(1)])
    have "bs = pending (view d) \<and> d' = snd (in_byte io 0x3F6 (snd (in_byte io 0x1F7 d2)))"
      using assms(2,3) d1 True d2(1) by (auto simp: BootIdeReadData_def ide_regs split: prod.splits)
    then show ?thesis using z(3) d2(2) by (simp add: v)
  qed
  then show "view d' = view d \<or> view d' = (view d)\<lparr>pending := []\<rparr>"
    "r = 0 \<Longrightarrow> pending (view d) \<noteq> [] \<and> bs = pending (view d) \<and> view d' = (view d)\<lparr>pending := []\<rparr>"
    by auto
qed

text \<open>The attempts end only with the data of the command, however many there are.\<close>

definition data_left :: "nat \<Rightarrow> ata \<Rightarrow> bool" where
  "data_left n v \<longleftrightarrow> (length (pending v) = n \<or> pending v = []) \<and> taking v = None"

lemma read_retry:
  assumes "ata_bus io view busy" "even n" "read_data_retry io IDE_BASE1 n d = Some (bs, d')" "data_left n (view d)"
  shows "pending (view d) \<noteq> [] \<and> bs = pending (view d) \<and> view d' = (view d)\<lparr>pending := []\<rparr>"
proof -
  obtain k where n: "n = 2 * k" using assms(2) by (elim evenE)
  have "case (bs, d') of (bs, d') \<Rightarrow> ata_bus io view busy \<and> IDE_BASE1 = IDE_BASE1 \<and> n = 2 * k \<and> data_left n (view d) \<longrightarrow>
      pending (view d) \<noteq> [] \<and> bs = pending (view d) \<and> view d' = (view d)\<lparr>pending := []\<rparr>"
  proof (rule read_data_retry.raw_induct [where P = "\<lambda>io b n d r. case r of (bs, d') \<Rightarrow> ata_bus io view busy \<and> b = IDE_BASE1 \<and> n = 2 * k \<and> data_left n (view d) \<longrightarrow>
      pending (view d) \<noteq> [] \<and> bs = pending (view d) \<and> view d' = (view d)\<lparr>pending := []\<rparr>", OF _ assms(3)])
    fix f :: "'a ports \<Rightarrow> u16 \<Rightarrow> nat \<Rightarrow> 'a \<Rightarrow> (u8 list \<times> 'a) option" and io :: "'a ports" and b n d r
    assume ih: "\<And>io b n d r. f io b n d = Some r \<Longrightarrow> case r of (bs, d') \<Rightarrow> ata_bus io view busy \<and> b = IDE_BASE1 \<and> n = 2 * k \<and> data_left n (view d) \<longrightarrow>
        pending (view d) \<noteq> [] \<and> bs = pending (view d) \<and> view d' = (view d)\<lparr>pending := []\<rparr>"
      and eq: "(case BootIdeReadData io b n d of (status, bs, d1) \<Rightarrow> if status = 0 then Some (bs, d1) else f io b n d1) = Some r"
    obtain bs d' where r: "r = (bs, d')" by fastforce
    obtain q bs1 d1 where q: "BootIdeReadData io b n d = (q, bs1, d1)" by (metis prod_cases3)
    have "pending (view d) \<noteq> [] \<and> bs = pending (view d) \<and> view d' = (view d)\<lparr>pending := []\<rparr>"
      if a: "ata_bus io view busy" "b = IDE_BASE1" "n = 2 * k" "data_left n (view d)"
    proof -
      note any = read_data_any [OF a(1) q [unfolded a(2)] a(3)]
      have l: "length (pending (view d)) = n \<or> pending (view d) = []" "taking (view d) = None" using a(4) by (simp_all add: data_left_def)
      show ?thesis
      proof (cases "q = 0")
        case True
        then show ?thesis using eq q any(2) [OF l] r by simp
      next
        case False
        then have f: "f io b n d1 = Some (bs, d')" using eq q r by simp
        have v: "view d1 = view d \<or> view d1 = (view d)\<lparr>pending := []\<rparr>" by (rule any(1) [OF l])
        then have "data_left n (view d1)" using a(4) by (auto simp: data_left_def)
        with ih [OF f] a v show ?thesis by auto
      qed
    qed
    then show "case r of (bs, d') \<Rightarrow> ata_bus io view busy \<and> b = IDE_BASE1 \<and> n = 2 * k \<and> data_left n (view d) \<longrightarrow>
        pending (view d) \<noteq> [] \<and> bs = pending (view d) \<and> view d' = (view d)\<lparr>pending := []\<rparr>"
      unfolding r split by blast
  qed
  then show ?thesis using assms(1,4) n by simp
qed

definition ata_disk :: "drives_info \<Rightarrow> nat \<Rightarrow> ata \<Rightarrow> bool" where
  "ata_disk info n v \<longleftrightarrow> n < 2 \<and> m_fDriveExists (info n) \<and> \<not> m_fAtapi (info n) \<and> m_fwPortBase (info n) = IDE_BASE1
     \<and> \<not> is_atapi (drive_of v n) \<and> \<not> locked (drive_of v n) \<and> (\<forall>a. length (disk (drive_of v n) a) = 512)"

text \<open>The registers say: one sector, this block (in 48 bits when 28 do not suffice), this drive.\<close>

definition addressed :: "nat \<Rightarrow> u32 \<Rightarrow> ata \<Rightarrow> bool" where
  "addressed n block v \<longleftrightarrow> chosen v = n \<and> sectors28 v = 1
     \<and> (if 0x10000000 \<le> block then lba48 v = unat block \<and> sectors48 v = 1 \<and> lba28 v = unat block mod 2 ^ 24 else lba28 v = unat block)"

lemma block_addressed:
  assumes "n < 2" "geometry_ok drv (drive_of v n) block"
  obtains t where "block_params drv n block = Some t" "addressed n block (load_registers t v)"
proof (cases "0x10000000 \<le> block")
  case True
  then show thesis using that block_48 [OF assms(1) True, of drv v] by (auto simp: addressed_def)
next
  case False
  then have "block < 0x10000000" by simp
  then have "\<exists>t. block_params drv n block = Some t \<and> chosen (load_registers t v) = n \<and> lba28 (load_registers t v) = unat block
      \<and> sectors28 (load_registers t v) = 1"
    using block_lba [OF assms(1)] block_chs [OF assms(1) _ _ assms(2)] by (cases "m_bLbaMode drv = IDE_DH_CHS") blast+
  then show thesis using that False by (auto simp: addressed_def)
qed

text \<open>A command for one block, in any of the three addressings.\<close>

lemma block_command:
  assumes "ata_bus io view busy" "ata_disk info n (view d)" "geometry_ok (info n) (drive_of (view d) n) block"
    and "c = (if 0x10000000 \<le> block then IDE_CMD_READ_EXT else IDE_CMD_READ_MULTI_RETRY) \<or> c = IDE_CMD_WRITE_MULTI_RETRY"
  obtains t d' where "block_params (info n) n block = Some t"
    "BootIdeIssueAtaCommand io IDE_BASE1 c t
       (out_byte io (IDE_REG_CONTROL IDE_BASE1) b (out_byte io (IDE_REG_DRIVEHEAD IDE_BASE1) b' d)) = Some (if failed (view d') then 1 else 0, d')"
    "busy d' = 0" "drive_of (view d') = drive_of (view d)" "failed (view d') \<or> chosen (view d') = n"
    "failed (view d') \<or> (if c = IDE_CMD_WRITE_MULTI_RETRY
       then pending (view d') = [] \<and> taking (view d') = Some (ToSector (if 0x10000000 \<le> block then unat block mod 2 ^ 24 else unat block), [])
       else pending (view d') = disk (drive_of (view d) n) (unat block) \<and> taking (view d') = None)"
    "error_free io view busy \<longrightarrow> \<not> failed (view d')"
proof -
  let ?d1 = "out_byte io (IDE_REG_DRIVEHEAD IDE_BASE1) b' d"
  let ?d2 = "out_byte io (IDE_REG_CONTROL IDE_BASE1) b ?d1"
  have s: "drive_of (view ?d2) = drive_of (view d)"
    using out_byte_view(4) [OF assms(1), of "IDE_REG_DRIVEHEAD IDE_BASE1" b' d] out_byte_view(4) [OF assms(1), of "IDE_REG_CONTROL IDE_BASE1" b ?d1]
    by (simp add: ide_regs)
  have n: "n < 2" and dr: "\<not> is_atapi (drive_of (view d) n)" "\<not> locked (drive_of (view d) n)" using assms(2) by (auto simp: ata_disk_def)
  obtain t where t: "block_params (info n) n block = Some t" "addressed n block (load_registers t (view ?d2))"
    by (rule block_addressed [OF n, of "info n" "view ?d2" block]) (use assms(3) s in simp_all)
  let ?v = "load_registers t (view ?d2)"
  obtain d' where d': "BootIdeIssueAtaCommand io IDE_BASE1 c t ?d2 = Some (if failed (view d') then 1 else 0, d')"
    "ata_command c ?v (view d')" "busy d' = 0" "error_free io view busy \<and> serves c ?v \<longrightarrow> view d' = ata_accept c ?v"
    by (rule issue_command [OF assms(1)])
  have dv: "drive_of ?v = drive_of (view d)" using s by (simp add: load_registers_def)
  have one: "[a..<a + 1] = [a]" for a :: nat by simp
  have c: "c = 0x20 \<or> c = 0x24 \<or> c = 0x30"
    using assms(4) by (auto simp: IDE_CMD_WRITE_MULTI_RETRY_def IDE_CMD_READ_EXT_def IDE_CMD_READ_MULTI_RETRY_def split: if_splits)
  have "the_drive ?v = drive_of (view d) n" using t(2) dv by (simp add: addressed_def)
  then have "serves c ?v" using c dr by (auto simp: serves_def)
  then have ok: "error_free io view busy \<longrightarrow> \<not> failed (view d')"
    using d'(4) c by (auto simp: ata_accept_def Let_def)
  have "view d' = ata_reject ?v \<or> view d' = ata_accept c ?v"
    using d'(2) by (auto simp: ata_command_def split: if_splits)
  then show thesis
  proof
    assume "view d' = ata_reject ?v"
    then show thesis using that [OF t(1) d'(1,3)] dv ok by (simp add: ata_reject_def)
  next
    assume a: "view d' = ata_accept c ?v"
    have "drive_of (view d') = drive_of (view d)" "chosen (view d') = n"
      using t(2) by (auto simp: a ata_accept_def Let_def dv chosen_def addressed_def)
    moreover have "if c = IDE_CMD_WRITE_MULTI_RETRY
       then pending (view d') = [] \<and> taking (view d') = Some (ToSector (if 0x10000000 \<le> block then unat block mod 2 ^ 24 else unat block), [])
       else pending (view d') = disk (drive_of (view d) n) (unat block) \<and> taking (view d') = None"
      using t(2) assms(4)
      by (auto simp: a addressed_def ata_accept_def Let_def dv read_disk_def one IDE_CMD_WRITE_MULTI_RETRY_def IDE_CMD_READ_EXT_def
          IDE_CMD_READ_MULTI_RETRY_def split: if_splits)
    ultimately show thesis using that [OF t(1) d'(1,3)] ok by blast
  qed
qed

section \<open>Writing\<close>

lemma ata_taken_taking: "ata_taken k bs (v\<lparr>taking := x\<rparr>) v' = ata_taken k bs v v'"
  by (cases k) (simp_all add: ata_finish_def with_drive_def ata_reject_def security_done_def chosen_def)

lemma write_pending:
  assumes "ata_bus io view busy"
  shows "busy d = 0 \<Longrightarrow> taking (view d) = Some (k, got) \<Longrightarrow> even (length bs) \<Longrightarrow> bs \<noteq> [] \<Longrightarrow> length got + length bs = needed k \<Longrightarrow>
    ata_taken k (got @ bs) (view d) (view (write_words io IDE_BASE1 bs d))
    \<and> (error_free io view busy \<and> k = ToSector a \<and> \<not> failed (view d) \<longrightarrow> \<not> failed (view (write_words io IDE_BASE1 bs d)))"
proof (induction bs arbitrary: d got rule: induct_list012)
  case (3 lo hi bs)
  define w where "w = le16 lo hi"
  have b: "ucast w = lo" "ucast (drop_bit 8 w) = hi" unfolding w_def by (rule le16_bytes)+
  let ?d1 = "out_word io 0x1F0 w d"
  have "word_writes io view busy" using assms by (simp add: ata_bus_def)
  note iffD1 [OF word_writes_def this, THEN spec, of w, THEN spec, of d]
  then have t: "if length (got @ [lo, hi]) < needed k then view ?d1 = (view d)\<lparr>taking := Some (k, got @ [lo, hi])\<rparr> \<and> busy ?d1 = 0
      else ata_taken k (got @ [lo, hi]) (view d) (view ?d1)"
    using "3.prems"(1,2) by (simp add: Let_def b)
  have ok: "\<not> failed (view ?d1)" if "error_free io view busy" "k = ToSector a" "\<not> failed (view d)"
    using that(1) [unfolded error_free_def, THEN conjunct2, THEN spec, of w, THEN spec, of d] that(2,3) "3.prems"(1,2) by simp
  show ?case
  proof (cases "bs = []")
    case True
    then show ?thesis using t ok "3.prems" by (simp add: ide_regs w_def)
  next
    case False
    then obtain x xs where "bs = x # xs" using False by (cases bs) auto
    then have "length (got @ [lo, hi]) < needed k" using "3.prems"(5) [symmetric] by simp
    then have z: "view ?d1 = (view d)\<lparr>taking := Some (k, got @ [lo, hi])\<rparr>" "busy ?d1 = 0" using t by simp_all
    have e: "write_words io IDE_BASE1 (lo # hi # bs) d = write_words io IDE_BASE1 bs ?d1" by (simp add: w_def ide_regs)
    have "ata_taken k ((got @ [lo, hi]) @ bs) (view ?d1) (view (write_words io IDE_BASE1 bs ?d1))
        \<and> (error_free io view busy \<and> k = ToSector a \<and> \<not> failed (view ?d1) \<longrightarrow> \<not> failed (view (write_words io IDE_BASE1 bs ?d1)))"
      using "3.IH"(1) [of ?d1 "got @ [lo, hi]"] z False "3.prems" by (simp add: ide_regs)
    then show ?thesis unfolding e by (simp add: z ata_taken_taking)
  qed
qed auto

lemma write_data:
  assumes "ata_bus io view busy" "busy d = 0" "taking (view d) = Some (k, [])" "length bs = needed k"
  obtains d' where "BootIdeWriteData io IDE_BASE1 bs d = Some (if failed (view d') then 1 else 0, d')" "ata_taken k bs (view d) (view d')"
    "busy d' = 0" "error_free io view busy \<and> k = ToSector a \<and> \<not> failed (view d) \<longrightarrow> \<not> failed (view d')"
proof -
  obtain r d1 where d1: "BootIdeWaitDataReady io IDE_BASE1 d = (r, d1)" by fastforce
  have z: "view d1 = view d" "busy d1 = 0" using data_ready(1,2) [OF assms(1) d1] assms(2) by simp_all
  have l: "even (length bs)" "bs \<noteq> []" using assms(4) by (auto simp: needed_def split: transfer.splits)
  let ?d2 = "write_words io IDE_BASE1 bs d1"
  have t: "ata_taken k bs (view d) (view ?d2)"
    and ok: "error_free io view busy \<and> k = ToSector a \<and> \<not> failed (view d) \<longrightarrow> \<not> failed (view ?d2)"
    using write_pending [OF assms(1) z(2), of k "[]" bs a] z(1) assms(3,4) l by simp_all
  obtain d3 where d3: "BootIdeWaitNotBusy io IDE_BASE1 ?d2 = Some (if failed (view ?d2) then 1 else 0, d3)" "view d3 = view ?d2" "busy d3 = 0"
    by (rule wait_not_busy [OF assms(1)])
  obtain b d4 where d4: "in_byte io 0x3F6 d3 = (b, d4)" by fastforce
  have v: "view d4 = view d3" "busy d4 = 0" "b AND 1 \<noteq> 0 \<longleftrightarrow> failed (view ?d2)"
    using in_byte_view(1,2,3) [OF assms(1), of "0x3F6" d3] d4 d3(2,3) by (simp_all add: status_shows_def)
  show thesis
  proof (cases "failed (view ?d2)")
    case True
    then show ?thesis using that [of d3] d1 d3 t ok by (simp add: BootIdeWriteData_def)
  next
    case False
    then show ?thesis using that [of d4] d1 d3 d4 v t ok by (simp add: BootIdeWriteData_def ide_regs)
  qed
qed

section \<open>Sectors of disks\<close>

text \<open>
  Reading a sector: for all 32-bit block numbers, in 48-bit, 28-bit and CHS addressing (the last for
  blocks the drive's geometry can name). When the drive reports an error, the result is 1.
\<close>

lemma ide_read_sector:
  assumes "ata_bus io view busy" "ata_disk info n (view d)" "geometry_ok (info n) (drive_of (view d) n) block"
    and "byte_offset + n_bytes \<le> 512"
  shows "\<exists>d'. drive_of (view d') = drive_of (view d) \<and>
    (BootIdeReadSector io info n block byte_offset n_bytes d =
         Some (0, take n_bytes (drop byte_offset (disk (drive_of (view d) n) (unat block))), d')
     \<or> BootIdeReadSector io info n block byte_offset n_bytes d = Some (1, [], d') \<and> failed (view d') \<and> \<not> error_free io view busy)"
proof -
  let ?c = "if 0x10000000 \<le> block then IDE_CMD_READ_EXT else IDE_CMD_READ_MULTI_RETRY"
  have i: "m_fDriveExists (info n)" "\<not> m_fAtapi (info n)" "m_fwPortBase (info n) = IDE_BASE1" "n < 2"
    "\<not> is_atapi (drive_of (view d) n)" "length (disk (drive_of (view d) n) (unat block)) = 2 * 256"
    using assms(2) by (simp_all add: ata_disk_def)
  obtain t d1 where t: "block_params (info n) n block = Some t"
    "BootIdeIssueAtaCommand io IDE_BASE1 ?c t
       (out_byte io (IDE_REG_CONTROL IDE_BASE1) (control_byte (info n)) (out_byte io (IDE_REG_DRIVEHEAD IDE_BASE1) (drive_head n) d))
     = Some (if failed (view d1) then 1 else 0, d1)"
    "busy d1 = 0" "drive_of (view d1) = drive_of (view d)" "failed (view d1) \<or> chosen (view d1) = n"
    "failed (view d1) \<or> (if ?c = IDE_CMD_WRITE_MULTI_RETRY
       then pending (view d1) = [] \<and> taking (view d1) = Some (ToSector (if 0x10000000 \<le> block then unat block mod 2 ^ 24 else unat block), [])
       else pending (view d1) = disk (drive_of (view d) n) (unat block) \<and> taking (view d1) = None)"
    "error_free io view busy \<longrightarrow> \<not> failed (view d1)"
    by (rule block_command [OF assms(1-3) disjI1 [OF refl]])
  show ?thesis
  proof (cases "failed (view d1)")
    case True
    have v: "view (snd (in_byte io p d)) = view d" for p d by (rule in_byte_view(1) [OF assms(1)])
    show ?thesis using t(1,2,4,7) i(1-4) True by (simp add: BootIdeReadSector_def v)
  next
    case False
    have "?c \<noteq> IDE_CMD_WRITE_MULTI_RETRY" by (simp add: IDE_CMD_READ_EXT_def IDE_CMD_READ_MULTI_RETRY_def IDE_CMD_WRITE_MULTI_RETRY_def)
    then have p: "pending (view d1) = disk (drive_of (view d) n) (unat block)" "taking (view d1) = None" "chosen (view d1) = n"
      using t(5,6) False by (simp_all split: if_splits)
    have z: "\<not> is_atapi (the_drive (view d1))" using i(5) t(4) p(3) by simp
    obtain d2 where d2: "BootIdeReadData io IDE_BASE1 (2 * 256) d1 = (0, disk (drive_of (view d) n) (unat block), d2)"
      "view d2 = (view d1)\<lparr>pending := []\<rparr>"
      using read_data [OF assms(1) t(3) p(1) i(6) _ False z p(2)] by auto
    then have r: "read_data_retry io IDE_BASE1 IDE_SECTOR_SIZE d1 = Some (disk (drive_of (view d) n) (unat block), d2)"
      by (subst read_data_retry.simps) (simp add: IDE_SECTOR_SIZE_def)
    show ?thesis
      using t(1,2,4) i(1-4,6) False r d2(2) assms(4) by (intro exI [of _ d2]) (auto simp: BootIdeReadSector_def IDE_SECTOR_SIZE_def)
  qed
qed

text \<open>
  Writing a sector: from block 2^28 on the command is still the one for 28-bit addresses, with registers
  loaded for 48-bit ones, and names the block number modulo 2^24.
\<close>

definition written_block :: "u32 \<Rightarrow> nat" where
  "written_block block = (if 0x10000000 \<le> block then unat block mod 2 ^ 24 else unat block)"

lemma ide_write_sector:
  assumes "ata_bus io view busy" "ata_disk info n (view d)" "geometry_ok (info n) (drive_of (view d) n) block" "512 \<le> length buf"
  obtains r d' where "BootIdeWriteSector io info n buf block d = Some (r, d')" "r = 0 \<or> r = 1" "error_free io view busy \<longrightarrow> r = 0"
    "\<exists>bs. drive_of (view d') = drive_of (view d)
      \<or> drive_of (view d') = (drive_of (view d))(n := disk_update (\<lambda>f. f(written_block block := bs)) (drive_of (view d) n)) \<and> (r = 0 \<longrightarrow> bs = take 512 buf)"
    "r = 0 \<longrightarrow> drive_of (view d') = (drive_of (view d))(n := disk_update (\<lambda>f. f(written_block block := take 512 buf)) (drive_of (view d) n))"
proof -
  let ?c = "IDE_CMD_WRITE_MULTI_RETRY"
  let ?a = "if 0x10000000 \<le> block then unat block mod 2 ^ 24 else unat block"
  have i: "m_fDriveExists (info n)" "m_fwPortBase (info n) = IDE_BASE1" "n < 2" using assms(2) by (simp_all add: ata_disk_def)
  obtain t d1 where t: "block_params (info n) n block = Some t"
    "BootIdeIssueAtaCommand io IDE_BASE1 ?c t
       (out_byte io (IDE_REG_CONTROL IDE_BASE1) (control_byte (info n)) (out_byte io (IDE_REG_DRIVEHEAD IDE_BASE1) (drive_head n) d))
     = Some (if failed (view d1) then 1 else 0, d1)"
    "busy d1 = 0" "drive_of (view d1) = drive_of (view d)" "failed (view d1) \<or> chosen (view d1) = n"
    "failed (view d1) \<or> (if ?c = IDE_CMD_WRITE_MULTI_RETRY
       then pending (view d1) = [] \<and> taking (view d1) = Some (ToSector ?a, [])
       else pending (view d1) = disk (drive_of (view d) n) (unat block) \<and> taking (view d1) = None)"
    "error_free io view busy \<longrightarrow> \<not> failed (view d1)"
    by (rule block_command [OF assms(1-3) disjI2 [OF refl]])
  show thesis
  proof (cases "failed (view d1)")
    case True
    have v: "view (snd (in_byte io p d)) = view d" for p d by (rule in_byte_view(1) [OF assms(1)])
    show thesis
      by (rule that [of 1 "snd (in_byte io (IDE_REG_ERROR IDE_BASE1) d1)"]) (use t(1,2,4,7) i True in \<open>simp_all add: BootIdeWriteSector_def v\<close>)
  next
    case False
    then have p: "taking (view d1) = Some (ToSector ?a, [])" "chosen (view d1) = n" using t(5,6) by simp_all
    have l: "length (take 512 buf) = 512" using assms(4) by (simp add: min_absorb2)
    have "length (take 512 buf) = needed (ToSector ?a)" by (simp only: l needed_def transfer.case)
    from write_data [OF assms(1) t(3) p(1) this]
    obtain d2 where d2: "BootIdeWriteData io IDE_BASE1 (take 512 buf) d1 = Some (if failed (view d2) then 1 else 0, d2)"
      and d3: "ata_taken (ToSector ?a) (take 512 buf) (view d1) (view d2)"
      and d4: "error_free io view busy \<and> ToSector ?a = ToSector ?a \<and> \<not> failed (view d1) \<longrightarrow> \<not> failed (view d2)"
      by blast
    have w: "BootIdeWriteSector io info n buf block d = Some (if failed (view d2) then 1 else 0, d2)"
      using t(1,2) i False d2 by (simp add: BootIdeWriteSector_def IDE_SECTOR_SIZE_def)
    from d3 have f: "view d2 = ata_finish (disk_update (\<lambda>f. f(?a := take 512 buf))) (view d1)
        \<or> (\<exists>junk. view d2 = ata_reject (with_drive (disk_update (\<lambda>f. f(?a := junk))) (view d1)))" by simp
    show thesis
      by (rule that [OF w])
        (use f d4 False in \<open>auto simp: ata_finish_def ata_reject_def with_drive_def p(2) t(4) written_block_def\<close>)
  qed
qed

text \<open>
  C3. Writing a sector returns, with success when the media do not fail; after a success, reading any
  block of the disk returns, and gives the bytes written when it is the block of the write and
  otherwise those it held before, or reports an error of the drive; in every addressing, whatever the
  timing and the state of the bus. But for numbers from 2^28 on the block of the write is not the
  one asked for: it is its number modulo 2^24.
\<close>

theorem ide_write_read:
  assumes "ata_bus io view busy" "ata_disk info n (view d)" "geometry_ok (info n) (drive_of (view d) n) block" "512 \<le> length buf"
    and "geometry_ok (info n) (drive_of (view d) n) block'" "byte_offset + n_bytes \<le> 512"
  shows "\<exists>r d1. BootIdeWriteSector io info n buf block d = Some (r, d1) \<and> (error_free io view busy \<longrightarrow> r = 0) \<and>
    (r = 0 \<longrightarrow> (\<exists>r' bs d2. BootIdeReadSector io info n block' byte_offset n_bytes d1 = Some (r', bs, d2)
      \<and> (error_free io view busy \<longrightarrow> r' = 0)
      \<and> (r' = 0 \<longrightarrow> bs = take n_bytes (drop byte_offset
           (if unat block' = written_block block then take 512 buf else disk (drive_of (view d) n) (unat block'))))))"
proof -
  obtain r d1 where w: "BootIdeWriteSector io info n buf block d = Some (r, d1)" "error_free io view busy \<longrightarrow> r = 0"
    "r = 0 \<longrightarrow> drive_of (view d1) = (drive_of (view d))(n := disk_update (\<lambda>f. f(written_block block := take 512 buf)) (drive_of (view d) n))"
    by (rule ide_write_sector [OF assms(1-4)])
  have "\<exists>r' bs d2. BootIdeReadSector io info n block' byte_offset n_bytes d1 = Some (r', bs, d2) \<and> (error_free io view busy \<longrightarrow> r' = 0)
      \<and> (r' = 0 \<longrightarrow> bs = take n_bytes (drop byte_offset
           (if unat block' = written_block block then take 512 buf else disk (drive_of (view d) n) (unat block'))))" if "r = 0"
  proof -
    have u: "drive_of (view d1) = (drive_of (view d))(n := disk_update (\<lambda>f. f(written_block block := take 512 buf)) (drive_of (view d) n))"
      using w(3) that by simp
    have "ata_disk info n (view d1)" "geometry_ok (info n) (drive_of (view d1) n) block'"
      using assms(2,4,5) by (auto simp: ata_disk_def geometry_ok_def u Let_def min_def)
    from ide_read_sector [OF assms(1) this assms(6)] show ?thesis by (fastforce simp: u)
  qed
  with w show ?thesis by blast
qed

section \<open>Packets\<close>

definition cd_drive :: "drives_info \<Rightarrow> nat \<Rightarrow> ata \<Rightarrow> bool" where
  "cd_drive info n v \<longleftrightarrow> n < 2 \<and> m_fDriveExists (info n) \<and> m_fAtapi (info n) \<and> m_fwPortBase (info n) = IDE_BASE1
     \<and> is_atapi (drive_of v n) \<and> (\<forall>a. length (disk (drive_of v n) a) = 2048)"

text \<open>What the drive has for the host after a packet has been taken without an error.\<close>

definition answered :: "nat \<Rightarrow> u8 list \<Rightarrow> ata \<Rightarrow> bool" where
  "answered n packet v \<longleftrightarrow> chosen v = n \<and> \<not> failed v \<and> taking v = None \<and> even (length (pending v)) \<and> length (pending v) < 65536
     \<and> (packet ! 0 = 0x28 \<longrightarrow> pending v = read_disk (drive_of v n) (unat (le32 (packet ! 5) (packet ! 4) (packet ! 3) (packet ! 2)))
          (unat (packet ! 7) * 256 + unat (packet ! 8)))"

lemma write_packet:
  assumes "ata_bus io view busy" "busy d = 0" "taking (view d) = Some (ToPacket, [])" "length packet = 12" "chosen (view d) = n"
  obtains r d' where "BootIdeWriteAtapiData io IDE_BASE1 packet d = Some (r, d')" "drive_of (view d') = drive_of (view d)"
    "r = 0 \<longrightarrow> busy d' = 0 \<and> answered n packet (view d')"
proof -
  note v = in_byte_view [OF assms(1)]
  obtain w d1 where d1: "BootIdeWaitDataReady io IDE_BASE1 d = (w, d1)" by fastforce
  have z1: "view d1 = view d" "busy d1 = 0" using data_ready(1,2) [OF assms(1) d1] assms(2) by simp_all
  obtain lo d2 where d2: "in_byte io 0x1F4 d1 = (lo, d2)" by fastforce
  obtain hi d3 where d3: "in_byte io 0x1F5 d2 = (hi, d3)" by fastforce
  have z3: "view d3 = view d" "busy d3 = 0" using v(1,2) [of "0x1F4" d1] v(1,2) [of "0x1F5" d2] z1 d2 d3 by simp_all
  obtain b d4 where d4: "in_byte io 0x1F7 d3 = (b, d4)" by fastforce
  have z4: "view d4 = view d" "busy d4 = 0" using v(1,2) [of "0x1F7" d3] d4 z3 by simp_all
  show thesis
  proof (cases "b AND 1 \<noteq> 0")
    case True
    then have "BootIdeWriteAtapiData io IDE_BASE1 packet d = Some (1, d4)"
      using d1 d2 d3 d4 by (simp add: BootIdeWriteAtapiData_def ide_regs)
    then show thesis using that z4 by simp
  next
    case False
    let ?d5 = "write_words io IDE_BASE1 packet d4"
    have "packet \<noteq> []" using assms(4) by auto
    then have "ata_taken ToPacket packet (view d) (view ?d5)"
      using write_pending [OF assms(1) z4(2), of ToPacket "[]" packet] assms(3,4) z4(1) by (auto simp: needed_def simp del: ata_taken.simps)
    then have t: "view ?d5 = ata_reject (view d) \<or> answered n packet (view ?d5) \<and> drive_of (view ?d5) = drive_of (view d)"
      by (auto simp: answered_def assms(5)) (auto simp: chosen_def assms(5) [unfolded chosen_def])
    then have dv: "drive_of (view ?d5) = drive_of (view d)" by (auto simp: ata_reject_def)
    obtain b5 d6 where d6: "in_byte io 0x1F7 ?d5 = (b5, d6)" by fastforce
    have z6: "view d6 = view ?d5" using v(1) [of "0x1F7" ?d5] d6 by simp
    obtain d7 where d7: "BootIdeWaitNotBusy io IDE_BASE1 d6 = Some (if failed (view d6) then 1 else 0, d7)" "view d7 = view d6" "busy d7 = 0"
      by (rule wait_not_busy [OF assms(1)])
    obtain b8 d8 where d8: "in_byte io 0x3F6 d7 = (b8, d8)" by fastforce
    have z8: "view d8 = view d7" "busy d8 = 0" using v(1,2) [of "0x3F6" d7] d8 d7(3) by simp_all
    have e: "BootIdeWriteAtapiData io IDE_BASE1 packet d
       = (if b5 AND 1 \<noteq> 0 then Some (1, d6) else if failed (view ?d5) then Some (1, d7) else Some (if b8 AND 1 \<noteq> 0 then 2 else 0, d8))"
      using d1 d2 d3 d4 False d6 d7 d8 z6 by (simp add: BootIdeWriteAtapiData_def ide_regs)
    show thesis
    proof (cases "b5 AND 1 \<noteq> 0 \<or> failed (view ?d5)")
      case True
      then have "\<exists>d'. BootIdeWriteAtapiData io IDE_BASE1 packet d = Some (1, d') \<and> drive_of (view d') = drive_of (view d)"
        using e dv z6 d7(2) by (auto split: if_splits)
      then show thesis using that by auto
    next
      case False
      then have "BootIdeWriteAtapiData io IDE_BASE1 packet d = Some (if b8 AND 1 \<noteq> 0 then 2 else 0, d8)" using e by simp
      moreover have "view d8 = view ?d5" "answered n packet (view ?d5)" using z8 d7(2) z6 t False by (auto simp: ata_reject_def)
      ultimately show thesis using that dv z8(2) by metis
    qed
  qed
qed

lemma drive_head_chosen: "n < 2 \<Longrightarrow> drive_head n AND 0x10 \<noteq> 0 \<longleftrightarrow> n = 1"
proof -
  assume "n < 2"
  then have "n = 0 \<or> n = 1" by auto
  then show ?thesis by (auto simp: drive_head_def IDE_DH_DEFAULT_def IDE_DH_HEAD_def IDE_DH_CHS_def IDE_DH_DRIVE_def)
qed

lemma packet_command:
  assumes "ata_bus io view busy" "cd_drive info n (view d)" "12 \<le> length packet"
  obtains r d' where "BootIdeIssueAtapiPacketCommandAndPacket io info n packet d = Some (r, d')" "drive_of (view d') = drive_of (view d)"
    "r = 0 \<longrightarrow> busy d' = 0 \<and> answered n packet (view d')"
proof -
  have i: "n < 2" "m_fwPortBase (info n) = IDE_BASE1" "is_atapi (drive_of (view d) n)" using assms(2) by (simp_all add: cd_drive_def)
  have v: "view (snd (in_byte io p d)) = view d" for p d by (rule in_byte_view(1) [OF assms(1)])
  let ?d1 = "out_byte io (IDE_REG_DRIVEHEAD IDE_BASE1) (drive_head n) d"
  let ?t = "IDE_DEFAULT_COMMAND\<lparr>m_bDrivehead := drive_head n, m_wCylinder := 2048\<rparr>"
  have s: "drive_of (view ?d1) = drive_of (view d)"
    using out_byte_view(4) [OF assms(1), of "IDE_REG_DRIVEHEAD IDE_BASE1" "drive_head n" d] by (simp add: ide_regs)
  obtain d2 where d2: "BootIdeWaitNotBusy io IDE_BASE1 ?d1 = Some (if failed (view ?d1) then 1 else 0, d2)" "view d2 = view ?d1" "busy d2 = 0"
    by (rule wait_not_busy [OF assms(1)])
  obtain d3 where d3: "BootIdeIssueAtaCommand io IDE_BASE1 IDE_CMD_ATAPI_PACKET ?t d2 = Some (if failed (view d3) then 1 else 0, d3)"
    "ata_command IDE_CMD_ATAPI_PACKET (load_registers ?t (view d2)) (view d3)" "busy d3 = 0" by (rule issue_command [OF assms(1)])
  have c: "chosen (load_registers ?t (view d2)) = n" "drive_of (load_registers ?t (view d2)) = drive_of (view d)"
    using drive_head_chosen [OF i(1)] i(1) s d2(2) by (auto simp: chosen_def load_registers_def)
  have k: "view d3 = ata_reject (load_registers ?t (view d2)) \<or> view d3 = ata_accept IDE_CMD_ATAPI_PACKET (load_registers ?t (view d2))"
    using d3(2) by (auto simp: ata_command_def split: if_splits)
  then have dv: "drive_of (view d3) = drive_of (view d)" using c(2) by (auto simp: ata_reject_def ata_accept_def IDE_CMD_ATAPI_PACKET_def)
  show thesis
  proof (cases "failed (view d3)")
    case True
    then show thesis using that [of 1 d3] d2(1) d3(1) i(2) dv by (simp add: BootIdeIssueAtapiPacketCommandAndPacket_def)
  next
    case False
    then have t: "taking (view d3) = Some (ToPacket, [])" "chosen (view d3) = n"
      using k c(1) by (auto simp: ata_reject_def ata_accept_def IDE_CMD_ATAPI_PACKET_def chosen_def)
    obtain d4 where d4: "BootIdeWaitNotBusy io IDE_BASE1 d3 = Some (if failed (view d3) then 1 else 0, d4)" "view d4 = view d3" "busy d4 = 0"
      by (rule wait_not_busy [OF assms(1)])
    obtain r d5 where d5: "BootIdeWriteAtapiData io IDE_BASE1 (take 12 packet) d4 = Some (r, d5)" "drive_of (view d5) = drive_of (view d4)"
      "r = 0 \<longrightarrow> busy d5 = 0 \<and> answered n (take 12 packet) (view d5)"
      using write_packet [OF assms(1) d4(3), of "take 12 packet" n] t d4(2) assms(3) by (metis length_take min_absorb2)
    have a: "answered n (take 12 packet) x = answered n packet x" for x by (simp add: answered_def)
    obtain q d6 where d6: "BootIdeWaitDataReady io IDE_BASE1 d5 = (q, d6)" by fastforce
    note w = data_ready(1,2) [OF assms(1) d6]
    have e: "BootIdeIssueAtapiPacketCommandAndPacket io info n packet d =
       (if r \<noteq> 0 then Some (1, d5) else if packet ! 0 \<noteq> 0x1e
        then if q \<noteq> 0 then Some (1, snd (in_byte io (IDE_REG_ERROR IDE_BASE1) (snd (in_byte io (IDE_REG_ALTSTATUS IDE_BASE1) d6)))) else Some (0, d6)
        else Some (0, d5))"
      using d2(1) d3(1) False d4(1) d5(1) d6 i(2) by (simp add: BootIdeIssueAtapiPacketCommandAndPacket_def)
    have f: "drive_of (view d5) = drive_of (view d)" "drive_of (view d6) = drive_of (view d)" using d5(2) d4(2) dv w(1) by simp_all
    show thesis
    proof (cases "r \<noteq> 0 \<or> packet ! 0 \<noteq> 0x1e \<and> q \<noteq> 0")
      case True
      then have "\<exists>d'. BootIdeIssueAtapiPacketCommandAndPacket io info n packet d = Some (1, d') \<and> drive_of (view d') = drive_of (view d)"
        using e f by (auto simp: v)
      then show thesis using that by auto
    next
      case False
      then have g: "busy d5 = 0" "answered n packet (view d5)" using d5(3) a by auto
      have "BootIdeIssueAtapiPacketCommandAndPacket io info n packet d = Some (0, if packet ! 0 \<noteq> 0x1e then d6 else d5)"
        using False e by (cases "packet ! 0 = 0x1e") auto
      then show thesis using that f g w by (cases "packet ! 0 = 0x1e") simp_all
    qed
  qed
qed

text \<open>The data after it, which the drive counts in its cylinder registers.\<close>

lemma count_bytes:
  assumes "n < 65536"
  shows "unat (of_nat n :: u8) + 256 * unat (of_nat (n div 256) :: u8) = n"
proof -
  have "n div 256 < 256" using assms by (simp add: less_mult_imp_div_less)
  then show ?thesis by (simp add: unat_of_nat take_bit_nat_eq_self_iff take_bit_eq_mod)
qed

lemma answer_counted:
  assumes "ata_bus io view busy" "busy d = 0" "answered n packet (view d)" "is_atapi (drive_of (view d) n)" "pending (view d) \<noteq> []"
    "in_byte io (IDE_REG_CYLINDER_LSB IDE_BASE1) d = (lo, d1)" "in_byte io (IDE_REG_CYLINDER_MSB IDE_BASE1) d1 = (hi, d2)"
  shows "unat lo + 256 * unat hi = length (pending (view d))" "view d2 = view d" "busy d2 = 0"
proof -
  have i: "view d1 = view d" "busy d1 = 0" "view d2 = view d" "busy d2 = 0"
    using in_byte_view(1,2) [OF assms(1), of "0x1F4" d] in_byte_view(1,2) [OF assms(1), of "0x1F5" d1] assms(2,6,7) by (simp_all add: ide_regs)
  have "byte_reads io view busy" using assms(1) by (simp add: ata_bus_def)
  note r = iffD1 [OF byte_reads_def this, THEN spec, THEN spec, THEN spec, THEN spec, THEN mp]
  have "is_atapi (the_drive (view d))" using assms(3,4) by (simp add: answered_def)
  then have "lo = of_nat (length (pending (view d)))" "hi = of_nat (length (pending (view d)) div 256)"
    using r [OF assms(6)] r [OF assms(7)] assms(2,5) i(1,2) by (simp_all add: ide_regs)
  then show "unat lo + 256 * unat hi = length (pending (view d))" using count_bytes assms(3) by (simp add: answered_def)
  show "view d2 = view d" "busy d2 = 0" by (rule i)+
qed

lemma read_data_drives:
  assumes "ata_bus io view busy" "BootIdeReadData io IDE_BASE1 n d = (r, bs, d')" "even n" "pending (view d) = [] \<or> n \<le> length (pending (view d))"
    "taking (view d) = None"
  shows "drive_of (view d') = drive_of (view d)"
proof -
  obtain k where k: "n = 2 * k" using assms(3) by (elim evenE)
  obtain r1 d1 where d1: "BootIdeWaitDataReady io IDE_BASE1 d = (r1, d1)" by fastforce
  note w = data_ready [OF assms(1) d1]
  show ?thesis
  proof (cases "r1 = 0")
    case False
    then show ?thesis using assms(2) d1 w(1) by (simp add: BootIdeReadData_def)
  next
    case True
    then have z: "busy d1 = 0" "view d1 = view d" "n \<le> length (pending (view d))" using w(1,3) assms(4,5) by auto
    obtain d2 where d2: "read_words k io IDE_BASE1 d1 = (take n (pending (view d)), d2)"
      "view d2 = (view d)\<lparr>pending := drop n (pending (view d))\<rparr>"
      using read_pending [OF assms(1) z(1), of "take n (pending (view d))" "drop n (pending (view d))" k] z(2,3) k by auto
    have v: "view (snd (in_byte io p d)) = view d" for p d by (rule in_byte_view(1) [OF assms(1)])
    have "d' = snd (in_byte io 0x3F6 (snd (in_byte io 0x1F7 d2)))"
      using assms(2) k d1 True d2(1) by (auto simp: BootIdeReadData_def ide_regs split: prod.splits)
    then show ?thesis using d2(2) by (simp add: v)
  qed
qed

lemma packet_answer_drives:
  assumes "ata_bus io view busy" "cd_drive info n (view d)" "12 \<le> length ba" "even limit" "packet_answer io info n ba limit d = Some (k, bs, d')"
  shows "drive_of (view d') = drive_of (view d)"
proof -
  have i: "m_fDriveExists (info n)" "m_fwPortBase (info n) = IDE_BASE1" "is_atapi (drive_of (view d) n)" using assms(2) by (simp_all add: cd_drive_def)
  obtain r d1 where d1: "BootIdeIssueAtapiPacketCommandAndPacket io info n ba d = Some (r, d1)" "drive_of (view d1) = drive_of (view d)"
    "r = 0 \<longrightarrow> busy d1 = 0 \<and> answered n ba (view d1)"
    by (rule packet_command [OF assms(1-3)])
  show ?thesis
  proof (cases "r = 0")
    case False
    then show ?thesis using assms(5) d1 i(1,2) by (simp add: packet_answer_def)
  next
    case True
    then have a: "busy d1 = 0" "answered n ba (view d1)" using d1(3) by auto
    obtain lo d2 where lo: "in_byte io (IDE_REG_CYLINDER_LSB IDE_BASE1) d1 = (lo, d2)" by fastforce
    obtain hi d3 where hi: "in_byte io (IDE_REG_CYLINDER_MSB IDE_BASE1) d2 = (hi, d3)" by fastforce
    let ?c = "unat lo + 256 * unat hi"
    have v3: "view d3 = view d1" using in_byte_view(1) [OF assms(1)] lo hi by (metis snd_conv)
    obtain q bs' d4 where d4: "BootIdeReadData io IDE_BASE1 (min ?c limit) d3 = (q, bs', d4)" by (metis prod_cases3)
    have d': "d' = d4" using assms(5) d1(1) True i(1,2) lo hi d4 by (simp add: packet_answer_def)
    have t: "taking (view d3) = None" using a(2) v3 by (simp add: answered_def)
    show ?thesis
    proof (cases "pending (view d1) = []")
      case True
      obtain r1 d5 where d5: "BootIdeWaitDataReady io IDE_BASE1 d3 = (r1, d5)" by fastforce
      have "r1 \<noteq> 0" using data_ready(3) [OF assms(1) d5] True t v3 by auto
      then have "d4 = d5" using d4 d5 by (simp add: BootIdeReadData_def)
      then show ?thesis using data_ready(1) [OF assms(1) d5] d' v3 d1(2) by simp
    next
      case False
      have l: "?c = length (pending (view d1))"
        by (rule answer_counted(1) [OF assms(1) a _ False lo hi]) (use i(3) d1(2) in simp)
      have "even (min ?c limit)" using l a(2) assms(4) by (auto simp: min_def answered_def)
      then show ?thesis using read_data_drives [OF assms(1) d4 _ _ t] l v3 d' d1(2) by simp
    qed
  qed
qed

lemma sticky_error_drives:
  assumes "ata_bus io view busy" "cd_drive info n (view d)" "sticky_error io info n d = Some d'"
  shows "drive_of (view d') = drive_of (view d)"
proof -
  have v: "in_byte io p x = (b, x') \<Longrightarrow> view x' = view x" for p x b x' using in_byte_view(1) [OF assms(1)] by (metis snd_conv)
  have base: "m_fwPortBase (info n) = IDE_BASE1" using assms(2) by (simp add: cd_drive_def)
  obtain b1 d1 where d1: "in_byte io (IDE_REG_STATUS IDE_BASE1) d = (b1, d1)" by fastforce
  obtain b2 d2 where d2: "in_byte io (IDE_REG_STATUS IDE_BASE1 AND 1) d1 = (b2, d2)" by fastforce
  obtain b3 d3 where d3: "in_byte io (IDE_REG_ERROR IDE_BASE1 AND 0x20) d2 = (b3, d3)" by fastforce
  have w: "view d2 = view d" "view d3 = view d" using v [OF d1] v [OF d2] v [OF d3] by simp_all
  show ?thesis
  proof (cases "b2 = 0 \<or> b3 = 0")
    case True
    then have "d' = d2 \<or> d' = d3" using assms(3) d1 d2 d3 base by (auto simp: sticky_error_def Let_def split: if_splits)
    then show ?thesis using w by auto
  next
    case False
    then obtain k bs where "BootIdeAtapiAdditionalSenseCode io info n 2048 d3 = Some (k, bs, d')"
      using assms(3) d1 d2 d3 base by (auto simp: sticky_error_def Let_def split: if_splits bind_splits)
    then have p: "packet_answer io info n ((replicate 2048 0)[0 := 0x03, 4 := 0xfe]) 2048 d3 = Some (k, bs, d')"
      by (simp add: BootIdeAtapiAdditionalSenseCode_def)
    have "drive_of (view d') = drive_of (view d3)"
      by (rule packet_answer_drives [OF assms(1) _ _ _ p]) (use assms(2) w(2) in simp_all)
    then show ?thesis using w(2) by simp
  qed
qed

text \<open>
  C4. Reading a sector of a CD, when it succeeds, gives the 2048 bytes of that sector, and the drives
  hold what they held; whatever the timing, the errors on the way, the attempts repeated after a
  failed transfer, and the answers the tests for a sticky error get from ports 1 and 0x20.
\<close>

theorem ide_read_cd_correct:
  assumes "ata_bus io view busy" "cd_drive info n (view d)" "BootIdeReadSector io info n block byte_offset n_bytes d = Some (0, bs, d')"
  shows "bs = disk (drive_of (view d) n) (unat block) \<and> drive_of (view d') = drive_of (view d) \<and> 2048 \<le> n_bytes"
proof -
  have i: "n < 2" "m_fDriveExists (info n)" "m_fAtapi (info n)" "m_fwPortBase (info n) = IDE_BASE1" "is_atapi (drive_of (view d) n)"
    "length (disk (drive_of (view d) n) (unat block)) = 2048"
    using assms(2) by (simp_all add: cd_drive_def)
  let ?d0 = "out_byte io (IDE_REG_DRIVEHEAD IDE_BASE1) (drive_head n) d"
  have s0: "drive_of (view ?d0) = drive_of (view d)"
    using out_byte_view(4) [OF assms(1), of "IDE_REG_DRIVEHEAD IDE_BASE1" "drive_head n" d] by (simp add: ide_regs)
  have cd: "cd_drive info n x \<longleftrightarrow> cd_drive info n (view d)" if "drive_of x = drive_of (view d)" for x using that by (simp add: cd_drive_def)
  let ?p = "[0x28, 0, ucast (drop_bit 24 block), ucast (drop_bit 16 block), ucast (drop_bit 8 block), ucast block, 0, 0, 1, 0, 0, 0] :: u8 list"
  have r0: "read_cd_sector io info n block n_bytes ?d0 = Some (0, bs, d')"
    using assms(3) i(1-4) by (simp add: BootIdeReadSector_def)
  obtain d1 where d1: "sticky_error io info n ?d0 = Some d1" using r0 by (auto simp: read_cd_sector_def Let_def split: bind_splits)
  have s1: "drive_of (view d1) = drive_of (view d)"
    using sticky_error_drives [OF assms(1) _ d1] cd [OF s0] assms(2) s0 by simp
  obtain d2 where d2: "BootIdeWaitNotBusy io IDE_BASE1 d1 = Some (if failed (view d1) then 1 else 0, d2)" "view d2 = view d1"
    by (rule wait_not_busy [OF assms(1)])
  have n: "2048 \<le> n_bytes" using r0 d1 d2(1) i(4) by (auto simp: read_cd_sector_def split: if_splits)
  obtain r d3 where d3: "BootIdeIssueAtapiPacketCommandAndPacket io info n ?p d2 = Some (r, d3)" "drive_of (view d3) = drive_of (view d2)"
    "r = 0 \<longrightarrow> busy d3 = 0 \<and> answered n ?p (view d3)"
    by (rule packet_command [OF assms(1), of info n d2 ?p]) (use cd s1 d2(2) assms(2) in simp_all)
  have "r = 0" using r0 d1 d2(1) d3(1) i(4) n by (auto simp: read_cd_sector_def split: if_splits)
  then have a: "busy d3 = 0" "answered n ?p (view d3)" using d3(3) by auto
  have dv: "drive_of (view d3) = drive_of (view d)" using d3(2) d2(2) s1 by simp
  have "le32 (ucast block) (ucast (drop_bit 8 block)) (ucast (drop_bit 16 block)) (ucast (drop_bit 24 block)) = block"
    using le32_byte_of32 [of block] by (simp add: byte_of32_def)
  then have p: "pending (view d3) = disk (drive_of (view d) n) (unat block)" using a(2) dv by (simp add: answered_def read_disk_def)
  then have ne: "pending (view d3) \<noteq> []" using i(6) by auto
  obtain lo d4 where lo: "in_byte io (IDE_REG_CYLINDER_LSB IDE_BASE1) d3 = (lo, d4)" by fastforce
  obtain hi d5 where hi: "in_byte io (IDE_REG_CYLINDER_MSB IDE_BASE1) d4 = (hi, d5)" by fastforce
  have c: "unat lo + 256 * unat hi = 2048" "view d5 = view d3"
    using answer_counted [OF assms(1) a _ ne lo hi] p i(5,6) dv by auto
  have r: "read_data_retry io IDE_BASE1 2048 d5 = Some (bs, d')"
    using r0 d1 d2(1) d3(1) \<open>r = 0\<close> i(4) n lo hi c(1) by (auto simp: read_cd_sector_def)
  have "data_left 2048 (view d5)" using c(2) p i(6) a(2) by (simp add: data_left_def answered_def)
  from read_retry [OF assms(1) _ r this] show ?thesis using n c(2) p dv by auto
qed

section \<open>A disk and a CD\<close>

lemma ready_error_free: "error_free ready_bus (\<lambda>v. v) (\<lambda>_. 0)"
proof -
  have "\<not> failed (out_word ready_bus 0x1F0 w v)" if "taking v = Some (ToSector a, bs)" "\<not> failed v" for w v a bs
    using that by (simp add: ready_bus_def Let_def ready_taken_def ata_finish_def)
  then show ?thesis by (auto simp: error_free_def) (simp add: ready_bus_def)
qed

definition sample_hdd :: ata_drive where
  "sample_hdd = \<lparr>is_atapi = False, d_heads = 16, d_per_track = 63, disk = (\<lambda>_. replicate 512 0), identity = (replicate 512 0)[99 := 2],
     user_password = None, master_pass = [], locked = False\<rparr>"

definition sample_dvd :: ata_drive where
  "sample_dvd = sample_hdd\<lparr>is_atapi := True, disk := (\<lambda>a. replicate 2048 (of_nat a))\<rparr>"

definition sample_ata :: ata where
  "sample_ata = \<lparr>r_count = (0, 0), r_sector = (0, 0), r_lsb = (0, 0), r_msb = (0, 0), r_dh = 0, pending = [], taking = None, failed = False,
     drive_of = (\<lambda>n. if n = 0 then sample_hdd else sample_dvd)\<rparr>"

definition sample_info :: drives_info where
  "sample_info n = zero_info\<lparr>m_fwPortBase := IDE_BASE1, m_fDriveExists := True, m_fAtapi := n \<noteq> 0, m_bLbaMode := IDE_DH_LBA\<rparr>"

lemma sample_drives: "ata_disk sample_info 0 sample_ata" "cd_drive sample_info 1 sample_ata" "geometry_ok (sample_info 0) dr block"
  by (simp_all add: ata_disk_def cd_drive_def geometry_ok_def sample_info_def sample_ata_def sample_hdd_def sample_dvd_def IDE_DH_LBA_def IDE_DH_CHS_def)

text \<open>The write of block 0x10000005 is found in block 5.\<close>

theorem ide_write_read_witness:
  "\<exists>d1 d2. BootIdeWriteSector ready_bus sample_info 0 (replicate 512 7) 0x10000005 sample_ata = Some (0, d1)
    \<and> BootIdeReadSector ready_bus sample_info 0 5 2 10 d1 = Some (0, replicate 10 7, d2)"
  using ide_write_read [OF ready_bus sample_drives(1) sample_drives(3), of "replicate 512 7" 5 2 10 "0x10000005"] ready_error_free
    sample_drives(3) by (auto simp: written_block_def)

text \<open>On the bus without delays the driver does read the CD.\<close>

lemma ready_wait: "BootIdeWaitNotBusy ready_bus IDE_BASE1 v = Some (if failed v then 1 else 0, v)"
  by (rule wait_not_busy [OF ready_bus, of v]) simp

lemma ready_data: "pending v \<noteq> [] \<or> taking v \<noteq> None \<Longrightarrow> \<not> failed v \<Longrightarrow> BootIdeWaitDataReady ready_bus IDE_BASE1 v = (0, v)"
  using data_ready(1,4) [OF ready_bus] by (metis surj_pair)

lemma ready_issue:
  "serves c (load_registers t v) \<Longrightarrow> BootIdeIssueAtaCommand ready_bus IDE_BASE1 c t v = Some (0, ata_accept c (load_registers t v))"
  using ready_error_free by (rule_tac issue_command [OF ready_bus, of c t v]) (auto simp: ata_accept_def Let_def)

lemma ready_ports:
  "in_byte ready_bus 0x1F7 v = (ready_status v, v)" "in_byte ready_bus 0x3F6 v = (ready_status v, v)"
  "in_byte ready_bus 0x1F4 v = (of_nat (length (pending v)), v)" "in_byte ready_bus 0x1F5 v = (of_nat (length (pending v) div 256), v)"
  "in_byte ready_bus 1 v = (0, v)" "ready_status v AND 1 = 0 \<longleftrightarrow> \<not> failed v"
  "taking v = Some (k, bs) \<Longrightarrow> out_word ready_bus 0x1F0 (le16 lo hi) v
     = (if length bs + 2 < needed k then v\<lparr>taking := Some (k, bs @ [lo, hi])\<rparr> else ready_taken k (bs @ [lo, hi]) v)"
  by (simp_all add: ready_bus_def ready_status_def bit.conj_disj_distrib2 le16_bytes)

definition read_packet :: "u32 \<Rightarrow> u8 list" where
  "read_packet block = [0x28, 0, ucast (drop_bit 24 block), ucast (drop_bit 16 block), ucast (drop_bit 8 block), ucast block, 0, 0, 1, 0, 0, 0]"

lemma ready_packet:
  assumes "taking v = Some (ToPacket, [])" "\<not> failed v" "length (disk (the_drive v) (unat block)) = 2048"
  shows "BootIdeWriteAtapiData ready_bus IDE_BASE1 (read_packet block) v
    = Some (0, v\<lparr>pending := disk (the_drive v) (unat block), taking := None, failed := False\<rparr>)"
proof -
  have "le32 (ucast block) (ucast (drop_bit 8 block)) (ucast (drop_bit 16 block)) (ucast (drop_bit 24 block)) = block"
    using le32_byte_of32 [of block] by (simp add: byte_of32_def)
  then have "write_words ready_bus IDE_BASE1 (read_packet block) v = v\<lparr>pending := disk (the_drive v) (unat block), taking := None, failed := False\<rparr>"
    using assms by (simp add: read_packet_def ide_regs ready_ports needed_def ready_taken_def read_disk_def chosen_def)
  then show ?thesis
    using assms by (simp add: BootIdeWriteAtapiData_def ready_data ready_wait) (simp add: ide_regs ready_ports ready_wait [unfolded IDE_BASE1_def])
qed

lemma ready_reads_cd:
  "\<exists>d'. BootIdeReadSector ready_bus sample_info 1 block 0 2048 sample_ata = Some (0, replicate 2048 (of_nat (unat block)), d')"
proof -
  define t where "t = IDE_DEFAULT_COMMAND\<lparr>m_bDrivehead := drive_head 1, m_wCylinder := 2048\<rparr>"
  define data where "data = (replicate 2048 (of_nat (unat block)) :: u8 list)"
  define v1 where "v1 = ata_register 0x1F6 (drive_head 1) sample_ata"
  define w1 where "w1 = load_registers t (ata_register 0x1F6 (drive_head 1) v1)"
  define v2 where "v2 = ata_accept IDE_CMD_ATAPI_PACKET w1"
  define v3 where "v3 = v2\<lparr>pending := data, taking := None, failed := False\<rparr>"
  have o: "out_byte ready_bus 0x1F6 b v = ata_register 0x1F6 b v" for b v by (simp add: ready_bus_def)
  have b: "m_fwPortBase (sample_info 1) = IDE_BASE1" "m_fDriveExists (sample_info 1)" "m_fAtapi (sample_info 1)"
    by (simp_all add: sample_info_def)
  have base: "IDE_REG_DRIVEHEAD IDE_BASE1 = 0x1F6" "IDE_REG_CYLINDER_LSB IDE_BASE1 = 0x1F4" "IDE_REG_CYLINDER_MSB IDE_BASE1 = 0x1F5"
    "IDE_REG_STATUS IDE_BASE1 = 0x1F7" "IDE_REG_ALTSTATUS IDE_BASE1 = 0x3F6" "IDE_REG_STATUS IDE_BASE1 AND 1 = 1" by (simp_all add: ide_regs)
  have w1: "chosen w1 = 1" "drive_of w1 = drive_of sample_ata"
    using drive_head_chosen [of 1] by (auto simp: w1_def t_def v1_def chosen_def load_registers_def ata_register_def)
  have s: "serves IDE_CMD_ATAPI_PACKET w1" unfolding serves_def w1 by (simp add: sample_ata_def sample_dvd_def IDE_CMD_ATAPI_PACKET_def)
  have v2: "taking v2 = Some (ToPacket, [])" "\<not> failed v2" "chosen v2 = 1" "drive_of v2 = drive_of sample_ata"
    using w1 by (simp_all add: v2_def ata_accept_def Let_def IDE_CMD_ATAPI_PACKET_def chosen_def)
  have dk: "disk (the_drive v2) (unat block) = data" unfolding v2 by (simp add: sample_ata_def sample_dvd_def data_def)
  have f: "\<not> failed v1" "\<not> failed (ata_register 0x1F6 (drive_head 1) v1)" by (simp_all add: v1_def ata_register_def sample_ata_def)
  have w: "BootIdeWriteAtapiData ready_bus IDE_BASE1 (read_packet block) v2 = Some (0, v3)"
    using ready_packet [OF v2(1,2), of block] dk by (simp add: v3_def data_def)
  have q: "BootIdeWaitDataReady ready_bus IDE_BASE1 v3 = (0, v3)" by (rule ready_data) (simp_all add: v3_def data_def)
  have i: "BootIdeIssueAtaCommand ready_bus IDE_BASE1 IDE_CMD_ATAPI_PACKET t (ata_register 0x1F6 (drive_head 1) v1) = Some (0, v2)"
    using ready_issue [OF s [unfolded w1_def]] by (simp add: v2_def w1_def)
  have k: "take 12 (read_packet block) = read_packet block" "read_packet block ! 0 = 0x28" by (simp_all add: read_packet_def)
  have p: "BootIdeIssueAtapiPacketCommandAndPacket ready_bus sample_info 1 (read_packet block) v1 = Some (0, v3)"
    unfolding BootIdeIssueAtapiPacketCommandAndPacket_def b t_def [symmetric] base o Let_def
    using w q v2(2) f i k by (simp add: ready_wait)
  have v3: "pending v3 = data" "length data = 2048" "\<not> failed v3" by (simp_all add: v3_def data_def)
  have "read_words 1024 ready_bus IDE_BASE1 v3 = (data, v3\<lparr>pending := []\<rparr>)"
    using read_pending [OF ready_bus, of v3 data "[]" 1024] v3 by simp
  then have "BootIdeReadData ready_bus IDE_BASE1 2048 v3 = (0, data, v3\<lparr>pending := []\<rparr>)"
    using q v3 by (simp add: BootIdeReadData_def base ready_ports)
  then have r: "read_data_retry ready_bus IDE_BASE1 2048 v3 = Some (data, v3\<lparr>pending := []\<rparr>)"
    by (subst read_data_retry.simps) simp
  have st: "sticky_error ready_bus sample_info 1 v1 = Some v1"
    unfolding sticky_error_def b Let_def base by (simp add: ready_ports)
  have "read_cd_sector ready_bus sample_info 1 block 2048 v1 = Some (0, data, v3\<lparr>pending := []\<rparr>)"
    unfolding read_cd_sector_def b Let_def base read_packet_def [symmetric] using st p r v3 f by (simp add: ready_wait ready_ports)
  moreover have "BootIdeReadSector ready_bus sample_info 1 block 0 2048 sample_ata = read_cd_sector ready_bus sample_info 1 block 2048 v1"
    unfolding BootIdeReadSector_def Let_def b base o v1_def [symmetric] by (simp only: b simp_thms if_True if_False) simp
  ultimately show ?thesis by (auto simp: data_def)
qed

theorem ide_read_cd_correct_witness:
  "\<exists>d'. BootIdeReadSector ready_bus sample_info 1 0x12345 0 2048 sample_ata = Some (0, replicate 2048 0x45, d') \<and> drive_of d' = drive_of sample_ata"
proof -
  obtain d' where "BootIdeReadSector ready_bus sample_info 1 0x12345 0 2048 sample_ata = Some (0, replicate 2048 (of_nat (unat (0x12345 :: u32))), d')"
    using ready_reads_cd by blast
  then show ?thesis using ide_read_cd_correct [OF ready_bus sample_drives(2)] by fastforce
qed

end
