(* ===== verification/IdeSecurity.thy ===== *)
theory IdeSecurity
  imports IdeSectors
begin

text \<open>
  Unlocking and locking of hard disks: \<open>DriveSecurityChange\<close>, \<open>CalculateDrivePassword\<close> and the detection of a
  drive against the drives of \<open>AtaDrive\<close>, and the actions of the menu for hard disks,
  \<open>menu/actions/HddMenuActions.c\<close>.
\<close>

section \<open>The strings of a drive\<close>

fun swapped :: "'a list \<Rightarrow> 'a list" where
  "swapped (a # b # xs) = b # a # swapped xs"
| "swapped xs = xs"

definition trimmed :: "u8 list \<Rightarrow> u8 list" where
  "trimmed s = rev (dropWhile (\<lambda>b. b = 0x20) (rev s))"

lemma length_swapped [simp]: "length (swapped xs) = length xs"
  by (induction xs rule: swapped.induct) simp_all

definition partner :: "nat \<Rightarrow> nat" where "partner j = (if even j then j + 1 else j - 1)"

lemma nth_swapped: "even (length xs) \<Longrightarrow> j < length xs \<Longrightarrow> swapped xs ! j = xs ! partner j"
proof (induction xs arbitrary: j rule: swapped.induct)
  case (1 a b xs)
  show ?case
  proof (cases "j < 2")
    case True
    then have "j = 0 \<or> j = 1" by auto
    then show ?thesis by (auto simp: partner_def)
  next
    case False
    then have "partner j = Suc (Suc (partner (j - 2)))" by (cases j; cases "j - 1") (auto simp: partner_def)
    moreover have "j = Suc (Suc (j - 2))" using False by simp
    ultimately show ?thesis using 1 by (metis even_Suc length_Cons nth_Cons_Suc Suc_less_eq swapped.simps(1))
  qed
qed auto

lemma swap_pairs_result:
  assumes "\<And>j j'. j < len \<Longrightarrow> j' < len \<Longrightarrow> src + of_nat j \<noteq> dst + of_nat j'" "len \<le> 2 ^ 32" "even len"
  shows "even i \<Longrightarrow> i \<le> len \<Longrightarrow>
    (\<forall>j. i \<le> j \<and> j < len \<longrightarrow> swap_pairs i len dst src m (dst + of_nat j) = m (src + of_nat (partner j)))
    \<and> (\<forall>a. (\<forall>j. i \<le> j \<and> j < len \<longrightarrow> a \<noteq> dst + of_nat j) \<longrightarrow> swap_pairs i len dst src m a = m a)"
proof (induction "len - i" arbitrary: i m rule: less_induct)
  case less
  show ?case
  proof (cases "i < len")
    case False
    then have "swap_pairs i len dst src m = m" by (subst swap_pairs.simps) simp
    with False show ?thesis by auto
  next
    case True
    then have i2: "i + 2 \<le> len" using less.prems assms(3) by presburger
    let ?m = "m(dst + of_nat i := m (src + of_nat (i + 1)), dst + of_nat (i + 1) := m (src + of_nat i))"
    have s: "swap_pairs i len dst src m = swap_pairs (i + 2) len dst src ?m"
      using assms(1) [of i i] assms(1) [of i "i + 1"] i2 by (subst swap_pairs.simps) (simp add: Let_def)
    have ih: "(\<forall>j. i + 2 \<le> j \<and> j < len \<longrightarrow> swap_pairs (i + 2) len dst src ?m (dst + of_nat j) = ?m (src + of_nat (partner j)))
      \<and> (\<forall>a. (\<forall>j. i + 2 \<le> j \<and> j < len \<longrightarrow> a \<noteq> dst + of_nat j) \<longrightarrow> swap_pairs (i + 2) len dst src ?m a = ?m a)"
      by (rule less.hyps) (use i2 less.prems in auto)
    have inj: "dst + of_nat j = dst + of_nat j' \<longleftrightarrow> j = j'" if "j < len" "j' < len" for j j'
      using of_nat_u32_eq_iff [of j j'] that assms(2) by simp
    show ?thesis
    proof (intro conjI allI impI)
      fix j assume j: "i \<le> j \<and> j < len"
      show "swap_pairs i len dst src m (dst + of_nat j) = m (src + of_nat (partner j))"
      proof (cases "i + 2 \<le> j")
        case True
        then have "partner j < len" using j assms(3) by (auto simp: partner_def) presburger
        then have "?m (src + of_nat (partner j)) = m (src + of_nat (partner j))"
          using assms(1) [of "partner j" i] assms(1) [of "partner j" "i + 1"] i2 by simp
        then show ?thesis unfolding s using ih True j by simp
      next
        case False
        have "swap_pairs (i + 2) len dst src ?m (dst + of_nat j) = ?m (dst + of_nat j)"
          by (rule ih [THEN conjunct2, rule_format]) (use False j inj in auto)
        moreover have "j = i \<or> j = i + 1" using False j by linarith
        ultimately show ?thesis unfolding s using inj [of i "i + 1"] i2 less.prems(1) by (auto simp: partner_def)
      qed
    next
      fix a assume a: "\<forall>j. i \<le> j \<and> j < len \<longrightarrow> a \<noteq> dst + of_nat j"
      have "swap_pairs (i + 2) len dst src ?m a = ?m a"
        by (rule ih [THEN conjunct2, rule_format]) (use a in auto)
      moreover have "a \<noteq> dst + of_nat i" "a \<noteq> dst + of_nat (i + 1)" using a [rule_format, of i] a [rule_format, of "i + 1"] i2 by simp_all
      ultimately show "swap_pairs i len dst src m a = m a" unfolding s by simp
    qed
  qed
qed

lemma trim_blanks_result:
  "trim_blanks n dst m = (k, m') \<Longrightarrow> n < 2 ^ 32 \<Longrightarrow> k = length (trimmed (rd m dst n)) \<and> rd m' dst k = trimmed (rd m dst n)"
proof (induction n arbitrary: k m')
  case 0
  then show ?case by (simp add: trimmed_def)
next
  case (Suc n)
  have r: "rd m dst (Suc n) = rd m dst n @ [m (dst + of_nat n)]" by (simp add: rd_def)
  show ?case
  proof (cases "m (dst + of_nat n) = 0x20")
    case True
    then have "trim_blanks n dst m = (k, m')" using Suc.prems(1) by simp
    moreover have "trimmed (rd m dst (Suc n)) = trimmed (rd m dst n)" using True r by (simp add: trimmed_def)
    moreover have "k = length (trimmed (rd m dst n)) \<and> rd m' dst k = trimmed (rd m dst n)"
      by (rule Suc.IH) (use calculation(1) Suc.prems(2) in simp_all)
    ultimately show ?thesis by metis
  next
    case False
    then have k: "k = Suc n" "m' = m(dst + of_nat (Suc n) := 0)" using Suc.prems by auto
    have "rd m' dst (Suc n) = rd m dst (Suc n)"
    proof (rule rd_cong)
      fix a assume "a \<in> region dst (Suc n)"
      then obtain j where j: "j < Suc n" "a = dst + of_nat j" by (auto simp: region_def)
      then have "(of_nat j :: u32) \<noteq> of_nat (Suc n)" using of_nat_u32_eq_iff [of j "Suc n"] Suc.prems(2) by simp
      then have "a \<noteq> dst + of_nat (Suc n)" using j(2) by simp
      then show "m' a = m a" by (simp add: k(2))
    qed
    moreover have "trimmed (rd m dst (Suc n)) = rd m dst (Suc n)" using False r by (simp add: trimmed_def)
    ultimately show ?thesis unfolding k(1) by simp
  qed
qed

lemma id_string_text:
  assumes "even len" "len \<le> 0x800" "len \<le> length src" "length src \<le> 0x800"
  shows "fst (id_string len src) = length (trimmed (swapped (take len src)))"
    "take (fst (id_string len src)) (snd (id_string len src)) = trimmed (swapped (take len src))"
proof -
  let ?m = "wr 0x2000 src (\<lambda>_. 0)"
  let ?s = "swap_pairs 0 len 0x1000 0x2000 ?m"
  have d: "(0x2000 :: u32) + of_nat j \<noteq> 0x1000 + of_nat j'" if "j < len" "j' < len" for j j'
  proof -
    have "unat (0x2000 + of_nat j :: u32) = 0x2000 + j" "unat (0x1000 + of_nat j' :: u32) = 0x1000 + j'"
      using that assms(2) by (simp_all add: unat_word_ariths unat_of_nat)
    moreover have "0x2000 + j \<noteq> 0x1000 + j'" using that assms(2) by simp
    ultimately show ?thesis by metis
  qed
  have src: "rd ?m 0x2000 (length src) = src" using assms(4) by (intro rd_wr) simp
  have "rd ?s 0x1000 len = swapped (take len src)"
  proof (rule nth_equalityI)
    fix j assume "j < length (rd ?s 0x1000 len)"
    then have j: "j < len" by simp
    then have p: "partner j < len" using assms(1) by (auto simp: partner_def) presburger
    have "?s (0x1000 + of_nat j) = ?m (0x2000 + of_nat (partner j))"
      using swap_pairs_result [of len "0x2000" "0x1000" 0 ?m] d assms(1,2) j by simp
    also have "\<dots> = src ! partner j" using arg_cong [OF src, of "\<lambda>l. l ! partner j"] p assms(3) by simp
    finally show "rd ?s 0x1000 len ! j = swapped (take len src) ! j"
      using j p assms(1,3) by (simp add: nth_swapped)
  qed (use assms(3) in simp)
  moreover obtain k m' where k: "trim_blanks len 0x1000 ?s = (k, m')" by fastforce
  ultimately have t: "k = length (trimmed (swapped (take len src)))" "rd m' 0x1000 k = trimmed (swapped (take len src))"
    using trim_blanks_result [OF k] assms(2) by auto
  have "length (dropWhile (\<lambda>b. b = 0x20) (rev l)) \<le> length l" for l :: "u8 list" by (metis length_dropWhile_le length_rev)
  then have "k \<le> len" using t(1) assms(3) by (simp add: trimmed_def) (metis length_swapped length_take min_absorb2)
  then show "fst (id_string len src) = length (trimmed (swapped (take len src)))"
    "take (fst (id_string len src)) (snd (id_string len src)) = trimmed (swapped (take len src))"
    using k t by (simp_all add: id_string_def copy_swap_trim_def rd_take)
qed

section \<open>Security commands\<close>

definition padded :: "u8 list \<Rightarrow> u8 list" where "padded pw = pw @ replicate (32 - length pw) 0"

lemma security_sector_password:
  "length pw \<le> 32 \<Longrightarrow> take 32 (drop 2 (security_sector flag pw)) = padded pw" "security_sector flag pw ! 0 = flag"
  by (simp_all add: security_sector_def padded_def take_replicate min_def)

lemma length_security_sector [simp]: "length pw \<le> 510 \<Longrightarrow> length (security_sector flag pw) = 512"
  by (simp add: security_sector_def)

text \<open>An ATA drive at the index, as the driver addresses it.\<close>

definition hdd :: "nat \<Rightarrow> ata \<Rightarrow> bool" where
  "hdd n v \<longleftrightarrow> n < 2 \<and> \<not> is_atapi (drive_of v n) \<and> length (identity (drive_of v n)) = 512"

lemma drive_head_load: "n < 2 \<Longrightarrow> chosen (load_registers (IDE_DEFAULT_COMMAND\<lparr>m_bDrivehead := drive_head n\<rparr>) v) = n"
    "drive_of (load_registers t v) = drive_of v"
  using drive_head_chosen [of n] by (auto simp: chosen_def load_registers_def)

text \<open>A command that is served, with its data.\<close>

definition changes_security :: "nat \<Rightarrow> u8 \<Rightarrow> u8 list \<Rightarrow> ata \<Rightarrow> ata \<Rightarrow> bool" where
  "changes_security n c bs v v' \<longleftrightarrow> chosen v' = n \<and> taking v' = None \<and>
     (if c \<noteq> 0xF1 \<and> \<not> password_given bs (drive_of v n) then failed v' \<and> drive_of v' = drive_of v
      else \<not> failed v' \<and> drive_of v' = (drive_of v)(n :=
        (if c = 0xF1 then if bs ! 0 AND 1 = 0 then (drive_of v n)\<lparr>user_password := Some (take 32 (drop 2 bs))\<rparr>
            else (drive_of v n)\<lparr>master_pass := take 32 (drop 2 bs)\<rparr>
         else if c = 0xF2 then (drive_of v n)\<lparr>locked := False\<rparr> else (drive_of v n)\<lparr>user_password := None\<rparr>)))"

lemma security_command_done:
  assumes "ata_bus io view busy" "hdd n (view d)" "c \<in> {0xF1, 0xF2, 0xF6}" "c = 0xF2 \<or> \<not> locked (drive_of (view d) n)" "length bs = 512"
  obtains d' where "security_command io IDE_BASE1 n c bs d = Some (if failed (view d') then 1 else 0, d')" "busy d' = 0"
    "changes_security n c bs (view d) (view d')"
proof -
  let ?t = "IDE_DEFAULT_COMMAND\<lparr>m_bDrivehead := drive_head n\<rparr>"
  let ?v = "load_registers ?t (view d)"
  have n: "n < 2" "\<not> is_atapi (drive_of (view d) n)" using assms(2) by (simp_all add: hdd_def)
  note h = drive_head_load(1) [OF n(1), of "view d"] drive_head_load(2) [of ?t "view d"]
  obtain d1 where d1: "BootIdeIssueAtaCommand io IDE_BASE1 c ?t d = Some (if failed (view d1) then 1 else 0, d1)"
    "ata_command c ?v (view d1)" "busy d1 = 0" by (rule issue_command [OF assms(1)])
  have "serves c ?v" using assms(3,4) n(2) h by (auto simp: serves_def)
  then have v1: "view d1 = ata_accept c ?v" using d1(2) assms(3) by (auto simp: ata_command_def)
  then have t: "failed (view d1) = False" "taking (view d1) = Some (ToSecurity c, [])" "drive_of (view d1) = drive_of (view d)" "chosen (view d1) = n"
    using assms(3) h by (auto simp: ata_accept_def Let_def chosen_def)
  obtain r d2 where d2: "BootIdeWaitDataReady io IDE_BASE1 d1 = (r, d2)" by fastforce
  have z2: "view d2 = view d1" "busy d2 = 0" using data_ready(1,2) [OF assms(1) d2] d1(3) by simp_all
  have "length bs = needed (ToSecurity c)" using assms(5) by (simp add: needed_def)
  from write_data [OF assms(1) z2(2) _ this]
  obtain d3 where d3: "BootIdeWriteData io IDE_BASE1 bs d2 = Some (if failed (view d3) then 1 else 0, d3)"
    "view d3 = security_done c bs (view d1)" "busy d3 = 0" using z2(1) t(2) by (auto simp del: One_nat_def)
  obtain d4 where d4: "BootIdeWaitNotBusy io IDE_BASE1 d3 = Some (if failed (view d3) then 1 else 0, d4)" "view d4 = view d3" "busy d4 = 0"
    by (rule wait_not_busy [OF assms(1)])
  have "changes_security n c bs (view d) (view d3)"
    using assms(3) t(3,4) unfolding d3(2)
    by (auto simp: changes_security_def security_done_def ata_finish_def with_drive_def ata_reject_def chosen_def fun_eq_iff)
  then show thesis
    using that [of d4] d1(1) t(1) d2 d3(1) d4 by (simp add: security_command_def)
qed

lemma identify_command:
  assumes "ata_bus io view busy" "hdd n (view d)"
  obtains d1 d2 where "BootIdeIssueAtaCommand io IDE_BASE1 IDE_CMD_IDENTIFY (IDE_DEFAULT_COMMAND\<lparr>m_bDrivehead := drive_head n\<rparr>) d = Some (0, d1)"
    "BootIdeReadData io IDE_BASE1 IDE_SECTOR_SIZE (snd (BootIdeWaitDataReady io IDE_BASE1 d1)) = (0, identify_bytes (drive_of (view d) n), d2)"
    "drive_of (view d2) = drive_of (view d)" "\<not> failed (view d2)" "chosen (view d2) = n" "busy d2 = 0"
proof -
  let ?t = "IDE_DEFAULT_COMMAND\<lparr>m_bDrivehead := drive_head n\<rparr>"
  let ?v = "load_registers ?t (view d)"
  have n: "n < 2" "\<not> is_atapi (drive_of (view d) n)" "length (identity (drive_of (view d) n)) = 512" using assms(2) by (simp_all add: hdd_def)
  note h = drive_head_load(1) [OF n(1), of "view d"] drive_head_load(2) [of ?t "view d"]
  obtain d1 where d1: "BootIdeIssueAtaCommand io IDE_BASE1 IDE_CMD_IDENTIFY ?t d = Some (if failed (view d1) then 1 else 0, d1)"
    "ata_command IDE_CMD_IDENTIFY ?v (view d1)" "busy d1 = 0" by (rule issue_command [OF assms(1)])
  have "serves IDE_CMD_IDENTIFY ?v" using n(2) h by (simp add: serves_def IDE_CMD_IDENTIFY_def)
  then have v1: "view d1 = ata_accept IDE_CMD_IDENTIFY ?v" using d1(2) by (simp add: ata_command_def IDE_CMD_IDENTIFY_def)
  then have t: "\<not> failed (view d1)" "taking (view d1) = None" "pending (view d1) = identify_bytes (drive_of (view d) n)"
    "drive_of (view d1) = drive_of (view d)" "chosen (view d1) = n"
    using h by (simp_all add: ata_accept_def Let_def chosen_def IDE_CMD_IDENTIFY_def)
  obtain r d2 where d2: "BootIdeWaitDataReady io IDE_BASE1 d1 = (r, d2)" by fastforce
  have z2: "view d2 = view d1" "busy d2 = 0" using data_ready(1,2) [OF assms(1) d2] d1(3) by simp_all
  have l: "length (identify_bytes (drive_of (view d) n)) = 2 * 256" using n(3) by (simp add: identify_bytes_def)
  obtain d3 where d3: "BootIdeReadData io IDE_BASE1 (2 * 256) d2 = (0, identify_bytes (drive_of (view d) n), d3)"
    "view d3 = (view d2)\<lparr>pending := []\<rparr>" "busy d3 = 0"
    using read_data [OF assms(1) z2(2) _ l] z2(1) t n(2) by auto
  show thesis
    by (rule that [of d1 d3]) (use d1(1) t d2 d3 z2 in \<open>simp_all add: IDE_SECTOR_SIZE_def chosen_def\<close>)
qed

lemma check_identify_done:
  assumes "ata_bus io view busy" "hdd n (view d)"
  obtains d' where "check_identify io IDE_BASE1 n d = Some (0, d')" "drive_of (view d') = drive_of (view d)" "\<not> failed (view d')"
    "chosen (view d') = n" "busy d' = 0"
proof -
  obtain d1 d2 where d: "BootIdeIssueAtaCommand io IDE_BASE1 IDE_CMD_IDENTIFY (IDE_DEFAULT_COMMAND\<lparr>m_bDrivehead := drive_head n\<rparr>) d = Some (0, d1)"
    "BootIdeReadData io IDE_BASE1 IDE_SECTOR_SIZE (snd (BootIdeWaitDataReady io IDE_BASE1 d1)) = (0, identify_bytes (drive_of (view d) n), d2)"
    "drive_of (view d2) = drive_of (view d)" "\<not> failed (view d2)" "chosen (view d2) = n" "busy d2 = 0"
    by (rule identify_command [OF assms])
  show thesis by (rule that [of d2]) (use d in \<open>simp_all add: check_identify_def\<close>)
qed

text \<open>The whole change: the drive's password decides whether an unlock or a removal succeeds.\<close>

definition security_result :: "u8 \<Rightarrow> u8 list \<Rightarrow> ata_drive \<Rightarrow> ata_drive" where
  "security_result c password dr =
     (if c = IDE_CMD_SECURITY_SET_PASSWORD then dr\<lparr>user_password := Some (padded password), master_pass := padded master_password\<rparr>
      else if user_password dr \<noteq> Some (padded password) then dr
      else if c = IDE_CMD_SECURITY_UNLOCK then dr\<lparr>locked := False\<rparr> else dr\<lparr>user_password := None\<rparr>)"

lemma security_change:
  assumes "ata_bus io view busy" "hdd n (view d)" "c \<in> {IDE_CMD_SECURITY_SET_PASSWORD, IDE_CMD_SECURITY_UNLOCK, IDE_CMD_SECURITY_DISABLE}"
    "c = IDE_CMD_SECURITY_UNLOCK \<or> \<not> locked (drive_of (view d) n)" "length password = 20" "\<not> failed (view d)"
  obtains d' where "DriveSecurityChange io IDE_BASE1 n c password d
      = Some (if c = IDE_CMD_SECURITY_SET_PASSWORD \<or> user_password (drive_of (view d) n) = Some (padded password) then 0 else 1, d')"
    "drive_of (view d') = (drive_of (view d))(n := security_result c password (drive_of (view d) n))"
    "c = IDE_CMD_SECURITY_SET_PASSWORD \<or> user_password (drive_of (view d) n) = Some (padded password) \<Longrightarrow> \<not> failed (view d') \<and> chosen (view d') = n \<and> busy d' = 0"
proof -
  let ?dr = "drive_of (view d) n"
  let ?s = "security_sector 0 (take 20 password)" and ?ms = "security_sector 1 master_password"
  have c: "c \<in> {0xF1, 0xF2, 0xF6}" "c = 0xF2 \<or> \<not> locked ?dr"
    using assms(3,4) by (auto simp: IDE_CMD_SECURITY_SET_PASSWORD_def IDE_CMD_SECURITY_UNLOCK_def IDE_CMD_SECURITY_DISABLE_def)
  have ml: "length master_password = 9" by (simp add: master_password_def)
  have pw: "take 32 (drop 2 ?s) = padded password" "?s ! 0 = 0" "take 32 (drop 2 ?ms) = padded master_password" "?ms ! 0 = 1" "length ?s = 512" "length ?ms = 512"
    using assms(5) ml by (simp_all add: security_sector_password)
  obtain d1 where d1: "BootIdeWaitNotBusy io IDE_BASE1 d = Some (0, d1)" "view d1 = view d" "busy d1 = 0"
    using wait_not_busy [OF assms(1), of d] assms(6) by (metis (full_types))
  have "\<exists>d2. (if c = IDE_CMD_SECURITY_SET_PASSWORD then security_command io IDE_BASE1 n c ?ms d1 else Some (0, d1)) = Some (0, d2) \<and>
      drive_of (view d2) = (drive_of (view d))(n := if c = IDE_CMD_SECURITY_SET_PASSWORD then ?dr\<lparr>master_pass := padded master_password\<rparr> else ?dr)"
  proof (cases "c = IDE_CMD_SECURITY_SET_PASSWORD")
    case True
    obtain d2 where d2: "security_command io IDE_BASE1 n c ?ms d1 = Some (if failed (view d2) then 1 else 0, d2)"
      "changes_security n c ?ms (view d1) (view d2)"
      by (rule security_command_done [OF assms(1) _ c(1), of n d1 ?ms]) (use assms(2) c(2) d1(2) pw in simp_all)
    have "c = 0xF1" using True by (simp add: IDE_CMD_SECURITY_SET_PASSWORD_def)
    then show ?thesis using d2 True pw d1(2) by (auto simp: changes_security_def)
  next
    case False
    then show ?thesis using d1(2) by simp
  qed
  then obtain d2 where d2: "(if c = IDE_CMD_SECURITY_SET_PASSWORD then security_command io IDE_BASE1 n c ?ms d1 else Some (0, d1)) = Some (0, d2)"
    "drive_of (view d2) = (drive_of (view d))(n := if c = IDE_CMD_SECURITY_SET_PASSWORD then ?dr\<lparr>master_pass := padded master_password\<rparr> else ?dr)"
    by blast
  have h2: "hdd n (view d2)" "locked (drive_of (view d2) n) = locked ?dr" "user_password (drive_of (view d2) n) = user_password ?dr"
    using assms(2) d2(2) by (simp_all add: hdd_def)
  obtain d3 where d3: "security_command io IDE_BASE1 n c ?s d2 = Some (if failed (view d3) then 1 else 0, d3)" "busy d3 = 0"
    "changes_security n c ?s (view d2) (view d3)"
    by (rule security_command_done [OF assms(1) h2(1) c(1), of ?s]) (use c(2) h2(2) pw in simp_all)
  have r3: "drive_of (view d3) = (drive_of (view d))(n := security_result c password ?dr)"
    "failed (view d3) \<longleftrightarrow> \<not> (c = IDE_CMD_SECURITY_SET_PASSWORD \<or> user_password ?dr = Some (padded password))"
    using d3(3) c(1) h2(3) pw d2(2)
    by (auto simp: changes_security_def security_result_def password_given_def IDE_CMD_SECURITY_SET_PASSWORD_def IDE_CMD_SECURITY_UNLOCK_def fun_eq_iff)
  show thesis
  proof (cases "failed (view d3)")
    case True
    then show thesis using that [of d3] r3 d1(1) d2(1) d3(1) by (auto simp: DriveSecurityChange_def)
  next
    case False
    have "hdd n (view d3)" using assms(2) r3(1) by (simp add: hdd_def security_result_def)
    then obtain d4 where d4: "check_identify io IDE_BASE1 n d3 = Some (0, d4)" "drive_of (view d4) = drive_of (view d3)" "\<not> failed (view d4)"
      "chosen (view d4) = n" "busy d4 = 0"
      by (rule check_identify_done [OF assms(1)])
    have "DriveSecurityChange io IDE_BASE1 n c password d = Some (0, d4)"
      using d1(1) d2(1) d3(1) False d4(1) by (auto simp: DriveSecurityChange_def)
    then show thesis using that [of d4] r3 False d4 by auto
  qed
qed

section \<open>The detection of a disk\<close>

text \<open>The password of a console for a drive: the hash of the drive's model and serial number under the key.\<close>

definition disk_password :: "u8 list \<Rightarrow> ata_drive \<Rightarrow> u8 list" where
  "disk_password key dr = hmac_spec key (trimmed (swapped (take 40 (drop 54 (identity dr)))) @ trimmed (swapped (take 20 (drop 20 (identity dr)))))"

definition eeprom_key :: "SHA1Context \<Rightarrow> u8 list \<Rightarrow> u8 list \<Rightarrow> bool" where
  "eeprom_key c1 eeprom key \<longleftrightarrow> (\<exists>v. v \<noteq> 0 \<and> BootHddKeyGenerateEepromKeyData c1 (take 0x30 eeprom) = (v, key)) \<and> length key \<le> 64"

lemma identify_words:
  assumes "length (identity dr) = 512"
  shows "length (identify_bytes dr) = 512" "drop 54 (identify_bytes dr) = (drop 54 (identity dr))[202 := security_byte dr]"
    "drop 20 (identify_bytes dr) = (drop 20 (identity dr))[236 := security_byte dr]" "i < 128 \<Longrightarrow> word_of (identify_bytes dr) i = word_of (identity dr) i"
    "word_of (identify_bytes dr) 128 AND 4 = 4 \<longleftrightarrow> locked dr"
proof -
  show "length (identify_bytes dr) = 512" using assms by (simp add: identify_bytes_def)
  show "drop 54 (identify_bytes dr) = (drop 54 (identity dr))[202 := security_byte dr]"
    "drop 20 (identify_bytes dr) = (drop 20 (identity dr))[236 := security_byte dr]"
    by (simp_all add: identify_bytes_def drop_update_swap)
  show "word_of (identify_bytes dr) i = word_of (identity dr) i" if "i < 128" using that by (simp add: word_of_def identify_bytes_def)
  let ?w = "word_of (identify_bytes dr) 128"
  have e: "(4 :: u16) = 2 ^ 2" "(4 :: u8) = 2 ^ 2" by simp_all
  have b: "bit (security_byte dr) 2 \<longleftrightarrow> locked dr"
    by (simp add: security_byte_def bit_simps bit_numeral_rec(1,2) numeral_2_eq_2 [symmetric])
  have "bit ?w 2 \<longleftrightarrow> locked dr"
    using assms b by (simp add: word_of_def le16_def identify_bytes_def bit_simps)
  moreover have "?w AND 4 = 4 \<longleftrightarrow> bit ?w 2"
  proof
    assume "?w AND 4 = 4"
    then have "bit (?w AND 4) 2" by (simp add: bit_numeral_rec(1,2) numeral_2_eq_2)
    then show "bit ?w 2" by (simp add: bit_and_iff)
  next
    assume "bit ?w 2"
    moreover have "bit (4 :: u16) k \<longleftrightarrow> k = 2" if "k < 16" for k unfolding e bit_exp_iff using that by auto
    ultimately show "?w AND 4 = 4" by (intro bit_word_eqI) (auto simp: bit_and_iff)
  qed
  ultimately show "?w AND 4 = 4 \<longleftrightarrow> locked dr" by simp
qed

lemma identified_fields:
  "m_szSerial (identified bs x) = snd (id_string 20 (drop 20 bs))" "s_length (identified bs x) = fst (id_string 20 (drop 20 bs))"
  "m_szIdentityModelNumber (identified bs x) = snd (id_string 40 (drop 54 bs))" "m_length (identified bs x) = fst (id_string 40 (drop 54 bs))"
  "m_fwPortBase (identified bs x) = m_fwPortBase x" "m_fDriveExists (identified bs x)"
  by (simp_all add: identified_def Let_def split_def)

lemma password_calculated:
  assumes "eeprom_key c1 eeprom key" "length (Message_Block c2) = 64" "length (identity dr) = 512"
    and "info n = (identified (identify_bytes dr) x)\<lparr>m_fAtapi := a, m_securitySettings := s\<rparr>"
  shows "CalculateDrivePassword c1 c2 eeprom info n = Some (disk_password key dr)"
proof -
  let ?b = "identify_bytes dr"
  note w = identify_words [OF assms(3)]
  have t: "take 40 (drop 54 ?b) = take 40 (drop 54 (identity dr))" "take 20 (drop 20 ?b) = take 20 (drop 20 (identity dr))"
    unfolding w(2,3) by simp_all
  have m: "take (fst (id_string 40 (drop 54 ?b))) (snd (id_string 40 (drop 54 ?b))) = trimmed (swapped (take 40 (drop 54 (identity dr))))"
    "take (fst (id_string 20 (drop 20 ?b))) (snd (id_string 20 (drop 20 ?b))) = trimmed (swapped (take 20 (drop 20 (identity dr))))"
    using id_string_text(2) [of 40 "drop 54 ?b"] id_string_text(2) [of 20 "drop 20 ?b"] w(1) t by simp_all
  have l: "length (trimmed s) \<le> length s" for s
    unfolding trimmed_def by (metis length_dropWhile_le length_rev)
  obtain v where v: "v \<noteq> 0" "BootHddKeyGenerateEepromKeyData c1 (take 0x30 eeprom) = (v, key)" "length key \<le> 64"
    using assms(1) by (auto simp: eeprom_key_def)
  have "HMAC_SHA1 c2 key (trimmed (swapped (take 40 (drop 54 (identity dr))))) (trimmed (swapped (take 20 (drop 20 (identity dr))))) = disk_password key dr"
    unfolding disk_password_def
    by (rule HMAC_SHA1_hmac [OF assms(2) v(3)])
      (use l [of "swapped (take 40 (drop 54 (identity dr)))"] l [of "swapped (take 20 (drop 20 (identity dr)))"] assms(3) in simp)
  then show ?thesis
    using v m assms(4) by (simp add: CalculateDrivePassword_def identified_fields)
qed

lemma identify_done:
  assumes "ata_bus io view busy" "hdd n (view d)"
  obtains d' where "identify_drive io IDE_BASE1 n d = Some (Some (False, identify_bytes (drive_of (view d) n)), d')"
    "drive_of (view d') = drive_of (view d)" "\<not> failed (view d')" "chosen (view d') = n" "busy d' = 0"
proof -
  obtain d1 d2 where d: "BootIdeIssueAtaCommand io IDE_BASE1 IDE_CMD_IDENTIFY (IDE_DEFAULT_COMMAND\<lparr>m_bDrivehead := drive_head n\<rparr>) d = Some (0, d1)"
    "BootIdeReadData io IDE_BASE1 IDE_SECTOR_SIZE (snd (BootIdeWaitDataReady io IDE_BASE1 d1)) = (0, identify_bytes (drive_of (view d) n), d2)"
    "drive_of (view d2) = drive_of (view d)" "\<not> failed (view d2)" "chosen (view d2) = n" "busy d2 = 0"
    by (rule identify_command [OF assms])
  show thesis by (rule that [of d2]) (use d in \<open>simp_all add: identify_drive_def\<close>)
qed

lemma partition_type_done:
  assumes "ata_bus io view busy" "ata_disk info n (view d)" "m_bLbaMode (info n) \<noteq> IDE_DH_CHS"
  obtains info' d' where "partition_type io info n d = Some (info', d')" "drive_of (view d') = drive_of (view d)"
    "\<exists>b. info' = info(n := (info n)\<lparr>m_fHasMbr := b\<rparr>)"
proof -
  have g: "geometry_ok (info n) x block" for x block using assms(3) by (simp add: geometry_ok_def)
  obtain r1 bs1 d1 where d1: "BootIdeReadSector io info n 3 0 512 d = Some (r1, bs1, d1)" "drive_of (view d1) = drive_of (view d)"
    using ide_read_sector [OF assms(1,2) g, of 0 512 3] by auto
  have a: "ata_disk info n (view d1)" using assms(2) d1(2) by (simp add: ata_disk_def)
  obtain r2 bs2 d2 where d2: "BootIdeReadSector io info n 0 0 512 d1 = Some (r2, bs2, d2)" "drive_of (view d2) = drive_of (view d1)"
    using ide_read_sector [OF assms(1) a g, of 0 512 0] by auto
  show thesis
  proof (cases "r2 = 0")
    case True
    then show thesis using that [OF _ _ exI, of _ d2] d1 d2 by (simp add: partition_type_def)
  next
    case False
    have "info = info(n := (info n)\<lparr>m_fHasMbr := m_fHasMbr (info n)\<rparr>)" by simp
    then have "\<exists>b. info = info(n := (info n)\<lparr>m_fHasMbr := b\<rparr>)" by blast
    with False show thesis using that [of info d2] d1 d2 by (simp add: partition_type_def)
  qed
qed

text \<open>
  C2. A disk that is locked with the password made of the console's key and its own model and serial
  number is found and unlocked when the machine starts: the detection returns 0, every block can
  then be read, and nothing else of the drives has changed; a disk that is not locked stays as it is.
  The record of the drive keeps that it was locked.
\<close>

theorem boot_unlocks_disk:
  assumes "ata_bus io view busy" "hdd n (view d)" "chosen (view d) = n" "\<not> failed (view d)" "busy d = 0"
    and "\<forall>a. length (disk (drive_of (view d) n) a) = 512" "word_of (identity (drive_of (view d) n)) 49 AND 0x200 \<noteq> 0"
    and "eeprom_key c1 eeprom key" "length (Message_Block c2) = 64"
    and "locked (drive_of (view d) n) \<longrightarrow> user_password (drive_of (view d) n) = Some (padded (disk_password key (drive_of (view d) n)))"
  shows "\<exists>info' d'. BootIdeDriveInit io True c1 c2 junk eeprom IDE_BASE1 n info d = Some (0, info', d')
    \<and> drive_of (view d') = (drive_of (view d))(n := (drive_of (view d) n)\<lparr>locked := False\<rparr>)
    \<and> ata_disk info' n (view d') \<and> m_bLbaMode (info' n) = IDE_DH_LBA
    \<and> (m_securitySettings (info' n) AND 4 = 4 \<longleftrightarrow> locked (drive_of (view d) n))"
proof -
  let ?dr = "drive_of (view d) n"
  let ?bs = "identify_bytes ?dr"
  have n: "n < 2" "\<not> is_atapi ?dr" "length (identity ?dr) = 512" using assms(2) by (simp_all add: hdd_def)
  let ?info0 = "info(n := reset_info IDE_BASE1 (info n))"
  let ?info1 = "?info0(n := (identified ?bs (?info0 n))\<lparr>m_fAtapi := False\<rparr>)"
  let ?info2 = "?info1(n := (?info1 n)\<lparr>m_securitySettings := word_of ?bs 128\<rparr>)"
  let ?info3 = "?info2(n := (?info2 n)\<lparr>m_bLbaMode := IDE_DH_LBA\<rparr>)"
  let ?d0 = "out_bytes io [(IDE_REG_DRIVEHEAD IDE_BASE1, drive_head n), (IDE_REG_CONTROL IDE_BASE1, 0x0a), (IDE_REG_FEATURE IDE_BASE1, 0x00)] d"
  obtain d1 where d1: "BootIdeWaitNotBusy io IDE_BASE1 ?d0 = Some (0, d1)" "drive_of (view d1) = drive_of (view d)" "\<not> failed (view d1)" "busy d1 = 0"
  proof -
    let ?e1 = "out_byte io 0x1F6 (drive_head n) d"
    let ?e2 = "out_byte io 0x3F6 0x0a ?e1"
    let ?e3 = "out_byte io 0x1F1 0x00 ?e2"
    note o = out_byte_view(1,2) [OF assms(1)]
    have "chosen (ata_register 0x1F6 (drive_head n) (view d)) = n"
      using drive_head_chosen [OF n(1)] n(1) by (auto simp: ata_register_def chosen_def)
    then have e1: "view ?e1 = ata_register 0x1F6 (drive_head n) (view d)" "busy ?e1 = 0"
      using o [of "0x1F6" d "drive_head n"] assms(3,5) by simp_all
    have e2: "view ?e2 = ata_register 0x3F6 0x0a (view ?e1)" "busy ?e2 = 0" using o [of "0x3F6" ?e1 "0x0a"] e1(2) by simp_all
    have e3: "view ?e3 = ata_register 0x1F1 0x00 (view ?e2)" "busy ?e3 = 0" using o [of "0x1F1" ?e2 "0x00"] e2(2) by simp_all
    have "?d0 = ?e3" by (simp add: out_bytes_def ide_regs)
    moreover have "\<not> failed (view ?e3)" "drive_of (view ?e3) = drive_of (view d)" using e1 e2 e3 assms(4) by (simp_all add: ata_register_def)
    moreover obtain d1 where "BootIdeWaitNotBusy io IDE_BASE1 ?e3 = Some (if failed (view ?e3) then 1 else 0, d1)" "view d1 = view ?e3" "busy d1 = 0"
      by (rule wait_not_busy [OF assms(1)])
    ultimately show thesis using that [of d1] by simp
  qed
  obtain d2 where d2: "identify_drive io IDE_BASE1 n d1 = Some (Some (False, ?bs), d2)" "drive_of (view d2) = drive_of (view d)"
    "\<not> failed (view d2)" "chosen (view d2) = n" "busy d2 = 0"
    by (rule identify_done [OF assms(1), of n d1]) (use assms(2) d1(2) in \<open>simp_all add: hdd_def\<close>)
  obtain d3 where d3: "unlock_at_boot io c1 c2 eeprom ?info2 IDE_BASE1 n d2 = Some (0, d3)" "drive_of (view d3) = (drive_of (view d))(n := ?dr\<lparr>locked := False\<rparr>)"
  proof (cases "locked ?dr")
    case True
    let ?pw = "disk_password key ?dr"
    have p: "CalculateDrivePassword c1 c2 eeprom ?info2 n = Some ?pw"
      by (rule password_calculated [OF assms(8,9) n(3), where x = "reset_info IDE_BASE1 (info n)" and a = False and s = "word_of ?bs 128"]) simp
    have l: "length ?pw = 20" by (simp add: disk_password_def hmac_spec_def Let_def)
    have u: "user_password ?dr = Some (padded ?pw)" using assms(10) True by simp
    have h: "hdd n (view d2)" using assms(2) d2(2) by (simp add: hdd_def)
    obtain d3 where "DriveSecurityChange io IDE_BASE1 n IDE_CMD_SECURITY_UNLOCK ?pw d2 = Some (0, d3)"
      "drive_of (view d3) = (drive_of (view d2))(n := security_result IDE_CMD_SECURITY_UNLOCK ?pw ?dr)"
      by (rule security_change [OF assms(1) h, of IDE_CMD_SECURITY_UNLOCK ?pw]) (use l d2(2,3) u in simp_all)
    moreover have "word_of ?bs 128 AND 4 = 4" using identify_words(5) [OF n(3)] True by simp
    moreover have "security_result IDE_CMD_SECURITY_UNLOCK ?pw ?dr = ?dr\<lparr>locked := False\<rparr>"
      using u by (simp add: security_result_def IDE_CMD_SECURITY_UNLOCK_def IDE_CMD_SECURITY_SET_PASSWORD_def)
    ultimately show thesis using that [of d3] p d2(2) by (simp add: unlock_at_boot_def)
  next
    case False
    then have "\<not> word_of ?bs 128 AND 4 = 4" using identify_words(5) [OF n(3)] by simp
    moreover have "?dr = ?dr\<lparr>locked := False\<rparr>" using False by simp
    ultimately show thesis using that [of d2] d2(2) by (simp add: unlock_at_boot_def)
  qed
  have a: "ata_disk ?info3 n (view d3)"
    using n assms(6) d3(2) by (simp add: ata_disk_def identified_fields reset_info_def)
  obtain info' d4 where d4: "partition_type io ?info3 n d3 = Some (info', d4)" "drive_of (view d4) = drive_of (view d3)"
    "\<exists>b. info' = ?info3(n := (?info3 n)\<lparr>m_fHasMbr := b\<rparr>)"
    by (rule partition_type_done [OF assms(1) a]) (simp add: IDE_DH_LBA_def IDE_DH_CHS_def)
  have m: "word_of ?bs 49 AND 0x200 \<noteq> 0" using assms(7) identify_words(4) [OF n(3), of 49] by simp
  have "BootIdeDriveInit io True c1 c2 junk eeprom IDE_BASE1 n info d = Some (0, info', d4)"
    using d1(1) d2(1) d3(1) d4(1) m by (simp add: BootIdeDriveInit_def)
  moreover have "ata_disk info' n (view d4)" "m_bLbaMode (info' n) = IDE_DH_LBA" "m_securitySettings (info' n) AND 4 = 4 \<longleftrightarrow> locked ?dr"
    using a d4(2,3) identify_words(5) [OF n(3)] by (auto simp: ata_disk_def)
  ultimately show ?thesis using d4(2) d3(2) by auto
qed

section \<open>A locked disk\<close>

definition sample_eeprom :: "u8 list" where
  "sample_eeprom = hdd_seal 9 [1, 2, 3, 4, 5, 6, 7, 8] (replicate 16 0x5A @ [1, 0, 0, 0])"

lemma sample_eeprom_key: "eeprom_key sha1_example_context sample_eeprom (replicate 16 0x5A)"
proof -
  have l: "length sample_eeprom = 0x30" by (simp add: sample_eeprom_def)
  have "hdd_versions sha1_example_context sample_eeprom [9, 10, 11, 12] []
      = (9, take 20 sample_eeprom @ [1, 2, 3, 4, 5, 6, 7, 8] @ replicate 16 0x5A @ [1, 0, 0, 0])"
    unfolding sample_eeprom_def by (rule hdd_versions_unsealed) (simp_all add: sha1_example_context_def)
  then have "BootHddKeyGenerateEepromKeyData sha1_example_context (take 0x30 sample_eeprom) = (9, replicate 16 0x5A)"
    using l by (simp add: BootHddKeyGenerateEepromKeyData_def del: hdd_versions.simps)
  then show ?thesis by (simp add: eeprom_key_def)
qed

definition locked_hdd :: ata_drive where
  "locked_hdd = sample_hdd\<lparr>user_password := Some (padded (disk_password (replicate 16 0x5A) sample_hdd)), locked := True\<rparr>"

theorem boot_unlocks_disk_witness:
  "\<exists>info' d'. BootIdeDriveInit ready_bus True sha1_example_context sha1_example_context [] sample_eeprom IDE_BASE1 0 (\<lambda>_. zero_info)
      (sample_ata\<lparr>drive_of := (drive_of sample_ata)(0 := locked_hdd)\<rparr>) = Some (0, info', d')
    \<and> \<not> locked (drive_of d' 0) \<and> m_securitySettings (info' 0) AND 4 = 4"
proof -
  have "disk_password (replicate 16 0x5A) locked_hdd = disk_password (replicate 16 0x5A) sample_hdd"
    by (simp add: disk_password_def locked_hdd_def)
  then show ?thesis
    using boot_unlocks_disk [OF ready_bus, of 0 "sample_ata\<lparr>drive_of := (drive_of sample_ata)(0 := locked_hdd)\<rparr>" sha1_example_context
        sample_eeprom "replicate 16 0x5A" sha1_example_context "[]" "\<lambda>_. zero_info"] sample_eeprom_key
    by (auto simp: hdd_def locked_hdd_def sample_ata_def sample_hdd_def chosen_def word_of_def le16_def sha1_example_context_def)
qed

end
