(* ===== verification/Spec2Isabelle.thy ===== *)
theory Spec2Isabelle
  imports HddKey Heap VsPrintf Md5 Eeprom Fatx Flash BootRom KernelSetup IconMenu TextMenu LoadLinux
    BootDevice FlashCD IdeSecurity
begin

text \<open>
  Cromwell, the free boot firmware of the Xbox: a verification library for its C code.

  \<^bold>\<open>The program.\<close> The flash chip holds a small loader (\<open>boot_rom\<close>) and a compressed image of the
  BIOS proper. The loader answers the challenge of the SMC, sets up the chipset, searches the flash
  banks for an image whose SHA-1 digest is right, unpacks and starts it. The BIOS
  (\<open>boot/BootResetAction.c\<close>) initialises the heap, reads the EEPROM, brings up video, USB and the
  IDE drives, unlocks the hard disk with the key from the EEPROM, and shows the icon menu. Pads,
  remote control and keyboard arrive through USB completion handlers; an icon or a menu item reads
  a boot configuration from FATX, a CD or a native file system, loads a kernel and hands the
  machine over to it. The flash itself is written by the reprogramming code, and the host tool
  \<open>imagebld\<close> assembles the images the loader later checks.

  \<^bold>\<open>Conventions.\<close> The target is a flat 32-bit machine. Memory is a function from 32-bit addresses
  to bytes (\<open>CromwellBase\<close>); C integers are words of their width; code that works on its own arrays
  is modelled on lists. Hardware and third-party code are arguments of the definitions (port
  answers, the disk, the flash chip, the decompressor, GRUB): theorems hold for all of them, or
  under named hypotheses on their documented behaviour. Failure is a value (\<open>option\<close>, \<open>bool\<close>, an
  error code as in C); \<open>None\<close> of a \<open>partial_function\<close> is a run that never ends.

  \<^bold>\<open>Theories and code.\<close>
  \<^item> \<open>CromwellBase\<close>: words, little-endian fields, regions of memory; shared lemmas.
  \<^item> \<open>Sha1\<close> (\<open>lib/crypt/sha1.c\<close>), \<open>Rc4\<close> (\<open>rc4.c\<close>), \<open>Md5\<close> (\<open>md5.c\<close>): the contexts as records, one
    definition per function, proved equal to the standards' definitions for messages that arrive
    in arbitrary pieces.
  \<^item> \<open>HddKey\<close> (\<open>drivers/ide/BootHddKey.c\<close>): the nested keyed hash, the recovery of the disk key from
    an EEPROM of any of the three console versions, and its authenticity check.
  \<^item> \<open>Ide\<close> (\<open>drivers/ide/BootIde.c\<close>): the driver over the ports of the controller; \<open>AtaDrive\<close>: what a
    drive that keeps to ATA and ATAPI does at these ports, with any number of delays; \<open>IdeSectors\<close>: the
    sectors of disks and CDs read and written against such drives; \<open>IdeSecurity\<close>: passwords,
    detection and unlocking.
  \<^item> \<open>BootString\<close>, \<open>Heap\<close> (\<open>lib/misc/BootLibrary.c\<close>): the memory and string routines and the memory
    manager with its sector table in the flat memory.
  \<^item> \<open>VsPrintf\<close> (\<open>lib/misc/vsprintf.c\<close>): number parsing and formatted output.
  \<^item> \<open>SmBus\<close> (\<open>drivers/pci/i2cio.c\<close>, \<open>lib/misc/LED.c\<close>), \<open>Eeprom\<close> (\<open>lib/eeprom\<close>): the SMBus protocol
    as a run against a list of port answers, and the EEPROM settings with their checksums.
  \<^item> \<open>Fatx\<close> (\<open>fs/fatx/BootFATX.c\<close>): partitions, cluster chains, directories and loading of files on
    an arbitrary disk.
  \<^item> \<open>Flash\<close> (\<open>drivers/flash\<close>), \<open>ImageBld\<close> (\<open>lib/imagebld\<close>), \<open>BootRom\<close> (\<open>boot_rom\<close>): programming the
    chip, building images, and the loader that checks and unpacks them.
  \<^item> \<open>ItemChain\<close>: doubly linked lists of menu items and their pages, with the locale both menus
    interpret; \<open>IconMenu\<close> and \<open>TextMenu\<close> (\<open>menu\<close>): adding items, navigation, start, confirmation.
  \<^item> \<open>Input\<close> (\<open>drivers/usb/sys\<close>): edges of buttons from the reports of pad, remote and keyboard.
  \<^item> \<open>KernelSetup\<close> (\<open>lib/misc/setup.c\<close>), \<open>LoadLinux\<close> (\<open>boot/LoadLinux.c\<close>): the parameters of the
    kernel and the three ways to load and enter it.
  \<^item> \<open>Iso9660\<close> (\<open>fs/cdrom/iso9660.c\<close>): the reader of CDs, whose search refines the lookup of a path in
    the directory tree of a volume.
  \<^item> \<open>BootConfig\<close> (\<open>lib/misc/BootParser.c\<close>): the parser of \<open>linuxboot.cfg\<close>, which cuts up its buffer in
    place, refines what the text of the file says, line by line.
  \<^item> \<open>LoadReactOS\<close> (\<open>boot/LoadReactOS.c\<close>): the Multiboot loader and the information it hands over.
  \<^item> \<open>BootDevice\<close> (\<open>boot/BootFromDevice.c\<close>, the detections of \<open>LoadLinux.c\<close>, the boot menu of
    \<open>menu/actions/MenuActions.c\<close>): the tree of systems found, and booting an entry of it;
    \<open>FlashCD\<close> (\<open>BootLoadFlashCD\<close> of the same file): reprogramming the flash from a CD.

  \<^bold>\<open>What the lemmas show.\<close> Each theory first translates the code, then states what it computes
  independently of the code (a standard, a relation between lists and memory, a tree of
  directories) and proves that the operations keep the invariant and implement the specification
  on every branch. Properties that span components are proved where the last component is: that
  an image made by \<open>imagebld\<close> starts in the loader (\<open>BootRom\<close>), that the reprogrammed flash holds
  the image (\<open>Flash\<close>), that a kernel on a FATX volume is entered with its files in place
  (\<open>LoadLinux\<close>), that the default item of a configuration file on it, or on a CD, is what the timeout
  boots (\<open>BootDevice\<close>), and what of a CD's image reaches the flash (\<open>FlashCD\<close>).

  \<^bold>\<open>Bounds and fuel.\<close> Loops that the hardware may keep running are runs over the list of its
  answers or \<open>partial_function\<close>s; the theorems say when they return. All other loops are total
  functions with their own termination proofs; none uses fuel.

  \<^bold>\<open>Not modelled.\<close> Assembler start-up code and the \<open>.xbe\<close> wrapper; video (register tables, drawing);
  PCI set-up and interrupt handlers that only acknowledge; CPU microcode. The Linux USB stack, GRUB
  file systems, Etherboot, inflate and the JPEG decoder are third-party code taken over, and
  enter as arguments where the program relies on them. Printed texts and drawn pixels are left out
  of the parts that are modelled.
\<close>

end
